(* ===== verification/Prelude.thy ===== *)
theory Prelude
  imports Complex_Main "HOL-Library.Word" "HOL-Library.AList" "HOL-Library.Multiset"
begin

text \<open>
  Shared vocabulary of the development: the integer types of the C code, the identifier
  buffers of fixed size, the model of a GLib hash table used as a set, the fact collections and
  the generic list lemmas that the component theories use.

  Conventions, used by every theory.
  \<^item> A C string is a char list; the terminating NUL is not part of it. A pointer that may be NULL
    is an option.
  \<^item> An unsigned integer whose wrap-around the code relies on is a word of its width (epochs,
    generations, RTP sequence numbers, hashes). Clock values (microseconds, seconds) are int and
    64-bit event counters are nat.
  \<^item> A hash table that is used as a set is a list without repetitions whose order stands for the
    table's iteration order; a hash table that is used as a map is an association list. No
    property depends on the iteration order unless it says so.
\<close>

unbundle bit_operations_syntax

type_synonym u64 = "64 word"
type_synonym u32 = "32 word"
type_synonym u16 = "16 word"

named_theorems slv_const "the program's numeric constants"
named_theorems slv_inv "invariant preservation, one fact per operation"

subsection \<open>Identifier buffers\<close>

definition SLV_UUID_LEN :: nat where
  [slv_const]: "SLV_UUID_LEN = 40"

text \<open>The bounded copy into a fixed identifier buffer: at most one byte less than its size.\<close>

definition slv_ucpy :: "string \<Rightarrow> string" where
  "slv_ucpy src = (let n = length src; n' = (if n \<ge> SLV_UUID_LEN then SLV_UUID_LEN - 1 else n) in take n' src)"

lemma slv_ucpy_id [simp]: "length s < SLV_UUID_LEN \<Longrightarrow> slv_ucpy s = s"
  by (simp add: slv_ucpy_def)

lemma length_slv_ucpy: "length (slv_ucpy s) < SLV_UUID_LEN"
  by (simp add: slv_ucpy_def SLV_UUID_LEN_def Let_def)

subsection \<open>Hash tables used as sets\<close>

definition gset_add :: "'a \<Rightarrow> 'a list \<Rightarrow> 'a list" where
  "gset_add x xs = (if x \<in> set xs then xs else xs @ [x])"

definition gset_remove :: "'a \<Rightarrow> 'a list \<Rightarrow> 'a list" where
  "gset_remove x xs = filter (\<lambda>y. y \<noteq> x) xs"

fun gset_of :: "'a list \<Rightarrow> 'a list" where
  "gset_of xs = fold gset_add xs []"

lemma set_gset_add [simp]: "set (gset_add x xs) = insert x (set xs)"
  by (auto simp: gset_add_def)

lemma distinct_gset_add [simp]: "distinct (gset_add x xs) = distinct xs"
  by (auto simp: gset_add_def)

lemma set_gset_remove [simp]: "set (gset_remove x xs) = set xs - {x}"
  by (auto simp: gset_remove_def)

lemma distinct_gset_remove [simp]: "distinct xs \<Longrightarrow> distinct (gset_remove x xs)"
  by (simp add: gset_remove_def)

lemma set_fold_gset_add [simp]: "set (fold gset_add ys xs) = set xs \<union> set ys"
  by (induction ys arbitrary: xs) auto

lemma distinct_fold_gset_add [simp]: "distinct (fold gset_add ys xs) = distinct xs"
  by (induction ys arbitrary: xs) auto

lemma set_fold_gset_remove [simp]: "set (fold gset_remove ys xs) = set xs - set ys"
  by (induction ys arbitrary: xs) auto

lemma distinct_fold_gset_remove [simp]: "distinct xs \<Longrightarrow> distinct (fold gset_remove ys xs)"
  by (induction ys arbitrary: xs) auto

subsection \<open>Arrays compacted by moving the last element into a hole\<close>

definition swap_remove :: "nat \<Rightarrow> 'a list \<Rightarrow> 'a list" where
  "swap_remove i xs = (if i = length xs - 1 then butlast xs else butlast (xs[i := last xs]))"

lemma swap_remove_split:
  "swap_remove (length a) (a @ x # r) = a @ (if r = [] then [] else last r # butlast r)"
  by (auto simp: swap_remove_def butlast_append)

lemma length_swap_remove [simp]: "length (swap_remove i xs) = length xs - 1"
  by (simp add: swap_remove_def)

lemma butlast_update_last:
  "i < length xs - 1 \<Longrightarrow> butlast (xs[i := x]) = (butlast xs)[i := x]"
  by (simp add: butlast_conv_take take_update_swap)

lemma mset_swap_remove:
  assumes "i < length xs"
  shows "add_mset (xs ! i) (mset (swap_remove i xs)) = mset xs"
proof -
  from assms have ne: "xs \<noteq> []" by auto
  then have split: "mset xs = add_mset (last xs) (mset (butlast xs))"
    by (metis append_butlast_last_id add_mset_add_single mset.simps(1,2) mset_append)
  show ?thesis
  proof (cases "i = length xs - 1")
    case True
    with ne have "xs ! i = last xs" by (simp add: last_conv_nth)
    with True split show ?thesis by (simp add: swap_remove_def)
  next
    case False
    with assms have i: "i < length xs - 1" by auto
    then have nth: "xs ! i = butlast xs ! i" by (simp add: nth_butlast)
    have "swap_remove i xs = (butlast xs)[i := last xs]"
      using False i by (simp add: swap_remove_def butlast_update_last)
    with i nth split show ?thesis
      by (simp add: mset_update add_mset_commute [of "butlast xs ! i"])
  qed
qed

lemma set_swap_remove_subset: "i < length xs \<Longrightarrow> set (swap_remove i xs) \<subseteq> set xs"
  by (metis mset_swap_remove set_mset_add_mset_insert set_mset_mset subset_insertI)

lemma mset_swap_remove_map:
  "i < length xs \<Longrightarrow> add_mset (f (xs ! i)) (mset (map f (swap_remove i xs))) = mset (map f xs)"
  by (metis image_mset_add_mset mset_map mset_swap_remove)

lemma distinct_map_swap_remove:
  assumes "distinct (map f xs)" "i < length xs"
  shows "distinct (map f (swap_remove i xs))"
    and "set (map f (swap_remove i xs)) = set (map f xs) - {f (xs ! i)}"
proof -
  have m: "add_mset (f (xs ! i)) (mset (map f (swap_remove i xs))) = mset (map f xs)"
    using assms(2) by (rule mset_swap_remove_map)
  then have d: "distinct (f (xs ! i) # map f (swap_remove i xs))"
    using assms(1) by (metis mset.simps(2) mset_eq_imp_distinct_iff)
  then show "distinct (map f (swap_remove i xs))" by simp
  from d have "f (xs ! i) \<notin> set (map f (swap_remove i xs))"
    by (simp only: distinct.simps) blast
  moreover from m have "insert (f (xs ! i)) (set (map f (swap_remove i xs))) = set (map f xs)"
    by (metis set_mset_add_mset_insert set_mset_mset)
  ultimately show "set (map f (swap_remove i xs)) = set (map f xs) - {f (xs ! i)}" by blast
qed

end
