(* ===== verification/CLib.thy ===== *)
theory CLib
  imports Prelude
begin

text \<open>
  The parts of the C standard library that the code calls on strings: \<^verbatim>\<open>strtol\<close> and
  \<^verbatim>\<open>strtoll\<close> in base ten (both 64-bit here), \<^verbatim>\<open>strcasecmp\<close> in the C locale, and the
  value of a hexadecimal digit as the code's own digit ladders compute it.
\<close>

subsection \<open>Characters\<close>

definition c_isspace :: "char \<Rightarrow> bool" where
  "c_isspace c \<longleftrightarrow> c \<in> {CHR '' '', CHR 0x09, CHR 0x0A, CHR 0x0B, CHR 0x0C, CHR 0x0D}"

definition c_code :: "char \<Rightarrow> nat" where
  "c_code c = of_char c"

definition c_isdigit :: "char \<Rightarrow> bool" where
  "c_isdigit c \<longleftrightarrow> 48 \<le> c_code c \<and> c_code c \<le> 57"

definition c_tolower :: "char \<Rightarrow> char" where
  "c_tolower c = (if 65 \<le> c_code c \<and> c_code c \<le> 90 then char_of (c_code c + 32) else c)"

definition strcaseeq :: "string \<Rightarrow> string \<Rightarrow> bool" where
  "strcaseeq a b \<longleftrightarrow> map c_tolower a = map c_tolower b"

subsection \<open>strtol, strtoll\<close>

definition LONG_MAX :: int where
  "LONG_MAX = 9223372036854775807"

definition LONG_MIN :: int where
  "LONG_MIN = - 9223372036854775808"

definition dec_value :: "string \<Rightarrow> int" where
  "dec_value ds = foldl (\<lambda>acc c. acc * 10 + int (c_code c - 48)) 0 ds"

text \<open>
  The result is the value, the text from \<^verbatim>\<open>*end\<close> on and whether \<^verbatim>\<open>errno\<close> was set to
  ERANGE. With no digit nothing is converted and \<^verbatim>\<open>*end\<close> is the start of the text.
\<close>

definition strtol :: "string \<Rightarrow> int \<times> string \<times> bool" where
  "strtol s =
     (let t = dropWhile c_isspace s;
          neg = (t \<noteq> [] \<and> hd t = CHR ''-'');
          u = (if t \<noteq> [] \<and> hd t \<in> {CHR ''-'', CHR ''+''} then tl t else t);
          ds = takeWhile c_isdigit u;
          rest = dropWhile c_isdigit u;
          v = (if neg then - dec_value ds else dec_value ds)
      in if ds = [] then (0, s, False)
         else if v > LONG_MAX then (LONG_MAX, rest, True)
         else if v < LONG_MIN then (LONG_MIN, rest, True)
         else (v, rest, False))"

lemma strtol_range:
  "strtol s = (v, rest, er) \<Longrightarrow> LONG_MIN \<le> v \<and> v \<le> LONG_MAX"
  by (auto simp: strtol_def Let_def LONG_MAX_def LONG_MIN_def split: if_splits)

subsection \<open>Hexadecimal digits\<close>

text \<open>The digit ladder of \<^verbatim>\<open>slv_vis_parse_epoch\<close> and \<^verbatim>\<open>slv_joincap_hex64\<close>, and the
  loop \<open>v = (v << 4) | d\<close> over the digits.\<close>

definition hex_nat :: "char \<Rightarrow> nat option" where
  "hex_nat c =
     (let n = c_code c in
      if 48 \<le> n \<and> n \<le> 57 then Some (n - 48)
      else if 97 \<le> n \<and> n \<le> 102 then Some (n - 97 + 10)
      else if 65 \<le> n \<and> n \<le> 70 then Some (n - 65 + 10)
      else None)"

definition hex_digit :: "char \<Rightarrow> u64 option" where
  "hex_digit c = map_option of_nat (hex_nat c)"

fun hex_loop :: "u64 \<Rightarrow> string \<Rightarrow> u64 option" where
  "hex_loop v [] = Some v"
| "hex_loop v (c # cs) =
     (case hex_digit c of None \<Rightarrow> None | Some d \<Rightarrow> hex_loop (push_bit 4 v OR d) cs)"

text \<open>The lower-case digits \<^verbatim>\<open>printf\<close> writes for \<^verbatim>\<open>%x\<close>.\<close>

definition hex_char :: "u64 \<Rightarrow> char" where
  "hex_char d = (if unat d < 10 then char_of (48 + unat d) else char_of (87 + unat d))"

lemma c_code_char_of [simp]: "c_code (char_of n) = n mod 256"
  by (simp add: c_code_def)

lemma hex_nat_bound: "hex_nat c = Some n \<Longrightarrow> n < 16"
  by (auto simp: hex_nat_def Let_def split: if_splits)

lemma hex_nat_hex_char: "unat d < 16 \<Longrightarrow> hex_nat (hex_char d) = Some (unat d)"
  by (cases "unat d < 10") (auto simp: hex_nat_def hex_char_def Let_def)

lemma hex_digit_hex_char: "unat d < 16 \<Longrightarrow> hex_digit (hex_char d) = Some d"
  by (simp add: hex_digit_def hex_nat_hex_char)

lemma c_code_inj: "c_code a = c_code b \<Longrightarrow> a = b"
  by (simp add: c_code_def)

lemma c_tolower_code:
  "c_code (c_tolower c) = (if 65 \<le> c_code c \<and> c_code c \<le> 90 then c_code c + 32 else c_code c)"
  by (simp add: c_tolower_def)

lemma hex_char_of_nat:
  "n < 16 \<Longrightarrow> c_code (hex_char (of_nat n)) = (if n < 10 then 48 + n else 87 + n)"
  by (simp add: hex_char_def unat_of_nat)

lemma hex_char_hex_digit:
  assumes "hex_digit c = Some d"
  shows "hex_char d = c_tolower c"
proof (rule c_code_inj)
  from assms obtain n where n: "hex_nat c = Some n" and d: "d = of_nat n"
    by (auto simp: hex_digit_def)
  from n have "(if n < 10 then 48 + n else 87 + n) = c_code (c_tolower c)"
    by (auto simp: hex_nat_def Let_def c_tolower_code split: if_splits)
  with hex_char_of_nat [OF hex_nat_bound [OF n]] d
  show "c_code (hex_char d) = c_code (c_tolower c)" by simp
qed

lemma hex_step:
  "push_bit 4 (drop_bit (m + 4) e) OR (drop_bit m e AND 15) = drop_bit m (e :: u64)"
proof -
  have m: "(15 :: u64) = mask 4" by (simp add: mask_eq_exp_minus_1)
  show ?thesis
    unfolding m
    by (rule bit_eqI) (auto simp: bit_simps add.commute add.left_commute dest: bit_imp_le_length)
qed

text \<open>The 16 digits of a 64-bit value, most significant first, read back to that value.\<close>

fun hex_digits :: "nat \<Rightarrow> u64 \<Rightarrow> string" where
  "hex_digits 0 e = []"
| "hex_digits (Suc k) e = hex_char (drop_bit (4 * k) e AND 15) # hex_digits k e"

lemma length_hex_digits [simp]: "length (hex_digits k e) = k"
  by (induction k) auto

lemma unat_and_15: "unat ((x :: u64) AND 15) < 16"
proof -
  have "x AND 15 \<le> 15" by (rule word_and_le1)
  then show ?thesis by (simp add: word_le_nat_alt)
qed

lemma hex_loop_hex_digits: "hex_loop (drop_bit (4 * k) e) (hex_digits k e) = Some e"
proof (induction k)
  case 0
  then show ?case by simp
next
  case (Suc k)
  have "push_bit 4 (drop_bit (4 * Suc k) e) OR (drop_bit (4 * k) e AND 15) = drop_bit (4 * k) e"
    using hex_step [of "4 * k" e] by (simp add: add.commute)
  with Suc show ?case
    by (simp add: hex_digit_hex_char unat_and_15 del: mult_Suc_right)
qed

end
