(* ===== verification/Visauth.thy ===== *)
theory Visauth
  imports CLib
begin

text \<open>
  The visibility authority rules of \<^verbatim>\<open>src/src/visauth.h\<close>: the epoch text, the adoption rule
  for a message that carries an epoch, the row a listener stands in, the feed-age rule, the
  would-silence gauge and the two knobs read from the environment. The state they work on (a room's
  authority and its listener records) is in theory Authority.
\<close>

subsection \<open>Constants\<close>

definition SLV_VIS_PROTOCOL :: int where [slv_const]: "SLV_VIS_PROTOCOL = 3"
definition SLV_VIS_STALE_MS_DEFAULT :: nat where [slv_const]: "SLV_VIS_STALE_MS_DEFAULT = 8000"
definition SLV_VIS_STALE_MS_MAX :: nat where [slv_const]: "SLV_VIS_STALE_MS_MAX = 600000"
definition SLV_VIS_HEARTBEAT_MS :: nat where [slv_const]: "SLV_VIS_HEARTBEAT_MS = 1000"
definition SLV_VIS_ADMIN_TIMEOUT_MS :: nat where [slv_const]: "SLV_VIS_ADMIN_TIMEOUT_MS = 5000"
definition SLV_VIS_TICK_SLIP_MS :: nat where [slv_const]: "SLV_VIS_TICK_SLIP_MS = 250"

definition slv_vis_stale_min_ms :: "u64 \<Rightarrow> u64" where
  "slv_vis_stale_min_ms interval_ms =
     2 * interval_ms + of_nat SLV_VIS_ADMIN_TIMEOUT_MS + of_nat SLV_VIS_TICK_SLIP_MS"

subsection \<open>The epoch text\<close>

definition slv_vis_parse_epoch :: "string option \<Rightarrow> u64 option" where
  "slv_vis_parse_epoch s =
     (case s of
        None \<Rightarrow> None
      | Some t \<Rightarrow>
          if length t \<noteq> 16 then None
          else (case hex_loop 0 t of
                  None \<Rightarrow> None
                | Some v \<Rightarrow> if v = 0 then None else Some v))"

definition slv_vis_format_epoch :: "u64 \<Rightarrow> string" where
  "slv_vis_format_epoch epoch = hex_digits 16 epoch"

lemma length_format_epoch [simp]: "length (slv_vis_format_epoch e) = 16"
  by (simp add: slv_vis_format_epoch_def)

lemma drop_all_bits: "drop_bit 64 (e :: u64) = 0"
  by (rule bit_eqI) (auto simp: bit_simps dest: bit_imp_le_length)

lemma parse_format_epoch:
  "slv_vis_parse_epoch (Some (slv_vis_format_epoch e)) = (if e = 0 then None else Some e)"
  using hex_loop_hex_digits [of 16 e]
  by (simp add: slv_vis_parse_epoch_def slv_vis_format_epoch_def drop_all_bits)

text \<open>
  The other direction: reading \<open>s\<close> into the low bits of the result moves what was read before up,
  so the digits of the result are those of \<open>s\<close>, in lower case.
\<close>

lemma hex_digit_take: 
  assumes "hex_digit c = Some d" shows "take_bit 4 d = d"
proof -
  from assms obtain n where n: "n < 16" and d: "d = of_nat n"
    by (auto simp: hex_digit_def dest: hex_nat_bound)
  have "take_bit 4 (of_nat n :: u64) = of_nat (take_bit 4 n)" by (simp add: take_bit_of_nat)
  with n d show ?thesis by (simp add: take_bit_nat_eq_self)
qed

lemma hex_digit_bit: "hex_digit c = Some d \<Longrightarrow> bit d i \<Longrightarrow> i < 4"
  by (metis hex_digit_take bit_take_bit_iff)

lemma hex_loop_high:
  "hex_loop v s = Some w \<Longrightarrow> length s \<le> 16 \<Longrightarrow>
   drop_bit (4 * length s) w = take_bit (64 - 4 * length s) v"
proof (induction s arbitrary: v)
  case Nil
  then show ?case by (auto intro!: bit_eqI simp: bit_simps dest: bit_imp_le_length)
next
  case (Cons c s)
  from Cons.prems(1) obtain d where d: "hex_digit c = Some d"
      and rest: "hex_loop (push_bit 4 v OR d) s = Some w"
    by (auto split: option.splits)
  have "drop_bit (4 * length s) w = take_bit (64 - 4 * length s) (push_bit 4 v OR d)"
    using Cons.IH [OF rest] Cons.prems(2) by simp
  then have "drop_bit 4 (drop_bit (4 * length s) w) =
      drop_bit 4 (take_bit (64 - 4 * length s) (push_bit 4 v OR d))" by simp
  also have "\<dots> = take_bit (64 - 4 * length (c # s)) v"
    using Cons.prems(2)
    by (intro bit_eqI) (auto simp: bit_simps dest: bit_imp_le_length hex_digit_bit [OF d])
  finally show ?case by (simp add: add.commute)
qed

lemma hex_digits_of_loop:
  "hex_loop v s = Some w \<Longrightarrow> length s \<le> 16 \<Longrightarrow> hex_digits (length s) w = map c_tolower s"
proof (induction s arbitrary: v)
  case Nil
  then show ?case by simp
next
  case (Cons c s)
  from Cons.prems(1) obtain d where d: "hex_digit c = Some d"
      and rest: "hex_loop (push_bit 4 v OR d) s = Some w"
    by (auto split: option.splits)
  have high: "drop_bit (4 * length s) w = take_bit (64 - 4 * length s) (push_bit 4 v OR d)"
    using hex_loop_high [OF rest] Cons.prems(2) by simp
  have m: "(15 :: u64) = mask 4" by (simp add: mask_eq_exp_minus_1)
  have "drop_bit (4 * length s) w AND 15 = d"
    unfolding high m
    using Cons.prems(2)
    by (intro bit_eqI) (auto simp: bit_simps not_less dest: bit_imp_le_length hex_digit_bit [OF d])
  with d have "hex_char (drop_bit (4 * length s) w AND 15) = c_tolower c"
    by (simp add: hex_char_hex_digit)
  with Cons.IH [OF rest] Cons.prems(2) show ?case by simp
qed

lemma format_parse_epoch:
  "slv_vis_parse_epoch (Some s) = Some v \<Longrightarrow> slv_vis_format_epoch v = map c_tolower s"
  using hex_digits_of_loop [of 0 s v]
  by (auto simp: slv_vis_parse_epoch_def slv_vis_format_epoch_def split: if_splits option.splits)

lemma parse_epoch_nonzero: "slv_vis_parse_epoch s = Some v \<Longrightarrow> v \<noteq> 0"
  by (auto simp: slv_vis_parse_epoch_def split: option.splits if_splits)

subsection \<open>The adoption rule\<close>

datatype slv_vis_epoch_verdict =
    SLV_VIS_EPOCH_EQUAL
  | SLV_VIS_EPOCH_ADOPT
  | SLV_VIS_EPOCH_TAKEOVER
  | SLV_VIS_EPOCH_STALE

definition slv_vis_authority_stale :: "int \<Rightarrow> int \<Rightarrow> int \<Rightarrow> bool" where
  "slv_vis_authority_stale last_accept_us now_us stale_us \<longleftrightarrow>
     last_accept_us = 0 \<or> now_us - last_accept_us > stale_us"

definition slv_vis_epoch_decide :: "u64 \<Rightarrow> int \<Rightarrow> int \<Rightarrow> int \<Rightarrow> u64 \<Rightarrow> slv_vis_epoch_verdict" where
  "slv_vis_epoch_decide stored last_accept_us now_us stale_us incoming =
     (if stored = 0 \<or> incoming > stored then SLV_VIS_EPOCH_ADOPT
      else if incoming = stored then SLV_VIS_EPOCH_EQUAL
      else if slv_vis_authority_stale last_accept_us now_us stale_us then SLV_VIS_EPOCH_TAKEOVER
      else SLV_VIS_EPOCH_STALE)"

fun slv_vis_epoch_verdict_str :: "slv_vis_epoch_verdict \<Rightarrow> string" where
  "slv_vis_epoch_verdict_str SLV_VIS_EPOCH_EQUAL = ''equal''"
| "slv_vis_epoch_verdict_str SLV_VIS_EPOCH_ADOPT = ''adopted''"
| "slv_vis_epoch_verdict_str SLV_VIS_EPOCH_TAKEOVER = ''takeover''"
| "slv_vis_epoch_verdict_str SLV_VIS_EPOCH_STALE = ''stale_epoch''"

lemma epoch_decide_stale_iff:
  "slv_vis_epoch_decide stored la now st incoming = SLV_VIS_EPOCH_STALE \<longleftrightarrow>
     stored \<noteq> 0 \<and> incoming < stored \<and> \<not> slv_vis_authority_stale la now st"
  by (auto simp: slv_vis_epoch_decide_def not_less)

lemma epoch_decide_equal_iff:
  "slv_vis_epoch_decide stored la now st incoming = SLV_VIS_EPOCH_EQUAL \<longleftrightarrow>
     stored \<noteq> 0 \<and> incoming = stored"
  by (auto simp: slv_vis_epoch_decide_def)

subsection \<open>The listener rule\<close>

definition slv_vis_row :: "bool \<Rightarrow> u64 \<Rightarrow> u64 \<Rightarrow> int \<Rightarrow> bool \<Rightarrow> int \<Rightarrow> int \<Rightarrow> nat" where
  "slv_vis_row armed record_epoch auth_epoch confirmed_us stale now_us stale_us =
     (if \<not> armed then 1
      else if auth_epoch = 0 \<or> record_epoch \<noteq> auth_epoch then 2
      else if stale \<or> now_us - confirmed_us > stale_us then 3
      else 4)"

lemma vis_row_4_iff:
  "slv_vis_row armed re ae c stale now st = 4 \<longleftrightarrow>
     armed \<and> ae \<noteq> 0 \<and> re = ae \<and> \<not> stale \<and> now - c \<le> st"
  by (auto simp: slv_vis_row_def)

definition slv_vis_feed_live :: "bool \<Rightarrow> int \<Rightarrow> u64 \<Rightarrow> bool" where
  "slv_vis_feed_live present feed_age_ms stale_ms \<longleftrightarrow>
     (if \<not> present \<or> feed_age_ms < 0 then True else (of_int feed_age_ms :: u64) \<le> stale_ms)"

subsection \<open>The would-silence gauge\<close>

definition slv_vis_would_silence_pairs :: "u64 \<Rightarrow> u64 \<Rightarrow> u64" where
  "slv_vis_would_silence_pairs n good =
     (let all = (if n < 2 then 0 else n * (n - 1));
          ok = (if good < 2 then 0 else good * (good - 1))
      in all - ok)"

lemma card_ordered_pairs:
  assumes "finite A"
  shows "card {(l, s). l \<in> A \<and> s \<in> A \<and> l \<noteq> s} = card A * (card A - 1)"
proof -
  have "{(l, s). l \<in> A \<and> s \<in> A \<and> l \<noteq> s} = (SIGMA l:A. A - {l})" by auto
  also have "card \<dots> = (\<Sum>l\<in>A. card (A - {l}))" using assms by (simp add: card_SigmaI)
  also have "\<dots> = card A * (card A - 1)" using assms by simp
  finally show ?thesis .
qed

lemma unat_pair_count:
  assumes "n < 2 ^ 32"
  shows "unat (if (of_nat n :: u64) < 2 then 0 else of_nat n * (of_nat n - 1) :: u64) = n * (n - 1)"
proof -
  have n64: "n < 2 ^ 64" using assms by simp
  have un: "unat (of_nat n :: u64) = n" using n64 by (simp add: unat_of_nat)
  have two: "(of_nat n :: u64) < 2 \<longleftrightarrow> n < 2" using un by (simp add: word_less_nat_alt)
  show ?thesis
  proof (cases "n < 2")
    case True
    then have "n = 0 \<or> n = 1" by auto
    with two True show ?thesis by auto
  next
    case False
    have "n * (n - 1) < 2 ^ 32 * 2 ^ 32" using assms False by (intro mult_strict_mono) auto
    then have "n * (n - 1) < 2 ^ 64" by simp
    moreover have "(of_nat n * (of_nat n - 1) :: u64) = of_nat (n * (n - 1))"
      using False by (simp add: of_nat_diff)
    ultimately show ?thesis using two False by (simp add: unat_of_nat del: of_nat_mult)
  qed
qed

text \<open>
  The would-silence gauge is exact: for a room with fewer than 2^32 participants of which
  the subset G stands in row 4, the 64-bit formula of \<^verbatim>\<open>slv_vis_would_silence_pairs\<close> is the number of
  ordered (listener, source) pairs of different participants that the pair rule silences, with no
  wrap-around.
\<close>

theorem would_silence_pairs_exact:
  assumes "finite P" and "G \<subseteq> P" and "card P < 2 ^ 32"
  shows "unat (slv_vis_would_silence_pairs (of_nat (card P)) (of_nat (card G))) =
     card {(l, s). l \<in> P \<and> s \<in> P \<and> l \<noteq> s \<and> \<not> (l \<in> G \<and> s \<in> G)}"
proof -
  let ?all = "{(l, s). l \<in> P \<and> s \<in> P \<and> l \<noteq> s}" and ?ok = "{(l, s). l \<in> G \<and> s \<in> G \<and> l \<noteq> s}"
  have fg: "finite G" using assms(1,2) by (rule finite_subset [rotated])
  have cg: "card G \<le> card P" using assms(1,2) by (rule card_mono)
  have sub: "?ok \<subseteq> ?all" using assms(2) by auto
  have "finite (P \<times> P)" using assms(1) by simp
  then have fall: "finite ?all" by (rule finite_subset [rotated]) auto
  have fok: "finite ?ok" using fall sub by (rule finite_subset [rotated])
  have "{(l, s). l \<in> P \<and> s \<in> P \<and> l \<noteq> s \<and> \<not> (l \<in> G \<and> s \<in> G)} = ?all - ?ok" by auto
  then have "card {(l, s). l \<in> P \<and> s \<in> P \<and> l \<noteq> s \<and> \<not> (l \<in> G \<and> s \<in> G)} = card ?all - card ?ok"
    using card_Diff_subset [OF fok sub] by simp
  also have "\<dots> = card P * (card P - 1) - card G * (card G - 1)"
    using card_ordered_pairs [OF assms(1)] card_ordered_pairs [OF fg] by simp
  finally have rhs: "card {(l, s). l \<in> P \<and> s \<in> P \<and> l \<noteq> s \<and> \<not> (l \<in> G \<and> s \<in> G)} =
      card P * (card P - 1) - card G * (card G - 1)" .
  have le: "card G * (card G - 1) \<le> card P * (card P - 1)" using cg by (intro mult_le_mono) auto
  have "card G < 2 ^ 32" using cg assms(3) by simp
  note counts = unat_pair_count [OF assms(3)] unat_pair_count [OF this]
  show ?thesis
    unfolding slv_vis_would_silence_pairs_def Let_def rhs
    using counts le by (simp add: unat_sub word_le_nat_alt)
qed

theorem would_silence_pairs_exact_witness:
  "unat (slv_vis_would_silence_pairs (of_nat (card {0, 1, 2 :: nat})) (of_nat (card {0 :: nat}))) =
     card {(l, s). l \<in> {0, 1, 2 :: nat} \<and> s \<in> {0, 1, 2} \<and> l \<noteq> s \<and> \<not> (l \<in> {0 :: nat} \<and> s \<in> {0})}"
  by (rule would_silence_pairs_exact) auto

subsection \<open>The knobs\<close>

datatype slv_vis_knob_status = SLV_VIS_KNOB_OK | SLV_VIS_KNOB_INVALID | SLV_VIS_KNOB_CLAMPED

definition slv_vis_fail_closed_from_env :: "string option \<Rightarrow> slv_vis_knob_status \<times> bool" where
  "slv_vis_fail_closed_from_env v =
     (case v of
        None \<Rightarrow> (SLV_VIS_KNOB_OK, False)
      | Some t \<Rightarrow>
          if t = [] then (SLV_VIS_KNOB_OK, False)
          else if strcaseeq t ''1'' \<or> strcaseeq t ''true'' \<or> strcaseeq t ''yes'' \<or> strcaseeq t ''on''
          then (SLV_VIS_KNOB_OK, True)
          else if strcaseeq t ''0'' \<or> strcaseeq t ''false'' \<or> strcaseeq t ''no'' \<or> strcaseeq t ''off''
          then (SLV_VIS_KNOB_OK, False)
          else (SLV_VIS_KNOB_INVALID, False))"

definition slv_vis_stale_ms_from_env :: "string option \<Rightarrow> slv_vis_knob_status \<times> nat" where
  "slv_vis_stale_ms_from_env v =
     (case v of
        None \<Rightarrow> (SLV_VIS_KNOB_OK, SLV_VIS_STALE_MS_DEFAULT)
      | Some t \<Rightarrow>
          if t = [] then (SLV_VIS_KNOB_OK, SLV_VIS_STALE_MS_DEFAULT)
          else case strtol t of (ms, rest, er) \<Rightarrow>
            if rest \<noteq> [] \<or> ms \<le> 0 \<or> ms > int SLV_VIS_STALE_MS_MAX
            then (SLV_VIS_KNOB_INVALID, SLV_VIS_STALE_MS_DEFAULT)
            else (let min = slv_vis_stale_min_ms (of_nat SLV_VIS_HEARTBEAT_MS) in
                  if (of_int ms :: u64) < min then (SLV_VIS_KNOB_CLAMPED, unat min)
                  else (SLV_VIS_KNOB_OK, nat ms)))"

lemma stale_min_value: "slv_vis_stale_min_ms (of_nat SLV_VIS_HEARTBEAT_MS) = 7250"
  by (simp add: slv_vis_stale_min_ms_def slv_const)

text \<open>
  Whatever \<^verbatim>\<open>JS_VIS_STALE_MS\<close> holds, the staleness window in force absorbs the sim's own
  heartbeat interval: it is never below the minimum 2 x 1000 + 5000 + 250 ms and never above ten
  minutes, and a value that is a plain number in that range is used as it is.
\<close>

theorem stale_window_bounds:
  "unat (slv_vis_stale_min_ms (of_nat SLV_VIS_HEARTBEAT_MS)) \<le> snd (slv_vis_stale_ms_from_env v) \<and>
   snd (slv_vis_stale_ms_from_env v) \<le> SLV_VIS_STALE_MS_MAX \<and>
   (fst (slv_vis_stale_ms_from_env v) = SLV_VIS_KNOB_CLAMPED \<longrightarrow>
      snd (slv_vis_stale_ms_from_env v) = unat (slv_vis_stale_min_ms (of_nat SLV_VIS_HEARTBEAT_MS)))"
proof -
  have m: "slv_vis_stale_min_ms (of_nat SLV_VIS_HEARTBEAT_MS) = 7250" by (rule stale_min_value)
  have wl: "(of_int ms :: u64) < 7250 \<longleftrightarrow> ms < 7250" if "0 < ms" "ms \<le> 600000" for ms :: int
    using that by (simp add: word_less_def uint_word_of_int)
  show ?thesis
    unfolding slv_vis_stale_ms_from_env_def m
    by (auto simp: wl SLV_VIS_STALE_MS_DEFAULT_def SLV_VIS_STALE_MS_MAX_def Let_def
        split: option.splits prod.splits)
qed

theorem stale_window_bounds_witness:
  "snd (slv_vis_stale_ms_from_env (Some ''100'')) = 7250 \<and>
   fst (slv_vis_stale_ms_from_env (Some ''100'')) = SLV_VIS_KNOB_CLAMPED \<and>
   7250 \<le> snd (slv_vis_stale_ms_from_env (Some ''8500''))"
proof -
  have s: "strtol ''100'' = (100, [], False)"
    by (simp add: strtol_def dec_value_def LONG_MAX_def LONG_MIN_def c_isspace_def c_isdigit_def c_code_def)
  have c: "fst (slv_vis_stale_ms_from_env (Some ''100'')) = SLV_VIS_KNOB_CLAMPED"
    unfolding slv_vis_stale_ms_from_env_def stale_min_value
    by (simp add: s SLV_VIS_STALE_MS_MAX_def)
  show ?thesis
    using stale_window_bounds [of "Some ''100''"] stale_window_bounds [of "Some ''8500''"] c
      stale_min_value by simp
qed

text \<open>
  The epoch text round-trips: every non-zero epoch is read back from the 16 digits it is written
  with, zero never is, and an accepted text is the written form of its epoch up to the case of its
  letters.
\<close>

theorem epoch_roundtrip:
  "slv_vis_parse_epoch (Some (slv_vis_format_epoch e)) = (if e = 0 then None else Some e) \<and>
   (slv_vis_parse_epoch (Some s) = Some v \<longrightarrow> slv_vis_format_epoch v = map c_tolower s \<and> v \<noteq> 0)"
  using parse_format_epoch format_parse_epoch parse_epoch_nonzero by blast

theorem epoch_roundtrip_witness:
  "slv_vis_format_epoch 0xA1 = ''00000000000000a1'' \<and>
   slv_vis_parse_epoch (Some ''00000000000000A1'') = Some 0xA1"
proof -
  have p: "slv_vis_parse_epoch (Some ''00000000000000A1'') = Some 0xA1" by code_simp
  have l: "map c_tolower ''00000000000000A1'' = ''00000000000000a1''" by code_simp
  show ?thesis
    using epoch_roundtrip [of 0 "''00000000000000A1''" "0xA1"] p l by simp
qed

end
