(* ===== verification/Json.thy ===== *)
theory Json
  imports CLib
begin

text \<open>
  JSON values as the jansson library presents them to the code, and the accessors the code
  calls. A value is what \<^verbatim>\<open>json_typeof\<close> and the typed getters tell apart; an object is its
  members in iteration order with distinct keys. An accessor applied to NULL or to a value of
  another type gives what the library documents (NULL, 0 or false). A JSON real is a real number:
  the code that reads one only stores it or does arithmetic that is modelled over the reals.

  The text parser \<^verbatim>\<open>json_loadb\<close> and the printer \<^verbatim>\<open>json_dumps\<close> are not defined here: the
  operations that call them take them as parameters.
\<close>

datatype json =
    JNull
  | JBool bool
  | JInt int
  | JReal real
  | JString string
  | JArray "json list"
  | JObject "(string \<times> json) list"

fun json_object_get :: "json option \<Rightarrow> string \<Rightarrow> json option" where
  "json_object_get (Some (JObject ms)) k = map_of ms k"
| "json_object_get _ k = None"

fun json_is_object :: "json option \<Rightarrow> bool" where
  "json_is_object (Some (JObject ms)) = True"
| "json_is_object _ = False"

fun json_is_array :: "json option \<Rightarrow> bool" where
  "json_is_array (Some (JArray vs)) = True"
| "json_is_array _ = False"

fun json_is_string :: "json option \<Rightarrow> bool" where
  "json_is_string (Some (JString s)) = True"
| "json_is_string _ = False"

fun json_is_integer :: "json option \<Rightarrow> bool" where
  "json_is_integer (Some (JInt i)) = True"
| "json_is_integer _ = False"

fun json_is_real :: "json option \<Rightarrow> bool" where
  "json_is_real (Some (JReal r)) = True"
| "json_is_real _ = False"

fun json_is_boolean :: "json option \<Rightarrow> bool" where
  "json_is_boolean (Some (JBool b)) = True"
| "json_is_boolean _ = False"

fun json_is_true :: "json option \<Rightarrow> bool" where
  "json_is_true (Some (JBool b)) = b"
| "json_is_true _ = False"

fun json_is_false :: "json option \<Rightarrow> bool" where
  "json_is_false (Some (JBool b)) = (\<not> b)"
| "json_is_false _ = False"

fun json_integer_value :: "json option \<Rightarrow> int" where
  "json_integer_value (Some (JInt i)) = i"
| "json_integer_value _ = 0"

fun json_real_value :: "json option \<Rightarrow> real" where
  "json_real_value (Some (JReal r)) = r"
| "json_real_value _ = 0"

fun json_string_value :: "json option \<Rightarrow> string option" where
  "json_string_value (Some (JString s)) = Some s"
| "json_string_value _ = None"

text \<open>The members and elements the iteration macros visit; an absent or other value has none.\<close>

fun json_members :: "json option \<Rightarrow> (string \<times> json) list" where
  "json_members (Some (JObject ms)) = ms"
| "json_members _ = []"

fun json_elements :: "json option \<Rightarrow> json list" where
  "json_elements (Some (JArray vs)) = vs"
| "json_elements _ = []"

definition json_array_get :: "json option \<Rightarrow> nat \<Rightarrow> json option" where
  "json_array_get v i = (if i < length (json_elements v) then Some (json_elements v ! i) else None)"

text \<open>Building an object: a member set under a new key comes last, one set again keeps its place.\<close>

fun json_object_set :: "json \<Rightarrow> string \<Rightarrow> json \<Rightarrow> json" where
  "json_object_set (JObject ms) k v = JObject (AList.update k v ms)"
| "json_object_set j k v = j"

fun json_object_del :: "json \<Rightarrow> string \<Rightarrow> json" where
  "json_object_del (JObject ms) k = JObject (AList.delete k ms)"
| "json_object_del j k = j"

definition json_object_sets :: "(string \<times> json) list \<Rightarrow> json \<Rightarrow> json" where
  "json_object_sets kvs j = foldl (\<lambda>j (k, v). json_object_set j k v) j kvs"

text \<open>A \<^verbatim>\<open>guint64\<close> as the signed \<^verbatim>\<open>json_int_t\<close> of \<^verbatim>\<open>json_integer\<close>, and back.\<close>

definition json_int_of_u64 :: "nat \<Rightarrow> int" where
  "json_int_of_u64 n = (if n < 2 ^ 63 then int n else int n - 2 ^ 64)"

definition u64_of_json_int :: "int \<Rightarrow> nat" where
  "u64_of_json_int i = nat (i mod 2 ^ 64)"

lemma u64_of_json_int_of_u64: "n < 2 ^ 64 \<Longrightarrow> u64_of_json_int (json_int_of_u64 n) = n"
proof -
  assume n: "n < 2 ^ 64"
  have "int n mod 2 ^ 64 = int n" using n by (simp add: zmod_trivial_iff)
  then have "json_int_of_u64 n mod 2 ^ 64 = int n" by (simp add: json_int_of_u64_def)
  then show ?thesis by (simp add: u64_of_json_int_def)
qed

lemma json_object_get_set [simp]:
  "json_object_get (Some (json_object_set (JObject ms) k v)) k' =
     (if k' = k then Some v else json_object_get (Some (JObject ms)) k')"
  by (simp add: update_conv')

lemma json_object_get_del [simp]:
  "json_object_get (Some (json_object_del (JObject ms) k)) k' =
     (if k' = k then None else json_object_get (Some (JObject ms)) k')"
  by (simp add: delete_conv')

lemma json_is_object_iff: "json_is_object v \<longleftrightarrow> (\<exists>ms. v = Some (JObject ms))"
  by (cases v rule: json_is_object.cases) auto

lemma json_is_array_iff: "json_is_array v \<longleftrightarrow> (\<exists>vs. v = Some (JArray vs))"
  by (cases v rule: json_is_array.cases) auto

lemma json_is_string_iff: "json_is_string v \<longleftrightarrow> (\<exists>s. v = Some (JString s))"
  by (cases v rule: json_is_string.cases) auto

lemma json_is_integer_iff: "json_is_integer v \<longleftrightarrow> (\<exists>i. v = Some (JInt i))"
  by (cases v rule: json_is_integer.cases) auto

lemma json_is_boolean_iff: "json_is_boolean v \<longleftrightarrow> (\<exists>b. v = Some (JBool b))"
  by (cases v rule: json_is_boolean.cases) auto

lemma json_is_real_iff: "json_is_real v \<longleftrightarrow> (\<exists>r. v = Some (JReal r))"
  by (cases v rule: json_is_real.cases) auto

lemma json_members_not_object: "\<not> json_is_object v \<Longrightarrow> json_members v = []"
  by (cases v rule: json_is_object.cases) auto

lemmas json_is_iffs =
  json_is_object_iff json_is_array_iff json_is_string_iff json_is_integer_iff
  json_is_boolean_iff json_is_real_iff

end
