(* ===== verification/Visbatch.thy ===== *)
theory Visbatch
  imports Visauth Json
begin

text \<open>
  The visibility-batch parser, \<^verbatim>\<open>src/src/visbatch.h\<close> and \<^verbatim>\<open>src/src/visbatch.c\<close>.

  A parse takes the payload (None stands for a NULL pointer), the JSON reader \<open>loadb\<close> of the jansson
  library and an allocation oracle that says which \<^verbatim>\<open>calloc\<close> calls succeed, and
  gives the status with the batch as it is left in \<^verbatim>\<open>*out\<close>, on the error paths too. The heap arrays and
  their counts are lists; \<^verbatim>\<open>slv_visbatch_free\<close> only returns that memory and is not modelled.
\<close>

subsection \<open>Data\<close>

definition SLV_VISBATCH_MAX_BYTES :: nat where [slv_const]: "SLV_VISBATCH_MAX_BYTES = 65536"
definition SLV_VIS_MAX_ENTRIES :: nat where [slv_const]: "SLV_VIS_MAX_ENTRIES = 128"
definition SLV_VIS_MAX_EXCL :: nat where [slv_const]: "SLV_VIS_MAX_EXCL = 128"
definition SLV_VIS_MAX_DEFERRED :: nat where [slv_const]: "SLV_VIS_MAX_DEFERRED = 256"
definition UINT32_MAX :: int where [slv_const]: "UINT32_MAX = 4294967295"

datatype slv_vis_op = SLV_VIS_OP_ADD | SLV_VIS_OP_REMOVE | SLV_VIS_OP_REPLACE

record slv_vis_entry =
  e_listener :: string
  e_excl :: "string list"

record slv_vis_base =
  bs_listener :: string
  bs_gen :: int

record slv_visbatch =
  vb_op :: slv_vis_op
  vb_room :: int
  vb_entries :: "slv_vis_entry list"
  vb_mute_entries :: "slv_vis_entry list"
  vb_n_skipped :: nat
  vb_has_epoch :: bool
  vb_room_epoch :: u64
  vb_policy_generation :: int
  vb_base :: "slv_vis_base list"

datatype slv_visbatch_status =
    SLV_VISBATCH_OK | SLV_VISBATCH_EMPTY | SLV_VISBATCH_MALFORMED | SLV_VISBATCH_TOOBIG

text \<open>The struct after \<^verbatim>\<open>memset(out, 0, sizeof(*out))\<close>.\<close>

definition slv_visbatch_zero :: slv_visbatch where
  "slv_visbatch_zero =
     \<lparr>vb_op = SLV_VIS_OP_ADD, vb_room = 0, vb_entries = [], vb_mute_entries = [], vb_n_skipped = 0,
      vb_has_epoch = False, vb_room_epoch = 0, vb_policy_generation = 0, vb_base = []\<rparr>"

text \<open>
  Which allocations succeed: \<open>m_array c\<close> for the entry array of channel \<open>c\<close>, \<open>m_srcs c l\<close> for the source
  array of its listener \<open>l\<close>, \<open>m_base\<close> for the base array.
\<close>

datatype slv_vis_channel = CH_EXCL | CH_MUTE

record slv_vis_mem =
  m_array :: "slv_vis_channel \<Rightarrow> bool"
  m_srcs :: "slv_vis_channel \<Rightarrow> string \<Rightarrow> bool"
  m_base :: bool

definition mem_all :: slv_vis_mem where
  "mem_all = \<lparr>m_array = (\<lambda>c. True), m_srcs = (\<lambda>c l. True), m_base = True\<rparr>"

lemma mem_all_sel [simp]: "m_array mem_all c" "m_srcs mem_all c l" "m_base mem_all"
  by (simp_all add: mem_all_def)

subsection \<open>Operations\<close>

fun slv_vis_op_str :: "slv_vis_op \<Rightarrow> string" where
  "slv_vis_op_str SLV_VIS_OP_ADD = ''add''"
| "slv_vis_op_str SLV_VIS_OP_REMOVE = ''remove''"
| "slv_vis_op_str SLV_VIS_OP_REPLACE = ''replace''"

definition slv_vis_uuid_ok :: "string option \<Rightarrow> bool" where
  "slv_vis_uuid_ok s = (case s of None \<Rightarrow> False | Some t \<Rightarrow> length t > 0 \<and> length t < SLV_UUID_LEN)"

text \<open>The inner loop over one listener's sources: the sources kept so far and the skip count.\<close>

definition slv_vis_parse_source :: "json \<Rightarrow> string list \<times> nat \<Rightarrow> string list \<times> nat" where
  "slv_vis_parse_source sval = (\<lambda>(excl, skipped).
     if length excl \<ge> SLV_VIS_MAX_EXCL then (excl, skipped + 1)
     else if \<not> json_is_string (Some sval) then (excl, skipped + 1)
     else (let s = json_string_value (Some sval) in
           if \<not> slv_vis_uuid_ok s then (excl, skipped + 1)
           else (excl @ [slv_ucpy (the s)], skipped)))"

text \<open>The outer loop over the members of the channel object.\<close>

definition slv_vis_parse_listener ::
  "slv_vis_mem \<Rightarrow> slv_vis_channel \<Rightarrow> string \<times> json \<Rightarrow> slv_vis_entry list \<times> nat \<Rightarrow> slv_vis_entry list \<times> nat"
where
  "slv_vis_parse_listener mem c = (\<lambda>(lkey, lval) (entries, skipped).
     if length entries \<ge> SLV_VIS_MAX_ENTRIES then (entries, skipped + 1)
     else if \<not> slv_vis_uuid_ok (Some lkey) \<or> \<not> json_is_array (Some lval) then (entries, skipped + 1)
     else if length (json_elements (Some lval)) > 0 \<and> \<not> m_srcs mem c lkey then (entries, skipped + 1)
     else (let (excl, skipped') = fold slv_vis_parse_source (json_elements (Some lval)) ([], skipped) in
           (entries @ [\<lparr>e_listener = slv_ucpy lkey, e_excl = excl\<rparr>], skipped')))"

definition slv_vis_parse_channel ::
  "slv_vis_mem \<Rightarrow> slv_vis_channel \<Rightarrow> json option \<Rightarrow> nat \<Rightarrow> slv_vis_entry list \<times> nat"
where
  "slv_vis_parse_channel mem c chan n_skipped =
     (if \<not> json_is_object chan \<or> length (json_members chan) = 0 then ([], n_skipped)
      else if \<not> m_array mem c then ([], n_skipped)
      else fold (slv_vis_parse_listener mem c) (json_members chan) ([], n_skipped))"

text \<open>The loop over the members of the base object.\<close>

definition slv_vis_parse_base ::
  "string \<times> json \<Rightarrow> slv_vis_base list \<times> nat \<Rightarrow> slv_vis_base list \<times> nat"
where
  "slv_vis_parse_base = (\<lambda>(bkey, bval) (base, skipped).
     if length base \<ge> SLV_VIS_MAX_ENTRIES * 2 \<or> \<not> slv_vis_uuid_ok (Some bkey)
        \<or> \<not> json_is_integer (Some bval)
        \<or> json_integer_value (Some bval) < 0 \<or> json_integer_value (Some bval) > UINT32_MAX
     then (base, skipped + 1)
     else (base @ [\<lparr>bs_listener = slv_ucpy bkey, bs_gen = json_integer_value (Some bval)\<rparr>], skipped))"

definition slv_vis_parse_op :: "string option \<Rightarrow> slv_vis_op option" where
  "slv_vis_parse_op s =
     (if s = Some ''add'' then Some SLV_VIS_OP_ADD
      else if s = Some ''remove'' then Some SLV_VIS_OP_REMOVE
      else if s = Some ''replace'' then Some SLV_VIS_OP_REPLACE
      else None)"

text \<open>The authority stamp: None is a malformed stamp.\<close>

definition slv_vis_parse_stamp :: "json option \<Rightarrow> slv_visbatch \<Rightarrow> slv_visbatch option" where
  "slv_vis_parse_stamp b out =
     (let jepoch = json_object_get b ''room_epoch'' in
      if jepoch = None then Some out
      else (let jgen = json_object_get b ''policy_generation'';
                epoch = slv_vis_parse_epoch (json_string_value jepoch) in
            if \<not> json_is_string jepoch \<or> epoch = None \<or> \<not> json_is_integer jgen
               \<or> json_integer_value jgen < 1 \<or> json_integer_value jgen > UINT32_MAX
            then None
            else Some (out\<lparr>vb_room_epoch := the epoch, vb_has_epoch := True,
                           vb_policy_generation := json_integer_value jgen\<rparr>)))"

text \<open>The two channels and the base, in the order the parser reads them.\<close>

definition slv_vis_parse_channels :: "slv_vis_mem \<Rightarrow> json option \<Rightarrow> slv_visbatch \<Rightarrow> slv_visbatch" where
  "slv_vis_parse_channels mem b out =
     (let (en, sk) = slv_vis_parse_channel mem CH_EXCL (json_object_get b ''excl'') (vb_n_skipped out);
          (mu, sk) = slv_vis_parse_channel mem CH_MUTE (json_object_get b ''mute'') sk;
          jbase = json_object_get b ''base'';
          (ba, sk) = (if vb_has_epoch out \<and> json_is_object jbase \<and> length (json_members jbase) > 0 \<and> m_base mem
                      then fold slv_vis_parse_base (json_members jbase) ([], sk) else ([], sk))
      in out\<lparr>vb_entries := en, vb_mute_entries := mu, vb_base := ba, vb_n_skipped := sk\<rparr>)"

definition slv_visbatch_parse ::
  "(string \<Rightarrow> json option) \<Rightarrow> slv_vis_mem \<Rightarrow> string option \<Rightarrow> slv_visbatch_status \<times> slv_visbatch"
where
  "slv_visbatch_parse loadb mem buf =
     (let out = slv_visbatch_zero in
      case buf of
        None \<Rightarrow> (SLV_VISBATCH_MALFORMED, out)
      | Some t \<Rightarrow>
        if length t = 0 then (SLV_VISBATCH_MALFORMED, out)
        else if length t > SLV_VISBATCH_MAX_BYTES then (SLV_VISBATCH_TOOBIG, out)
        else (let jroot = loadb t in
          if jroot = None \<or> \<not> json_is_object jroot then (SLV_VISBATCH_MALFORMED, out)
          else (let w = json_object_get jroot ''slvoice_vis'';
                    b = (if json_is_object w then w else jroot);
                    jop = json_object_get b ''op'' in
            if \<not> json_is_string jop then (SLV_VISBATCH_MALFORMED, out)
            else (case slv_vis_parse_op (json_string_value jop) of
                None \<Rightarrow> (SLV_VISBATCH_MALFORMED, out)
              | Some op \<Rightarrow>
                 (let out = out\<lparr>vb_op := op\<rparr>;
                      jroom = json_object_get b ''room'' in
                  if \<not> json_is_integer jroom then (SLV_VISBATCH_MALFORMED, out)
                  else (let out = out\<lparr>vb_room := json_integer_value jroom\<rparr> in
                    case slv_vis_parse_stamp b out of
                      None \<Rightarrow> (SLV_VISBATCH_MALFORMED, slv_visbatch_zero)
                    | Some out \<Rightarrow>
                       (let out = slv_vis_parse_channels mem b out in
                        (if length (vb_entries out) > 0 \<or> length (vb_mute_entries out) > 0
                         then SLV_VISBATCH_OK else SLV_VISBATCH_EMPTY, out))))))))"

subsection \<open>What a parsed batch satisfies\<close>

definition vis_uuids_ok :: "string list \<Rightarrow> bool" where
  "vis_uuids_ok xs \<longleftrightarrow> length xs \<le> SLV_VIS_MAX_EXCL \<and> (\<forall>s\<in>set xs. slv_vis_uuid_ok (Some s))"

definition vis_entry_ok :: "slv_vis_entry \<Rightarrow> bool" where
  "vis_entry_ok e \<longleftrightarrow> slv_vis_uuid_ok (Some (e_listener e)) \<and> vis_uuids_ok (e_excl e)"

definition vis_entries_ok :: "slv_vis_entry list \<Rightarrow> bool" where
  "vis_entries_ok es \<longleftrightarrow> length es \<le> SLV_VIS_MAX_ENTRIES \<and> (\<forall>e\<in>set es. vis_entry_ok e)"

definition vis_base_ok :: "slv_vis_base list \<Rightarrow> bool" where
  "vis_base_ok bs \<longleftrightarrow> length bs \<le> 2 * SLV_VIS_MAX_ENTRIES \<and>
     (\<forall>b\<in>set bs. slv_vis_uuid_ok (Some (bs_listener b)) \<and> 0 \<le> bs_gen b \<and> bs_gen b \<le> UINT32_MAX)"

definition visbatch_ok :: "slv_visbatch \<Rightarrow> bool" where
  "visbatch_ok b \<longleftrightarrow>
     vis_entries_ok (vb_entries b) \<and> vis_entries_ok (vb_mute_entries b) \<and> vis_base_ok (vb_base b) \<and>
     (if vb_has_epoch b
      then vb_room_epoch b \<noteq> 0 \<and> 1 \<le> vb_policy_generation b \<and> vb_policy_generation b \<le> UINT32_MAX
      else vb_room_epoch b = 0 \<and> vb_policy_generation b = 0 \<and> vb_base b = [])"

text \<open>The JSON members that an entry or a base item stands for.\<close>

definition vis_entry_json :: "slv_vis_entry \<Rightarrow> string \<times> json" where
  "vis_entry_json e = (e_listener e, JArray (map JString (e_excl e)))"

definition vis_base_json :: "slv_vis_base \<Rightarrow> string \<times> json" where
  "vis_base_json b = (bs_listener b, JInt (bs_gen b))"

lemma uuid_ok_Some [simp]: "slv_vis_uuid_ok (Some t) \<longleftrightarrow> t \<noteq> [] \<and> length t < SLV_UUID_LEN"
  by (auto simp: slv_vis_uuid_ok_def)

lemma uuid_ok_None [simp]: "\<not> slv_vis_uuid_ok None"
  by (simp add: slv_vis_uuid_ok_def)

lemma json_string_value_Some: "json_string_value v = Some s \<longleftrightarrow> v = Some (JString s)"
  by (cases v rule: json_string_value.cases) auto

text \<open>
  One fact per loop: the bounds hold after it, nothing is lost without being counted, and when
  nothing is counted the result is the whole input.
\<close>

lemma parse_source_step:
  assumes "slv_vis_parse_source v (ex, sk) = (ex', sk')"
  shows "vis_uuids_ok ex \<Longrightarrow> vis_uuids_ok ex'"
    and "sk \<le> sk'" and "length ex' + sk' = length ex + sk + 1"
    and "sk' = sk \<Longrightarrow> map JString ex' = map JString ex @ [v]"
  using assms
  by (auto simp: slv_vis_parse_source_def Let_def vis_uuids_ok_def json_is_string_iff
      split: if_splits)

lemma parse_sources:
  "fold slv_vis_parse_source vs (ex, sk) = (ex', sk') \<Longrightarrow>
     (vis_uuids_ok ex \<longrightarrow> vis_uuids_ok ex') \<and> sk \<le> sk' \<and> length ex' + sk' = length ex + sk + length vs \<and>
     (sk' = sk \<longrightarrow> map JString ex' = map JString ex @ vs)"
proof (induction vs arbitrary: ex sk)
  case Nil
  then show ?case by simp
next
  case (Cons v vs)
  obtain ex1 sk1 where s: "slv_vis_parse_source v (ex, sk) = (ex1, sk1)" by fastforce
  with Cons.prems have "fold slv_vis_parse_source vs (ex1, sk1) = (ex', sk')" by simp
  from Cons.IH [OF this] parse_source_step [OF s] show ?case by auto
qed

lemma parse_sources_ok:
  assumes "fold slv_vis_parse_source vs ([], sk) = (ex, sk')"
  shows "vis_uuids_ok ex" "sk \<le> sk'" "length ex + sk' = sk + length vs"
    and "sk' = sk \<Longrightarrow> map JString ex = vs"
  using parse_sources [OF assms] by (auto simp: vis_uuids_ok_def)

lemma parse_listener_step:
  assumes "slv_vis_parse_listener mem c (l, v) (es, sk) = (es', sk')"
  shows "vis_entries_ok es \<Longrightarrow> vis_entries_ok es'"
    and "sk \<le> sk'" and "length es' \<le> length es + 1" and "length es + sk + 1 \<le> length es' + sk'"
    and "sk' = sk \<Longrightarrow> map vis_entry_json es' = map vis_entry_json es @ [(l, v)]"
proof -
  consider "es' = es" "sk' = sk + 1"
    | ex sk2 vs where "length es < SLV_VIS_MAX_ENTRIES" "slv_vis_uuid_ok (Some l)"
        "v = JArray vs" "fold slv_vis_parse_source vs ([], sk) = (ex, sk2)"
        "es' = es @ [\<lparr>e_listener = l, e_excl = ex\<rparr>]" "sk' = sk2"
    using assms
    by (auto simp: slv_vis_parse_listener_def json_is_array_iff split: if_splits prod.splits)
  note cs = this
  show "vis_entries_ok es \<Longrightarrow> vis_entries_ok es'"
    using cs by cases (auto simp: vis_entries_ok_def vis_entry_ok_def dest: parse_sources_ok(1))
  show "sk \<le> sk'" using cs by cases (auto dest: parse_sources_ok(2))
  show "length es' \<le> length es + 1" using cs by cases auto
  show "length es + sk + 1 \<le> length es' + sk'" using cs by cases (auto dest: parse_sources_ok(2))
  show "sk' = sk \<Longrightarrow> map vis_entry_json es' = map vis_entry_json es @ [(l, v)]"
    using cs by cases (auto simp: vis_entry_json_def dest: parse_sources_ok(4))
qed

lemma parse_listeners:
  "fold (slv_vis_parse_listener mem c) ms (es, sk) = (es', sk') \<Longrightarrow>
     (vis_entries_ok es \<longrightarrow> vis_entries_ok es') \<and> sk \<le> sk' \<and>
     length es + sk + length ms \<le> length es' + sk' \<and>
     (sk' = sk \<longrightarrow> map vis_entry_json es' = map vis_entry_json es @ ms)"
proof (induction ms arbitrary: es sk)
  case Nil
  then show ?case by simp
next
  case (Cons m ms)
  obtain l v where m: "m = (l, v)" by fastforce
  obtain es1 sk1 where s: "slv_vis_parse_listener mem c (l, v) (es, sk) = (es1, sk1)" by fastforce
  with Cons.prems m have "fold (slv_vis_parse_listener mem c) ms (es1, sk1) = (es', sk')" by simp
  from Cons.IH [OF this] parse_listener_step [OF s] m show ?case by auto
qed

lemma vis_entries_ok_Nil [simp]: "vis_entries_ok []"
  by (simp add: vis_entries_ok_def)

lemma vis_base_ok_Nil [simp]: "vis_base_ok []"
  by (simp add: vis_base_ok_def)

lemma parse_channel:
  assumes "slv_vis_parse_channel mem c chan sk = (es, sk')"
  shows "vis_entries_ok es" "sk \<le> sk'"
    and "m_array mem c \<Longrightarrow> length (json_members chan) \<le> length es + (sk' - sk)"
    and "m_array mem c \<Longrightarrow> sk' = sk \<Longrightarrow> map vis_entry_json es = json_members chan"
proof -
  have "vis_entries_ok es \<and> sk \<le> sk' \<and>
      (m_array mem c \<longrightarrow> length (json_members chan) \<le> length es + (sk' - sk) \<and>
        (sk' = sk \<longrightarrow> map vis_entry_json es = json_members chan))"
  proof (cases "json_is_object chan \<and> json_members chan \<noteq> [] \<and> m_array mem c")
    case True
    then have "fold (slv_vis_parse_listener mem c) (json_members chan) ([], sk) = (es, sk')"
      using assms by (simp add: slv_vis_parse_channel_def)
    from parse_listeners [OF this] show ?thesis by auto
  next
    case False
    then have "es = []" "sk' = sk" using assms by (auto simp: slv_vis_parse_channel_def split: if_splits)
    with False show ?thesis by (auto dest: json_members_not_object)
  qed
  then show "vis_entries_ok es" "sk \<le> sk'"
    and "m_array mem c \<Longrightarrow> length (json_members chan) \<le> length es + (sk' - sk)"
    and "m_array mem c \<Longrightarrow> sk' = sk \<Longrightarrow> map vis_entry_json es = json_members chan"
    by blast+
qed

lemma parse_base_step:
  assumes "slv_vis_parse_base m (bs, sk) = (bs', sk')"
  shows "(vis_base_ok bs \<longrightarrow> vis_base_ok bs') \<and> sk \<le> sk' \<and>
    (sk' = sk \<longrightarrow> map vis_base_json bs' = map vis_base_json bs @ [m])"
  using assms
  by (cases m) (auto simp: slv_vis_parse_base_def vis_base_ok_def vis_base_json_def
      json_is_integer_iff split: if_splits)

lemma parse_bases:
  "fold slv_vis_parse_base ms (bs, sk) = (bs', sk') \<Longrightarrow>
     (vis_base_ok bs \<longrightarrow> vis_base_ok bs') \<and> sk \<le> sk' \<and>
     (sk' = sk \<longrightarrow> map vis_base_json bs' = map vis_base_json bs @ ms)"
proof (induction ms arbitrary: bs sk)
  case Nil
  then show ?case by simp
next
  case (Cons m ms)
  obtain bs1 sk1 where s: "slv_vis_parse_base m (bs, sk) = (bs1, sk1)" by fastforce
  with Cons.prems have "fold slv_vis_parse_base ms (bs1, sk1) = (bs', sk')" by simp
  from Cons.IH [OF this] parse_base_step [OF s] show ?case by auto
qed

lemma zero_ok: "visbatch_ok slv_visbatch_zero"
  by (simp add: visbatch_ok_def slv_visbatch_zero_def)

lemma parse_stamp_ok:
  assumes "slv_vis_parse_stamp b out = Some out'"
    and "\<not> vb_has_epoch out" "vb_room_epoch out = 0" "vb_policy_generation out = 0"
  shows "if vb_has_epoch out'
      then vb_room_epoch out' \<noteq> 0 \<and> 1 \<le> vb_policy_generation out' \<and> vb_policy_generation out' \<le> UINT32_MAX
      else vb_room_epoch out' = 0 \<and> vb_policy_generation out' = 0"
  using assms
  by (auto simp: slv_vis_parse_stamp_def Let_def dest: parse_epoch_nonzero split: if_splits)

text \<open>All that the last part of the parser establishes, in one fact.\<close>

lemma parse_channels:
  assumes "slv_vis_parse_channels mem b out = out'"
  shows "vis_entries_ok (vb_entries out')" "vis_entries_ok (vb_mute_entries out')"
    and "vis_base_ok (vb_base out')" "\<not> vb_has_epoch out \<Longrightarrow> vb_base out' = []"
    and "vb_op out' = vb_op out" "vb_room out' = vb_room out" "vb_has_epoch out' = vb_has_epoch out"
      "vb_room_epoch out' = vb_room_epoch out" "vb_policy_generation out' = vb_policy_generation out"
    and "vb_n_skipped out \<le> vb_n_skipped out'"
    and "mem = mem_all \<Longrightarrow> vb_n_skipped out' = vb_n_skipped out \<Longrightarrow>
      map vis_entry_json (vb_entries out') = json_members (json_object_get b ''excl'') \<and>
      map vis_entry_json (vb_mute_entries out') = json_members (json_object_get b ''mute'') \<and>
      (vb_has_epoch out \<longrightarrow> map vis_base_json (vb_base out') = json_members (json_object_get b ''base''))"
proof -
  let ?jb = "json_object_get b ''base''"
  obtain en sk1 where en: "slv_vis_parse_channel mem CH_EXCL (json_object_get b ''excl'') (vb_n_skipped out) = (en, sk1)"
    by fastforce
  obtain mu sk2 where mu: "slv_vis_parse_channel mem CH_MUTE (json_object_get b ''mute'') sk1 = (mu, sk2)"
    by fastforce
  let ?c = "vb_has_epoch out \<and> json_is_object ?jb \<and> length (json_members ?jb) > 0 \<and> m_base mem"
  obtain ba sk3 where ba: "(if ?c then fold slv_vis_parse_base (json_members ?jb) ([], sk2) else ([], sk2)) = (ba, sk3)"
    by fastforce
  have o: "out' = out\<lparr>vb_entries := en, vb_mute_entries := mu, vb_base := ba, vb_n_skipped := sk3\<rparr>"
    using assms unfolding slv_vis_parse_channels_def en mu Let_def prod.case ba by simp
  have B: "vis_base_ok ba \<and> sk2 \<le> sk3 \<and> (\<not> vb_has_epoch out \<longrightarrow> ba = []) \<and>
      (m_base mem \<and> vb_has_epoch out \<and> sk3 = sk2 \<longrightarrow> map vis_base_json ba = json_members ?jb)"
    using ba parse_bases [of "json_members ?jb" "[]" sk2 ba sk3] json_members_not_object [of ?jb]
    by (auto split: if_splits)
  note E = parse_channel [OF en] and M = parse_channel [OF mu]
  show "vis_entries_ok (vb_entries out')" "vis_entries_ok (vb_mute_entries out')"
    and "vis_base_ok (vb_base out')" "\<not> vb_has_epoch out \<Longrightarrow> vb_base out' = []"
    and "vb_op out' = vb_op out" "vb_room out' = vb_room out" "vb_has_epoch out' = vb_has_epoch out"
      "vb_room_epoch out' = vb_room_epoch out" "vb_policy_generation out' = vb_policy_generation out"
    using E(1) M(1) B by (simp_all add: o)
  show "vb_n_skipped out \<le> vb_n_skipped out'" using E(2) M(2) B by (simp add: o)
  assume m: "mem = mem_all" and "vb_n_skipped out' = vb_n_skipped out"
  then have "sk1 = vb_n_skipped out" "sk2 = sk1" "sk3 = sk2" using E(2) M(2) B by (auto simp: o)
  then show "map vis_entry_json (vb_entries out') = json_members (json_object_get b ''excl'') \<and>
      map vis_entry_json (vb_mute_entries out') = json_members (json_object_get b ''mute'') \<and>
      (vb_has_epoch out \<longrightarrow> map vis_base_json (vb_base out') = json_members ?jb)"
    using E(4) M(4) B m by (simp add: o mem_all_def)
qed

text \<open>The object the parser reads the batch from.\<close>

definition visbatch_body :: "json option \<Rightarrow> json option" where
  "visbatch_body jroot =
     (let w = json_object_get jroot ''slvoice_vis'' in if json_is_object w then w else jroot)"

text \<open>An accepted batch went through every step; anything else is the zeroed struct but for op and room.\<close>

lemma parse_cases:
  assumes "slv_visbatch_parse loadb mem buf = (st, out)"
  obtains (bad) "st = SLV_VISBATCH_MALFORMED \<or> st = SLV_VISBATCH_TOOBIG"
      "\<exists>op room. out = slv_visbatch_zero\<lparr>vb_op := op, vb_room := room\<rparr>"
  | (good) t jroot op room out1 where "buf = Some t" "t \<noteq> []" "length t \<le> SLV_VISBATCH_MAX_BYTES"
      "loadb t = Some jroot" "json_object_get (visbatch_body (Some jroot)) ''op'' = Some (JString (slv_vis_op_str op))"
      "json_object_get (visbatch_body (Some jroot)) ''room'' = Some (JInt room)"
      "slv_vis_parse_stamp (visbatch_body (Some jroot)) (slv_visbatch_zero\<lparr>vb_op := op, vb_room := room\<rparr>) = Some out1"
      "out = slv_vis_parse_channels mem (visbatch_body (Some jroot)) out1"
      "st = (if vb_entries out \<noteq> [] \<or> vb_mute_entries out \<noteq> [] then SLV_VISBATCH_OK else SLV_VISBATCH_EMPTY)"
proof -
  have z: "slv_visbatch_zero = slv_visbatch_zero\<lparr>vb_op := SLV_VIS_OP_ADD, vb_room := 0\<rparr>"
      "slv_visbatch_zero\<lparr>vb_op := op\<rparr> = slv_visbatch_zero\<lparr>vb_op := op, vb_room := 0\<rparr>" for op
    by (simp_all add: slv_visbatch_zero_def)
  have op: "slv_vis_parse_op (Some s) = Some op \<Longrightarrow> s = slv_vis_op_str op" for s op
    by (auto simp: slv_vis_parse_op_def split: if_splits)
  show thesis
  proof (cases "st = SLV_VISBATCH_MALFORMED \<or> st = SLV_VISBATCH_TOOBIG")
    case True
    moreover have "\<exists>op room. out = slv_visbatch_zero\<lparr>vb_op := op, vb_room := room\<rparr>"
      using assms True
      by (auto simp: slv_visbatch_parse_def Let_def split: option.splits if_splits intro: z)
    ultimately show thesis by (rule bad)
  next
    case False
    with assms show thesis
      by (auto simp: slv_visbatch_parse_def Let_def json_is_string_iff json_is_integer_iff visbatch_body_def
          simp del: json_is_object.simps dest!: op split: option.splits if_splits intro!: good)
  qed
qed

text \<open>The JSON document that carries a batch, as the sim writes it (without the optional wrapper).\<close>

definition visbatch_json :: "slv_visbatch \<Rightarrow> json" where
  "visbatch_json b = JObject
     ([(''op'', JString (slv_vis_op_str (vb_op b))), (''room'', JInt (vb_room b))]
      @ (if vb_has_epoch b
         then [(''room_epoch'', JString (slv_vis_format_epoch (vb_room_epoch b))),
               (''policy_generation'', JInt (vb_policy_generation b)),
               (''base'', JObject (map vis_base_json (vb_base b)))]
         else [])
      @ [(''excl'', JObject (map vis_entry_json (vb_entries b))),
         (''mute'', JObject (map vis_entry_json (vb_mute_entries b)))])"

lemma parse_sources_complete:
  "vis_uuids_ok (ex @ xs) \<Longrightarrow>
   fold slv_vis_parse_source (map JString xs) (ex, sk) = (ex @ xs, sk)"
  by (induction xs arbitrary: ex)
    (auto simp: slv_vis_parse_source_def vis_uuids_ok_def Let_def)

lemma parse_listeners_complete:
  "vis_entries_ok (es @ xs) \<Longrightarrow>
   fold (slv_vis_parse_listener mem_all c) (map vis_entry_json xs) (es, sk) = (es @ xs, sk)"
proof (induction xs arbitrary: es)
  case Nil
  then show ?case by simp
next
  case (Cons e xs)
  then have len: "length es < SLV_VIS_MAX_ENTRIES" and ok: "vis_entry_ok e"
    by (auto simp: vis_entries_ok_def)
  then have "slv_vis_parse_listener mem_all c (vis_entry_json e) (es, sk) = (es @ [e], sk)"
    using parse_sources_complete [of "[]" "e_excl e" sk]
    by (auto simp: slv_vis_parse_listener_def vis_entry_json_def vis_entry_ok_def mem_all_def)
  with Cons.IH [of "es @ [e]"] Cons.prems show ?case by simp
qed

lemma parse_channel_complete:
  "vis_entries_ok xs \<Longrightarrow>
   slv_vis_parse_channel mem_all c (Some (JObject (map vis_entry_json xs))) sk = (xs, sk)"
  using parse_listeners_complete [of "[]" xs c sk]
  by (auto simp: slv_vis_parse_channel_def mem_all_def)

lemma parse_bases_complete:
  "vis_base_ok (bs @ xs) \<Longrightarrow>
   fold slv_vis_parse_base (map vis_base_json xs) (bs, sk) = (bs @ xs, sk)"
  by (induction xs arbitrary: bs)
    (auto simp: slv_vis_parse_base_def vis_base_json_def vis_base_ok_def)

lemma parse_op_str [simp]: "slv_vis_parse_op (Some (slv_vis_op_str op)) = Some op"
  by (cases op) (simp_all add: slv_vis_parse_op_def)

subsection \<open>Properties\<close>

text \<open>
  Whatever bytes a batch holds and whichever allocations fail, the parsed batch respects
  every bound the appliers rely on: at most 128 listeners per channel, at most 128 sources per listener,
  at most 256 base items, every identifier non-empty and short enough for its buffer, an authority stamp
  only with a non-zero epoch and a generation between 1 and 2^32-1 and the zeroed stamp and no base without
  one; and the status is OK exactly when there is an entry to apply.
\<close>

theorem visbatch_parse_bounds:
  "visbatch_ok (snd (slv_visbatch_parse loadb mem buf)) \<and>
   (fst (slv_visbatch_parse loadb mem buf) = SLV_VISBATCH_OK) =
     (\<not> (vb_entries (snd (slv_visbatch_parse loadb mem buf)) = [] \<and>
         vb_mute_entries (snd (slv_visbatch_parse loadb mem buf)) = []))"
proof -
  obtain st out where r: "slv_visbatch_parse loadb mem buf = (st, out)" by fastforce
  then show ?thesis
  proof (cases rule: parse_cases)
    case bad
    then show ?thesis using r by (auto simp: visbatch_ok_def slv_visbatch_zero_def)
  next
    case (good t jroot op room out1)
    note C = parse_channels [OF good(8) [symmetric]] and S = parse_stamp_ok [OF good(7)]
    have "visbatch_ok out"
      using C(1-4) S by (auto simp: visbatch_ok_def C(5-9) slv_visbatch_zero_def split: if_splits)
    with r good(9) show ?thesis by simp
  qed
qed

text \<open>
  A batch is never applied in part without being counted: when every allocation succeeds and the
  parser reports no skipped item, the parsed entries, mute entries and base items are exactly the
  members of the document, in order.
\<close>

theorem visbatch_parse_lossless:
  assumes "slv_visbatch_parse loadb mem_all (Some t) = (st, out)"
    and "st = SLV_VISBATCH_OK" and "vb_n_skipped out = 0"
  shows "\<exists>b. visbatch_body (loadb t) = Some b \<and>
    map vis_entry_json (vb_entries out) = json_members (json_object_get (Some b) ''excl'') \<and>
    map vis_entry_json (vb_mute_entries out) = json_members (json_object_get (Some b) ''mute'') \<and>
    map vis_base_json (vb_base out) =
      (if vb_has_epoch out then json_members (json_object_get (Some b) ''base'') else [])"
  using assms(1)
proof (cases rule: parse_cases)
  case bad
  then show ?thesis using assms(2) by simp
next
  case (good t' jroot op room out1)
  have z: "vb_n_skipped out1 = 0"
    using good(7) by (auto simp: slv_vis_parse_stamp_def slv_visbatch_zero_def Let_def split: if_splits)
  note C = parse_channels [OF good(8) [symmetric]]
  obtain b where b: "visbatch_body (Some jroot) = Some b"
    using good(5) by (cases "visbatch_body (Some jroot)") auto
  show ?thesis
    using C(11) z assms(3) b good(1,4) C(4,7) by (auto simp: b)
qed

text \<open>
  C40 Round trip of the feed: every batch within the wire limits is parsed back, field for field, from the
  document that carries it.
\<close>

theorem visbatch_roundtrip:
  assumes "visbatch_ok b" and "vb_n_skipped b = 0"
    and "loadb t = Some (visbatch_json b)" and "t \<noteq> []" and "length t \<le> SLV_VISBATCH_MAX_BYTES"
  shows "snd (slv_visbatch_parse loadb mem_all (Some t)) = b"
proof -
  let ?j = "Some (visbatch_json b)"
  have get: "json_object_get ?j ''slvoice_vis'' = None"
    "json_object_get ?j ''op'' = Some (JString (slv_vis_op_str (vb_op b)))"
    "json_object_get ?j ''room'' = Some (JInt (vb_room b))"
    "json_object_get ?j ''excl'' = Some (JObject (map vis_entry_json (vb_entries b)))"
    "json_object_get ?j ''mute'' = Some (JObject (map vis_entry_json (vb_mute_entries b)))"
    "json_object_get ?j ''room_epoch'' =
      (if vb_has_epoch b then Some (JString (slv_vis_format_epoch (vb_room_epoch b))) else None)"
    "json_object_get ?j ''policy_generation'' =
      (if vb_has_epoch b then Some (JInt (vb_policy_generation b)) else None)"
    "json_object_get ?j ''base'' =
      (if vb_has_epoch b then Some (JObject (map vis_base_json (vb_base b))) else None)"
    by (simp_all add: visbatch_json_def)
  have obj: "json_is_object ?j" by (simp add: visbatch_json_def)
  define o1 where "o1 = slv_visbatch_zero\<lparr>vb_op := vb_op b, vb_room := vb_room b\<rparr>"
  define o2 where "o2 = o1\<lparr>vb_has_epoch := vb_has_epoch b, vb_room_epoch := vb_room_epoch b,
    vb_policy_generation := vb_policy_generation b\<rparr>"
  have ok: "vis_entries_ok (vb_entries b)" "vis_entries_ok (vb_mute_entries b)" "vis_base_ok (vb_base b)"
    using assms(1) by (simp_all add: visbatch_ok_def)
  have stamp: "slv_vis_parse_stamp ?j o1 = Some o2"
    using assms(1)
    by (auto simp: slv_vis_parse_stamp_def get visbatch_ok_def parse_format_epoch o1_def o2_def
        slv_visbatch_zero_def)
  have "slv_vis_parse_channels mem_all ?j o2 = b"
    using assms(1,2) parse_bases_complete [of "[]" "vb_base b" 0] ok
    by (cases "vb_has_epoch b"; cases "vb_base b = []";
        auto intro!: slv_visbatch.equality simp: slv_vis_parse_channels_def get parse_channel_complete
          o1_def o2_def slv_visbatch_zero_def visbatch_ok_def)
  then show ?thesis
    using assms(3-5) stamp
    by (simp add: slv_visbatch_parse_def get obj Let_def o1_def)
qed

definition visbatch_sample :: slv_visbatch where
  "visbatch_sample = slv_visbatch_zero\<lparr>vb_op := SLV_VIS_OP_REPLACE, vb_room := 7,
     vb_entries := [\<lparr>e_listener = ''a'', e_excl = [''b'', ''c'']\<rparr>], vb_has_epoch := True,
     vb_room_epoch := 5, vb_policy_generation := 2, vb_base := [\<lparr>bs_listener = ''a'', bs_gen = 1\<rparr>]\<rparr>"

lemma visbatch_sample_ok: "visbatch_ok visbatch_sample" "vb_n_skipped visbatch_sample = 0"
  by (simp_all add: visbatch_sample_def visbatch_ok_def slv_visbatch_zero_def vis_entries_ok_def
      vis_entry_ok_def vis_uuids_ok_def vis_base_ok_def slv_const)

theorem visbatch_roundtrip_witness:
  "snd (slv_visbatch_parse (\<lambda>t. Some (visbatch_json visbatch_sample)) mem_all (Some ''x'')) = visbatch_sample"
  by (rule visbatch_roundtrip) (simp_all add: visbatch_sample_ok slv_const)

theorem visbatch_parse_lossless_witness:
  "\<exists>out. slv_visbatch_parse (\<lambda>t. Some (visbatch_json visbatch_sample)) mem_all (Some ''x'') =
       (SLV_VISBATCH_OK, out) \<and>
     map vis_entry_json (vb_entries out) = [(''a'', JArray [JString ''b'', JString ''c''])]"
proof -
  let ?r = "slv_visbatch_parse (\<lambda>t. Some (visbatch_json visbatch_sample)) mem_all (Some ''x'')"
  have r: "?r = (SLV_VISBATCH_OK, visbatch_sample)"
    by (simp add: slv_visbatch_parse_def visbatch_sample_def visbatch_json_def slv_visbatch_zero_def
        slv_vis_parse_stamp_def slv_vis_parse_channels_def slv_vis_parse_channel_def slv_vis_parse_listener_def
        slv_vis_parse_source_def slv_vis_parse_base_def vis_entry_json_def vis_base_json_def mem_all_def
        slv_vis_parse_op_def parse_format_epoch slv_const)
  have "json_object_get (visbatch_body (Some (visbatch_json visbatch_sample))) ''excl'' =
      Some (JObject [(''a'', JArray [JString ''b'', JString ''c''])])"
    by (simp add: visbatch_body_def visbatch_json_def visbatch_sample_def slv_visbatch_zero_def
        vis_entry_json_def Let_def)
  with visbatch_parse_lossless [OF r refl visbatch_sample_ok(2)] r show ?thesis by auto
qed

end
