(* ===== verification/Deferred.thy ===== *)
theory Deferred
  imports Visbatch
begin

text \<open>
  The per-room store of columns deferred for listeners that have not joined yet,
  \<^verbatim>\<open>src/src/deferred.h\<close> and \<^verbatim>\<open>src/src/deferred.c\<close>. The first \<open>n\<close> slots of the entry array are a list;
  a heap column and its count are a list. The allocation in \<^verbatim>\<open>channel_update\<close> may fail: \<open>mem\<close> says
  whether it succeeds.
\<close>

subsection \<open>Data\<close>

record slv_deferred_entry =
  de_listener :: string
  de_excl :: "string list"
  de_mute :: "string list"
  de_added_seq :: nat

record slv_deferred_store =
  ds_entries :: "slv_deferred_entry list"
  ds_seq :: nat
  ds_adds :: nat
  ds_replaced :: nat
  ds_replayed :: nat
  ds_evicted :: nat

subsection \<open>Operations\<close>

definition slv_dcpy :: "string \<Rightarrow> string" where
  "slv_dcpy src = (let n = length src; n' = (if n \<ge> SLV_UUID_LEN then SLV_UUID_LEN - 1 else n) in take n' src)"

definition slv_deferred_init :: slv_deferred_store where
  "slv_deferred_init = \<lparr>ds_entries = [], ds_seq = 0, ds_adds = 0, ds_replaced = 0, ds_replayed = 0, ds_evicted = 0\<rparr>"

definition slv_deferred_free_all :: "slv_deferred_store \<Rightarrow> slv_deferred_store" where
  "slv_deferred_free_all st = st\<lparr>ds_entries := []\<rparr>"

definition slv_deferred_count :: "slv_deferred_store option \<Rightarrow> nat" where
  "slv_deferred_count st = (case st of None \<Rightarrow> 0 | Some s \<Rightarrow> length (ds_entries s))"

fun find_idx :: "slv_deferred_entry list \<Rightarrow> string \<Rightarrow> nat option" where
  "find_idx [] listener = None"
| "find_idx (e # es) listener =
     (if de_listener e = listener then Some 0 else map_option Suc (find_idx es listener))"

definition slv_deferred_get :: "slv_deferred_store \<Rightarrow> string \<Rightarrow> slv_deferred_entry option" where
  "slv_deferred_get st listener =
     (case find_idx (ds_entries st) listener of None \<Rightarrow> None | Some i \<Rightarrow> Some (ds_entries st ! i))"

definition remove_at :: "slv_deferred_store \<Rightarrow> nat \<Rightarrow> slv_deferred_store" where
  "remove_at st i = st\<lparr>ds_entries := swap_remove i (ds_entries st)\<rparr>"

fun col_has :: "string list \<Rightarrow> string \<Rightarrow> bool" where
  "col_has [] s = False"
| "col_has (c # cs) s = (c = s \<or> col_has cs s)"

definition channel_update ::
  "bool \<Rightarrow> slv_vis_op \<Rightarrow> string list \<Rightarrow> string list \<Rightarrow> string list"
where
  "channel_update mem op src col =
     (if op = SLV_VIS_OP_REMOVE then filter (\<lambda>c. \<not> col_has src c) col
      else if op = SLV_VIS_OP_ADD \<and> length col > 0 then
        (let new = filter (\<lambda>j. \<not> col_has col (src ! j) \<and> \<not> col_has (take j src) (src ! j)) [0..<length src] in
         if length new = 0 then col
         else if \<not> mem then col
         else col @ map (\<lambda>j. slv_dcpy (src ! j)) new)
      else if length src = 0 then []
      else if \<not> mem then col
      else fold (\<lambda>s fresh. if \<not> col_has fresh s then fresh @ [slv_dcpy s] else fresh) src [])"

text \<open>The index of the record with the lowest stamp.\<close>

definition oldest_idx :: "slv_deferred_entry list \<Rightarrow> nat" where
  "oldest_idx es =
     fold (\<lambda>k old. if de_added_seq (es ! k) < de_added_seq (es ! old) then k else old) [1..<length es] 0"

text \<open>
  \<^verbatim>\<open>slv_deferred_put\<close> in its three steps: make room, find or create the record, update one channel
  and drop the record when both are empty.
\<close>

definition deferred_evict :: "slv_deferred_store \<Rightarrow> slv_deferred_store" where
  "deferred_evict st =
     (if length (ds_entries st) \<ge> SLV_VIS_MAX_DEFERRED
      then (remove_at st (oldest_idx (ds_entries st)))\<lparr>ds_evicted := ds_evicted st + 1\<rparr>
      else st)"

definition deferred_create :: "slv_deferred_store \<Rightarrow> string \<Rightarrow> slv_deferred_store" where
  "deferred_create st listener =
     st\<lparr>ds_entries := ds_entries st @ [\<lparr>de_listener = slv_dcpy listener, de_excl = [], de_mute = [],
                                          de_added_seq = ds_seq st + 1\<rparr>],
        ds_seq := ds_seq st + 1, ds_adds := ds_adds st + 1\<rparr>"

definition entry_update ::
  "bool \<Rightarrow> slv_vis_op \<Rightarrow> string list \<Rightarrow> bool \<Rightarrow> slv_deferred_entry \<Rightarrow> slv_deferred_entry"
where
  "entry_update mem op src is_mute e =
     (if is_mute then e\<lparr>de_mute := channel_update mem op src (de_mute e)\<rparr>
      else e\<lparr>de_excl := channel_update mem op src (de_excl e)\<rparr>)"

definition deferred_write ::
  "bool \<Rightarrow> slv_deferred_store \<Rightarrow> nat \<Rightarrow> slv_vis_op \<Rightarrow> string list \<Rightarrow> bool \<Rightarrow> slv_deferred_store"
where
  "deferred_write mem st i op src is_mute =
     (let e = entry_update mem op src is_mute (ds_entries st ! i);
          st = st\<lparr>ds_entries := (ds_entries st)[i := e]\<rparr>
      in if length (de_excl e) = 0 \<and> length (de_mute e) = 0 then remove_at st i else st)"

definition slv_deferred_put ::
  "bool \<Rightarrow> slv_deferred_store \<Rightarrow> string \<Rightarrow> slv_vis_op \<Rightarrow> string list \<Rightarrow> bool \<Rightarrow> slv_deferred_store"
where
  "slv_deferred_put mem st listener op src is_mute =
     (case find_idx (ds_entries st) listener of
        None \<Rightarrow>
         (if op = SLV_VIS_OP_REMOVE \<or> length src = 0 then st
          else (let st = deferred_evict st; i = length (ds_entries st) in
                deferred_write mem (deferred_create st listener) i op src is_mute))
      | Some i \<Rightarrow> deferred_write mem (st\<lparr>ds_replaced := ds_replaced st + 1\<rparr>) i op src is_mute)"

definition slv_deferred_replay_done :: "slv_deferred_store \<Rightarrow> string \<Rightarrow> bool \<times> slv_deferred_store" where
  "slv_deferred_replay_done st listener =
     (case find_idx (ds_entries st) listener of
        None \<Rightarrow> (False, st)
      | Some i \<Rightarrow> (True, (remove_at st i)\<lparr>ds_replayed := ds_replayed st + 1\<rparr>))"

subsection \<open>The channel update is a set operation\<close>

lemma col_has_iff [simp]: "col_has col s \<longleftrightarrow> s \<in> set col"
  by (induction col) auto

lemma length_slv_dcpy [simp]: "length (slv_dcpy s) < SLV_UUID_LEN"
  by (simp add: slv_dcpy_def SLV_UUID_LEN_def Let_def)

lemma slv_dcpy_id [simp]: "length s < SLV_UUID_LEN \<Longrightarrow> slv_dcpy s = s"
  by (simp add: slv_dcpy_def)

definition src_ok :: "string list \<Rightarrow> bool" where
  "src_ok src \<longleftrightarrow> (\<forall>s\<in>set src. length s < SLV_UUID_LEN)"

fun op_apply :: "slv_vis_op \<Rightarrow> string set \<Rightarrow> string set \<Rightarrow> string set" where
  "op_apply SLV_VIS_OP_ADD S C = C \<union> S"
| "op_apply SLV_VIS_OP_REMOVE S C = C - S"
| "op_apply SLV_VIS_OP_REPLACE S C = S"

lemma first_occurrences:
  "set (map ((!) src) (filter (\<lambda>j. src ! j \<notin> X \<and> src ! j \<notin> set (take j src)) [0..<length src])) = set src - X"
proof (intro equalityI subsetI)
  fix s assume "s \<in> set src - X"
  then obtain ys zs where "src = ys @ s # zs" "s \<notin> set ys" "s \<notin> X" by (auto dest: split_list_first)
  then have "length ys < length src" "src ! length ys = s" "src ! length ys \<notin> X \<and> src ! length ys \<notin> set (take (length ys) src)"
    by auto
  then show "s \<in> set (map ((!) src) (filter (\<lambda>j. src ! j \<notin> X \<and> src ! j \<notin> set (take j src)) [0..<length src]))"
    by (force simp: image_iff)
qed auto

lemma distinct_first_occurrences:
  "distinct (map ((!) src) (filter (\<lambda>j. src ! j \<notin> X \<and> src ! j \<notin> set (take j src)) [0..<length src]))"
proof (rule distinct_map [THEN iffD2], intro conjI inj_onI)
  fix i j
  assume i: "i \<in> set (filter (\<lambda>j. src ! j \<notin> X \<and> src ! j \<notin> set (take j src)) [0..<length src])"
    and j: "j \<in> set (filter (\<lambda>j. src ! j \<notin> X \<and> src ! j \<notin> set (take j src)) [0..<length src])"
    and eq: "src ! i = src ! j"
  show "i = j"
    using i j eq by (cases i j rule: linorder_cases) (auto simp: in_set_conv_nth)
qed simp

lemma replace_fold:
  "src_ok src \<Longrightarrow> distinct acc \<Longrightarrow>
   set (fold (\<lambda>s fresh. if s \<notin> set fresh then fresh @ [slv_dcpy s] else fresh) src acc) = set acc \<union> set src \<and>
   distinct (fold (\<lambda>s fresh. if s \<notin> set fresh then fresh @ [slv_dcpy s] else fresh) src acc)"
  by (induction src arbitrary: acc) (auto simp: src_ok_def)

lemma channel_update_correct:
  assumes "src_ok src" "distinct col"
  shows "distinct (channel_update mem op src col)"
    and "set (channel_update True op src col) = op_apply op (set src) (set col)"
proof -
  have m: "map (\<lambda>j. slv_dcpy (src ! j)) (filter P [0..<length src]) = map ((!) src) (filter P [0..<length src])" for P
    using assms(1) by (auto simp: src_ok_def)
  note F = first_occurrences [of src "set col"] and D = distinct_first_occurrences [of src "set col"]
  have e: "filter (\<lambda>j. src ! j \<notin> set col \<and> src ! j \<notin> set (take j src)) [0..<length src] = [] \<Longrightarrow>
      set src \<subseteq> set col"
    using F by auto
  show "distinct (channel_update mem op src col)"
    using assms D F replace_fold [OF assms(1), of "[]"]
    by (auto simp: channel_update_def Let_def m simp del: map_map set_map distinct_map)
  show "set (channel_update True op src col) = op_apply op (set src) (set col)"
    using assms F e replace_fold [OF assms(1), of "[]"]
    by (cases op) (auto simp: channel_update_def Let_def m simp del: map_map set_map distinct_map)
qed

subsection \<open>The store is a map from listeners to records\<close>

abbreviation de_listeners :: "slv_deferred_entry list \<Rightarrow> string list" where
  "de_listeners es \<equiv> map de_listener es"

lemma find_idx_Some: "find_idx es l = Some i \<Longrightarrow> i < length es \<and> de_listener (es ! i) = l"
  by (induction es arbitrary: i) (auto split: if_splits)

lemma find_idx_None: "find_idx es l = None \<longleftrightarrow> l \<notin> set (de_listeners es)"
  by (induction es) auto

lemma get_None_iff: "slv_deferred_get st l = None \<longleftrightarrow> l \<notin> set (de_listeners (ds_entries st))"
  by (auto simp: slv_deferred_get_def find_idx_None split: option.splits)
    (metis find_idx_None image_eqI list.set_map option.distinct(1))+

lemma get_Some_iff:
  assumes "distinct (de_listeners (ds_entries st))"
  shows "slv_deferred_get st l = Some e \<longleftrightarrow> e \<in> set (ds_entries st) \<and> de_listener e = l"
proof
  assume "slv_deferred_get st l = Some e"
  then show "e \<in> set (ds_entries st) \<and> de_listener e = l"
    by (auto simp: slv_deferred_get_def dest: find_idx_Some split: option.splits)
next
  assume e: "e \<in> set (ds_entries st) \<and> de_listener e = l"
  then obtain e' where g: "slv_deferred_get st l = Some e'"
    using get_None_iff [of st l] by (cases "slv_deferred_get st l") auto
  then have "e' \<in> set (ds_entries st) \<and> de_listener e' = l"
    by (auto simp: slv_deferred_get_def dest: find_idx_Some split: option.splits)
  with e assms g show "slv_deferred_get st l = Some e" by (auto simp: distinct_map dest: inj_onD)
qed

text \<open>Two stores with the same set of records look the same.\<close>

lemma get_eqI:
  assumes "distinct (de_listeners (ds_entries st))"
    and "\<And>l e. m l = Some e \<longleftrightarrow> e \<in> set (ds_entries st) \<and> de_listener e = l"
  shows "slv_deferred_get st = m"
proof
  fix l
  show "slv_deferred_get st l = m l"
    using get_Some_iff [OF assms(1), of l] assms(2) [of l]
    by (cases "slv_deferred_get st l"; cases "m l") auto
qed

lemma set_swap_remove:
  assumes "distinct (map f xs)" "i < length xs"
  shows "set (swap_remove i xs) = set xs - {xs ! i}"
  using assms distinct_map_swap_remove(2) [of "\<lambda>x. x" xs i] by (simp add: distinct_map)

lemma get_remove_at:
  assumes "distinct (de_listeners (ds_entries st))" "i < length (ds_entries st)"
  shows "slv_deferred_get (remove_at st i) = (slv_deferred_get st)(de_listener (ds_entries st ! i) := None)"
proof (rule get_eqI)
  show "distinct (de_listeners (ds_entries (remove_at st i)))"
    using assms distinct_map_swap_remove(1) by (simp add: remove_at_def)
  fix l e
  have "e \<in> set (ds_entries st) \<Longrightarrow> de_listener e = de_listener (ds_entries st ! i) \<Longrightarrow> e = ds_entries st ! i"
    using assms by (auto simp: distinct_map dest: inj_onD)
  then show "((slv_deferred_get st)(de_listener (ds_entries st ! i) := None)) l = Some e \<longleftrightarrow>
      e \<in> set (ds_entries (remove_at st i)) \<and> de_listener e = l"
    using assms by (auto simp: remove_at_def set_swap_remove [OF assms] get_Some_iff [OF assms(1)])
qed

lemma get_update_at:
  assumes "distinct (de_listeners (ds_entries st))" "i < length (ds_entries st)"
    and "de_listener e = de_listener (ds_entries st ! i)"
  shows "slv_deferred_get (st\<lparr>ds_entries := (ds_entries st)[i := e]\<rparr>) =
    (slv_deferred_get st)(de_listener e := Some e)"
    and "de_listeners ((ds_entries st)[i := e]) = de_listeners (ds_entries st)"
proof -
  show m: "de_listeners ((ds_entries st)[i := e]) = de_listeners (ds_entries st)"
    using assms(2,3) by (simp add: map_update) (metis list_update_id nth_map)
  show "slv_deferred_get (st\<lparr>ds_entries := (ds_entries st)[i := e]\<rparr>) =
    (slv_deferred_get st)(de_listener e := Some e)"
  proof (rule get_eqI)
    show "distinct (de_listeners (ds_entries (st\<lparr>ds_entries := (ds_entries st)[i := e]\<rparr>)))"
      using m assms(1) by simp
    fix l e'
    have "e' \<in> set ((ds_entries st)[i := e]) \<longleftrightarrow> e' = e \<or> e' \<in> set (ds_entries st) \<and> e' \<noteq> ds_entries st ! i"
      using assms(1,2) by (auto simp: set_update_distinct distinct_map)
    moreover have "e' \<in> set (ds_entries st) \<Longrightarrow> de_listener e' = de_listener e \<Longrightarrow> e' = ds_entries st ! i"
      using assms by (auto simp: distinct_map dest: inj_onD)
    ultimately show "((slv_deferred_get st)(de_listener e := Some e)) l = Some e' \<longleftrightarrow>
        e' \<in> set (ds_entries (st\<lparr>ds_entries := (ds_entries st)[i := e]\<rparr>)) \<and> de_listener e' = l"
      using assms(2,3) by (auto simp: get_Some_iff [OF assms(1)])
  qed
qed

lemma get_create:
  assumes "distinct (de_listeners (ds_entries st))" "slv_deferred_get st l = None" "length l < SLV_UUID_LEN"
  shows "slv_deferred_get (deferred_create st l) =
    (slv_deferred_get st)(l \<mapsto> \<lparr>de_listener = l, de_excl = [], de_mute = [], de_added_seq = ds_seq st + 1\<rparr>)"
    and "distinct (de_listeners (ds_entries (deferred_create st l)))"
proof -
  show d: "distinct (de_listeners (ds_entries (deferred_create st l)))"
    using assms by (auto simp: deferred_create_def get_None_iff)
  show "slv_deferred_get (deferred_create st l) =
    (slv_deferred_get st)(l \<mapsto> \<lparr>de_listener = l, de_excl = [], de_mute = [], de_added_seq = ds_seq st + 1\<rparr>)"
    using assms by (intro get_eqI [OF d]) (auto simp: deferred_create_def get_Some_iff get_None_iff)
qed

text \<open>The oldest record: a position in range with the least stamp.\<close>

lemma oldest_fold:
  "o0 < length es \<Longrightarrow> (\<forall>k\<in>set ks. k < length es) \<Longrightarrow>
   (let r = fold (\<lambda>k old. if de_added_seq (es ! k) < de_added_seq (es ! old) then k else old) ks o0 in
    r < length es \<and> de_added_seq (es ! r) \<le> de_added_seq (es ! o0) \<and>
    (\<forall>k\<in>set ks. de_added_seq (es ! r) \<le> de_added_seq (es ! k)))"
  by (induction ks arbitrary: o0) (auto simp: Let_def, (smt (verit) order_trans less_imp_le not_less)+)

lemma oldest_idx:
  assumes "es \<noteq> []"
  shows "oldest_idx es < length es"
    and "e \<in> set es \<Longrightarrow> de_added_seq (es ! oldest_idx es) \<le> de_added_seq e"
proof -
  note F = oldest_fold [of 0 es "[1..<length es]", folded oldest_idx_def, unfolded Let_def]
  show "oldest_idx es < length es" using F assms by simp
  assume "e \<in> set es"
  then obtain k where "k < length es" "es ! k = e" by (auto simp: in_set_conv_nth)
  with F assms show "de_added_seq (es ! oldest_idx es) \<le> de_added_seq e" by (cases k) auto
qed

subsection \<open>Invariant\<close>

definition deferred_entry_ok :: "slv_deferred_entry \<Rightarrow> bool" where
  "deferred_entry_ok e \<longleftrightarrow>
     length (de_listener e) < SLV_UUID_LEN \<and>
     distinct (de_excl e) \<and> distinct (de_mute e) \<and> (de_excl e \<noteq> [] \<or> de_mute e \<noteq> [])"

text \<open>
  At most one record per listener, none of them empty, never more than the cap, stamps that are
  distinct and not ahead of the clock, and counters that account for every record in the store.
\<close>

definition deferred_inv :: "slv_deferred_store \<Rightarrow> bool" where
  "deferred_inv st \<longleftrightarrow>
     length (ds_entries st) \<le> SLV_VIS_MAX_DEFERRED \<and>
     distinct (de_listeners (ds_entries st)) \<and>
     distinct (map de_added_seq (ds_entries st)) \<and>
     (\<forall>e\<in>set (ds_entries st). deferred_entry_ok e \<and> de_added_seq e \<le> ds_seq st) \<and>
     length (ds_entries st) + ds_replayed st + ds_evicted st \<le> ds_adds st"

lemma deferred_init_inv [slv_inv]: "deferred_inv slv_deferred_init"
  by (simp add: deferred_inv_def slv_deferred_init_def)

lemma deferred_free_all_inv [slv_inv]: "deferred_inv st \<Longrightarrow> deferred_inv (slv_deferred_free_all st)"
  by (simp add: deferred_inv_def slv_deferred_free_all_def)

text \<open>The invariant without the requirement that the record being written is not empty.\<close>

definition deferred_pre :: "slv_deferred_store \<Rightarrow> nat \<Rightarrow> bool" where
  "deferred_pre st i \<longleftrightarrow>
     i < length (ds_entries st) \<and>
     length (ds_entries st) \<le> SLV_VIS_MAX_DEFERRED \<and>
     distinct (de_listeners (ds_entries st)) \<and>
     distinct (map de_added_seq (ds_entries st)) \<and>
     (\<forall>e\<in>set (ds_entries st). de_added_seq e \<le> ds_seq st \<and> length (de_listener e) < SLV_UUID_LEN) \<and>
     distinct (de_excl (ds_entries st ! i)) \<and> distinct (de_mute (ds_entries st ! i)) \<and>
     (\<forall>e\<in>set (ds_entries st). e \<noteq> ds_entries st ! i \<longrightarrow> deferred_entry_ok e) \<and>
     length (ds_entries st) + ds_replayed st + ds_evicted st \<le> ds_adds st"

lemma inv_pre: "deferred_inv st \<Longrightarrow> i < length (ds_entries st) \<Longrightarrow> deferred_pre st i"
  by (auto simp: deferred_inv_def deferred_pre_def deferred_entry_ok_def)

lemma entry_update_sel [simp]:
  "de_listener (entry_update mem op src m e) = de_listener e"
  "de_added_seq (entry_update mem op src m e) = de_added_seq e"
  by (simp_all add: entry_update_def)

lemma pre_remove_inv:
  assumes "deferred_pre st i"
  shows "deferred_inv (remove_at st i)"
    and "length (ds_entries st) - 1 + ds_replayed st + ds_evicted st + 1 \<le> ds_adds st"
proof -
  have d: "distinct (de_listeners (ds_entries st))" "distinct (map de_added_seq (ds_entries st))"
    and i: "i < length (ds_entries st)" using assms by (auto simp: deferred_pre_def)
  show "deferred_inv (remove_at st i)"
    using assms set_swap_remove [OF d(1) i] distinct_map_swap_remove(1) [OF d(1) i]
      distinct_map_swap_remove(1) [OF d(2) i]
    by (auto simp: deferred_inv_def deferred_pre_def remove_at_def)
  show "length (ds_entries st) - 1 + ds_replayed st + ds_evicted st + 1 \<le> ds_adds st"
    using assms i by (auto simp: deferred_pre_def)
qed

lemma deferred_write_inv:
  assumes "deferred_pre st i" "src_ok src"
  shows "deferred_inv (deferred_write mem st i op src m)"
proof -
  let ?e = "entry_update mem op src m (ds_entries st ! i)"
  let ?st = "st\<lparr>ds_entries := (ds_entries st)[i := ?e]\<rparr>"
  have i: "i < length (ds_entries st)" and d: "distinct (de_listeners (ds_entries st))"
    using assms(1) by (auto simp: deferred_pre_def)
  have c: "distinct (de_excl ?e)" "distinct (de_mute ?e)"
    using assms by (auto simp: entry_update_def deferred_pre_def channel_update_correct(1))
  have seq: "map de_added_seq ((ds_entries st)[i := ?e]) = map de_added_seq (ds_entries st)"
    using i by (simp add: map_update) (metis list_update_id nth_map)
  have lst: "de_listeners ((ds_entries st)[i := ?e]) = de_listeners (ds_entries st)"
    using get_update_at(2) [OF d i, of ?e] by simp
  have set: "set ((ds_entries st)[i := ?e]) = insert ?e (set (ds_entries st) - {ds_entries st ! i})"
    using i d by (simp add: set_update_distinct distinct_map)
  have pre: "deferred_pre ?st i"
    using assms(1) c i unfolding deferred_pre_def
    by (simp add: set lst seq)
  show ?thesis
  proof (cases "de_excl ?e = [] \<and> de_mute ?e = []")
    case True
    with pre_remove_inv(1) [OF pre] show ?thesis by (simp add: deferred_write_def Let_def)
  next
    case False
    with pre c i have "deferred_inv ?st"
      by (auto simp: deferred_inv_def deferred_pre_def deferred_entry_ok_def)
    with False show ?thesis by (auto simp: deferred_write_def Let_def)
  qed
qed

lemma deferred_evict_inv:
  assumes "deferred_inv st"
  shows "deferred_inv (deferred_evict st)" "length (ds_entries (deferred_evict st)) < SLV_VIS_MAX_DEFERRED"
    and "ds_seq (deferred_evict st) = ds_seq st"
    and "set (ds_entries (deferred_evict st)) \<subseteq> set (ds_entries st)"
proof -
  have o: "oldest_idx (ds_entries st) < length (ds_entries st)" if "length (ds_entries st) \<ge> SLV_VIS_MAX_DEFERRED"
    using that by (intro oldest_idx) (auto simp: slv_const)
  show "deferred_inv (deferred_evict st)"
    using assms inv_pre [OF assms o] pre_remove_inv [of st "oldest_idx (ds_entries st)"] o
    by (auto simp: deferred_evict_def deferred_inv_def remove_at_def)
  show "length (ds_entries (deferred_evict st)) < SLV_VIS_MAX_DEFERRED"
    using assms o by (auto simp: deferred_evict_def deferred_inv_def remove_at_def)
  show "ds_seq (deferred_evict st) = ds_seq st" by (simp add: deferred_evict_def remove_at_def)
  show "set (ds_entries (deferred_evict st)) \<subseteq> set (ds_entries st)"
    using o set_swap_remove_subset by (auto simp: deferred_evict_def remove_at_def)
qed

lemma deferred_create_pre:
  assumes "deferred_inv st" "length (ds_entries st) < SLV_VIS_MAX_DEFERRED"
    and "l \<notin> set (de_listeners (ds_entries st))" "length l < SLV_UUID_LEN"
  shows "deferred_pre (deferred_create st l) (length (ds_entries st))"
  using assms
  by (auto simp: deferred_inv_def deferred_pre_def deferred_create_def deferred_entry_ok_def nth_append Suc_le_eq)

lemma deferred_put_inv [slv_inv]:
  assumes "deferred_inv st" "src_ok src" "length l < SLV_UUID_LEN"
  shows "deferred_inv (slv_deferred_put mem st l op src m)"
proof (cases "find_idx (ds_entries st) l")
  case None
  then have "l \<notin> set (de_listeners (ds_entries (deferred_evict st)))"
    using deferred_evict_inv(4) [OF assms(1)] by (auto simp: find_idx_None)
  then have "deferred_pre (deferred_create (deferred_evict st) l) (length (ds_entries (deferred_evict st)))"
    by (intro deferred_create_pre deferred_evict_inv assms)
  with None assms(1,2) show ?thesis
    by (auto simp: slv_deferred_put_def Let_def intro: deferred_write_inv)
next
  case (Some i)
  then have "deferred_pre (st\<lparr>ds_replaced := ds_replaced st + 1\<rparr>) i"
    using inv_pre [OF assms(1)] by (auto dest: find_idx_Some simp: deferred_pre_def)
  with Some assms(2) show ?thesis by (simp add: slv_deferred_put_def deferred_write_inv)
qed

lemma deferred_replay_done_inv [slv_inv]:
  assumes "deferred_inv st"
  shows "deferred_inv (snd (slv_deferred_replay_done st l))"
proof (cases "find_idx (ds_entries st) l")
  case (Some i)
  then have "deferred_pre st i" using inv_pre [OF assms] by (auto dest: find_idx_Some)
  from pre_remove_inv [OF this] Some show ?thesis
    by (auto simp: slv_deferred_replay_done_def deferred_inv_def remove_at_def)
qed (use assms in \<open>simp add: slv_deferred_replay_done_def\<close>)

subsection \<open>Abstraction: the columns held for each listener\<close>

type_synonym columns = "string set \<times> string set"

definition deferred_cols :: "slv_deferred_store \<Rightarrow> string \<Rightarrow> columns" where
  "deferred_cols st l =
     (case slv_deferred_get st l of None \<Rightarrow> ({}, {}) | Some e \<Rightarrow> (set (de_excl e), set (de_mute e)))"

text \<open>What one batch entry does to a pair of columns.\<close>

definition col_step :: "bool \<Rightarrow> slv_vis_op \<Rightarrow> string set \<Rightarrow> columns \<Rightarrow> columns" where
  "col_step is_mute op S c =
     (if is_mute then (fst c, op_apply op S (snd c)) else (op_apply op S (fst c), snd c))"

lemma cols_remove_at:
  assumes "distinct (de_listeners (ds_entries st))" "i < length (ds_entries st)"
  shows "deferred_cols (remove_at st i) = (deferred_cols st)(de_listener (ds_entries st ! i) := ({}, {}))"
  by (rule ext) (simp add: deferred_cols_def get_remove_at [OF assms])

lemma cols_entries_cong: "ds_entries st = ds_entries st' \<Longrightarrow> deferred_cols st = deferred_cols st'"
  by (rule ext) (simp add: deferred_cols_def slv_deferred_get_def split: option.split)

lemma cols_write:
  assumes "deferred_pre st i" "src_ok src"
  shows "deferred_cols (deferred_write True st i op src m) =
    (deferred_cols st)(de_listener (ds_entries st ! i) :=
       col_step m op (set src) (deferred_cols st (de_listener (ds_entries st ! i))))"
proof -
  let ?o = "ds_entries st ! i"
  let ?e = "entry_update True op src m ?o"
  let ?st = "st\<lparr>ds_entries := (ds_entries st)[i := ?e]\<rparr>"
  have i: "i < length (ds_entries st)" and d: "distinct (de_listeners (ds_entries st))"
    and c: "distinct (de_excl ?o)" "distinct (de_mute ?o)"
    using assms(1) by (auto simp: deferred_pre_def)
  have get: "slv_deferred_get st (de_listener ?o) = Some ?o" using i by (simp add: get_Some_iff [OF d])
  have e: "(set (de_excl ?e), set (de_mute ?e)) = col_step m op (set src) (set (de_excl ?o), set (de_mute ?o))"
    using c assms(2) by (simp add: entry_update_def col_step_def channel_update_correct(2))
  have upd: "deferred_cols ?st = (deferred_cols st)(de_listener ?o := (set (de_excl ?e), set (de_mute ?e)))"
    by (rule ext) (simp add: deferred_cols_def get_update_at(1) [OF d i, of ?e])
  have "distinct (de_listeners (ds_entries ?st))" using get_update_at(2) [OF d i, of ?e] d by simp
  then have rem: "deferred_cols (remove_at ?st i) = (deferred_cols ?st)(de_listener ?o := ({}, {}))"
    using cols_remove_at [of ?st i] i by simp
  show ?thesis
    using upd rem e get by (auto simp: deferred_write_def Let_def deferred_cols_def fun_eq_iff)
qed

lemma cols_evict:
  assumes "deferred_inv st"
  shows "deferred_cols (deferred_evict st) =
    (if length (ds_entries st) \<ge> SLV_VIS_MAX_DEFERRED
     then (deferred_cols st)(de_listener (ds_entries st ! oldest_idx (ds_entries st)) := ({}, {}))
     else deferred_cols st)"
proof -
  have "ds_entries st \<noteq> []" if "length (ds_entries st) \<ge> SLV_VIS_MAX_DEFERRED"
    using that by (auto simp: slv_const)
  moreover have "distinct (de_listeners (ds_entries st))" using assms by (simp add: deferred_inv_def)
  ultimately show ?thesis
    using cols_remove_at [of st "oldest_idx (ds_entries st)"] oldest_idx(1)
    by (auto simp: deferred_evict_def intro: cols_entries_cong [THEN trans, rotated])
qed

lemma cols_put:
  assumes "deferred_inv st" "src_ok src" "length l < SLV_UUID_LEN"
  shows "deferred_cols (slv_deferred_put True st l op src m) =
    (deferred_cols (if slv_deferred_get st l = None \<and> op \<noteq> SLV_VIS_OP_REMOVE \<and> src \<noteq> [] then deferred_evict st else st))
    (l := col_step m op (set src) (deferred_cols st l))"
proof (cases "find_idx (ds_entries st) l")
  case None
  let ?st = "deferred_evict st"
  have get: "slv_deferred_get st l = None" using None by (simp add: find_idx_None get_None_iff)
  have fresh: "l \<notin> set (de_listeners (ds_entries ?st))"
    using None deferred_evict_inv(4) [OF assms(1)] by (auto simp: find_idx_None)
  have empty: "deferred_cols st l = ({}, {})" "deferred_cols ?st l = ({}, {})"
    using get fresh by (simp_all add: deferred_cols_def get_None_iff [THEN iffD2])
  have dst: "distinct (de_listeners (ds_entries ?st))"
    using deferred_evict_inv(1) [OF assms(1)] by (simp add: deferred_inv_def)
  have pre: "deferred_pre (deferred_create ?st l) (length (ds_entries ?st))"
    using fresh by (intro deferred_create_pre deferred_evict_inv assms)
  have new: "de_listener (ds_entries (deferred_create ?st l) ! length (ds_entries ?st)) = l"
    using assms(3) by (simp add: deferred_create_def)
  have cre: "deferred_cols (deferred_create ?st l) = deferred_cols ?st"
    using fresh empty(2)
    by (intro ext) (simp add: deferred_cols_def get_create(1) [OF dst _ assms(3)] get_None_iff)
  have noop: "col_step m op (set src) ({}, {}) = ({}, {})" if "op = SLV_VIS_OP_REMOVE \<or> src = []"
    using that by (cases op) (auto simp: col_step_def)
  show ?thesis
  proof (cases "op = SLV_VIS_OP_REMOVE \<or> src = []")
    case True
    with None noop empty get show ?thesis by (auto simp: slv_deferred_put_def fun_eq_iff)
  next
    case False
    with None get cols_write [OF pre assms(2), of op m] show ?thesis
      by (simp add: slv_deferred_put_def Let_def new cre empty)
  qed
next
  case (Some i)
  let ?st = "st\<lparr>ds_replaced := ds_replaced st + 1\<rparr>"
  have i: "i < length (ds_entries st)" "de_listener (ds_entries st ! i) = l"
    using Some by (auto dest: find_idx_Some)
  have "deferred_pre ?st i"
    using inv_pre [OF assms(1) i(1)] by (simp add: deferred_pre_def)
  from cols_write [OF this assms(2), of op m] Some i cols_entries_cong [of ?st st] show ?thesis
    by (auto simp: slv_deferred_put_def slv_deferred_get_def)
qed

lemma cols_replay_done:
  assumes "deferred_inv st"
  shows "deferred_cols (snd (slv_deferred_replay_done st l)) = (deferred_cols st)(l := ({}, {}))"
proof (cases "find_idx (ds_entries st) l")
  case None
  then have "deferred_cols st l = ({}, {})"
    by (simp add: deferred_cols_def slv_deferred_get_def)
  with None show ?thesis by (auto simp: slv_deferred_replay_done_def)
next
  case (Some i)
  then have i: "i < length (ds_entries st)" "de_listener (ds_entries st ! i) = l" by (auto dest: find_idx_Some)
  from cols_remove_at [OF _ i(1)] assms i(2)
  have "deferred_cols (remove_at st i) = (deferred_cols st)(l := ({}, {}))" by (simp add: deferred_inv_def)
  with Some show ?thesis
    using cols_entries_cong [of "(remove_at st i)\<lparr>ds_replayed := ds_replayed st + 1\<rparr>" "remove_at st i"]
    by (simp add: slv_deferred_replay_done_def)
qed

subsection \<open>The contract a join relies on\<close>

text \<open>One batch entry dropped into the store for a listener that is not in the room.\<close>

record deposit =
  dp_listener :: string
  dp_op :: slv_vis_op
  dp_src :: "string list"
  dp_mute :: bool

definition deposit_ok :: "deposit \<Rightarrow> bool" where
  "deposit_ok d \<longleftrightarrow> length (dp_listener d) < SLV_UUID_LEN \<and> src_ok (dp_src d)"

definition dep_step :: "deposit \<Rightarrow> columns \<Rightarrow> columns" where
  "dep_step d = col_step (dp_mute d) (dp_op d) (set (dp_src d))"

definition slv_deferred_deposit :: "deposit \<Rightarrow> slv_deferred_store \<Rightarrow> slv_deferred_store" where
  "slv_deferred_deposit d st = slv_deferred_put True st (dp_listener d) (dp_op d) (dp_src d) (dp_mute d)"

text \<open>
  A bounded store of columns: a deposit changes the columns of its listener as the operation says and
  nobody else's as long as there is room, a take empties one listener's columns.
\<close>

locale column_store =
  fixes valid :: "'st \<Rightarrow> bool"
    and held :: "'st \<Rightarrow> nat"
    and cap :: nat
    and cols :: "'st \<Rightarrow> string \<Rightarrow> columns"
    and put :: "deposit \<Rightarrow> 'st \<Rightarrow> 'st"
    and take_out :: "string \<Rightarrow> 'st \<Rightarrow> 'st"
  assumes valid_put: "valid st \<Longrightarrow> deposit_ok d \<Longrightarrow> valid (put d st)"
    and valid_take: "valid st \<Longrightarrow> valid (take_out l st)"
    and held_put: "valid st \<Longrightarrow> deposit_ok d \<Longrightarrow> held (put d st) \<le> Suc (held st)"
    and cols_put: "valid st \<Longrightarrow> deposit_ok d \<Longrightarrow> held st < cap \<Longrightarrow>
      cols (put d st) = (cols st)(dp_listener d := dep_step d (cols st (dp_listener d)))"
    and cols_take: "valid st \<Longrightarrow> cols (take_out l st) = (cols st)(l := ({}, {}))"
begin

definition mine :: "string \<Rightarrow> deposit list \<Rightarrow> deposit list" where
  "mine l ds = filter (\<lambda>d. dp_listener d = l) ds"

lemma run_valid: "valid st \<Longrightarrow> \<forall>d\<in>set ds. deposit_ok d \<Longrightarrow> valid (fold put ds st)"
  by (induction ds arbitrary: st) (auto intro: valid_put)

lemma run_exact:
  assumes "valid st" "\<forall>d\<in>set ds. deposit_ok d" "held st + length ds \<le> cap"
  shows "cols (fold put ds st) l = fold dep_step (mine l ds) (cols st l)"
  using assms
proof (induction ds arbitrary: st)
  case Nil
  then show ?case by (simp add: mine_def)
next
  case (Cons d ds)
  then have v: "valid st" and d: "deposit_ok d" and h: "held st < cap" by auto
  have "held (put d st) + length ds \<le> cap" using held_put [OF v d] Cons.prems(3) by simp
  with Cons.IH [OF valid_put [OF v d]] Cons.prems(2)
  have "cols (fold put ds (put d st)) l = fold dep_step (mine l ds) (cols (put d st) l)" by simp
  then show ?case by (simp add: mine_def cols_put [OF v d h])
qed

lemma taken_is_gone:
  assumes "valid st"
  shows "cols (take_out l st) l = ({}, {})" and "l' \<noteq> l \<Longrightarrow> cols (take_out l st) l' = cols st l'"
  by (simp_all add: cols_take [OF assms])

end

lemma held_put_bound:
  "deferred_inv st \<Longrightarrow> deposit_ok d \<Longrightarrow>
   length (ds_entries (slv_deferred_deposit d st)) \<le> Suc (length (ds_entries st))"
  by (auto simp: slv_deferred_deposit_def slv_deferred_put_def deferred_write_def deferred_create_def
      deferred_evict_def remove_at_def Let_def split: option.splits)

interpretation slv: column_store deferred_inv "\<lambda>st. length (ds_entries st)" SLV_VIS_MAX_DEFERRED
    deferred_cols slv_deferred_deposit "\<lambda>l st. snd (slv_deferred_replay_done st l)"
proof unfold_locales
  fix st d
  assume inv: "deferred_inv st" and d: "deposit_ok d"
  show "deferred_inv (slv_deferred_deposit d st)"
    using d by (simp add: slv_deferred_deposit_def deferred_put_inv inv deposit_ok_def)
  show "length (ds_entries (slv_deferred_deposit d st)) \<le> Suc (length (ds_entries st))"
    by (rule held_put_bound [OF inv d])
  assume "length (ds_entries st) < SLV_VIS_MAX_DEFERRED"
  then have "deferred_evict st = st" by (simp add: deferred_evict_def)
  with d show "deferred_cols (slv_deferred_deposit d st) =
      (deferred_cols st)(dp_listener d := dep_step d (deferred_cols st (dp_listener d)))"
    by (simp add: slv_deferred_deposit_def cols_put inv deposit_ok_def dep_step_def)
qed (simp_all add: deferred_replay_done_inv cols_replay_done)

subsection \<open>Properties\<close>

text \<open>The stores the code can reach: every operation, in any order, from the initialised store.\<close>

inductive deferred_reach :: "slv_deferred_store \<Rightarrow> bool" where
  init: "deferred_reach slv_deferred_init"
| put: "deferred_reach st \<Longrightarrow> length l < SLV_UUID_LEN \<Longrightarrow> src_ok src \<Longrightarrow>
    deferred_reach (slv_deferred_put mem st l op src m)"
| replay: "deferred_reach st \<Longrightarrow> deferred_reach (snd (slv_deferred_replay_done st l))"
| free: "deferred_reach st \<Longrightarrow> deferred_reach (slv_deferred_free_all st)"

text \<open>
  Every store reachable by any sequence of deposits, replays and teardowns, with allocations failing
  at will, holds at most 256 records, one per listener, never an empty one, each column without
  repetitions, with counters that account for every record created.
\<close>

theorem deferred_reach_inv:
  assumes "deferred_reach st"
  shows "deferred_inv st"
  using assms by induction (simp_all add: slv_inv)

theorem deferred_reach_inv_witness:
  "deferred_inv (slv_deferred_put True (slv_deferred_put False slv_deferred_init ''l'' SLV_VIS_OP_ADD [''s''] True)
     ''m'' SLV_VIS_OP_REPLACE [''s'', ''s''] False)"
  by (rule deferred_reach_inv) (intro deferred_reach.intros; simp add: src_ok_def slv_const SLV_UUID_LEN_def)

text \<open>
  C26 Nothing that arrives in the join window is lost: for every sequence of at most 256 deposits
  into a fresh store, what the store holds for a listener is what those of its deposits that name it do, in order,
  to a pair of empty columns; and once replayed the listener's columns are gone while every other
  listener's are untouched.
\<close>

theorem deferred_replay_exact:
  assumes "\<forall>d\<in>set ds. deposit_ok d" and "length ds \<le> SLV_VIS_MAX_DEFERRED"
  shows "deferred_cols (fold slv_deferred_deposit ds slv_deferred_init) l =
      fold dep_step (filter (\<lambda>d. dp_listener d = l) ds) ({}, {}) \<and>
    deferred_cols (snd (slv_deferred_replay_done (fold slv_deferred_deposit ds slv_deferred_init) l)) =
      (deferred_cols (fold slv_deferred_deposit ds slv_deferred_init))(l := ({}, {}))"
proof -
  have "deferred_cols slv_deferred_init l = ({}, {})"
    by (simp add: deferred_cols_def slv_deferred_get_def slv_deferred_init_def)
  then show ?thesis
    using slv.run_exact [OF deferred_init_inv assms(1), of l] assms(2)
      slv.run_valid [OF deferred_init_inv assms(1)]
    by (simp add: slv.mine_def cols_replay_done slv_deferred_init_def)
qed

theorem deferred_replay_exact_witness:
  "deferred_cols (fold slv_deferred_deposit
       [\<lparr>dp_listener = ''l'', dp_op = SLV_VIS_OP_ADD, dp_src = [''s'', ''t''], dp_mute = False\<rparr>,
        \<lparr>dp_listener = ''m'', dp_op = SLV_VIS_OP_REPLACE, dp_src = [''s''], dp_mute = False\<rparr>,
        \<lparr>dp_listener = ''l'', dp_op = SLV_VIS_OP_REMOVE, dp_src = [''t''], dp_mute = False\<rparr>] slv_deferred_init) ''l''
     = ({''s''}, {})"
  by (subst deferred_replay_exact [THEN conjunct1])
    (simp_all add: deposit_ok_def src_ok_def dep_step_def col_step_def slv_const SLV_UUID_LEN_def insert_Diff_if)

text \<open>
  A full store makes room by giving up its oldest record and no other: depositing for a new
  listener into a store of 256 removes one record whose stamp is the least, counts it, keeps every other record as
  it was and files the new one, so the store stays at 256.
\<close>

theorem deferred_put_evicts_oldest:
  assumes "deferred_inv st" and "length (ds_entries st) = SLV_VIS_MAX_DEFERRED"
    and "slv_deferred_get st l = None" and "length l < SLV_UUID_LEN"
    and "src_ok src" and "src \<noteq> []" and "op \<noteq> SLV_VIS_OP_REMOVE"
  shows "\<exists>old\<in>set (ds_entries st).
    (\<forall>e\<in>set (ds_entries st). de_added_seq old \<le> de_added_seq e) \<and>
    deferred_cols (slv_deferred_put True st l op src m) =
      (deferred_cols st)(de_listener old := ({}, {}), l := col_step m op (set src) ({}, {})) \<and>
    ds_evicted (slv_deferred_put True st l op src m) = ds_evicted st + 1"
proof -
  let ?i = "oldest_idx (ds_entries st)"
  have ne: "ds_entries st \<noteq> []" using assms(2) by (auto simp: slv_const)
  have empty: "deferred_cols st l = ({}, {})" using assms(3) by (simp add: deferred_cols_def)
  have "find_idx (ds_entries st) l = None" using assms(3) by (simp add: find_idx_None get_None_iff)
  then have ev: "ds_evicted (slv_deferred_put True st l op src m) = ds_evicted st + 1"
    using assms(2,6,7)
    by (simp add: slv_deferred_put_def Let_def deferred_write_def deferred_create_def deferred_evict_def
        remove_at_def)
  have "deferred_cols (slv_deferred_put True st l op src m) =
      (deferred_cols st)(de_listener (ds_entries st ! ?i) := ({}, {}), l := col_step m op (set src) ({}, {}))"
    using cols_put [OF assms(1,5,4), of op m] cols_evict [OF assms(1)] assms(2,3,6,7) empty by simp
  with ev oldest_idx [OF ne] show ?thesis by (intro bexI [of _ "ds_entries st ! ?i"]) auto
qed

definition sample_name :: "nat \<Rightarrow> string" where
  "sample_name i = [char_of (i div 16 + 65), char_of (i mod 16 + 65)]"

definition deferred_full_sample :: slv_deferred_store where
  "deferred_full_sample = slv_deferred_init\<lparr>ds_entries := map (\<lambda>i. \<lparr>de_listener = sample_name i,
       de_excl = [''s''], de_mute = [], de_added_seq = i + 1\<rparr>) [0..<256], ds_seq := 256, ds_adds := 256\<rparr>"

lemma sample_name_inj: "inj_on sample_name {0..<256}"
  by (rule inj_on_inverseI [where g = "\<lambda>s. (c_code (s ! 0) - 65) * 16 + (c_code (s ! 1) - 65)"])
    (simp add: sample_name_def)

lemma deferred_full_sample_inv:
  "deferred_inv deferred_full_sample" "length (ds_entries deferred_full_sample) = SLV_VIS_MAX_DEFERRED"
  "slv_deferred_get deferred_full_sample ''new'' = None"
proof -
  have m: "de_listeners (ds_entries deferred_full_sample) = map sample_name [0..<256]"
    "map de_added_seq (ds_entries deferred_full_sample) = map Suc [0..<256]"
    by (auto simp: deferred_full_sample_def)
  have d: "distinct (map sample_name [0..<256])" "distinct (map Suc [0..<256])"
    using sample_name_inj unfolding distinct_map by (auto simp: inj_on_def)
  have e: "\<forall>e\<in>set (ds_entries deferred_full_sample). deferred_entry_ok e \<and> de_added_seq e \<le> 256"
    by (auto simp: deferred_full_sample_def deferred_entry_ok_def sample_name_def SLV_UUID_LEN_def)
  have l: "length (ds_entries deferred_full_sample) = 256" "ds_seq deferred_full_sample = 256"
    "ds_adds deferred_full_sample = 256" "ds_replayed deferred_full_sample = 0" "ds_evicted deferred_full_sample = 0"
    by (simp_all add: deferred_full_sample_def slv_deferred_init_def)
  show "deferred_inv deferred_full_sample"
    unfolding deferred_inv_def m l using d e by (simp add: slv_const)
  show "length (ds_entries deferred_full_sample) = SLV_VIS_MAX_DEFERRED" using l by (simp add: slv_const)
  have "sample_name i \<noteq> ''new''" for i by (simp add: sample_name_def)
  then show "slv_deferred_get deferred_full_sample ''new'' = None"
    unfolding get_None_iff m by (metis (no_types, lifting) imageE set_map)
qed

theorem deferred_put_evicts_oldest_witness:
  "ds_evicted (slv_deferred_put True deferred_full_sample ''new'' SLV_VIS_OP_ADD [''s''] False) = 1"
  using deferred_put_evicts_oldest [OF deferred_full_sample_inv, of "[''s'']" SLV_VIS_OP_ADD False]
  by (auto simp: src_ok_def SLV_UUID_LEN_def deferred_full_sample_def slv_deferred_init_def)

end
