(* ===== verification/Joincap.thy ===== *)
theory Joincap
  imports CLib "HOL-Library.While_Combinator"
begin

text \<open>
  The sim-issued join capability, \<^verbatim>\<open>src/src/joincap.h\<close> and \<^verbatim>\<open>src/src/joincap.c\<close>, and its use at a
  join, \<^verbatim>\<open>janus_slvoice_joincap_verify\<close> of \<^verbatim>\<open>src/src/janus_slvoice.c\<close>: base64url, the field parsers,
  the signature check, the context checks, the replay store and the verdict with its counters.

  Bytes are chars. The HMAC of the OpenSSL library is the parameter \<open>hmac key text\<close> (None when it fails) and
  its constant-time comparison is the parameter \<open>memeq\<close>. A parse gives the verdict as \<open>Inl\<close> or the capability
  as \<open>Inr\<close>: on a failure no caller reads the struct. Times are mathematical integers: sums of a time and the skew
  stand for the C sums where those do not overflow.
\<close>

subsection \<open>Data\<close>

definition SLV_JOINCAP_MAX_LEN :: nat where [slv_const]: "SLV_JOINCAP_MAX_LEN = 1024"
definition SLV_JOINCAP_NONCE_MAX :: nat where [slv_const]: "SLV_JOINCAP_NONCE_MAX = 4096"
definition SLV_JOINCAP_SKEW_S :: int where [slv_const]: "SLV_JOINCAP_SKEW_S = 120"
definition SLV_JOINCAP_PREFIX :: string where "SLV_JOINCAP_PREFIX = ''v1.''"
definition SLV_JOINCAP_PAYLOAD_MAX :: nat where [slv_const]: "SLV_JOINCAP_PAYLOAD_MAX = 512"
definition SLV_JOINCAP_MAC_LEN :: nat where [slv_const]: "SLV_JOINCAP_MAC_LEN = 32"
definition SLV_JOINCAP_FIELDS :: nat where [slv_const]: "SLV_JOINCAP_FIELDS = 8"

datatype slv_joincap_verdict =
    SLV_JOINCAP_OK
  | SLV_JOINCAP_MISSING
  | SLV_JOINCAP_MALFORMED
  | SLV_JOINCAP_BAD_SIGNATURE
  | SLV_JOINCAP_WRONG_AGENT
  | SLV_JOINCAP_WRONG_SESSION
  | SLV_JOINCAP_WRONG_ROOM
  | SLV_JOINCAP_EXPIRED
  | SLV_JOINCAP_REPLAYED
  | SLV_JOINCAP_STORE_FULL
  | SLV_JOINCAP_STALE_GENERATION

record slv_joincap =
  jc_agent :: string
  jc_session :: string
  jc_room :: int
  jc_epoch :: u64
  jc_generation :: u32
  jc_iat :: int
  jc_exp :: int
  jc_nonce :: string

datatype slv_joincap_gen_note =
    SLV_JOINCAP_GEN_MATCH
  | SLV_JOINCAP_GEN_EPOCH_AHEAD
  | SLV_JOINCAP_GEN_NO_EPOCH
  | SLV_JOINCAP_GEN_AHEAD
  | SLV_JOINCAP_GEN_BEHIND

record nonce_entry =
  ne_nonce :: string
  ne_expires_at :: int

record slv_joincap_nonce_store =
  ns_entries :: "nonce_entry list"
  ns_taken :: nat
  ns_replayed :: nat
  ns_full :: nat
  ns_expired :: nat

fun slv_joincap_reason :: "slv_joincap_verdict \<Rightarrow> string" where
  "slv_joincap_reason SLV_JOINCAP_OK = ''ok''"
| "slv_joincap_reason SLV_JOINCAP_MISSING = ''cap_missing''"
| "slv_joincap_reason SLV_JOINCAP_MALFORMED = ''cap_malformed''"
| "slv_joincap_reason SLV_JOINCAP_BAD_SIGNATURE = ''cap_bad_signature''"
| "slv_joincap_reason SLV_JOINCAP_WRONG_AGENT = ''cap_wrong_agent''"
| "slv_joincap_reason SLV_JOINCAP_WRONG_SESSION = ''cap_wrong_session''"
| "slv_joincap_reason SLV_JOINCAP_WRONG_ROOM = ''cap_wrong_room''"
| "slv_joincap_reason SLV_JOINCAP_EXPIRED = ''cap_expired''"
| "slv_joincap_reason SLV_JOINCAP_REPLAYED = ''cap_replayed''"
| "slv_joincap_reason SLV_JOINCAP_STORE_FULL = ''cap_replay_store_full''"
| "slv_joincap_reason SLV_JOINCAP_STALE_GENERATION = ''cap_stale_generation''"

fun slv_joincap_gen_note_str :: "slv_joincap_gen_note \<Rightarrow> string" where
  "slv_joincap_gen_note_str SLV_JOINCAP_GEN_EPOCH_AHEAD = ''cap_epoch_ahead''"
| "slv_joincap_gen_note_str SLV_JOINCAP_GEN_NO_EPOCH = ''cap_no_epoch''"
| "slv_joincap_gen_note_str SLV_JOINCAP_GEN_AHEAD = ''cap_generation_ahead''"
| "slv_joincap_gen_note_str SLV_JOINCAP_GEN_BEHIND = ''cap_generation_behind''"
| "slv_joincap_gen_note_str SLV_JOINCAP_GEN_MATCH = ''match''"

subsection \<open>base64url\<close>

text \<open>The decode table: zero outside the alphabet.\<close>

definition b64_tbl :: "char \<Rightarrow> nat" where
  "b64_tbl c =
     (let n = c_code c in
      if 65 \<le> n \<and> n \<le> 90 then n - 65
      else if 97 \<le> n \<and> n \<le> 122 then n - 97 + 26
      else if 48 \<le> n \<and> n \<le> 57 then n - 48 + 52
      else if n = 45 then 62
      else if n = 95 then 63
      else 0)"

text \<open>The loop: accumulator, number of pending bits, bytes produced.\<close>

fun b64url_loop :: "nat \<Rightarrow> string \<Rightarrow> u32 \<Rightarrow> nat \<Rightarrow> string \<Rightarrow> (u32 \<times> nat \<times> string) option" where
  "b64url_loop out_cap [] acc bits out = Some (acc, bits, out)"
| "b64url_loop out_cap (c # cs) acc bits out =
     (if b64_tbl c = 0 \<and> c \<noteq> CHR ''A'' then None
      else (let acc = push_bit 6 acc OR of_nat (b64_tbl c); bits = bits + 6 in
        if bits \<ge> 8 then
          (let bits = bits - 8 in
           if length out \<ge> out_cap then None
           else b64url_loop out_cap cs acc bits (out @ [char_of (unat (drop_bit bits acc AND 0xFF))]))
        else b64url_loop out_cap cs acc bits out))"

definition slv_b64url_decode :: "string \<Rightarrow> nat \<Rightarrow> string option" where
  "slv_b64url_decode s out_cap =
     (if length s = 0 \<or> length s mod 4 = 1 then None
      else case b64url_loop out_cap s 0 0 [] of
          None \<Rightarrow> None
        | Some (acc, bits, out) \<Rightarrow>
            if bits > 0 \<and> acc AND (push_bit bits 1 - 1) \<noteq> 0 then None else Some out)"

subsection \<open>Fields\<close>

definition slv_joincap_hex64 :: "string \<Rightarrow> u64 option" where
  "slv_joincap_hex64 s = (if length s \<noteq> 16 then None else hex_loop 0 s)"

definition slv_joincap_id :: "string \<Rightarrow> string option" where
  "slv_joincap_id s = (if length s = 0 \<or> length s \<ge> SLV_UUID_LEN then None else Some s)"

definition slv_joincap_i64 :: "string \<Rightarrow> int option" where
  "slv_joincap_i64 s =
     (if length s = 0 \<or> length s \<ge> 32 then None
      else case strtol s of (v, rest, er) \<Rightarrow> if rest \<noteq> [] then None else Some v)"

text \<open>The fields between the bars, one more than there are bars.\<close>

fun split_bar :: "string \<Rightarrow> string list" where
  "split_bar [] = [[]]"
| "split_bar (c # cs) =
     (if c = CHR ''|'' then [] # split_bar cs
      else (case split_bar cs of f # fs \<Rightarrow> (c # f) # fs | [] \<Rightarrow> [[c]]))"

subsection \<open>Parse and verify\<close>

text \<open>\<^verbatim>\<open>strrchr(cap, '.')\<close> as a position.\<close>

fun last_dot :: "string \<Rightarrow> nat option" where
  "last_dot [] = None"
| "last_dot (c # cs) =
     (case last_dot cs of Some i \<Rightarrow> Some (Suc i) | None \<Rightarrow> if c = CHR ''.'' then Some 0 else None)"

text \<open>The fields of the decoded payload.\<close>

definition joincap_fields :: "string \<Rightarrow> slv_joincap_verdict + slv_joincap" where
  "joincap_fields payload =
     (let fs = split_bar payload in
      if length fs \<noteq> SLV_JOINCAP_FIELDS then Inl SLV_JOINCAP_MALFORMED
      else (case (slv_joincap_id (fs ! 0), slv_joincap_id (fs ! 1), slv_joincap_i64 (fs ! 2),
                  slv_joincap_hex64 (fs ! 3), slv_joincap_i64 (fs ! 4), slv_joincap_i64 (fs ! 5),
                  slv_joincap_i64 (fs ! 6), slv_joincap_id (fs ! 7)) of
          (Some agent, Some session, Some room, Some epoch, Some gen, Some iat, Some expt, Some nonce) \<Rightarrow>
            if room \<le> 0 \<or> gen < 0 \<or> gen > 4294967295 \<or> iat \<le> 0 \<or> expt \<le> 0 \<or> expt < iat
            then Inl SLV_JOINCAP_MALFORMED
            else Inr \<lparr>jc_agent = agent, jc_session = session, jc_room = room, jc_epoch = epoch,
                      jc_generation = of_int gen, jc_iat = iat, jc_exp = expt, jc_nonce = nonce\<rparr>
        | _ \<Rightarrow> Inl SLV_JOINCAP_MALFORMED))"

definition slv_joincap_parse ::
  "(string \<Rightarrow> string \<Rightarrow> string option) \<Rightarrow> (string \<Rightarrow> string \<Rightarrow> bool) \<Rightarrow> string option \<Rightarrow> string option \<Rightarrow>
   slv_joincap_verdict + slv_joincap"
where
  "slv_joincap_parse hmac memeq cap key =
     (case (cap, key) of
        (Some cap, Some key) \<Rightarrow>
          if length key = 0 then Inl SLV_JOINCAP_MALFORMED
          else if length cap = 0 \<or> length cap > SLV_JOINCAP_MAX_LEN then Inl SLV_JOINCAP_MALFORMED
          else if take (length SLV_JOINCAP_PREFIX) cap \<noteq> SLV_JOINCAP_PREFIX then Inl SLV_JOINCAP_MALFORMED
          else (case last_dot cap of
              None \<Rightarrow> Inl SLV_JOINCAP_MALFORMED
            | Some dot \<Rightarrow>
                if dot \<le> length SLV_JOINCAP_PREFIX then Inl SLV_JOINCAP_MALFORMED
                else (let signing = take dot cap;
                          b64_payload = drop (length SLV_JOINCAP_PREFIX) signing;
                          b64_mac = drop (dot + 1) cap in
                  case slv_b64url_decode b64_mac SLV_JOINCAP_MAC_LEN of
                    None \<Rightarrow> Inl SLV_JOINCAP_MALFORMED
                  | Some mac_given \<Rightarrow>
                      if length mac_given \<noteq> SLV_JOINCAP_MAC_LEN then Inl SLV_JOINCAP_MALFORMED
                      else (case hmac key signing of
                          None \<Rightarrow> Inl SLV_JOINCAP_MALFORMED
                        | Some mac_want \<Rightarrow>
                            if length mac_want \<noteq> SLV_JOINCAP_MAC_LEN then Inl SLV_JOINCAP_MALFORMED
                            else if \<not> memeq mac_given mac_want then Inl SLV_JOINCAP_BAD_SIGNATURE
                            else (case slv_b64url_decode b64_payload (SLV_JOINCAP_PAYLOAD_MAX - 1) of
                                None \<Rightarrow> Inl SLV_JOINCAP_MALFORMED
                              | Some payload \<Rightarrow>
                                  if CHR 0x00 \<in> set payload then Inl SLV_JOINCAP_MALFORMED
                                  else joincap_fields payload))))
      | _ \<Rightarrow> Inl SLV_JOINCAP_MALFORMED)"

definition slv_joincap_check ::
  "slv_joincap \<Rightarrow> string option \<Rightarrow> string option \<Rightarrow> int \<Rightarrow> int \<Rightarrow> int \<Rightarrow> slv_joincap_verdict"
where
  "slv_joincap_check c display session_id room now_s skew_s =
     (if display = None \<or> Some (jc_agent c) \<noteq> display then SLV_JOINCAP_WRONG_AGENT
      else if session_id = None \<or> Some (jc_session c) \<noteq> session_id then SLV_JOINCAP_WRONG_SESSION
      else if jc_room c \<noteq> room then SLV_JOINCAP_WRONG_ROOM
      else if now_s > jc_exp c + skew_s \<or> now_s < jc_iat c - skew_s then SLV_JOINCAP_EXPIRED
      else SLV_JOINCAP_OK)"

text \<open>None: within the capability's own window; Some: the signed offset.\<close>

definition slv_joincap_used_skew :: "slv_joincap \<Rightarrow> int \<Rightarrow> int option" where
  "slv_joincap_used_skew c now_s =
     (if now_s > jc_exp c then Some (now_s - jc_exp c)
      else if now_s < jc_iat c then Some (now_s - jc_iat c)
      else None)"

definition slv_joincap_generation :: "slv_joincap \<Rightarrow> u64 \<Rightarrow> u32 \<Rightarrow> slv_joincap_verdict" where
  "slv_joincap_generation c auth_epoch policy_gen =
     (if jc_epoch c \<noteq> 0 \<and> jc_epoch c < auth_epoch then SLV_JOINCAP_STALE_GENERATION else SLV_JOINCAP_OK)"

definition slv_joincap_generation_note :: "slv_joincap \<Rightarrow> u64 \<Rightarrow> u32 \<Rightarrow> slv_joincap_gen_note" where
  "slv_joincap_generation_note c auth_epoch policy_gen =
     (if jc_epoch c \<noteq> 0 \<and> jc_epoch c < auth_epoch then SLV_JOINCAP_GEN_MATCH
      else if jc_epoch c = 0 \<and> auth_epoch \<noteq> 0 then SLV_JOINCAP_GEN_NO_EPOCH
      else if jc_epoch c > auth_epoch then SLV_JOINCAP_GEN_EPOCH_AHEAD
      else if jc_generation c > policy_gen then SLV_JOINCAP_GEN_AHEAD
      else if jc_generation c < policy_gen then SLV_JOINCAP_GEN_BEHIND
      else SLV_JOINCAP_GEN_MATCH)"

subsection \<open>The replay store\<close>

definition nonce_store_init :: slv_joincap_nonce_store where
  "nonce_store_init = \<lparr>ns_entries = [], ns_taken = 0, ns_replayed = 0, ns_full = 0, ns_expired = 0\<rparr>"

text \<open>The sweep loop: position, entries and the number dropped.\<close>

function nonce_sweep_loop :: "int \<Rightarrow> nat \<Rightarrow> nonce_entry list \<Rightarrow> nat \<Rightarrow> nonce_entry list \<times> nat" where
  "nonce_sweep_loop now_s i es dropped =
     (if i < length es then
        (if ne_expires_at (es ! i) \<le> now_s then nonce_sweep_loop now_s i (swap_remove i es) (dropped + 1)
         else nonce_sweep_loop now_s (i + 1) es dropped)
      else (es, dropped))"
  by pat_completeness auto
termination by (relation "measure (\<lambda>(now_s, i, es, dropped). length es - i)") auto

declare nonce_sweep_loop.simps [simp del]

definition slv_joincap_nonce_sweep :: "slv_joincap_nonce_store \<Rightarrow> int \<Rightarrow> slv_joincap_nonce_store" where
  "slv_joincap_nonce_sweep st now_s =
     (let (es, k) = nonce_sweep_loop now_s 0 (ns_entries st) (ns_expired st)
      in st\<lparr>ns_entries := es, ns_expired := k\<rparr>)"

definition slv_joincap_nonce_take ::
  "slv_joincap_nonce_store \<Rightarrow> string \<Rightarrow> int \<Rightarrow> int \<Rightarrow> slv_joincap_verdict \<times> slv_joincap_nonce_store"
where
  "slv_joincap_nonce_take st nonce expires_at now_s =
     (if nonce = [] then (SLV_JOINCAP_MALFORMED, st)
      else (let st = slv_joincap_nonce_sweep st now_s in
        if list_ex (\<lambda>e. ne_nonce e = nonce) (ns_entries st)
        then (SLV_JOINCAP_REPLAYED, st\<lparr>ns_replayed := ns_replayed st + 1\<rparr>)
        else if length (ns_entries st) \<ge> SLV_JOINCAP_NONCE_MAX
        then (SLV_JOINCAP_STORE_FULL, st\<lparr>ns_full := ns_full st + 1\<rparr>)
        else if length nonce \<ge> SLV_UUID_LEN then (SLV_JOINCAP_MALFORMED, st)
        else (SLV_JOINCAP_OK,
              st\<lparr>ns_entries := ns_entries st @ [\<lparr>ne_nonce = nonce, ne_expires_at = expires_at\<rparr>],
                 ns_taken := ns_taken st + 1\<rparr>)))"

definition slv_joincap_nonce_count :: "slv_joincap_nonce_store option \<Rightarrow> nat" where
  "slv_joincap_nonce_count st = (case st of None \<Rightarrow> 0 | Some s \<Rightarrow> length (ns_entries s))"

subsection \<open>The gate's knobs and state\<close>

text \<open>
  \<^verbatim>\<open>janus_slvoice_joincap_load_knobs\<close>: the requirement and the key. The requirement is read like the fail-closed
  knob; the pair of its value is given as \<open>req\<close>.
\<close>

record joincap_gate =
  jg_required :: bool
  jg_key :: "string option"

definition janus_slvoice_joincap_load_knobs :: "bool \<Rightarrow> string option \<Rightarrow> joincap_gate" where
  "janus_slvoice_joincap_load_knobs req key_env =
     (let key = (case key_env of None \<Rightarrow> None | Some k \<Rightarrow> if k = [] then None else Some k)
      in \<lparr>jg_required = (if req \<and> key = None then False else req), jg_key = key\<rparr>)"

record joincap_state =
  js_nonces :: slv_joincap_nonce_store
  js_seen :: nat
  js_accepted :: nat
  js_skewed :: nat
  js_refused :: "slv_joincap_verdict \<Rightarrow> nat"
  js_epoch_ahead :: nat
  js_no_epoch :: nat
  js_gen_ahead :: nat
  js_gen_behind :: nat

definition joincap_state_init :: joincap_state where
  "joincap_state_init = \<lparr>js_nonces = nonce_store_init, js_seen = 0, js_accepted = 0, js_skewed = 0,
     js_refused = (\<lambda>v. 0), js_epoch_ahead = 0, js_no_epoch = 0, js_gen_ahead = 0, js_gen_behind = 0\<rparr>"

definition joincap_refuse :: "slv_joincap_verdict \<Rightarrow> joincap_state \<Rightarrow> joincap_state" where
  "joincap_refuse v s = s\<lparr>js_refused := (js_refused s)(v := js_refused s v + 1)\<rparr>"

fun joincap_note_count :: "slv_joincap_gen_note \<Rightarrow> joincap_state \<Rightarrow> joincap_state" where
  "joincap_note_count SLV_JOINCAP_GEN_MATCH s = s"
| "joincap_note_count SLV_JOINCAP_GEN_EPOCH_AHEAD s = s\<lparr>js_epoch_ahead := js_epoch_ahead s + 1\<rparr>"
| "joincap_note_count SLV_JOINCAP_GEN_NO_EPOCH s = s\<lparr>js_no_epoch := js_no_epoch s + 1\<rparr>"
| "joincap_note_count SLV_JOINCAP_GEN_AHEAD s = s\<lparr>js_gen_ahead := js_gen_ahead s + 1\<rparr>"
| "joincap_note_count SLV_JOINCAP_GEN_BEHIND s = s\<lparr>js_gen_behind := js_gen_behind s + 1\<rparr>"

text \<open>The checks after a successful parse: context and time, the nonce, the epoch.\<close>

definition joincap_admit ::
  "slv_joincap \<Rightarrow> string option \<Rightarrow> string option \<Rightarrow> int \<Rightarrow> u64 \<Rightarrow> u32 \<Rightarrow> int \<Rightarrow> joincap_state \<Rightarrow>
   slv_joincap_verdict \<times> joincap_state"
where
  "joincap_admit c display session_id room auth_epoch policy_gen now_s s =
     (let v = slv_joincap_check c display session_id room now_s SLV_JOINCAP_SKEW_S in
      if v \<noteq> SLV_JOINCAP_OK then (v, s)
      else (let s = (if slv_joincap_used_skew c now_s \<noteq> None then s\<lparr>js_skewed := js_skewed s + 1\<rparr> else s);
                (v, ns) = slv_joincap_nonce_take (js_nonces s) (jc_nonce c) (jc_exp c + SLV_JOINCAP_SKEW_S) now_s;
                s = s\<lparr>js_nonces := ns\<rparr> in
        if v \<noteq> SLV_JOINCAP_OK then (v, s)
        else (let v = slv_joincap_generation c auth_epoch policy_gen in
          if v \<noteq> SLV_JOINCAP_OK then (v, s)
          else (v, joincap_note_count (slv_joincap_generation_note c auth_epoch policy_gen) s))))"

definition janus_slvoice_joincap_verify ::
  "(string \<Rightarrow> string \<Rightarrow> string option) \<Rightarrow> (string \<Rightarrow> string \<Rightarrow> bool) \<Rightarrow> string option \<Rightarrow>
   string option \<Rightarrow> string option \<Rightarrow> string option \<Rightarrow> int \<Rightarrow> u64 \<Rightarrow> u32 \<Rightarrow> bool \<Rightarrow> int \<Rightarrow>
   joincap_state \<Rightarrow> slv_joincap_verdict \<times> joincap_state"
where
  "janus_slvoice_joincap_verify hmac memeq key cap display session_id room auth_epoch policy_gen declared now_s s =
     (if cap = None \<or> cap = Some [] then
        (SLV_JOINCAP_MISSING, if declared then joincap_refuse SLV_JOINCAP_MISSING s else s)
      else (let s = s\<lparr>js_seen := js_seen s + 1\<rparr> in
        if key = None then (SLV_JOINCAP_OK, s)
        else (let (v, s) = (case slv_joincap_parse hmac memeq cap key of
                  Inl v \<Rightarrow> (v, s)
                | Inr c \<Rightarrow> joincap_admit c display session_id room auth_epoch policy_gen now_s s)
          in if v = SLV_JOINCAP_OK then (v, s\<lparr>js_accepted := js_accepted s + 1\<rparr>)
             else (v, joincap_refuse v s))))"

subsection \<open>base64url is exact and has one text per byte string\<close>

text \<open>The bits of a word below a position, most significant first; of a byte and of a digit.\<close>

definition low_bits :: "u32 \<Rightarrow> nat \<Rightarrow> bool list" where
  "low_bits a n = map (bit a) (rev [0..<n])"

definition byte_bits :: "char \<Rightarrow> bool list" where
  "byte_bits c = low_bits (of_nat (c_code c)) 8"

definition b64_bits :: "char \<Rightarrow> bool list" where
  "b64_bits c = low_bits (of_nat (b64_tbl c)) 6"

definition b64_ok :: "char \<Rightarrow> bool" where
  "b64_ok c \<longleftrightarrow> \<not> (b64_tbl c = 0 \<and> c \<noteq> CHR ''A'')"

lemma length_low_bits [simp]: "length (low_bits a n) = n"
  by (simp add: low_bits_def)

lemma low_bits_0 [simp]: "low_bits a 0 = []"
  by (simp add: low_bits_def)

lemma length_byte_bits [simp]: "length (byte_bits c) = 8"
  by (simp add: byte_bits_def)

lemma length_b64_bits [simp]: "length (b64_bits c) = 6"
  by (simp add: b64_bits_def)

lemma length_concat_byte_bits [simp]: "length (concat (map byte_bits cs)) = 8 * length cs"
  by (induction cs) auto

lemma length_concat_b64_bits [simp]: "length (concat (map b64_bits cs)) = 6 * length cs"
  by (induction cs) auto

lemma upt_split_rev: "rev [0..<n + k] = map (\<lambda>i. i + n) (rev [0..<k]) @ rev [0..<n]"
proof -
  have "[0..<n + k] = [0..<n] @ map (\<lambda>i. i + n) [0..<k]"
    by (metis add.commute map_add_upt upt_add_eq_append zero_le add_0)
  then show ?thesis by (simp add: rev_map)
qed

lemma low_bits_app: "low_bits a (n + k) = low_bits (drop_bit n a) k @ low_bits a n"
  unfolding low_bits_def upt_split_rev by (simp add: bit_drop_bit_eq comp_def add.commute)

lemma low_bits_cong: "(\<And>i. i < n \<Longrightarrow> bit a i = bit b i) \<Longrightarrow> low_bits a n = low_bits b n"
  by (simp add: low_bits_def)

lemma b64_tbl_bound: "b64_tbl c < 64"
  by (auto simp: b64_tbl_def Let_def)

lemma bit_small:
  assumes "v < 64" "bit (v :: nat) i" shows "i < 6"
proof -
  have "take_bit 6 v = v" using assms(1) by (simp add: take_bit_nat_eq_self)
  with assms(2) have "bit (take_bit 6 v) i" by simp
  then show ?thesis by (simp add: bit_simps)
qed

lemma low_bits_push:
  assumes "n + 6 \<le> 32" "v < 64"
  shows "low_bits (push_bit 6 a OR of_nat v) (n + 6) = low_bits a n @ low_bits (of_nat v) 6"
proof -
  have "low_bits (push_bit 6 a OR of_nat v) (6 + n) =
      low_bits (drop_bit 6 (push_bit 6 a OR of_nat v)) n @ low_bits (push_bit 6 a OR of_nat v) 6"
    by (rule low_bits_app)
  also have "low_bits (drop_bit 6 (push_bit 6 a OR of_nat v)) n = low_bits a n"
    using assms by (intro low_bits_cong) (auto simp: bit_simps dest: bit_small [OF assms(2)])
  also have "low_bits (push_bit 6 a OR of_nat v) 6 = low_bits (of_nat v) 6"
    by (intro low_bits_cong) (auto simp: bit_simps)
  finally show ?thesis by (simp add: add.commute)
qed

lemma byte_bits_byte: "byte_bits (char_of (unat (w AND 0xFF :: u32))) = low_bits w 8"
proof -
  have m: "(0xFF :: u32) = mask 8" by (simp add: mask_eq_exp_minus_1)
  have "w AND 0xFF \<le> 0xFF" by (rule word_and_le1)
  then have "unat (w AND 0xFF) < 256" by (simp add: word_le_nat_alt)
  then have "(of_nat (c_code (char_of (unat (w AND 0xFF)))) :: u32) = w AND 0xFF" by simp
  then show ?thesis
    unfolding byte_bits_def m by (auto intro!: low_bits_cong simp: bit_simps)
qed

lemma low_bits_inj: "low_bits a n = low_bits b n \<Longrightarrow> i < n \<Longrightarrow> bit a i = bit b i"
  by (simp add: low_bits_def)

lemma byte_bits_inj: "byte_bits c = byte_bits d \<Longrightarrow> c = d"
proof -
  assume e: "byte_bits c = byte_bits d"
  have lt: "c_code x < 256" for x by (simp add: c_code_def)
  have "bit (c_code c) i = bit (c_code d) i" for i
  proof (cases "i < 8")
    case True
    with e show ?thesis unfolding byte_bits_def by (auto dest!: low_bits_inj simp: bit_of_nat_iff)
  next
    case False
    then have "c_code x < 2 ^ i" for x
      using lt [of x] power_increasing [of 8 i "2 :: nat"] by simp
    then show ?thesis by (simp add: bit_iff_odd)
  qed
  then have "c_code c = c_code d" by (rule bit_eqI)
  then show "c = d" by (rule c_code_inj)
qed

lemma c_code_A: "c \<noteq> CHR ''A'' \<Longrightarrow> c_code c \<noteq> 65"
  using c_code_inj [of c "CHR ''A''"] by (auto simp: c_code_def)

lemma b64_tbl_inj: "b64_ok c \<Longrightarrow> b64_ok d \<Longrightarrow> b64_tbl c = b64_tbl d \<Longrightarrow> c = d"
  by (rule c_code_inj)
    (auto simp: b64_ok_def b64_tbl_def Let_def dest: c_code_A split: if_splits)

lemma b64_bits_inj: "b64_ok c \<Longrightarrow> b64_ok d \<Longrightarrow> b64_bits c = b64_bits d \<Longrightarrow> c = d"
proof (rule b64_tbl_inj)
  assume "b64_bits c = b64_bits d"
  then have e: "low_bits (of_nat (b64_tbl c)) 6 = low_bits (of_nat (b64_tbl d)) 6"
    unfolding b64_bits_def .
  have b: "\<forall>i<6. bit (of_nat (b64_tbl c) :: u32) i = bit (of_nat (b64_tbl d) :: u32) i"
    using low_bits_inj [OF e] by simp
  have "bit (b64_tbl c) i = bit (b64_tbl d) i" for i
    using b bit_small [OF b64_tbl_bound] by (cases "i < 6") (auto simp: bit_of_nat_iff)
  then show "b64_tbl c = b64_tbl d" by (rule bit_eqI)
qed

lemma concat_bits_inj:
  assumes "\<And>a b. a \<in> A \<Longrightarrow> b \<in> A \<Longrightarrow> f a = f b \<Longrightarrow> a = b" "\<And>a. length (f a) = k"
  shows "set xs \<subseteq> A \<Longrightarrow> set ys \<subseteq> A \<Longrightarrow> length xs = length ys \<Longrightarrow>
    concat (map f xs) = concat (map f ys) \<Longrightarrow> xs = ys"
proof (induction xs arbitrary: ys)
  case (Cons x xs)
  then obtain y ys' where y: "ys = y # ys'" by (cases ys) auto
  with Cons.prems assms(2) have "f x = f y \<and> concat (map f xs) = concat (map f ys')" by auto
  with Cons y assms(1) show ?case by auto
qed simp

text \<open>What the loop consumed is what it produced followed by the pending bits.\<close>

lemma b64url_loop_bits:
  "b64url_loop cap cs acc bits out = Some (acc', bits', out') \<Longrightarrow> bits < 8 \<Longrightarrow> length out \<le> cap \<Longrightarrow>
   concat (map byte_bits out') @ low_bits acc' bits' =
     concat (map byte_bits out) @ low_bits acc bits @ concat (map b64_bits cs) \<and>
   bits' < 8 \<and> length out' \<le> cap \<and> (\<forall>c\<in>set cs. b64_ok c)"
proof (induction cs arbitrary: acc bits out)
  case Nil
  then show ?case by simp
next
  case (Cons c cs)
  let ?a = "push_bit 6 acc OR of_nat (b64_tbl c) :: u32"
  have ok: "b64_ok c" using Cons.prems(1) by (cases "b64_ok c") (simp_all add: b64_ok_def)
  have push: "low_bits ?a (bits + 6) = low_bits acc bits @ b64_bits c"
    using low_bits_push [of bits "b64_tbl c" acc] Cons.prems(2) b64_tbl_bound by (simp add: b64_bits_def)
  show ?case
  proof (cases "bits + 6 \<ge> 8")
    case True
    let ?b = "bits + 6 - 8"
    let ?o = "out @ [char_of (unat (drop_bit ?b ?a AND 0xFF))]"
    from Cons.prems(1) True ok have "b64url_loop cap cs ?a ?b ?o = Some (acc', bits', out')"
      and "length out < cap"
      by (auto simp: b64_ok_def Let_def split: if_splits)
    from Cons.IH [OF this(1)] this(2) Cons.prems(2)
    have ih: "concat (map byte_bits out') @ low_bits acc' bits' =
        concat (map byte_bits ?o) @ low_bits ?a ?b @ concat (map b64_bits cs) \<and>
        bits' < 8 \<and> length out' \<le> cap \<and> (\<forall>c\<in>set cs. b64_ok c)" by simp
    have "low_bits ?a (bits + 6) = low_bits (drop_bit ?b ?a) 8 @ low_bits ?a ?b"
    proof -
      have "?b + 8 = bits + 6" using True by simp
      with low_bits_app [of ?a ?b 8] show ?thesis by metis
    qed
    then have "byte_bits (char_of (unat (drop_bit ?b ?a AND 0xFF))) @ low_bits ?a ?b = low_bits acc bits @ b64_bits c"
      using push byte_bits_byte by simp
    with ih ok show ?thesis by (simp del: append_assoc add: append_assoc [symmetric]) (simp add: append_assoc)
  next
    case False
    from Cons.prems(1) False ok have "b64url_loop cap cs ?a (bits + 6) out = Some (acc', bits', out')"
      by (auto simp: b64_ok_def Let_def split: if_splits)
    from Cons.IH [OF this] False Cons.prems(3) push ok show ?thesis by simp
  qed
qed

lemma b64url_loop_total:
  "\<forall>c\<in>set cs. b64_ok c \<Longrightarrow> bits < 8 \<Longrightarrow> 8 * length out + bits + 6 * length cs < 8 * cap + 8 \<Longrightarrow>
   b64url_loop cap cs acc bits out \<noteq> None"
proof (induction cs arbitrary: acc bits out)
  case (Cons c cs)
  then show ?case
    by (auto simp: b64_ok_def Let_def)
qed simp

lemma low_bits_zero: "(a AND (push_bit n 1 - 1) = 0) = (low_bits a n = replicate n False)" if "n \<le> 32" for a :: u32
proof -
  have "push_bit n 1 - 1 = (mask n :: u32)" by (simp add: mask_eq_exp_minus_1)
  then have "(a AND (push_bit n 1 - 1) = 0) = (take_bit n a = 0)" by (simp add: take_bit_eq_mask)
  also have "\<dots> = (\<forall>i<n. \<not> bit a i)"
  proof
    assume z: "take_bit n a = 0"
    show "\<forall>i<n. \<not> bit a i"
    proof (intro allI impI)
      fix i assume "i < n"
      then have "bit (take_bit n a) i = bit a i" by (simp add: bit_take_bit_iff)
      then show "\<not> bit a i" by (simp add: z)
    qed
  next
    assume "\<forall>i<n. \<not> bit a i"
    then show "take_bit n a = 0" by (intro bit_eqI) (simp add: bit_take_bit_iff)
  qed
  also have "\<dots> = (low_bits a n = replicate n False)"
  proof -
    have "(low_bits a n = replicate n False) = (\<forall>x\<in>set (low_bits a n). \<not> x)"
      by (auto intro!: replicate_eqI)
    then show ?thesis by (auto simp: low_bits_def)
  qed
  finally show ?thesis .
qed

text \<open>RFC 4648 in bits: the digits' bits are the bytes' bits followed by less than six zeros.\<close>

definition b64url_text :: "string \<Rightarrow> string \<Rightarrow> bool" where
  "b64url_text s bs \<longleftrightarrow>
     s \<noteq> [] \<and> length s mod 4 \<noteq> 1 \<and> (\<forall>c\<in>set s. b64_ok c) \<and>
     concat (map b64_bits s) = concat (map byte_bits bs) @ replicate (6 * length s mod 8) False"

lemma b64url_text_length: "b64url_text s bs \<Longrightarrow> 6 * length s = 8 * length bs + 6 * length s mod 8"
proof -
  assume "b64url_text s bs"
  then have "length (concat (map b64_bits s)) =
      length (concat (map byte_bits bs) @ replicate (6 * length s mod 8) False)"
    by (simp only: b64url_text_def)
  then show ?thesis by (simp only: length_append length_concat_b64_bits length_concat_byte_bits length_replicate)
qed

lemma b64url_decode_iff: "slv_b64url_decode s cap = Some bs \<longleftrightarrow> b64url_text s bs \<and> length bs \<le> cap"
proof
  assume d: "slv_b64url_decode s cap = Some bs"
  then obtain acc bits where l: "b64url_loop cap s 0 0 [] = Some (acc, bits, bs)"
    and z: "\<not> (bits > 0 \<and> acc AND (push_bit bits 1 - 1) \<noteq> 0)"
    and s: "s \<noteq> []" "length s mod 4 \<noteq> 1"
    by (auto simp: slv_b64url_decode_def split: if_splits option.splits)
  note B = b64url_loop_bits [OF l]
  have eq: "concat (map byte_bits bs) @ low_bits acc bits = concat (map b64_bits s)" and b8: "bits < 8"
    and ok: "length bs \<le> cap" "\<forall>c\<in>set s. b64_ok c"
    using B by simp_all
  have "6 * length s = bits + length bs * 8" using arg_cong [OF eq, of length] by simp
  then have "bits = 6 * length s mod 8" using b8 by (simp only: mod_mult_self1 mod_less)
  moreover have "low_bits acc bits = replicate bits False"
    using z b8 low_bits_zero [of bits acc] by (cases "bits = 0") auto
  ultimately show "b64url_text s bs \<and> length bs \<le> cap" using eq ok s by (simp add: b64url_text_def)
next
  assume b: "b64url_text s bs \<and> length bs \<le> cap"
  have len: "6 * length s = 8 * length bs + 6 * length s mod 8" (is "_ = _ + ?r")
    by (rule b64url_text_length [OF conjunct1 [OF b]])
  have r8: "?r < 8" by simp
  then have "b64url_loop cap s 0 0 [] \<noteq> None"
  proof (intro b64url_loop_total)
    have "8 * length bs \<le> 8 * cap" using b by simp
    then show "8 * length ([] :: string) + 0 + 6 * length s < 8 * cap + 8" using len r8 by simp
  qed (use b in \<open>simp_all add: b64url_text_def\<close>)
  then obtain acc bits out where l: "b64url_loop cap s 0 0 [] = Some (acc, bits, out)" by auto
  note B = b64url_loop_bits [OF l]
  have eq: "concat (map byte_bits out) @ low_bits acc bits = concat (map b64_bits s)" and b8: "bits < 8"
    using B by simp_all
  have l2: "8 * length out + bits = 8 * length bs + ?r" using arg_cong [OF eq, of length] len by simp
  have n: "length out = length bs" using l2 b8 r8 by linarith
  then have nb: "bits = ?r" using l2 by simp
  then have c: "concat (map byte_bits out) = concat (map byte_bits bs)" "low_bits acc bits = replicate bits False"
    using eq b n nb by (simp_all add: b64url_text_def)
  have "out = bs"
    by (rule concat_bits_inj [of UNIV byte_bits 8]) (use c n in \<open>auto intro: byte_bits_inj\<close>)
  moreover have "\<not> (bits > 0 \<and> acc AND (push_bit bits 1 - 1) \<noteq> 0)"
    using c(2) b8 low_bits_zero [of bits acc] by simp
  ultimately show "slv_b64url_decode s cap = Some bs"
    using b l by (auto simp: slv_b64url_decode_def b64url_text_def)
qed

lemma b64_length_inj:
  assumes "6 * m = 8 * k + 6 * m mod 8" "6 * n = 8 * k + 6 * n mod 8" "m mod 4 \<noteq> 1" "n mod 4 \<noteq> (1 :: nat)"
  shows "m = n"
proof -
  have r: "6 * x mod 8 < 6" if "x mod 4 \<noteq> 1" for x :: nat
    using that by presburger
  show ?thesis using assms(1,2) r [OF assms(3)] r [OF assms(4)] by linarith
qed

lemma b64url_text_unique: "b64url_text s bs \<Longrightarrow> b64url_text t bs \<Longrightarrow> s = t"
proof -
  assume s: "b64url_text s bs" and t: "b64url_text t bs"
  have n: "length s = length t"
    by (rule b64_length_inj [OF b64url_text_length [OF s] b64url_text_length [OF t]])
      (use s t in \<open>simp_all add: b64url_text_def\<close>)
  show "s = t"
    by (rule concat_bits_inj [of "{c. b64_ok c}" b64_bits 6])
      (use s t n in \<open>auto simp: b64url_text_def intro: b64_bits_inj\<close>)
qed

subsection \<open>The replay store\<close>

lemma nonce_sweep_loop:
  "nonce_sweep_loop now (length a) (a @ r) k = (es, k') \<Longrightarrow>
   mset es = mset a + mset (filter (\<lambda>e. ne_expires_at e > now) r) \<and>
   k' = k + length (filter (\<lambda>e. ne_expires_at e \<le> now) r)"
proof (induction "length r" arbitrary: a r k)
  case 0
  then show ?case by (subst (asm) nonce_sweep_loop.simps) simp
next
  case (Suc n)
  then obtain x r' where r: "r = x # r'" by (cases r) auto
  show ?case
  proof (cases "ne_expires_at x \<le> now")
    case True
    let ?r = "if r' = [] then [] else last r' # butlast r'"
    have m: "mset ?r = mset r'"
      by (cases r' rule: rev_cases) auto
    have "nonce_sweep_loop now (length a) (a @ ?r) (k + 1) = (es, k')"
      using Suc.prems True by (subst (asm) nonce_sweep_loop.simps) (simp add: r swap_remove_split)
    moreover have "n = length ?r" using Suc.hyps(2) r mset_eq_length [OF m] by simp
    ultimately have "mset es = mset a + mset (filter (\<lambda>e. ne_expires_at e > now) ?r) \<and>
        k' = k + 1 + length (filter (\<lambda>e. ne_expires_at e \<le> now) ?r)"
      by (intro Suc.hyps(1))
    moreover have f: "mset (filter P ?r) = mset (filter P r')" for P using m by (simp only: mset_filter)
    ultimately show ?thesis
      using True mset_eq_length [OF f [of "\<lambda>e. ne_expires_at e \<le> now"]] by (simp add: r)
  next
    case False
    have "nonce_sweep_loop now (length (a @ [x])) ((a @ [x]) @ r') k = (es, k')"
      using Suc.prems False by (subst (asm) nonce_sweep_loop.simps) (simp add: r)
    from Suc.hyps(1) [OF _ this] Suc.hyps(2) r False show ?thesis by simp
  qed
qed

lemma nonce_sweep:
  shows "mset (ns_entries (slv_joincap_nonce_sweep st now)) =
      mset (filter (\<lambda>e. ne_expires_at e > now) (ns_entries st))"
    and "ns_expired (slv_joincap_nonce_sweep st now) + length (ns_entries (slv_joincap_nonce_sweep st now)) =
      ns_expired st + length (ns_entries st)"
    and "ns_taken (slv_joincap_nonce_sweep st now) = ns_taken st"
proof -
  obtain es k where l: "nonce_sweep_loop now 0 (ns_entries st) (ns_expired st) = (es, k)" by fastforce
  then have r: "slv_joincap_nonce_sweep st now = st\<lparr>ns_entries := es, ns_expired := k\<rparr>"
    by (simp add: slv_joincap_nonce_sweep_def)
  note L = nonce_sweep_loop [of now "[]" "ns_entries st" "ns_expired st" es k, simplified, OF l]
  show "mset (ns_entries (slv_joincap_nonce_sweep st now)) =
      mset (filter (\<lambda>e. ne_expires_at e > now) (ns_entries st))" using L by (simp add: r)
  have "length es = length (filter (\<lambda>e. ne_expires_at e > now) (ns_entries st))"
    using L by (metis mset_eq_length mset_filter)
  then show "ns_expired (slv_joincap_nonce_sweep st now) + length (ns_entries (slv_joincap_nonce_sweep st now)) =
      ns_expired st + length (ns_entries st)"
    using L sum_length_filter_compl [of "\<lambda>e. ne_expires_at e \<le> now" "ns_entries st"]
    by (simp add: r not_le)
  show "ns_taken (slv_joincap_nonce_sweep st now) = ns_taken st" by (simp add: r)
qed

text \<open>The same loop as the machine runs it: one pass of its body, on the position, the entries and the number dropped.\<close>

definition sweep_body :: "int \<Rightarrow> nat \<times> nonce_entry list \<times> nat \<Rightarrow> nat \<times> nonce_entry list \<times> nat" where
  "sweep_body now_s = (\<lambda>(i, es, dropped).
     if ne_expires_at (es ! i) \<le> now_s then (i, swap_remove i es, dropped + 1) else (i + 1, es, dropped))"

lemma sweep_passes:
  assumes "length es - i = n" "i \<le> length es"
  shows "while_option (\<lambda>(i, es, k). i < length es) (sweep_body now) (i, es, k) = Some ((sweep_body now ^^ n) (i, es, k)) \<and>
    nonce_sweep_loop now i es k = snd ((sweep_body now ^^ n) (i, es, k))"
  using assms
proof (induction n arbitrary: i es k)
  case 0
  then show ?case by (subst while_option_unfold, subst nonce_sweep_loop.simps) simp
next
  case (Suc n)
  obtain i' es' k' where b: "sweep_body now (i, es, k) = (i', es', k')" by (metis prod_cases3)
  then have l: "length es' - i' = n" "i' \<le> length es'" using Suc.prems by (auto simp: sweep_body_def split: if_splits)
  have "nonce_sweep_loop now i es k = nonce_sweep_loop now i' es' k'"
    using b Suc.prems(1) by (subst nonce_sweep_loop.simps) (auto simp: sweep_body_def split: if_splits)
  moreover have "while_option (\<lambda>(i, es, k). i < length es) (sweep_body now) (i, es, k) =
      while_option (\<lambda>(i, es, k). i < length es) (sweep_body now) (i', es', k')"
  proof -
    have "i < length es" using Suc.prems(1) by simp
    then show ?thesis by (subst while_option_unfold) (simp add: b)
  qed
  ultimately show ?case using Suc.IH [OF l, of k'] by (simp only: funpow_Suc_right o_apply b)
qed

text \<open>
  C36 The sweep of the replay store ends: its loop, which moves the last entry into the place of an expired one and does
  not advance then, stops after exactly as many passes as there are entries, with exactly the unexpired entries kept
  and every other one counted.
\<close>

theorem nonce_sweep_terminates:
  "case (sweep_body now ^^ length (ns_entries st)) (0, ns_entries st, ns_expired st) of (i, es, k) \<Rightarrow>
     while_option (\<lambda>(i, es, k). i < length es) (sweep_body now) (0, ns_entries st, ns_expired st) = Some (i, es, k) \<and>
     slv_joincap_nonce_sweep st now = st\<lparr>ns_entries := es, ns_expired := k\<rparr> \<and>
     mset es = mset (filter (\<lambda>e. ne_expires_at e > now) (ns_entries st)) \<and>
     k = ns_expired st + length (filter (\<lambda>e. ne_expires_at e \<le> now) (ns_entries st))"
proof -
  obtain i es k where p: "(sweep_body now ^^ length (ns_entries st)) (0, ns_entries st, ns_expired st) = (i, es, k)"
    by (metis prod_cases3)
  have l: "nonce_sweep_loop now 0 (ns_entries st) (ns_expired st) = (es, k)"
    and w: "while_option (\<lambda>(i, es, k). i < length es) (sweep_body now) (0, ns_entries st, ns_expired st) = Some (i, es, k)"
    using sweep_passes [of "ns_entries st" 0 _ now "ns_expired st"] by (simp_all add: p)
  show ?thesis
    using nonce_sweep_loop [of now "[]" "ns_entries st" "ns_expired st" es k] w
    by (simp add: p l slv_joincap_nonce_sweep_def)
qed

lemma nonce_sweep_set:
  "set (ns_entries (slv_joincap_nonce_sweep st now)) = {e \<in> set (ns_entries st). ne_expires_at e > now}"
  using arg_cong [OF nonce_sweep(1) [of st now], of set_mset] by auto

definition nonce_inv :: "slv_joincap_nonce_store \<Rightarrow> bool" where
  "nonce_inv st \<longleftrightarrow>
     distinct (map ne_nonce (ns_entries st)) \<and> length (ns_entries st) \<le> SLV_JOINCAP_NONCE_MAX \<and>
     (\<forall>e\<in>set (ns_entries st). ne_nonce e \<noteq> [] \<and> length (ne_nonce e) < SLV_UUID_LEN) \<and>
     ns_taken st = ns_expired st + length (ns_entries st)"

lemma nonce_init_inv [slv_inv]: "nonce_inv nonce_store_init"
  by (simp add: nonce_inv_def nonce_store_init_def)

lemma nonce_sweep_inv [slv_inv]:
  assumes "nonce_inv st" shows "nonce_inv (slv_joincap_nonce_sweep st now)"
proof -
  let ?es = "filter (\<lambda>e. ne_expires_at e > now) (ns_entries st)"
  have m: "mset (ns_entries (slv_joincap_nonce_sweep st now)) = mset ?es" by (rule nonce_sweep(1))
  have "distinct (map ne_nonce ?es)" using assms by (simp add: nonce_inv_def distinct_map_filter)
  then have "distinct (map ne_nonce (ns_entries (slv_joincap_nonce_sweep st now)))"
    using m by (metis mset_eq_imp_distinct_iff mset_map)
  moreover have "length (ns_entries (slv_joincap_nonce_sweep st now)) \<le> length (ns_entries st)"
    using mset_eq_length [OF m] by simp
  ultimately show ?thesis
    using assms nonce_sweep(2,3) [of st now] by (auto simp: nonce_inv_def nonce_sweep_set)
qed

lemma nonce_take_inv [slv_inv]:
  assumes "nonce_inv st" shows "nonce_inv (snd (slv_joincap_nonce_take st n e now))"
proof -
  have s: "nonce_inv (slv_joincap_nonce_sweep st now)" using assms by (rule nonce_sweep_inv)
  show ?thesis
    using assms s
    by (auto simp: slv_joincap_nonce_take_def Let_def nonce_inv_def list_ex_iff)
qed

definition nonce_spent :: "slv_joincap_nonce_store \<Rightarrow> (string \<times> int) set" where
  "nonce_spent st = (\<lambda>e. (ne_nonce e, ne_expires_at e)) ` set (ns_entries st)"

lemma nonce_take_keeps:
  "p \<in> nonce_spent st \<Longrightarrow> now < snd p \<Longrightarrow> p \<in> nonce_spent (snd (slv_joincap_nonce_take st n e now))"
  by (auto simp: slv_joincap_nonce_take_def Let_def nonce_spent_def nonce_sweep_set)

lemma nonce_take_adds:
  "fst (slv_joincap_nonce_take st n e now) = SLV_JOINCAP_OK \<Longrightarrow>
   (n, e) \<in> nonce_spent (snd (slv_joincap_nonce_take st n e now))"
  by (auto simp: slv_joincap_nonce_take_def Let_def nonce_spent_def split: if_splits)

lemma nonce_take_refuses:
  "p \<in> nonce_spent st \<Longrightarrow> now < snd p \<Longrightarrow> fst (slv_joincap_nonce_take st (fst p) e now) \<noteq> SLV_JOINCAP_OK"
  by (auto simp: slv_joincap_nonce_take_def Let_def nonce_spent_def nonce_sweep_set list_ex_iff)

subsection \<open>Spend-once interface\<close>

text \<open>
  A service that admits requests carrying a token with an expiry: an admitted token is remembered until its
  expiry, and while it is remembered no request with the same token is admitted.
\<close>

locale spend_once =
  fixes valid :: "'st \<Rightarrow> bool"
    and spent :: "'st \<Rightarrow> (string \<times> int) set"
    and step :: "'req \<Rightarrow> 'st \<Rightarrow> bool \<times> 'st"
    and token :: "'req \<Rightarrow> (string \<times> int) option"
    and clock :: "'req \<Rightarrow> int"
  assumes step_valid: "valid st \<Longrightarrow> valid (snd (step r st))"
    and step_keeps: "valid st \<Longrightarrow> p \<in> spent st \<Longrightarrow> clock r < snd p \<Longrightarrow> p \<in> spent (snd (step r st))"
    and step_adds: "valid st \<Longrightarrow> fst (step r st) \<Longrightarrow> token r = Some p \<Longrightarrow> p \<in> spent (snd (step r st))"
    and step_refuses: "valid st \<Longrightarrow> p \<in> spent st \<Longrightarrow> clock r < snd p \<Longrightarrow> token r = Some q \<Longrightarrow>
      fst q = fst p \<Longrightarrow> \<not> fst (step r st)"
begin

fun outcomes :: "'st \<Rightarrow> 'req list \<Rightarrow> bool list" where
  "outcomes st [] = []"
| "outcomes st (r # rs) = fst (step r st) # outcomes (snd (step r st)) rs"

lemma length_outcomes [simp]: "length (outcomes st rs) = length rs"
  by (induction rs arbitrary: st) auto

lemma refused_while_remembered:
  "valid st \<Longrightarrow> p \<in> spent st \<Longrightarrow> \<forall>i\<le>j. clock (rs ! i) < snd p \<Longrightarrow> j < length rs \<Longrightarrow>
   token (rs ! j) = Some q \<Longrightarrow> fst q = fst p \<Longrightarrow> \<not> outcomes st rs ! j"
proof (induction rs arbitrary: st j)
  case (Cons r rs)
  have now: "clock r < snd p" using Cons.prems(3) by force
  show ?case
  proof (cases j)
    case 0
    with Cons.prems now show ?thesis by (auto dest: step_refuses)
  next
    case (Suc k)
    from Cons.prems(3) Suc have "\<forall>i\<le>k. clock (rs ! i) < snd p" by force
    with Cons.IH [OF step_valid step_keeps] Cons.prems Suc now show ?thesis by simp
  qed
qed simp

lemma spent_once:
  "valid st \<Longrightarrow> sorted (map clock rs) \<Longrightarrow> i < j \<Longrightarrow> j < length rs \<Longrightarrow>
   outcomes st rs ! i \<Longrightarrow> outcomes st rs ! j \<Longrightarrow>
   token (rs ! i) = Some p \<Longrightarrow> token (rs ! j) = Some q \<Longrightarrow> fst q = fst p \<Longrightarrow> snd p \<le> clock (rs ! j)"
proof (induction rs arbitrary: st i j)
  case (Cons r rs)
  then obtain k where j: "j = Suc k" by (cases j) auto
  show ?case
  proof (cases i)
    case 0
    with Cons.prems have "p \<in> spent (snd (step r st))" by (auto intro: step_adds)
    moreover have "\<forall>i\<le>k. clock (rs ! i) \<le> clock (rs ! k)"
      using Cons.prems(2,4) j by (auto simp: sorted_iff_nth_mono)
    ultimately show ?thesis
      using refused_while_remembered [of "snd (step r st)" p k rs q] step_valid Cons.prems j
      by (force simp: not_le)
  next
    case (Suc m)
    with Cons.IH [of "snd (step r st)" m k] step_valid Cons.prems j show ?thesis by simp
  qed
qed simp

end

text \<open>The replay store itself: a request is a nonce, its expiry and the clock.\<close>

interpretation nonces: spend_once nonce_inv nonce_spent
    "\<lambda>(n, e, now) st. map_prod (\<lambda>v. v = SLV_JOINCAP_OK) id (slv_joincap_nonce_take st n e now)"
    "\<lambda>(n, e, now). Some (n, e)" "\<lambda>(n, e, now). now"
  by unfold_locales
    (auto simp: nonce_take_inv nonce_take_keeps nonce_take_adds dest: nonce_take_refuses split: prod.splits)

text \<open>The gate: a request is one join's capability with its context and the clock.\<close>

record join_attempt =
  ja_cap :: "string option"
  ja_display :: "string option"
  ja_session :: "string option"
  ja_room :: int
  ja_epoch :: u64
  ja_gen :: u32
  ja_declared :: bool
  ja_now :: int

definition gate_step ::
  "(string \<Rightarrow> string \<Rightarrow> string option) \<Rightarrow> (string \<Rightarrow> string \<Rightarrow> bool) \<Rightarrow> string \<Rightarrow> join_attempt \<Rightarrow>
   joincap_state \<Rightarrow> slv_joincap_verdict \<times> joincap_state"
where
  "gate_step hmac memeq key a s =
     janus_slvoice_joincap_verify hmac memeq (Some key) (ja_cap a) (ja_display a) (ja_session a)
       (ja_room a) (ja_epoch a) (ja_gen a) (ja_declared a) (ja_now a) s"

definition gate_token ::
  "(string \<Rightarrow> string \<Rightarrow> string option) \<Rightarrow> (string \<Rightarrow> string \<Rightarrow> bool) \<Rightarrow> string \<Rightarrow> join_attempt \<Rightarrow>
   (string \<times> int) option"
where
  "gate_token hmac memeq key a =
     (case slv_joincap_parse hmac memeq (ja_cap a) (Some key) of
        Inl v \<Rightarrow> None | Inr c \<Rightarrow> Some (jc_nonce c, jc_exp c + SLV_JOINCAP_SKEW_S))"

fun gate_run ::
  "(string \<Rightarrow> string \<Rightarrow> string option) \<Rightarrow> (string \<Rightarrow> string \<Rightarrow> bool) \<Rightarrow> string \<Rightarrow> joincap_state \<Rightarrow>
   join_attempt list \<Rightarrow> slv_joincap_verdict list"
where
  "gate_run hmac memeq key s [] = []"
| "gate_run hmac memeq key s (a # as) =
     fst (gate_step hmac memeq key a s) # gate_run hmac memeq key (snd (gate_step hmac memeq key a s)) as"

lemma parse_fields_Inl: "joincap_fields p = Inl v \<Longrightarrow> v = SLV_JOINCAP_MALFORMED"
  by (auto simp: joincap_fields_def Let_def split: if_splits option.splits)

lemma parse_Inl:
  "slv_joincap_parse hmac memeq cap key = Inl v \<Longrightarrow> v = SLV_JOINCAP_MALFORMED \<or> v = SLV_JOINCAP_BAD_SIGNATURE"
  by (auto simp: slv_joincap_parse_def Let_def split: if_splits option.splits dest: parse_fields_Inl)

lemma parse_Some: "slv_joincap_parse hmac memeq cap key = Inr c \<Longrightarrow> \<exists>t. cap = Some t \<and> t \<noteq> []"
  by (cases cap) (auto simp: slv_joincap_parse_def split: if_splits option.splits)

text \<open>A capability that parses is well formed.\<close>

definition joincap_ok :: "slv_joincap \<Rightarrow> bool" where
  "joincap_ok c \<longleftrightarrow>
     jc_agent c \<noteq> [] \<and> length (jc_agent c) < SLV_UUID_LEN \<and>
     jc_session c \<noteq> [] \<and> length (jc_session c) < SLV_UUID_LEN \<and>
     jc_nonce c \<noteq> [] \<and> length (jc_nonce c) < SLV_UUID_LEN \<and>
     0 < jc_room c \<and> 0 < jc_iat c \<and> jc_iat c \<le> jc_exp c"

lemma fields_ok: "joincap_fields p = Inr c \<Longrightarrow> joincap_ok c"
  by (auto simp: joincap_fields_def Let_def joincap_ok_def slv_joincap_id_def
      split: if_splits option.splits)

lemma parse_ok: "slv_joincap_parse hmac memeq cap key = Inr c \<Longrightarrow> joincap_ok c"
  by (auto simp: slv_joincap_parse_def Let_def split: if_splits option.splits dest: fields_ok)

text \<open>The gate's step in terms of the replay store.\<close>

lemma gate_step_Inr:
  fixes a :: join_attempt
  assumes "slv_joincap_parse hmac memeq (ja_cap a) (Some key) = Inr c"
  shows "js_nonces (snd (gate_step hmac memeq key a s)) =
      (if slv_joincap_check c (ja_display a) (ja_session a) (ja_room a) (ja_now a) SLV_JOINCAP_SKEW_S = SLV_JOINCAP_OK
       then snd (slv_joincap_nonce_take (js_nonces s) (jc_nonce c) (jc_exp c + SLV_JOINCAP_SKEW_S) (ja_now a))
       else js_nonces s)"
    and "fst (gate_step hmac memeq key a s) = SLV_JOINCAP_OK \<longleftrightarrow>
      slv_joincap_check c (ja_display a) (ja_session a) (ja_room a) (ja_now a) SLV_JOINCAP_SKEW_S = SLV_JOINCAP_OK \<and>
      fst (slv_joincap_nonce_take (js_nonces s) (jc_nonce c) (jc_exp c + SLV_JOINCAP_SKEW_S) (ja_now a)) = SLV_JOINCAP_OK \<and>
      slv_joincap_generation c (ja_epoch a) (ja_gen a) = SLV_JOINCAP_OK"
proof -
  obtain t where t: "ja_cap a = Some t" "t \<noteq> []" using parse_Some [OF assms] by auto
  have note_nonces: "js_nonces (joincap_note_count n s) = js_nonces s" for n s by (cases n) auto
  show "js_nonces (snd (gate_step hmac memeq key a s)) =
      (if slv_joincap_check c (ja_display a) (ja_session a) (ja_room a) (ja_now a) SLV_JOINCAP_SKEW_S = SLV_JOINCAP_OK
       then snd (slv_joincap_nonce_take (js_nonces s) (jc_nonce c) (jc_exp c + SLV_JOINCAP_SKEW_S) (ja_now a))
       else js_nonces s)"
    using t assms
    by (auto simp: gate_step_def janus_slvoice_joincap_verify_def joincap_admit_def Let_def joincap_refuse_def
        note_nonces split: prod.splits if_splits)
  show "fst (gate_step hmac memeq key a s) = SLV_JOINCAP_OK \<longleftrightarrow>
      slv_joincap_check c (ja_display a) (ja_session a) (ja_room a) (ja_now a) SLV_JOINCAP_SKEW_S = SLV_JOINCAP_OK \<and>
      fst (slv_joincap_nonce_take (js_nonces s) (jc_nonce c) (jc_exp c + SLV_JOINCAP_SKEW_S) (ja_now a)) = SLV_JOINCAP_OK \<and>
      slv_joincap_generation c (ja_epoch a) (ja_gen a) = SLV_JOINCAP_OK"
    using t assms
    by (auto simp: gate_step_def janus_slvoice_joincap_verify_def joincap_admit_def Let_def
        split: prod.splits if_splits)
qed

lemma gate_step_Inl:
  fixes a :: join_attempt
  assumes "slv_joincap_parse hmac memeq (ja_cap a) (Some key) = Inl v"
  shows "js_nonces (snd (gate_step hmac memeq key a s)) = js_nonces s"
    and "fst (gate_step hmac memeq key a s) \<noteq> SLV_JOINCAP_OK"
  using assms parse_Inl [OF assms]
  by (auto simp: gate_step_def janus_slvoice_joincap_verify_def Let_def joincap_refuse_def)

interpretation gate: spend_once "\<lambda>s. nonce_inv (js_nonces s)" "\<lambda>s. nonce_spent (js_nonces s)"
    "\<lambda>a s. map_prod (\<lambda>v. v = SLV_JOINCAP_OK) id (gate_step hmac memeq key a s)"
    "gate_token hmac memeq key" ja_now
  for hmac memeq key
proof unfold_locales
  fix s :: joincap_state and a :: join_attempt and p q :: "string \<times> int"
  let ?P = "slv_joincap_parse hmac memeq (ja_cap a) (Some key)"
  assume v: "nonce_inv (js_nonces s)"
  show "nonce_inv (js_nonces (snd (map_prod (\<lambda>v. v = SLV_JOINCAP_OK) id (gate_step hmac memeq key a s))))"
    using v by (cases ?P) (auto simp: gate_step_Inl gate_step_Inr nonce_take_inv)
  show "p \<in> nonce_spent (js_nonces (snd (map_prod (\<lambda>v. v = SLV_JOINCAP_OK) id (gate_step hmac memeq key a s))))"
    if "p \<in> nonce_spent (js_nonces s)" "ja_now a < snd p"
    using that by (cases ?P) (auto simp: gate_step_Inl gate_step_Inr nonce_take_keeps)
  show "p \<in> nonce_spent (js_nonces (snd (map_prod (\<lambda>v. v = SLV_JOINCAP_OK) id (gate_step hmac memeq key a s))))"
    if "fst (map_prod (\<lambda>v. v = SLV_JOINCAP_OK) id (gate_step hmac memeq key a s))" "gate_token hmac memeq key a = Some p"
    using that by (cases ?P) (auto simp: gate_step_Inl gate_step_Inr gate_token_def nonce_take_adds)
  show "\<not> fst (map_prod (\<lambda>v. v = SLV_JOINCAP_OK) id (gate_step hmac memeq key a s))"
    if "p \<in> nonce_spent (js_nonces s)" "ja_now a < snd p" "gate_token hmac memeq key a = Some q" "fst q = fst p"
    using that by (cases ?P) (auto simp: gate_step_Inl gate_step_Inr gate_token_def dest: nonce_take_refuses)
qed

lemma gate_run_outcomes:
  "map (\<lambda>v. v = SLV_JOINCAP_OK) (gate_run hmac memeq key s as) = gate.outcomes hmac memeq key s as"
  by (induction as arbitrary: s) auto

lemma length_gate_run [simp]: "length (gate_run hmac memeq key s as) = length as"
  by (induction as arbitrary: s) auto

lemma gate_run_nth:
  "i < length as \<Longrightarrow> (gate_run hmac memeq key s as ! i = SLV_JOINCAP_OK) = gate.outcomes hmac memeq key s as ! i"
  by (simp flip: gate_run_outcomes)

lemma gate_run_OK:
  "i < length as \<Longrightarrow> gate_run hmac memeq key s as ! i = SLV_JOINCAP_OK \<Longrightarrow>
   \<exists>s'. fst (gate_step hmac memeq key (as ! i) s') = SLV_JOINCAP_OK"
proof (induction as arbitrary: s i)
  case (Cons a as)
  then show ?case by (cases i) auto
qed simp

lemma check_OK_iff:
  "slv_joincap_check c d sid room now sk = SLV_JOINCAP_OK \<longleftrightarrow>
   d = Some (jc_agent c) \<and> sid = Some (jc_session c) \<and> jc_room c = room \<and>
   jc_iat c - sk \<le> now \<and> now \<le> jc_exp c + sk"
  by (auto simp: slv_joincap_check_def)

lemma last_dot_Some: "last_dot s = Some i \<Longrightarrow> s = take i s @ CHR ''.'' # drop (Suc i) s"
  by (induction s arbitrary: i) (auto split: option.splits if_splits)

subsection \<open>Properties\<close>

text \<open>
  base64url decoding is exact: the decoder accepts a text for some bytes, within its output
  capacity, exactly when the text is the RFC 4648 encoding of those bytes without padding, and no two texts
  decode to the same bytes, so a signed capability has one spelling only.
\<close>

theorem b64url_decode_exact:
  "(slv_b64url_decode s cap = Some bs) = (b64url_text s bs \<and> length bs \<le> cap) \<and>
   (slv_b64url_decode s cap = Some bs \<and> slv_b64url_decode t cap' = Some bs \<longrightarrow> s = t)"
  by (auto simp: b64url_decode_iff intro: b64url_text_unique)

theorem b64url_decode_exact_witness:
  "slv_b64url_decode ''YXxz'' 32 = Some ''a|s'' \<and> b64url_text ''YXxz'' ''a|s''"
proof -
  have d: "slv_b64url_decode ''YXxz'' 32 = Some ''a|s''"
    by (simp add: slv_b64url_decode_def b64_tbl_def c_code_def char_of_def bit_0 Let_def)
  with b64url_decode_exact [of "''YXxz''" 32 "''a|s''" "''YXxz''" 32] show ?thesis by simp
qed

text \<open>
  C7 A spent capability is not admitted again before the last second of its window: in any sequence of
  joins with a clock that does not go back, whatever their contexts, if the same capability is admitted at two
  of them, the second is at exactly \<open>exp + skew\<close>.
\<close>

theorem joincap_replay_window:
  assumes "sorted (map ja_now as)" and "i < j" and "j < length as"
    and "gate_run hmac memeq key joincap_state_init as ! i = SLV_JOINCAP_OK"
    and "gate_run hmac memeq key joincap_state_init as ! j = SLV_JOINCAP_OK"
    and "ja_cap (as ! i) = ja_cap (as ! j)"
    and "slv_joincap_parse hmac memeq (ja_cap (as ! j)) (Some key) = Inr c"
  shows "ja_now (as ! j) = jc_exp c + SLV_JOINCAP_SKEW_S"
proof -
  have tok: "gate_token hmac memeq key (as ! k) = Some (jc_nonce c, jc_exp c + SLV_JOINCAP_SKEW_S)" if "k \<in> {i, j}" for k
    using that assms(6,7) by (auto simp: gate_token_def)
  have "nonce_inv (js_nonces joincap_state_init)" by (simp add: joincap_state_init_def nonce_init_inv)
  from gate.spent_once [OF this assms(1,2,3) _ _ tok tok] assms(2-5)
  have "jc_exp c + SLV_JOINCAP_SKEW_S \<le> ja_now (as ! j)" by (simp add: gate_run_nth)
  moreover obtain s' where "fst (gate_step hmac memeq key (as ! j) s') = SLV_JOINCAP_OK"
    using gate_run_OK assms(3,5) by blast
  then have "ja_now (as ! j) \<le> jc_exp c + SLV_JOINCAP_SKEW_S"
    by (simp add: gate_step_Inr(2) [OF assms(7)] check_OK_iff)
  ultimately show ?thesis by simp
qed

text \<open>
  C18 The last second is a hole: every capability that a fresh gate admits before \<open>exp + skew\<close> is
  admitted a second time, in the same context, at \<open>exp + skew\<close>, because the time check still accepts that second while the
  replay store has already dropped the nonce.
\<close>

theorem joincap_boundary_replay:
  assumes "slv_joincap_parse hmac memeq (ja_cap a) (Some key) = Inr c"
    and "gate_run hmac memeq key joincap_state_init [a] = [SLV_JOINCAP_OK]"
    and "ja_now a < jc_exp c + SLV_JOINCAP_SKEW_S"
  shows "gate_run hmac memeq key joincap_state_init [a, a\<lparr>ja_now := jc_exp c + SLV_JOINCAP_SKEW_S\<rparr>] =
    [SLV_JOINCAP_OK, SLV_JOINCAP_OK]"
proof -
  let ?e = "jc_exp c + SLV_JOINCAP_SKEW_S"
  let ?b = "a\<lparr>ja_now := ?e\<rparr>" and ?s = "snd (gate_step hmac memeq key a joincap_state_init)"
  have b: "slv_joincap_parse hmac memeq (ja_cap ?b) (Some key) = Inr c" using assms(1) by simp
  have ok: "jc_nonce c \<noteq> []" "length (jc_nonce c) < SLV_UUID_LEN" "jc_iat c \<le> jc_exp c"
    using parse_ok [OF assms(1)] by (auto simp: joincap_ok_def)
  have ctx: "slv_joincap_check c (ja_display a) (ja_session a) (ja_room a) (ja_now a) SLV_JOINCAP_SKEW_S = SLV_JOINCAP_OK"
    "slv_joincap_generation c (ja_epoch a) (ja_gen a) = SLV_JOINCAP_OK"
    using assms(2) by (simp_all add: gate_step_Inr(2) [OF assms(1)])
  have skew: "0 \<le> SLV_JOINCAP_SKEW_S" by (simp add: slv_const)
  have sweep0: "slv_joincap_nonce_sweep nonce_store_init t = nonce_store_init" for t
    by (simp add: slv_joincap_nonce_sweep_def nonce_store_init_def nonce_sweep_loop.simps)
  have "ns_entries (js_nonces ?s) = [\<lparr>ne_nonce = jc_nonce c, ne_expires_at = ?e\<rparr>]"
    using ctx ok
    by (simp add: gate_step_Inr(1) [OF assms(1)] slv_joincap_nonce_take_def joincap_state_init_def sweep0
        Let_def) (simp add: nonce_store_init_def SLV_JOINCAP_NONCE_MAX_def)
  then have "set (ns_entries (slv_joincap_nonce_sweep (js_nonces ?s) ?e)) = {}"
    by (simp add: nonce_sweep_set)
  then have "fst (slv_joincap_nonce_take (js_nonces ?s) (jc_nonce c) ?e ?e) = SLV_JOINCAP_OK"
    using ok by (simp add: slv_joincap_nonce_take_def Let_def SLV_JOINCAP_NONCE_MAX_def)
  then have "fst (gate_step hmac memeq key ?b ?s) = SLV_JOINCAP_OK"
    using ctx ok(3) skew by (simp add: gate_step_Inr(2) [OF b] check_OK_iff)
  with assms(2) show ?thesis by simp
qed

lemma admits_bound:
  assumes "\<And>x y. length x = length y \<Longrightarrow> memeq x y = (x = y)"
    and "fst (gate_step hmac memeq key a s) = SLV_JOINCAP_OK"
  shows "\<exists>payload bytes sig mac c.
    ja_cap a = Some (SLV_JOINCAP_PREFIX @ payload @ ''.'' @ sig) \<and>
    hmac key (SLV_JOINCAP_PREFIX @ payload) = Some mac \<and> b64url_text sig mac \<and>
    b64url_text payload bytes \<and> joincap_fields bytes = Inr c \<and>
    ja_display a = Some (jc_agent c) \<and> ja_session a = Some (jc_session c) \<and> ja_room a = jc_room c \<and>
    jc_iat c - SLV_JOINCAP_SKEW_S \<le> ja_now a \<and> ja_now a \<le> jc_exp c + SLV_JOINCAP_SKEW_S \<and>
    (jc_epoch c = 0 \<or> ja_epoch a \<le> jc_epoch c)"
proof -
  obtain c where c: "slv_joincap_parse hmac memeq (ja_cap a) (Some key) = Inr c"
    using assms(2) gate_step_Inl(2) by (cases "slv_joincap_parse hmac memeq (ja_cap a) (Some key)") blast+
  have ctx: "ja_display a = Some (jc_agent c) \<and> ja_session a = Some (jc_session c) \<and> ja_room a = jc_room c \<and>
    jc_iat c - SLV_JOINCAP_SKEW_S \<le> ja_now a \<and> ja_now a \<le> jc_exp c + SLV_JOINCAP_SKEW_S \<and>
    (jc_epoch c = 0 \<or> ja_epoch a \<le> jc_epoch c)"
    using assms(2) by (auto simp: gate_step_Inr(2) [OF c] check_OK_iff slv_joincap_generation_def not_less split: if_splits)
  obtain cap dot bytes mac given where p: "ja_cap a = Some cap"
      "take (length SLV_JOINCAP_PREFIX) cap = SLV_JOINCAP_PREFIX"
      "last_dot cap = Some dot" "\<not> dot \<le> length SLV_JOINCAP_PREFIX"
      "slv_b64url_decode (drop (dot + 1) cap) SLV_JOINCAP_MAC_LEN = Some given"
      "length given = SLV_JOINCAP_MAC_LEN" "hmac key (take dot cap) = Some mac" "length mac = SLV_JOINCAP_MAC_LEN"
      "memeq given mac"
      "slv_b64url_decode (drop (length SLV_JOINCAP_PREFIX) (take dot cap)) (SLV_JOINCAP_PAYLOAD_MAX - 1) = Some bytes"
      "joincap_fields bytes = Inr c"
    using c by (auto simp: slv_joincap_parse_def Let_def split: option.splits if_splits)
  have g: "given = mac" using assms(1) p(6,8,9) by simp
  have "take (length SLV_JOINCAP_PREFIX) (take dot cap) = SLV_JOINCAP_PREFIX" using p(2,4) by (simp add: min_def)
  then have s: "take dot cap = SLV_JOINCAP_PREFIX @ drop (length SLV_JOINCAP_PREFIX) (take dot cap)"
    by (metis append_take_drop_id)
  have "cap = take dot cap @ ''.'' @ drop (dot + 1) cap" using last_dot_Some [OF p(3)] by simp
  with s have "ja_cap a = Some (SLV_JOINCAP_PREFIX @ drop (length SLV_JOINCAP_PREFIX) (take dot cap) @ ''.'' @ drop (dot + 1) cap)"
    using p(1) by (metis append.assoc)
  moreover have "hmac key (SLV_JOINCAP_PREFIX @ drop (length SLV_JOINCAP_PREFIX) (take dot cap)) = Some mac"
    using p(7) s by simp
  moreover have "b64url_text (drop (dot + 1) cap) mac" "b64url_text (drop (length SLV_JOINCAP_PREFIX) (take dot cap)) bytes"
    using p(5,10) g by (auto simp: b64url_decode_iff)
  ultimately show ?thesis using ctx p(11) by blast
qed

text \<open>
  An admitted capability is authentic and bound to its join: it is the version prefix, a payload and
  a signature, the signature being the HMAC of everything before the last dot, and the agent, session and room of its
  payload are those of the join, the clock is within its window and its epoch is not below the room's.
\<close>

theorem joincap_admits_only_bound:
  assumes "\<And>x y. length x = length y \<Longrightarrow> memeq x y = (x = y)"
    and "fst (gate_step hmac memeq key a s) = SLV_JOINCAP_OK"
  shows "\<exists>payload bytes sig mac c.
    ja_cap a = Some (SLV_JOINCAP_PREFIX @ payload @ ''.'' @ sig) \<and>
    hmac key (SLV_JOINCAP_PREFIX @ payload) = Some mac \<and> b64url_text sig mac \<and>
    b64url_text payload bytes \<and> joincap_fields bytes = Inr c \<and>
    ja_display a = Some (jc_agent c) \<and> ja_session a = Some (jc_session c) \<and> ja_room a = jc_room c \<and>
    jc_iat c - SLV_JOINCAP_SKEW_S \<le> ja_now a \<and> ja_now a \<le> jc_exp c + SLV_JOINCAP_SKEW_S \<and>
    (jc_epoch c = 0 \<or> ja_epoch a \<le> jc_epoch c)"
  using assms by (rule admits_bound)

subsection \<open>A concrete capability\<close>

text \<open>
  A stand-in for the HMAC (a constant of 32 zero bytes, whose base64url text is 43 times A) and a capability
  with the payload \<open>a|s|1|0000000000000000|0|1|2|n\<close>.
\<close>

definition sample_hmac :: "string \<Rightarrow> string \<Rightarrow> string option" where
  "sample_hmac key text = Some (replicate 32 (CHR 0x00))"

definition sample_cap :: string where
  "sample_cap = ''v1.YXxzfDF8MDAwMDAwMDAwMDAwMDAwMHwwfDF8Mnxu.AAAAAAAAAAAAAAAAAAAAAAAAAAAAAAAAAAAAAAAAAAA''"

definition sample_joincap :: slv_joincap where
  "sample_joincap = \<lparr>jc_agent = ''a'', jc_session = ''s'', jc_room = 1, jc_epoch = 0, jc_generation = 0,
     jc_iat = 1, jc_exp = 2, jc_nonce = ''n''\<rparr>"

definition sample_attempt :: "int \<Rightarrow> join_attempt" where
  "sample_attempt now = \<lparr>ja_cap = Some sample_cap, ja_display = Some ''a'', ja_session = Some ''s'', ja_room = 1,
     ja_epoch = 0, ja_gen = 0, ja_declared = True, ja_now = now\<rparr>"

lemma sample_payload:
  "slv_b64url_decode ''YXxzfDF8MDAwMDAwMDAwMDAwMDAwMHwwfDF8Mnxu'' 511 = Some ''a|s|1|0000000000000000|0|1|2|n''"
  by (simp add: slv_b64url_decode_def b64_tbl_def c_code_def char_of_def bit_0 Let_def)

lemma sample_mac:
  "slv_b64url_decode ''AAAAAAAAAAAAAAAAAAAAAAAAAAAAAAAAAAAAAAAAAAA'' 32 = Some (replicate 32 (CHR 0x00))"
  by (simp add: slv_b64url_decode_def b64_tbl_def c_code_def char_of_def bit_0 Let_def) (simp add: numeral_eq_Suc)

lemma sample_fields: "joincap_fields ''a|s|1|0000000000000000|0|1|2|n'' = Inr sample_joincap"
  by (simp add: joincap_fields_def SLV_JOINCAP_FIELDS_def slv_joincap_id_def slv_joincap_i64_def
      slv_joincap_hex64_def strtol_def dec_value_def LONG_MAX_def LONG_MIN_def c_isspace_def c_isdigit_def
      c_code_def SLV_UUID_LEN_def hex_digit_def hex_nat_def sample_joincap_def Let_def)

lemma sample_parse: "slv_joincap_parse sample_hmac (=) (Some sample_cap) (Some ''k'') = Inr sample_joincap"
  by (simp add: slv_joincap_parse_def sample_cap_def SLV_JOINCAP_MAX_LEN_def SLV_JOINCAP_PREFIX_def
      SLV_JOINCAP_MAC_LEN_def SLV_JOINCAP_PAYLOAD_MAX_def sample_mac sample_payload sample_fields sample_hmac_def
      Let_def)

lemma sample_admitted:
  assumes "-119 \<le> now" "now \<le> 122"
  shows "gate_run sample_hmac (=) ''k'' joincap_state_init [sample_attempt now] = [SLV_JOINCAP_OK]"
proof -
  have p: "slv_joincap_parse sample_hmac (=) (ja_cap (sample_attempt now)) (Some ''k'') = Inr sample_joincap"
    by (simp add: sample_attempt_def sample_parse)
  have sweep0: "slv_joincap_nonce_sweep nonce_store_init t = nonce_store_init" for t
    by (simp add: slv_joincap_nonce_sweep_def nonce_store_init_def nonce_sweep_loop.simps)
  have "fst (slv_joincap_nonce_take nonce_store_init ''n'' e now) = SLV_JOINCAP_OK" for e
    by (simp add: slv_joincap_nonce_take_def sweep0) (simp add: nonce_store_init_def slv_const SLV_UUID_LEN_def)
  then show ?thesis
    using assms
    by (simp add: gate_step_Inr(2) [OF p] check_OK_iff slv_joincap_generation_def)
      (simp add: sample_joincap_def sample_attempt_def joincap_state_init_def SLV_JOINCAP_SKEW_S_def)
qed

theorem joincap_boundary_replay_witness:
  "gate_run sample_hmac (=) ''k'' joincap_state_init [sample_attempt 1, sample_attempt 122] =
     [SLV_JOINCAP_OK, SLV_JOINCAP_OK]"
  using joincap_boundary_replay [of sample_hmac "(=)" "sample_attempt 1" "''k''" sample_joincap]
    sample_parse sample_admitted [of 1]
  by (simp add: sample_attempt_def sample_joincap_def SLV_JOINCAP_SKEW_S_def)

theorem joincap_replay_window_witness:
  "gate_run sample_hmac (=) ''k'' joincap_state_init [sample_attempt 1, sample_attempt 3] =
     [SLV_JOINCAP_OK, gate_run sample_hmac (=) ''k'' joincap_state_init [sample_attempt 1, sample_attempt 3] ! 1] \<and>
   gate_run sample_hmac (=) ''k'' joincap_state_init [sample_attempt 1, sample_attempt 3] ! 1 \<noteq> SLV_JOINCAP_OK"
  using joincap_replay_window [of "[sample_attempt 1, sample_attempt 3]" 0 1 sample_hmac "(=)" "''k''" sample_joincap]
    sample_parse sample_admitted [of 1]
  by (auto simp: sample_attempt_def sample_joincap_def SLV_JOINCAP_SKEW_S_def)

theorem joincap_admits_only_bound_witness:
  "\<exists>payload bytes sig mac c.
    Some sample_cap = Some (SLV_JOINCAP_PREFIX @ payload @ ''.'' @ sig) \<and>
    sample_hmac ''k'' (SLV_JOINCAP_PREFIX @ payload) = Some mac \<and> b64url_text sig mac \<and>
    b64url_text payload bytes \<and> joincap_fields bytes = Inr c \<and> jc_agent c = ''a''"
  using joincap_admits_only_bound [of "(=)" sample_hmac "''k''" "sample_attempt 1" joincap_state_init]
    sample_admitted [of 1]
  by (simp add: sample_attempt_def) metis

end
