(* ===== verification/Possync.thy ===== *)
theory Possync
  imports Visauth Json
begin

text \<open>
  The positions a simulator reports, \<^verbatim>\<open>src/src/possync.h\<close> and \<^verbatim>\<open>src/src/possync.c\<close>: the
  request parser, the open-addressing store and the observe-only comparison.

  A slot whose \<^verbatim>\<open>used\<close> flag is clear is None. The hash is 32-bit arithmetic. Distances and
  tolerances, doubles in the code, are real numbers here, so the model has no rounding and no NaN.
\<close>

subsection \<open>Data\<close>

definition SLV_POS_MAX_BYTES :: nat where [slv_const]: "SLV_POS_MAX_BYTES = 65536"
definition SLV_POS_MAX_ENTRIES :: nat where [slv_const]: "SLV_POS_MAX_ENTRIES = 128"
definition SLV_POS_COORD_MAX :: int where [slv_const]: "SLV_POS_COORD_MAX = 2147483647"
definition SLV_POS_SPEED_MAX_CMS :: int where [slv_const]: "SLV_POS_SPEED_MAX_CMS = 200000"
definition SLV_POS_TOL_MAX_CM :: int where [slv_const]: "SLV_POS_TOL_MAX_CM = 500000"
definition SLV_POS_STORE_MAX :: nat where [slv_const]: "SLV_POS_STORE_MAX = 256"
definition SLV_POS_SLOTS :: nat where [slv_const]: "SLV_POS_SLOTS = 512"
definition SLV_POS_STALE_MS :: int where [slv_const]: "SLV_POS_STALE_MS = 6000"

datatype slv_pos_status = SLV_POS_OK | SLV_POS_MALFORMED | SLV_POS_TOOBIG

record slv_pos_entry =
  pe_uuid :: string
  pe_x :: int
  pe_y :: int
  pe_z :: int
  pe_speed_cms :: int
  pe_tol_cm :: int

record slv_posbatch =
  pb_room :: int
  pb_seq :: int
  pb_full :: bool
  pb_enforce_requested :: bool
  pb_has_epoch :: bool
  pb_room_epoch :: u64
  pb_entries :: "slv_pos_entry list"
  pb_n_skipped :: nat

record slv_pos_sim =
  si_e :: slv_pos_entry
  si_recv_us :: int

record slv_pos_store =
  po_slot :: "slv_pos_sim option list"
  po_count :: nat

datatype slv_pos_sim_state = SLV_POS_SIM_NONE | SLV_POS_SIM_STALE | SLV_POS_SIM_FRESH

definition slv_pos_entry_zero :: slv_pos_entry where
  "slv_pos_entry_zero = \<lparr>pe_uuid = [], pe_x = 0, pe_y = 0, pe_z = 0, pe_speed_cms = 0, pe_tol_cm = 0\<rparr>"

record slv_pos_part_stats =
  pp_state :: slv_pos_sim_state
  pp_age_ms :: int
  pp_sim :: slv_pos_entry
  pp_dev_cm :: real
  pp_ticks_observed :: nat
  pp_would_clamp :: nat
  pp_would_clamp_max_dev_cm :: real
  pp_would_clamp_max_excess_cm :: real
  pp_would_use_sim :: nat
  pp_no_sim :: nat
  pp_no_sim_stale :: nat

record slv_pos_room_stats =
  pr_have_batch :: bool
  pr_last_seq :: int
  pr_last_us :: int
  pr_epoch :: u64
  pr_batches :: nat
  pr_full_batches :: nat
  pr_entries_applied :: nat
  pr_entries_skipped :: nat
  pr_entries_dropped_full :: nat
  pr_rejected_stale_epoch :: nat
  pr_rejected_stale_seq :: nat
  pr_enforce_requests :: nat
  pr_would_clamp_ticks :: nat
  pr_would_use_sim_ticks :: nat
  pr_no_sim_ticks :: nat
  pr_no_sim_stale_ticks :: nat
  pr_would_clamp_max_dev_cm :: real
  pr_would_clamp_max_excess_cm :: real
  pr_would_clamp_now :: nat
  pr_would_use_sim_now :: nat
  pr_no_sim_now :: nat

fun slv_pos_status_str :: "slv_pos_status \<Rightarrow> string" where
  "slv_pos_status_str SLV_POS_OK = ''ok''"
| "slv_pos_status_str SLV_POS_MALFORMED = ''malformed''"
| "slv_pos_status_str SLV_POS_TOOBIG = ''too_big''"

fun slv_pos_sim_state_str :: "slv_pos_sim_state \<Rightarrow> string" where
  "slv_pos_sim_state_str SLV_POS_SIM_NONE = ''none''"
| "slv_pos_sim_state_str SLV_POS_SIM_STALE = ''stale''"
| "slv_pos_sim_state_str SLV_POS_SIM_FRESH = ''fresh''"

subsection \<open>The parser\<close>

text \<open>One character of a canonical UUID: its position and the character written, None when refused.\<close>

definition uuid_canon_char :: "nat \<Rightarrow> char \<Rightarrow> char option" where
  "uuid_canon_char i c =
     (if i = 8 \<or> i = 13 \<or> i = 18 \<or> i = 23 then (if c \<noteq> CHR ''-'' then None else Some c)
      else if 65 \<le> c_code c \<and> c_code c \<le> 70 then Some (char_of (c_code c + 32))
      else if (48 \<le> c_code c \<and> c_code c \<le> 57) \<or> (97 \<le> c_code c \<and> c_code c \<le> 102) then Some c
      else None)"

fun uuid_canon_loop :: "nat \<Rightarrow> string \<Rightarrow> string option" where
  "uuid_canon_loop i [] = Some []"
| "uuid_canon_loop i (c # cs) =
     (case uuid_canon_char i c of
        None \<Rightarrow> None
      | Some d \<Rightarrow> map_option (\<lambda>ds. d # ds) (uuid_canon_loop (i + 1) cs))"

definition slv_pos_uuid_canon :: "string option \<Rightarrow> string option" where
  "slv_pos_uuid_canon s =
     (case s of None \<Rightarrow> None | Some t \<Rightarrow> if length t \<noteq> 36 then None else uuid_canon_loop 0 t)"

definition slv_pos_int :: "json option \<Rightarrow> int \<Rightarrow> int \<Rightarrow> int option" where
  "slv_pos_int v lo hi =
     (if \<not> json_is_integer v then None
      else (let i = json_integer_value v in if i < lo \<or> i > hi then None else Some i))"

definition slv_pos_parse_entry :: "string \<Rightarrow> json \<Rightarrow> slv_pos_entry option" where
  "slv_pos_parse_entry key val =
     (case slv_pos_uuid_canon (Some key) of
        None \<Rightarrow> None
      | Some uuid \<Rightarrow>
          if \<not> json_is_array (Some val) \<or> length (json_elements (Some val)) < 5 then None
          else (case (slv_pos_int (json_array_get (Some val) 0) (- SLV_POS_COORD_MAX) SLV_POS_COORD_MAX,
                      slv_pos_int (json_array_get (Some val) 1) (- SLV_POS_COORD_MAX) SLV_POS_COORD_MAX,
                      slv_pos_int (json_array_get (Some val) 2) (- SLV_POS_COORD_MAX) SLV_POS_COORD_MAX,
                      slv_pos_int (json_array_get (Some val) 3) 0 SLV_POS_SPEED_MAX_CMS,
                      slv_pos_int (json_array_get (Some val) 4) 0 SLV_POS_TOL_MAX_CM) of
              (Some x, Some y, Some z, Some speed, Some tol) \<Rightarrow>
                Some \<lparr>pe_uuid = uuid, pe_x = x, pe_y = y, pe_z = z, pe_speed_cms = speed, pe_tol_cm = tol\<rparr>
            | _ \<Rightarrow> None))"

definition slv_posbatch_zero :: slv_posbatch where
  "slv_posbatch_zero = \<lparr>pb_room = 0, pb_seq = 0, pb_full = False, pb_enforce_requested = False,
     pb_has_epoch = False, pb_room_epoch = 0, pb_entries = [], pb_n_skipped = 0\<rparr>"

definition pos_parse_member ::
  "string \<times> json \<Rightarrow> slv_pos_entry list \<times> nat \<Rightarrow> slv_pos_entry list \<times> nat"
where
  "pos_parse_member = (\<lambda>(key, val) (es, skipped).
     case slv_pos_parse_entry key val of Some e \<Rightarrow> (es @ [e], skipped) | None \<Rightarrow> (es, skipped + 1))"

definition slv_posbatch_parse ::
  "(string \<Rightarrow> json option) \<Rightarrow> bool \<Rightarrow> string option \<Rightarrow> slv_pos_status \<times> slv_posbatch"
where
  "slv_posbatch_parse loadb mem buf =
     (case buf of
        None \<Rightarrow> (SLV_POS_MALFORMED, slv_posbatch_zero)
      | Some t \<Rightarrow>
        if length t = 0 then (SLV_POS_MALFORMED, slv_posbatch_zero)
        else if length t > SLV_POS_MAX_BYTES then (SLV_POS_TOOBIG, slv_posbatch_zero)
        else (let doc = loadb t in
          if doc = None \<or> \<not> json_is_object doc then (SLV_POS_MALFORMED, slv_posbatch_zero)
          else (let pos = json_object_get doc ''pos'';
                    full = json_object_get doc ''full'';
                    mode = json_object_get doc ''mode'';
                    epoch = json_object_get doc ''room_epoch'';
                    room = slv_pos_int (json_object_get doc ''room'') 0 LONG_MAX;
                    seq = slv_pos_int (json_object_get doc ''seq'') 1 LONG_MAX;
                    room_epoch = slv_vis_parse_epoch (json_string_value epoch) in
            if room = None \<or> seq = None \<or> \<not> json_is_boolean full \<or> \<not> json_is_object pos
               \<or> (mode \<noteq> None \<and> \<not> json_is_string mode)
               \<or> (epoch \<noteq> None \<and> (\<not> json_is_string epoch \<or> room_epoch = None))
            then (SLV_POS_MALFORMED, slv_posbatch_zero)
            else if length (json_members pos) > SLV_POS_MAX_ENTRIES then (SLV_POS_TOOBIG, slv_posbatch_zero)
            else if length (json_members pos) > 0 \<and> \<not> mem then (SLV_POS_MALFORMED, slv_posbatch_zero)
            else (let (es, sk) = fold pos_parse_member (json_members pos) ([], 0) in
              (SLV_POS_OK,
               \<lparr>pb_room = the room, pb_seq = the seq, pb_full = json_is_true full,
                pb_enforce_requested = (mode \<noteq> None \<and> json_string_value mode = Some ''enforce''),
                pb_has_epoch = (epoch \<noteq> None),
                pb_room_epoch = (if epoch \<noteq> None then the room_epoch else 0),
                pb_entries = es, pb_n_skipped = sk\<rparr>)))))"

subsection \<open>The store\<close>

definition slv_pos_hash :: "string \<Rightarrow> u32" where
  "slv_pos_hash s = foldl (\<lambda>h c. (h XOR of_nat (c_code c)) * 16777619) 2166136261 s"

definition pos_slot_index :: "u32 \<Rightarrow> nat \<Rightarrow> nat" where
  "pos_slot_index h i = unat ((h + of_nat i) AND (of_nat SLV_POS_SLOTS - 1))"

text \<open>The position of the slot holding the key or of the empty slot it belongs in; None when the table is full.\<close>

definition slv_pos_probe :: "slv_pos_sim option list \<Rightarrow> string \<Rightarrow> nat option" where
  "slv_pos_probe slot uuid =
     (let h = slv_pos_hash uuid in
      find (\<lambda>j. case slot ! j of None \<Rightarrow> True | Some s \<Rightarrow> pe_uuid (si_e s) = uuid)
        (map (pos_slot_index h) [0..<SLV_POS_SLOTS]))"

definition slv_pos_store_clear :: slv_pos_store where
  "slv_pos_store_clear = \<lparr>po_slot = replicate SLV_POS_SLOTS None, po_count = 0\<rparr>"

text \<open>One iteration of the apply loop: store, stored so far, dropped so far.\<close>

definition pos_apply_entry ::
  "int \<Rightarrow> slv_pos_entry \<Rightarrow> slv_pos_store \<times> nat \<times> nat \<Rightarrow> slv_pos_store \<times> nat \<times> nat"
where
  "pos_apply_entry now_us e = (\<lambda>(st, stored, dropped).
     case slv_pos_probe (po_slot st) (pe_uuid e) of
       None \<Rightarrow> (st, stored, dropped + 1)
     | Some j \<Rightarrow>
         if po_slot st ! j = None \<and> po_count st \<ge> SLV_POS_STORE_MAX then (st, stored, dropped + 1)
         else (st\<lparr>po_count := (if po_slot st ! j = None then po_count st + 1 else po_count st),
                  po_slot := (po_slot st)[j := Some \<lparr>si_e = e, si_recv_us = now_us\<rparr>]\<rparr>,
               stored + 1, dropped))"

definition slv_pos_store_apply :: "slv_pos_store \<Rightarrow> slv_posbatch \<Rightarrow> int \<Rightarrow> slv_pos_store \<times> nat \<times> nat" where
  "slv_pos_store_apply st b now_us =
     fold (pos_apply_entry now_us) (pb_entries b) (if pb_full b then slv_pos_store_clear else st, 0, 0)"

definition slv_pos_store_find :: "slv_pos_store \<Rightarrow> string option \<Rightarrow> slv_pos_sim option" where
  "slv_pos_store_find st uuid =
     (let n = (case uuid of None \<Rightarrow> 0 | Some u \<Rightarrow> length u) in
      if n = 0 \<or> n \<ge> SLV_UUID_LEN then None
      else (case slv_pos_probe (po_slot st) (map c_tolower (the uuid)) of
          None \<Rightarrow> None | Some j \<Rightarrow> po_slot st ! j))"

subsection \<open>Observing\<close>

definition slv_pos_tolerance_now :: "slv_pos_sim \<Rightarrow> int \<Rightarrow> real" where
  "slv_pos_tolerance_now sim age_us =
     (let age = (if age_us < 0 then 0 else age_us) in
      of_int (pe_tol_cm (si_e sim)) + of_int (pe_speed_cms (si_e sim)) * (of_int age / 1000000))"

definition slv_pos_room_tick_begin :: "slv_pos_room_stats \<Rightarrow> slv_pos_room_stats" where
  "slv_pos_room_tick_begin rs = rs\<lparr>pr_would_clamp_now := 0, pr_would_use_sim_now := 0, pr_no_sim_now := 0\<rparr>"

text \<open>The last part of the observation: a claim against a fresh sim point.\<close>

definition pos_observe_claim ::
  "slv_pos_sim \<Rightarrow> int \<Rightarrow> real \<times> real \<times> real \<Rightarrow> slv_pos_part_stats \<times> slv_pos_room_stats \<Rightarrow>
   slv_pos_part_stats \<times> slv_pos_room_stats"
where
  "pos_observe_claim sim age_us claim_sp = (\<lambda>(ps, rs).
     (let (cx, cy, cz) = claim_sp;
          dx = cx - of_int (pe_x (si_e sim)); dy = cy - of_int (pe_y (si_e sim)); dz = cz - of_int (pe_z (si_e sim));
          dev = sqrt (dx * dx + dy * dy + dz * dz);
          ps = ps\<lparr>pp_dev_cm := dev\<rparr>;
          excess = dev - slv_pos_tolerance_now sim age_us
      in if excess > 0 then
           (ps\<lparr>pp_would_clamp := pp_would_clamp ps + 1,
               pp_would_clamp_max_dev_cm := (if dev > pp_would_clamp_max_dev_cm ps then dev
                                             else pp_would_clamp_max_dev_cm ps),
               pp_would_clamp_max_excess_cm := (if excess > pp_would_clamp_max_excess_cm ps then excess
                                                else pp_would_clamp_max_excess_cm ps)\<rparr>,
            rs\<lparr>pr_would_clamp_ticks := pr_would_clamp_ticks rs + 1,
               pr_would_clamp_now := pr_would_clamp_now rs + 1,
               pr_would_clamp_max_dev_cm := (if dev > pr_would_clamp_max_dev_cm rs then dev
                                             else pr_would_clamp_max_dev_cm rs),
               pr_would_clamp_max_excess_cm := (if excess > pr_would_clamp_max_excess_cm rs then excess
                                                else pr_would_clamp_max_excess_cm rs)\<rparr>)
         else (ps, rs)))"

definition slv_pos_observe ::
  "slv_pos_part_stats \<Rightarrow> slv_pos_room_stats \<Rightarrow> slv_pos_sim option \<Rightarrow> int \<Rightarrow> bool \<Rightarrow> bool \<Rightarrow>
   real \<times> real \<times> real \<Rightarrow> slv_pos_part_stats \<times> slv_pos_room_stats"
where
  "slv_pos_observe ps rs sim now_us has_sp has_lp claim_sp =
     (let ps = ps\<lparr>pp_ticks_observed := pp_ticks_observed ps + 1, pp_dev_cm := -1\<rparr> in
      case sim of
        None \<Rightarrow>
          (ps\<lparr>pp_state := SLV_POS_SIM_NONE, pp_age_ms := -1, pp_sim := slv_pos_entry_zero,
              pp_no_sim := pp_no_sim ps + 1\<rparr>,
           rs\<lparr>pr_no_sim_ticks := pr_no_sim_ticks rs + 1, pr_no_sim_now := pr_no_sim_now rs + 1\<rparr>)
      | Some s \<Rightarrow>
          (let age_us = (if now_us - si_recv_us s < 0 then 0 else now_us - si_recv_us s);
               ps = ps\<lparr>pp_sim := si_e s, pp_age_ms := age_us div 1000\<rparr> in
           if age_us > SLV_POS_STALE_MS * 1000 then
             (ps\<lparr>pp_state := SLV_POS_SIM_STALE, pp_no_sim := pp_no_sim ps + 1,
                 pp_no_sim_stale := pp_no_sim_stale ps + 1\<rparr>,
              rs\<lparr>pr_no_sim_ticks := pr_no_sim_ticks rs + 1,
                 pr_no_sim_stale_ticks := pr_no_sim_stale_ticks rs + 1,
                 pr_no_sim_now := pr_no_sim_now rs + 1\<rparr>)
           else (let ps = ps\<lparr>pp_state := SLV_POS_SIM_FRESH\<rparr>;
                     (ps, rs) = (if \<not> has_sp \<or> \<not> has_lp then
                         (ps\<lparr>pp_would_use_sim := pp_would_use_sim ps + 1\<rparr>,
                          rs\<lparr>pr_would_use_sim_ticks := pr_would_use_sim_ticks rs + 1,
                             pr_would_use_sim_now := pr_would_use_sim_now rs + 1\<rparr>)
                       else (ps, rs)) in
                 if \<not> has_sp then (ps, rs) else pos_observe_claim s age_us claim_sp (ps, rs))))"

subsection \<open>The probe sequence visits every slot\<close>

lemma and_511: "unat ((w :: u32) AND (of_nat SLV_POS_SLOTS - 1)) = unat w mod 512"
proof -
  have "(of_nat SLV_POS_SLOTS - 1 :: u32) = mask 9" by (simp add: SLV_POS_SLOTS_def mask_eq_exp_minus_1)
  then have "w AND (of_nat SLV_POS_SLOTS - 1) = take_bit 9 w" by (simp only: take_bit_eq_mask)
  then have "unat (w AND (of_nat SLV_POS_SLOTS - 1)) = take_bit 9 (unat w)"
    by (simp only: unsigned_take_bit_eq)
  then show ?thesis by (simp add: take_bit_eq_mod)
qed

lemma pos_slot_index_eq: "pos_slot_index h i = (unat h + i) mod 512"
proof -
  have "unat (h + of_nat i) = (unat h + i) mod 2 ^ 32"
    by (simp add: unat_word_ariths unat_of_nat mod_simps)
  moreover have "(x mod 2 ^ 32) mod 512 = x mod 512" for x :: nat
    by (rule mod_mod_cancel) simp
  ultimately show ?thesis by (simp add: pos_slot_index_def and_511)
qed

lemma pos_slot_index_less [simp]: "pos_slot_index h i < SLV_POS_SLOTS"
  by (simp add: pos_slot_index_eq SLV_POS_SLOTS_def)

lemma pos_slot_index_surj:
  assumes "j < SLV_POS_SLOTS" shows "j \<in> set (map (pos_slot_index h) [0..<SLV_POS_SLOTS])"
proof -
  let ?i = "(j + 512 - unat h mod 512) mod 512"
  have "(unat h + ?i) mod 512 = (unat h mod 512 + (j + 512 - unat h mod 512)) mod 512"
    by (metis mod_add_left_eq mod_add_right_eq)
  also have "unat h mod 512 + (j + 512 - unat h mod 512) = j + 512"
    by (simp add: le_add_diff_inverse less_imp_le trans_le_add2)
  also have "(j + 512) mod 512 = j" using assms by (simp add: SLV_POS_SLOTS_def)
  finally have "pos_slot_index h ?i = j" by (simp add: pos_slot_index_eq)
  then show ?thesis
    by (metis (no_types, lifting) SLV_POS_SLOTS_def atLeast0LessThan image_eqI lessThan_iff list.set_map
        mod_less_divisor set_upt zero_less_numeral)
qed

text \<open>Facts about the first match, independent of the slots.\<close>

lemma find_Some_mem: "find P xs = Some x \<Longrightarrow> x \<in> set xs \<and> P x"
  by (auto simp: find_Some_iff)

lemma find_weaken:
  assumes "find P xs = Some x" "\<And>y. y \<in> set xs \<Longrightarrow> Q y \<Longrightarrow> P y" "Q x"
  shows "find Q xs = Some x"
  using assms by (induction xs) (auto split: if_splits)

definition slot_stops :: "slv_pos_sim option list \<Rightarrow> string \<Rightarrow> nat \<Rightarrow> bool" where
  "slot_stops slot k j \<longleftrightarrow> (case slot ! j of None \<Rightarrow> True | Some s \<Rightarrow> pe_uuid (si_e s) = k)"

definition probe_path :: "string \<Rightarrow> nat list" where
  "probe_path k = map (pos_slot_index (slv_pos_hash k)) [0..<SLV_POS_SLOTS]"

lemma probe_eq: "slv_pos_probe slot k = find (slot_stops slot k) (probe_path k)"
  by (simp add: slv_pos_probe_def probe_path_def Let_def slot_stops_def [abs_def])

lemma set_probe_path: "set (probe_path k) = {..<SLV_POS_SLOTS}"
  using pos_slot_index_surj by (auto simp: probe_path_def)

lemma probe_Some:
  "slv_pos_probe slot k = Some j \<Longrightarrow> j < SLV_POS_SLOTS \<and> (slot ! j = None \<or> (\<exists>s. slot ! j = Some s \<and> pe_uuid (si_e s) = k))"
  by (auto simp: probe_eq slot_stops_def set_probe_path dest!: find_Some_mem split: option.splits)

lemma probe_total:
  assumes "j < SLV_POS_SLOTS" "slot ! j = None" shows "slv_pos_probe slot k \<noteq> None"
  using assms by (auto simp: probe_eq find_None_iff set_probe_path slot_stops_def)

text \<open>Writing an entry where its probe ends moves nobody else's probe away from an entry.\<close>

lemma probe_write:
  assumes len: "length slot = SLV_POS_SLOTS" and j: "slv_pos_probe slot k = Some j"
    and s: "pe_uuid (si_e s) = k"
  shows "slv_pos_probe (slot[j := Some s]) k = Some j"
    and "k' \<noteq> k \<Longrightarrow> slv_pos_probe slot k' = Some i \<Longrightarrow> slot ! i \<noteq> None \<Longrightarrow>
      slv_pos_probe (slot[j := Some s]) k' = Some i"
proof -
  have jl: "j < length slot" using probe_Some [OF j] len by simp
  show "slv_pos_probe (slot[j := Some s]) k = Some j"
    using j unfolding probe_eq
  proof (rule find_weaken)
    fix y assume "slot_stops (slot[j := Some s]) k y"
    then show "slot_stops slot k y"
      using find_Some_mem [OF j [unfolded probe_eq]] jl by (cases "y = j") (auto simp: slot_stops_def)
  qed (use jl s in \<open>simp add: slot_stops_def\<close>)
  assume k': "k' \<noteq> k" and i: "slv_pos_probe slot k' = Some i" and ne: "slot ! i \<noteq> None"
  from probe_Some [OF i] ne obtain r where r: "slot ! i = Some r" "pe_uuid (si_e r) = k'" by auto
  have ij: "i \<noteq> j" using probe_Some [OF j] r k' by auto
  show "slv_pos_probe (slot[j := Some s]) k' = Some i"
    using i unfolding probe_eq
  proof (rule find_weaken)
    fix y assume "slot_stops (slot[j := Some s]) k' y"
    then show "slot_stops slot k' y"
      using s k' jl by (cases "y = j") (auto simp: slot_stops_def)
  qed (use ij r in \<open>simp add: slot_stops_def\<close>)
qed

subsection \<open>Invariant and abstraction\<close>

definition pos_inv :: "slv_pos_store \<Rightarrow> bool" where
  "pos_inv st \<longleftrightarrow>
     length (po_slot st) = SLV_POS_SLOTS \<and>
     po_count st = length (filter (\<lambda>s. s \<noteq> None) (po_slot st)) \<and>
     po_count st \<le> SLV_POS_STORE_MAX \<and>
     (\<forall>j<SLV_POS_SLOTS. \<forall>s. po_slot st ! j = Some s \<longrightarrow> slv_pos_probe (po_slot st) (pe_uuid (si_e s)) = Some j)"

definition pos_map :: "slv_pos_store \<Rightarrow> string \<Rightarrow> slv_pos_sim option" where
  "pos_map st k = (case slv_pos_probe (po_slot st) k of None \<Rightarrow> None | Some j \<Rightarrow> po_slot st ! j)"

lemma pos_clear_inv [slv_inv]: "pos_inv slv_pos_store_clear"
  by (simp add: pos_inv_def slv_pos_store_clear_def)

lemma pos_clear_map [simp]: "pos_map slv_pos_store_clear = Map.empty"
  by (rule ext) (auto simp: pos_map_def slv_pos_store_clear_def split: option.split dest: probe_Some)

lemma pos_map_Some:
  assumes "pos_inv st"
  shows "pos_map st k = Some s \<longleftrightarrow> (\<exists>j<SLV_POS_SLOTS. po_slot st ! j = Some s \<and> pe_uuid (si_e s) = k)"
proof
  assume "pos_map st k = Some s"
  then obtain j where "slv_pos_probe (po_slot st) k = Some j" "po_slot st ! j = Some s"
    by (auto simp: pos_map_def split: option.splits)
  with probe_Some [OF this(1)] show "\<exists>j<SLV_POS_SLOTS. po_slot st ! j = Some s \<and> pe_uuid (si_e s) = k" by auto
next
  assume "\<exists>j<SLV_POS_SLOTS. po_slot st ! j = Some s \<and> pe_uuid (si_e s) = k"
  then show "pos_map st k = Some s" using assms by (auto simp: pos_map_def pos_inv_def)
qed

lemma pos_probe_total:
  assumes "pos_inv st" shows "\<exists>j. slv_pos_probe (po_slot st) k = Some j"
proof -
  have "length (filter (\<lambda>s. s \<noteq> None) (po_slot st)) < length (po_slot st)"
    using assms by (simp add: pos_inv_def slv_const)
  then obtain x where "x \<in> set (po_slot st)" "x = None"
    using filter_id_conv [of "\<lambda>s. s \<noteq> None" "po_slot st"] by (metis (mono_tags, lifting) filter_True nat_neq_iff)
  then obtain j where "j < SLV_POS_SLOTS" "po_slot st ! j = None"
    using assms by (auto simp: pos_inv_def in_set_conv_nth)
  from probe_total [OF this] show ?thesis by auto
qed

lemma filter_length_update:
  "j < length xs \<Longrightarrow> length (filter P (xs[j := x])) + (if P (xs ! j) then 1 else 0) =
     length (filter P xs) + (if P x then 1 else 0)"
proof (induction xs arbitrary: j)
  case (Cons y ys)
  then show ?case using Cons.IH [of "j - 1"] by (cases j) auto
qed simp

lemma probe_update_cases:
  assumes inv: "pos_inv st" and j: "slv_pos_probe (po_slot st) k = Some j" and s: "pe_uuid (si_e s) = k"
    and room: "po_slot st ! j = None \<Longrightarrow> po_count st < SLV_POS_STORE_MAX"
  defines "st' \<equiv> st\<lparr>po_count := (if po_slot st ! j = None then po_count st + 1 else po_count st),
                   po_slot := (po_slot st)[j := Some s]\<rparr>"
  shows "pos_inv st'" and "pos_map st' = (pos_map st)(k \<mapsto> s)"
proof -
  have len: "length (po_slot st) = SLV_POS_SLOTS" using inv by (simp add: pos_inv_def)
  have jl: "j < length (po_slot st)" using probe_Some [OF j] len by simp
  have cnt: "po_count st' = length (filter (\<lambda>s. s \<noteq> None) (po_slot st'))"
    using filter_length_update [OF jl, of "\<lambda>s. s \<noteq> None" "Some s"] inv
    by (auto simp: st'_def pos_inv_def)
  have old: "slv_pos_probe (po_slot st) (pe_uuid (si_e r)) = Some i" if "i < SLV_POS_SLOTS" "po_slot st ! i = Some r" for i r
    using inv that by (simp add: pos_inv_def)
  have new: "slv_pos_probe (po_slot st') (pe_uuid (si_e r)) = Some i"
    if i: "i < SLV_POS_SLOTS" "po_slot st' ! i = Some r" for i r
  proof (cases "i = j")
    case True
    with i jl s probe_write(1) [OF len j s] show ?thesis by (simp add: st'_def)
  next
    case False
    with i have r: "po_slot st ! i = Some r" by (simp add: st'_def)
    from old [OF i(1) r] j False have "pe_uuid (si_e r) \<noteq> k" by auto
    with probe_write(2) [OF len j s this old [OF i(1) r]] r show ?thesis by (simp add: st'_def)
  qed
  have "po_count st' \<le> SLV_POS_STORE_MAX"
    using inv room by (auto simp: st'_def pos_inv_def)
  then show inv': "pos_inv st'"
    using cnt len new by (auto simp: pos_inv_def) (simp add: st'_def)
  have "pos_map st' k' = Some r \<longleftrightarrow> ((pos_map st)(k \<mapsto> s)) k' = Some r" for k' r
  proof (cases "k' = k")
    case True
    have "pos_map st' k = Some s"
      using probe_write(1) [OF len j s] jl by (simp add: pos_map_def st'_def)
    with True show ?thesis by auto
  next
    case False
    have ne: "po_slot st' ! i = Some r \<and> pe_uuid (si_e r) = k' \<longleftrightarrow> po_slot st ! i = Some r \<and> pe_uuid (si_e r) = k'"
      if "i < SLV_POS_SLOTS" for i
      using False s jl probe_Some [OF j] by (cases "i = j") (auto simp: st'_def)
    with False show ?thesis
      unfolding pos_map_Some [OF inv'] fun_upd_apply using pos_map_Some [OF inv, of k' r] by auto
  qed
  then show "pos_map st' = (pos_map st)(k \<mapsto> s)"
    by (intro ext) (metis not_None_eq)
qed

lemma probe_empty_iff: "pos_inv st \<Longrightarrow> slv_pos_probe (po_slot st) k = Some j \<Longrightarrow>
    (po_slot st ! j = None) = (pos_map st k = None)"
  by (simp add: pos_map_def)

text \<open>One entry of a request, as an operation of a bounded map.\<close>

definition pos_put :: "int \<Rightarrow> slv_pos_entry \<Rightarrow> slv_pos_store \<Rightarrow> slv_pos_store" where
  "pos_put now_us e st = fst (pos_apply_entry now_us e (st, 0, 0))"

lemma pos_apply_entry:
  assumes "pos_inv st"
  shows "pos_apply_entry now e (st, m, n) =
    (if pos_map st (pe_uuid e) = None \<and> po_count st \<ge> SLV_POS_STORE_MAX then (st, m, n + 1)
     else (pos_put now e st, m + 1, n))"
    and "pos_inv (pos_put now e st)"
    and "pos_map (pos_put now e st) =
      (if pos_map st (pe_uuid e) = None \<and> po_count st \<ge> SLV_POS_STORE_MAX then pos_map st
       else (pos_map st)(pe_uuid e \<mapsto> \<lparr>si_e = e, si_recv_us = now\<rparr>))"
    and "po_count (pos_put now e st) =
      (if pos_map st (pe_uuid e) = None \<and> po_count st < SLV_POS_STORE_MAX then po_count st + 1 else po_count st)"
proof -
  obtain j where j: "slv_pos_probe (po_slot st) (pe_uuid e) = Some j" using pos_probe_total [OF assms] by blast
  note emp = probe_empty_iff [OF assms j]
  show "pos_apply_entry now e (st, m, n) =
    (if pos_map st (pe_uuid e) = None \<and> po_count st \<ge> SLV_POS_STORE_MAX then (st, m, n + 1)
     else (pos_put now e st, m + 1, n))"
    by (simp add: pos_apply_entry_def pos_put_def j emp)
  note U = probe_update_cases [OF assms j, of "\<lparr>si_e = e, si_recv_us = now\<rparr>"]
  show "pos_inv (pos_put now e st)"
    using U(1) assms by (auto simp: pos_apply_entry_def pos_put_def j)
  show "pos_map (pos_put now e st) =
      (if pos_map st (pe_uuid e) = None \<and> po_count st \<ge> SLV_POS_STORE_MAX then pos_map st
       else (pos_map st)(pe_uuid e \<mapsto> \<lparr>si_e = e, si_recv_us = now\<rparr>))"
    using U(2) emp by (auto simp: pos_apply_entry_def pos_put_def j)
  show "po_count (pos_put now e st) =
      (if pos_map st (pe_uuid e) = None \<and> po_count st < SLV_POS_STORE_MAX then po_count st + 1 else po_count st)"
    using emp by (auto simp: pos_apply_entry_def pos_put_def j)
qed

lemma pos_apply_fold:
  assumes "pos_inv st"
  shows "fst (fold (pos_apply_entry now) es (st, m, n)) = fold (pos_put now) es st"
    and "fst (snd (fold (pos_apply_entry now) es (st, m, n))) + snd (snd (fold (pos_apply_entry now) es (st, m, n))) =
      m + n + length es"
    and "pos_inv (fold (pos_put now) es st)"
proof -
  have "fst (fold (pos_apply_entry now) es (st, m, n)) = fold (pos_put now) es st \<and>
    fst (snd (fold (pos_apply_entry now) es (st, m, n))) + snd (snd (fold (pos_apply_entry now) es (st, m, n))) =
      m + n + length es \<and> pos_inv (fold (pos_put now) es st)"
    using assms
  proof (induction es arbitrary: st m n)
    case (Cons e es)
    have full: "pos_map st (pe_uuid e) = None \<and> po_count st \<ge> SLV_POS_STORE_MAX \<Longrightarrow> pos_put now e st = st"
      using pos_apply_entry(1) [OF Cons.prems, of now e 0 0] by (simp add: pos_put_def)
    show ?case
      using Cons.IH [OF pos_apply_entry(2) [OF Cons.prems], of now e] Cons.IH [OF Cons.prems]
        pos_apply_entry(1) [OF Cons.prems, of now e m n] full
      by (cases "pos_map st (pe_uuid e) = None \<and> po_count st \<ge> SLV_POS_STORE_MAX") (auto simp: Suc_le_eq)
  qed simp
  then show "fst (fold (pos_apply_entry now) es (st, m, n)) = fold (pos_put now) es st"
    "fst (snd (fold (pos_apply_entry now) es (st, m, n))) + snd (snd (fold (pos_apply_entry now) es (st, m, n))) =
      m + n + length es" "pos_inv (fold (pos_put now) es st)" by blast+
qed

lemma pos_count_card:
  assumes "pos_inv st" shows "po_count st = card (dom (pos_map st))"
proof -
  let ?J = "{i. i < length (po_slot st) \<and> po_slot st ! i \<noteq> None}"
  let ?key = "\<lambda>i. pe_uuid (si_e (the (po_slot st ! i)))"
  have len: "length (po_slot st) = SLV_POS_SLOTS" using assms by (simp add: pos_inv_def)
  have "inj_on ?key ?J"
    using assms by (intro inj_onI) (auto simp: pos_inv_def, metis option.inject)
  moreover have "dom (pos_map st) = ?key ` ?J"
    using pos_map_Some [OF assms] len by (force simp: dom_def image_iff)
  ultimately have "card (dom (pos_map st)) = card ?J" by (simp add: card_image)
  also have "\<dots> = po_count st" using assms by (simp add: pos_inv_def length_filter_conv_card)
  finally show ?thesis ..
qed

subsection \<open>Bounded map interface\<close>

text \<open>
  A table with a capacity: an entry for a known key replaces what was there, an entry for a new key
  is taken as long as there is room and otherwise dropped.
\<close>

locale bounded_map =
  fixes valid :: "'st \<Rightarrow> bool"
    and look :: "'st \<Rightarrow> 'k \<Rightarrow> 'v option"
    and held :: "'st \<Rightarrow> nat"
    and cap :: nat
    and put :: "'e \<Rightarrow> 'st \<Rightarrow> 'st"
    and key :: "'e \<Rightarrow> 'k"
    and val :: "'e \<Rightarrow> 'v"
    and empty :: 'st
  assumes valid_empty: "valid empty"
    and look_empty: "look empty = Map.empty"
    and held_empty: "held empty = 0"
    and valid_put: "valid st \<Longrightarrow> valid (put e st)"
    and look_put: "valid st \<Longrightarrow> look (put e st) =
      (if look st (key e) = None \<and> cap \<le> held st then look st else (look st)(key e \<mapsto> val e))"
    and held_put: "valid st \<Longrightarrow> held (put e st) =
      (if look st (key e) = None \<and> held st < cap then held st + 1 else held st)"
begin

lemma run_valid: "valid st \<Longrightarrow> valid (fold put es st)"
  by (induction es arbitrary: st) (auto intro: valid_put)

lemma run_fits:
  "valid st \<Longrightarrow> held st + length es \<le> cap \<Longrightarrow>
   look (fold put es st) = look st ++ map_of (rev (map (\<lambda>e. (key e, val e)) es))"
proof (induction es arbitrary: st)
  case (Cons e es)
  have h: "held (put e st) + length es \<le> cap" using Cons.prems by (simp add: held_put)
  show ?case
    using Cons.IH [OF valid_put [OF Cons.prems(1)] h] Cons.prems
    by (simp add: look_put map_add_def fun_eq_iff split: option.split)
qed simp

lemma snapshot:
  "length es \<le> cap \<Longrightarrow> look (fold put es empty) = map_of (rev (map (\<lambda>e. (key e, val e)) es))"
  using run_fits [OF valid_empty, of es] by (simp add: look_empty held_empty)

lemma never_forgets:
  "valid st \<Longrightarrow> look st k \<noteq> None \<Longrightarrow> look (fold put es st) k \<noteq> None"
  by (induction es arbitrary: st) (simp_all add: look_put valid_put)

lemma untouched:
  "valid st \<Longrightarrow> k \<notin> key ` set es \<Longrightarrow> look (fold put es st) k = look st k"
  by (induction es arbitrary: st) (simp_all add: look_put valid_put)

end

interpretation pos: bounded_map pos_inv pos_map po_count SLV_POS_STORE_MAX "pos_put now"
    pe_uuid "\<lambda>e. \<lparr>si_e = e, si_recv_us = now\<rparr>" slv_pos_store_clear
  for now
  by unfold_locales
    (simp_all add: pos_clear_inv pos_apply_entry slv_pos_store_clear_def [THEN arg_cong [of _ _ po_count]])

subsection \<open>Properties\<close>

text \<open>The abstract table: what a request does to a finite map with room for \<open>SLV_POS_STORE_MAX\<close> keys.\<close>

definition pos_spec_put :: "int \<Rightarrow> slv_pos_entry \<Rightarrow> (string \<rightharpoonup> slv_pos_sim) \<Rightarrow> (string \<rightharpoonup> slv_pos_sim)" where
  "pos_spec_put now e m =
     (if m (pe_uuid e) = None \<and> SLV_POS_STORE_MAX \<le> card (dom m) then m
      else m(pe_uuid e \<mapsto> \<lparr>si_e = e, si_recv_us = now\<rparr>))"

lemma pos_spec_fold:
  "pos_inv st \<Longrightarrow> pos_map (fold (pos_put now) es st) = fold (pos_spec_put now) es (pos_map st)"
proof (induction es arbitrary: st)
  case (Cons e es)
  then show ?case
    by (simp add: pos_apply_entry pos_spec_put_def pos_count_card)
qed simp

text \<open>
  C30 The open-addressing table is a bounded map: applying any request to a well-formed table keeps it
  well formed (every stored key is found by its own probe, the count is the number of used slots, never above 256),
  does to the map it represents exactly what the abstract table does, entry by entry, and every entry is either
  stored or counted as dropped.
\<close>

theorem pos_apply_refines:
  assumes "pos_inv st" and "slv_pos_store_apply st b now = (st', stored, dropped)"
  shows "pos_inv st' \<and>
    pos_map st' = fold (pos_spec_put now) (pb_entries b) (if pb_full b then Map.empty else pos_map st) \<and>
    stored + dropped = length (pb_entries b)"
proof -
  let ?st = "if pb_full b then slv_pos_store_clear else st"
  have i: "pos_inv ?st" using assms(1) pos_clear_inv by simp
  have "st' = fold (pos_put now) (pb_entries b) ?st" "stored + dropped = length (pb_entries b)"
    using pos_apply_fold(1,2) [OF i, of now "pb_entries b" 0 0] assms(2)
    by (simp_all add: slv_pos_store_apply_def)
  then show ?thesis using pos_apply_fold(3) [OF i] pos_spec_fold [OF i] by auto
qed

text \<open>
  A full snapshot is the whole truth: applied to any table, a full request with at most 256 entries
  (the parser admits at most 128) drops nothing and leaves exactly the participants it lists, so a lookup in any letter
  case gives the last entry for that participant, stamped with the receipt time, and nothing for anyone else.
\<close>

theorem pos_snapshot_exact:
  assumes "pb_full b" and "length (pb_entries b) \<le> SLV_POS_STORE_MAX"
    and "u \<noteq> []" and "length u < SLV_UUID_LEN"
  shows "slv_pos_store_find (fst (slv_pos_store_apply st b now)) (Some u) =
    map_of (rev (map (\<lambda>e. (pe_uuid e, \<lparr>si_e = e, si_recv_us = now\<rparr>)) (pb_entries b))) (map c_tolower u)"
proof -
  have "fst (slv_pos_store_apply st b now) = fold (pos_put now) (pb_entries b) slv_pos_store_clear"
    using pos_apply_fold(1) [OF pos_clear_inv] assms(1) by (simp add: slv_pos_store_apply_def)
  then have m: "pos_map (fst (slv_pos_store_apply st b now)) =
      map_of (rev (map (\<lambda>e. (pe_uuid e, \<lparr>si_e = e, si_recv_us = now\<rparr>)) (pb_entries b)))"
    using pos.snapshot [OF assms(2)] by simp
  have "slv_pos_store_find st' (Some u) = pos_map st' (map c_tolower u)" for st'
    using assms(3,4) by (simp add: slv_pos_store_find_def pos_map_def Let_def)
  then show ?thesis using m by simp
qed

text \<open>What the parser guarantees of an entry.\<close>

definition pos_entry_ok :: "slv_pos_entry \<Rightarrow> bool" where
  "pos_entry_ok e \<longleftrightarrow>
     length (pe_uuid e) = 36 \<and> map c_tolower (pe_uuid e) = pe_uuid e \<and>
     \<bar>pe_x e\<bar> \<le> SLV_POS_COORD_MAX \<and> \<bar>pe_y e\<bar> \<le> SLV_POS_COORD_MAX \<and> \<bar>pe_z e\<bar> \<le> SLV_POS_COORD_MAX \<and>
     0 \<le> pe_speed_cms e \<and> pe_speed_cms e \<le> SLV_POS_SPEED_MAX_CMS \<and>
     0 \<le> pe_tol_cm e \<and> pe_tol_cm e \<le> SLV_POS_TOL_MAX_CM"

lemma uuid_canon_char_lower: "uuid_canon_char i c = Some d \<Longrightarrow> c_tolower d = d \<and> d = c_tolower c"
  by (auto simp: uuid_canon_char_def c_tolower_def c_code_def split: if_splits)

lemma uuid_canon_loop_lower: "uuid_canon_loop i s = Some d \<Longrightarrow>
    length d = length s \<and> map c_tolower d = d \<and> d = map c_tolower s"
  by (induction s arbitrary: i d) (auto split: option.splits dest: uuid_canon_char_lower)

lemma pos_int_Some: "slv_pos_int v lo hi = Some i \<Longrightarrow> lo \<le> i \<and> i \<le> hi"
  by (auto simp: slv_pos_int_def Let_def split: if_splits)

lemma pos_parse_entry_ok:
  assumes "slv_pos_parse_entry k v = Some e"
  shows "pos_entry_ok e \<and> pe_uuid e = map c_tolower k"
  using assms
  by (auto simp: slv_pos_parse_entry_def slv_pos_uuid_canon_def pos_entry_ok_def abs_le_iff
      dest!: pos_int_Some uuid_canon_loop_lower split: option.splits if_splits)

lemma pos_parse_members:
  "fold pos_parse_member ms (es, sk) = (es', sk') \<Longrightarrow> (\<forall>e\<in>set es. pos_entry_ok e) \<Longrightarrow>
   (\<forall>e\<in>set es'. pos_entry_ok e) \<and> length es' + sk' = length es + sk + length ms"
proof (induction ms arbitrary: es sk)
  case (Cons m ms)
  obtain k v where m: "m = (k, v)" by fastforce
  show ?case
  proof (cases "slv_pos_parse_entry k v")
    case None
    with Cons.prems m Cons.IH [of es "sk + 1"] show ?thesis by (simp add: pos_parse_member_def)
  next
    case (Some e)
    with pos_parse_entry_ok have "pos_entry_ok e" by blast
    with Some Cons.prems m Cons.IH [of "es @ [e]" sk] show ?thesis by (auto simp: pos_parse_member_def)
  qed
qed simp

text \<open>
  Whatever a position request holds, an accepted one is usable: the room number is not negative, the
  sequence number positive, an epoch when present is not zero, there are at most 128 entries, every entry kept has a
  canonical lower-case key and coordinates, speed and tolerance within the limits, every member of \<^verbatim>\<open>pos\<close> was
  kept or counted as skipped; and a refused one leaves the zeroed request.
\<close>

theorem posbatch_parse_bounds:
  "(case slv_posbatch_parse loadb mem buf of (st, b) \<Rightarrow>
     if st = SLV_POS_OK
     then 0 \<le> pb_room b \<and> 1 \<le> pb_seq b \<and> pb_has_epoch b = (pb_room_epoch b \<noteq> 0) \<and>
          list_all pos_entry_ok (pb_entries b) \<and>
          length (pb_entries b) + pb_n_skipped b \<le> SLV_POS_MAX_ENTRIES \<and>
          length (pb_entries b) + pb_n_skipped b =
            length (json_members (json_object_get (loadb (the buf)) ''pos''))
     else b = slv_posbatch_zero)"
proof -
  obtain st b where r: "slv_posbatch_parse loadb mem buf = (st, b)" by fastforce
  show ?thesis
  proof (cases "st = SLV_POS_OK")
    case True
    with r obtain t es sk room seq where t: "buf = Some t"
        "fold pos_parse_member (json_members (json_object_get (loadb t) ''pos'')) ([], 0) = (es, sk)"
        "slv_pos_int (json_object_get (loadb t) ''room'') 0 LONG_MAX = Some room"
        "slv_pos_int (json_object_get (loadb t) ''seq'') 1 LONG_MAX = Some seq"
        "length (json_members (json_object_get (loadb t) ''pos'')) \<le> SLV_POS_MAX_ENTRIES"
        "pb_entries b = es" "pb_n_skipped b = sk" "pb_room b = room" "pb_seq b = seq"
        "pb_has_epoch b = (json_object_get (loadb t) ''room_epoch'' \<noteq> None)"
        "pb_room_epoch b = (if json_object_get (loadb t) ''room_epoch'' \<noteq> None
           then the (slv_vis_parse_epoch (json_string_value (json_object_get (loadb t) ''room_epoch''))) else 0)"
        "json_object_get (loadb t) ''room_epoch'' \<noteq> None \<longrightarrow>
           slv_vis_parse_epoch (json_string_value (json_object_get (loadb t) ''room_epoch'')) \<noteq> None"
      by (auto simp: slv_posbatch_parse_def Let_def split: option.splits if_splits prod.splits)
    have ep: "pb_has_epoch b = (pb_room_epoch b \<noteq> 0)"
      using t(10-12) by (auto dest: parse_epoch_nonzero)
    from pos_parse_members [OF t(2)] t pos_int_Some [OF t(3)] pos_int_Some [OF t(4)] True r ep
    show ?thesis by (simp add: list_all_iff)
  next
    case False
    with r have "b = slv_posbatch_zero"
      by (auto simp: slv_posbatch_parse_def Let_def split: option.splits if_splits prod.splits)
    with False r show ?thesis by simp
  qed
qed

text \<open>The three facts an observation depends on, stated apart from the handler.\<close>

definition pos_fresh :: "slv_pos_sim option \<Rightarrow> int \<Rightarrow> bool" where
  "pos_fresh sim now_us \<longleftrightarrow> (case sim of None \<Rightarrow> False | Some s \<Rightarrow> now_us - si_recv_us s \<le> SLV_POS_STALE_MS * 1000)"

definition pos_deviation :: "slv_pos_sim \<Rightarrow> real \<times> real \<times> real \<Rightarrow> real" where
  "pos_deviation s c = (case c of (x, y, z) \<Rightarrow>
     sqrt ((x - of_int (pe_x (si_e s)))\<^sup>2 + (y - of_int (pe_y (si_e s)))\<^sup>2 + (z - of_int (pe_z (si_e s)))\<^sup>2))"

definition pos_over :: "slv_pos_sim option \<Rightarrow> int \<Rightarrow> real \<times> real \<times> real \<Rightarrow> bool" where
  "pos_over sim now_us c \<longleftrightarrow> (case sim of None \<Rightarrow> False
     | Some s \<Rightarrow> pos_deviation s c > slv_pos_tolerance_now s (now_us - si_recv_us s))"

lemma tolerance_nonneg: "slv_pos_tolerance_now s (if a < 0 then 0 else a) = slv_pos_tolerance_now s a"
  by (simp add: slv_pos_tolerance_now_def)

lemma observe_claim:
  "pos_observe_claim s a c (ps, rs) = (ps', rs') \<Longrightarrow>
   (let over = of_bool (pos_deviation s c > slv_pos_tolerance_now s a) in
    pp_would_clamp ps' = pp_would_clamp ps + over \<and> pr_would_clamp_ticks rs' = pr_would_clamp_ticks rs + over \<and>
    pr_would_clamp_now rs' = pr_would_clamp_now rs + over) \<and>
   pp_state ps' = pp_state ps \<and> pp_ticks_observed ps' = pp_ticks_observed ps \<and> pp_no_sim ps' = pp_no_sim ps \<and>
   pp_no_sim_stale ps' = pp_no_sim_stale ps \<and> pp_would_use_sim ps' = pp_would_use_sim ps \<and>
   pr_no_sim_ticks rs' = pr_no_sim_ticks rs \<and> pr_would_use_sim_ticks rs' = pr_would_use_sim_ticks rs"
  by (cases c) (auto simp: pos_observe_claim_def Let_def pos_deviation_def power2_eq_square)

text \<open>
  An observation counts exactly what it saw: a tick without a fresh point counts as such (and
  as stale when there was a point), a fresh point with a viewer position missing counts as a use of the sim's, a claim
  counts as clamped exactly when its distance from a fresh point is above the tolerance in force for the age of
  the point, and every count goes to the participant and to the room alike.
\<close>

theorem pos_observe_counts:
  "(case slv_pos_observe ps rs sim now has_sp has_lp c of (ps', rs') \<Rightarrow>
     pp_state ps' = (if sim = None then SLV_POS_SIM_NONE
                     else if pos_fresh sim now then SLV_POS_SIM_FRESH else SLV_POS_SIM_STALE) \<and>
     pp_ticks_observed ps' = pp_ticks_observed ps + 1 \<and>
     pp_no_sim ps' = pp_no_sim ps + of_bool (\<not> pos_fresh sim now) \<and>
     pr_no_sim_ticks rs' = pr_no_sim_ticks rs + of_bool (\<not> pos_fresh sim now) \<and>
     pp_no_sim_stale ps' = pp_no_sim_stale ps + of_bool (sim \<noteq> None \<and> \<not> pos_fresh sim now) \<and>
     pp_would_use_sim ps' = pp_would_use_sim ps + of_bool (pos_fresh sim now \<and> \<not> (has_sp \<and> has_lp)) \<and>
     pr_would_use_sim_ticks rs' = pr_would_use_sim_ticks rs + of_bool (pos_fresh sim now \<and> \<not> (has_sp \<and> has_lp)) \<and>
     pp_would_clamp ps' = pp_would_clamp ps + of_bool (pos_fresh sim now \<and> has_sp \<and> pos_over sim now c) \<and>
     pr_would_clamp_ticks rs' = pr_would_clamp_ticks rs + of_bool (pos_fresh sim now \<and> has_sp \<and> pos_over sim now c))"
proof (cases sim)
  case None
  then show ?thesis by (simp add: slv_pos_observe_def pos_fresh_def Let_def)
next
  case (Some s)
  let ?d = "now - si_recv_us s"
  let ?a = "if ?d < 0 then 0 else ?d"
  have st: "0 \<le> SLV_POS_STALE_MS" by (simp add: slv_const)
  then have fr: "(?a > SLV_POS_STALE_MS * 1000) = (\<not> pos_fresh sim now)"
    using Some by (auto simp: pos_fresh_def)
  show ?thesis
  proof (cases "pos_fresh sim now \<and> has_sp")
    case False
    then show ?thesis
      using fr Some by (auto simp: slv_pos_observe_def Let_def)
  next
    case True
    define ps1 where "ps1 = ps\<lparr>pp_ticks_observed := pp_ticks_observed ps + 1, pp_dev_cm := -1, pp_sim := si_e s,
      pp_age_ms := ?a div 1000, pp_state := SLV_POS_SIM_FRESH,
      pp_would_use_sim := pp_would_use_sim ps + of_bool (\<not> has_lp)\<rparr>"
    define rs1 where "rs1 = rs\<lparr>pr_would_use_sim_ticks := pr_would_use_sim_ticks rs + of_bool (\<not> has_lp),
      pr_would_use_sim_now := pr_would_use_sim_now rs + of_bool (\<not> has_lp)\<rparr>"
    have o: "slv_pos_observe ps rs sim now has_sp has_lp c = pos_observe_claim s ?a c (ps1, rs1)"
      using fr True Some by (auto simp: slv_pos_observe_def Let_def ps1_def rs1_def)
    obtain ps' rs' where r: "pos_observe_claim s ?a c (ps1, rs1) = (ps', rs')" by fastforce
    have tol: "slv_pos_tolerance_now s ?a = slv_pos_tolerance_now s ?d" by (rule tolerance_nonneg)
    from observe_claim [OF r, unfolded tol Let_def] True Some show ?thesis
      unfolding o r by (simp add: pos_over_def ps1_def rs1_def)
  qed
qed

definition pos_entry_sample :: slv_pos_entry where
  "pos_entry_sample = slv_pos_entry_zero\<lparr>pe_uuid := ''a'', pe_x := 7\<rparr>"

definition posbatch_sample :: slv_posbatch where
  "posbatch_sample = slv_posbatch_zero\<lparr>pb_full := True, pb_entries := [pos_entry_sample]\<rparr>"

theorem pos_snapshot_exact_witness:
  "slv_pos_store_find (fst (slv_pos_store_apply slv_pos_store_clear posbatch_sample 9)) (Some ''A'') =
     Some \<lparr>si_e = pos_entry_sample, si_recv_us = 9\<rparr>"
proof -
  have "map c_tolower ''A'' = ''a''" by (simp add: c_tolower_def c_code_def char_of_def bit_0)
  then show ?thesis
    using pos_snapshot_exact [of posbatch_sample "''A''" slv_pos_store_clear 9]
    by (simp add: posbatch_sample_def pos_entry_sample_def slv_const SLV_UUID_LEN_def)
qed

theorem pos_apply_refines_witness:
  "pos_map (fst (slv_pos_store_apply slv_pos_store_clear posbatch_sample 9)) =
     [''a'' \<mapsto> \<lparr>si_e = pos_entry_sample, si_recv_us = 9\<rparr>]"
  using pos_apply_refines [OF pos_clear_inv, of posbatch_sample 9
      "fst (slv_pos_store_apply slv_pos_store_clear posbatch_sample 9)"
      "fst (snd (slv_pos_store_apply slv_pos_store_clear posbatch_sample 9))"
      "snd (snd (slv_pos_store_apply slv_pos_store_clear posbatch_sample 9))"]
  by (simp add: posbatch_sample_def pos_entry_sample_def pos_spec_put_def slv_const)

end
