(* ===== verification/Sldata.thy ===== *)
theory Sldata
  imports Json
begin

text \<open>
  The viewer's data-channel messages, \<^verbatim>\<open>src/src/sldata.h\<close> and \<^verbatim>\<open>src/src/sldata.c\<close>: the
  parser, the merge into a session's state and the key list for diagnostics.

  The bitmask of fields is a 32-bit word. Numbers are real numbers, so a JSON integer is not rounded when it
  becomes a double.
\<close>

subsection \<open>Data\<close>

definition SLV_SLDATA_MAX_BYTES :: nat where [slv_const]: "SLV_SLDATA_MAX_BYTES = 8192"
definition SLV_MAX_PEER_ADJ :: nat where [slv_const]: "SLV_MAX_PEER_ADJ = 32"

definition SLV_FIELD_J :: u32 where "SLV_FIELD_J = push_bit 0 1"
definition SLV_FIELD_L :: u32 where "SLV_FIELD_L = push_bit 1 1"
definition SLV_FIELD_SP :: u32 where "SLV_FIELD_SP = push_bit 2 1"
definition SLV_FIELD_SH :: u32 where "SLV_FIELD_SH = push_bit 3 1"
definition SLV_FIELD_LP :: u32 where "SLV_FIELD_LP = push_bit 4 1"
definition SLV_FIELD_LH :: u32 where "SLV_FIELD_LH = push_bit 5 1"
definition SLV_FIELD_M :: u32 where "SLV_FIELD_M = push_bit 6 1"
definition SLV_FIELD_UG :: u32 where "SLV_FIELD_UG = push_bit 7 1"
definition SLV_FIELD_ECHO :: u32 where "SLV_FIELD_ECHO = push_bit 8 1"

lemmas slv_field_defs =
  SLV_FIELD_J_def SLV_FIELD_L_def SLV_FIELD_SP_def SLV_FIELD_SH_def SLV_FIELD_LP_def SLV_FIELD_LH_def
  SLV_FIELD_M_def SLV_FIELD_UG_def SLV_FIELD_ECHO_def

record slv_vec3 =
  v_x :: real
  v_y :: real
  v_z :: real

record slv_quat =
  q_x :: real
  q_y :: real
  q_z :: real
  q_w :: real

record slv_peer_adj =
  pa_uuid :: string
  pa_has_mute :: bool
  pa_muted :: bool
  pa_has_gain :: bool
  pa_gain :: real

record slv_sldata =
  sl_fields_seen :: u32
  sl_sp :: slv_vec3
  sl_sh :: slv_quat
  sl_lp :: slv_vec3
  sl_lh :: slv_quat
  sl_ug :: real
  sl_m :: bool
  sl_echo :: bool
  sl_peers :: "slv_peer_adj list"

datatype slv_sldata_status =
    SLV_SLDATA_OK | SLV_SLDATA_EMPTY | SLV_SLDATA_MALFORMED | SLV_SLDATA_TOOBIG

definition slv_sldata_zero :: slv_sldata where
  "slv_sldata_zero =
     \<lparr>sl_fields_seen = 0, sl_sp = \<lparr>v_x = 0, v_y = 0, v_z = 0\<rparr>, sl_sh = \<lparr>q_x = 0, q_y = 0, q_z = 0, q_w = 0\<rparr>,
      sl_lp = \<lparr>v_x = 0, v_y = 0, v_z = 0\<rparr>, sl_lh = \<lparr>q_x = 0, q_y = 0, q_z = 0, q_w = 0\<rparr>,
      sl_ug = 0, sl_m = False, sl_echo = False, sl_peers = []\<rparr>"

subsection \<open>Reading values\<close>

definition slv_get_number :: "json option \<Rightarrow> real option" where
  "slv_get_number v =
     (if v = None then None
      else if json_is_real v then Some (json_real_value v)
      else if json_is_integer v then Some (of_int (json_integer_value v))
      else None)"

definition slv_get_bool :: "json option \<Rightarrow> bool option" where
  "slv_get_bool v =
     (if v = None then None
      else if json_is_boolean v then Some (json_is_true v)
      else if json_is_integer v then Some (json_integer_value v \<noteq> 0)
      else None)"

fun sequence_options :: "'a option list \<Rightarrow> 'a list option" where
  "sequence_options [] = Some []"
| "sequence_options (None # xs) = None"
| "sequence_options (Some x # xs) = map_option (\<lambda>ys. x # ys) (sequence_options xs)"

text \<open>The component names stand for the count as well.\<close>

definition slv_get_vecN :: "json option \<Rightarrow> string list \<Rightarrow> real list option" where
  "slv_get_vecN v keys =
     (let n = min (length keys) 4 in
      if json_is_array v then
        (if length (json_elements v) < n then None
         else sequence_options (map (\<lambda>i. slv_get_number (json_array_get v i)) [0..<n]))
      else if json_is_object v then
        sequence_options (map (\<lambda>i. slv_get_number (json_object_get v (keys ! i))) [0..<n])
      else None)"

subsection \<open>Per-source adjustments\<close>

fun peer_index :: "slv_peer_adj list \<Rightarrow> string \<Rightarrow> nat option" where
  "peer_index [] uuid = None"
| "peer_index (p # ps) uuid =
     (if take (SLV_UUID_LEN - 1) (pa_uuid p) = take (SLV_UUID_LEN - 1) uuid then Some 0
      else map_option Suc (peer_index ps uuid))"

definition slv_peer_find_or_add :: "slv_peer_adj list \<Rightarrow> string \<Rightarrow> (slv_peer_adj list \<times> nat) option" where
  "slv_peer_find_or_add peers uuid =
     (case peer_index peers uuid of
        Some i \<Rightarrow> Some (peers, i)
      | None \<Rightarrow>
          if length peers \<ge> SLV_MAX_PEER_ADJ then None
          else Some (peers @ [\<lparr>pa_uuid = take (SLV_UUID_LEN - 1) uuid, pa_has_mute = False, pa_muted = False,
                              pa_has_gain = False, pa_gain = 0\<rparr>], length peers))"

text \<open>One member of an object-shaped \<^verbatim>\<open>m\<close> and of an object-shaped \<^verbatim>\<open>ug\<close>.\<close>

definition sldata_mute_member :: "string \<times> json \<Rightarrow> slv_sldata \<Rightarrow> slv_sldata" where
  "sldata_mute_member = (\<lambda>(key, val) out.
     case slv_get_bool (Some val) of
       None \<Rightarrow> out
     | Some b \<Rightarrow>
         (case slv_peer_find_or_add (sl_peers out) key of
            None \<Rightarrow> out
          | Some (peers, i) \<Rightarrow>
              out\<lparr>sl_peers := peers[i := (peers ! i)\<lparr>pa_has_mute := True, pa_muted := b\<rparr>],
                  sl_fields_seen := sl_fields_seen out OR SLV_FIELD_M\<rparr>))"

definition sldata_gain_member :: "string \<times> json \<Rightarrow> slv_sldata \<Rightarrow> slv_sldata" where
  "sldata_gain_member = (\<lambda>(key, val) out.
     case slv_get_number (Some val) of
       None \<Rightarrow> out
     | Some g \<Rightarrow>
         (case slv_peer_find_or_add (sl_peers out) key of
            None \<Rightarrow> out
          | Some (peers, i) \<Rightarrow>
              out\<lparr>sl_peers := peers[i := (peers ! i)\<lparr>pa_has_gain := True, pa_gain := g\<rparr>],
                  sl_fields_seen := sl_fields_seen out OR SLV_FIELD_UG\<rparr>))"

subsection \<open>The parser\<close>

definition sldata_xyz :: "string list" where "sldata_xyz = [''x'', ''y'', ''z'']"
definition sldata_xyzw :: "string list" where "sldata_xyzw = [''x'', ''y'', ''z'', ''w'']"

definition sldata_presence :: "json option \<Rightarrow> slv_sldata \<Rightarrow> slv_sldata" where
  "sldata_presence doc out =
     (let out = (if json_object_get doc ''j'' \<noteq> None then out\<lparr>sl_fields_seen := sl_fields_seen out OR SLV_FIELD_J\<rparr> else out)
      in if json_object_get doc ''l'' \<noteq> None then out\<lparr>sl_fields_seen := sl_fields_seen out OR SLV_FIELD_L\<rparr> else out)"

definition vec3_of :: "real list \<Rightarrow> slv_vec3" where
  "vec3_of v = \<lparr>v_x = v ! 0, v_y = v ! 1, v_z = v ! 2\<rparr>"

definition quat_of :: "real list \<Rightarrow> slv_quat" where
  "quat_of v = \<lparr>q_x = v ! 0, q_y = v ! 1, q_z = v ! 2, q_w = v ! 3\<rparr>"

definition sldata_geometry :: "json option \<Rightarrow> slv_sldata \<Rightarrow> slv_sldata" where
  "sldata_geometry doc out =
     (let out = (case slv_get_vecN (json_object_get doc ''sp'') sldata_xyz of None \<Rightarrow> out
                 | Some v \<Rightarrow> out\<lparr>sl_sp := vec3_of v, sl_fields_seen := sl_fields_seen out OR SLV_FIELD_SP\<rparr>);
          out = (case slv_get_vecN (json_object_get doc ''sh'') sldata_xyzw of None \<Rightarrow> out
                 | Some v \<Rightarrow> out\<lparr>sl_sh := quat_of v, sl_fields_seen := sl_fields_seen out OR SLV_FIELD_SH\<rparr>);
          out = (case slv_get_vecN (json_object_get doc ''lp'') sldata_xyz of None \<Rightarrow> out
                 | Some v \<Rightarrow> out\<lparr>sl_lp := vec3_of v, sl_fields_seen := sl_fields_seen out OR SLV_FIELD_LP\<rparr>)
      in (case slv_get_vecN (json_object_get doc ''lh'') sldata_xyzw of None \<Rightarrow> out
          | Some v \<Rightarrow> out\<lparr>sl_lh := quat_of v, sl_fields_seen := sl_fields_seen out OR SLV_FIELD_LH\<rparr>))"

definition sldata_mute :: "json option \<Rightarrow> slv_sldata \<Rightarrow> slv_sldata" where
  "sldata_mute doc out =
     (let mv = json_object_get doc ''m'' in
      if mv = None then out
      else if json_is_object mv then fold sldata_mute_member (json_members mv) out
      else (case slv_get_bool mv of None \<Rightarrow> out
            | Some b \<Rightarrow> out\<lparr>sl_m := b, sl_fields_seen := sl_fields_seen out OR SLV_FIELD_M\<rparr>))"

definition sldata_gain :: "json option \<Rightarrow> slv_sldata \<Rightarrow> slv_sldata" where
  "sldata_gain doc out =
     (let gv = json_object_get doc ''ug'' in
      if gv = None then out
      else if json_is_object gv then fold sldata_gain_member (json_members gv) out
      else (case slv_get_number gv of None \<Rightarrow> out
            | Some g \<Rightarrow> out\<lparr>sl_ug := g, sl_fields_seen := sl_fields_seen out OR SLV_FIELD_UG\<rparr>))"

definition sldata_echo :: "json option \<Rightarrow> slv_sldata \<Rightarrow> slv_sldata" where
  "sldata_echo doc out =
     (case slv_get_bool (json_object_get doc ''echo'') of None \<Rightarrow> out
      | Some b \<Rightarrow> out\<lparr>sl_echo := b, sl_fields_seen := sl_fields_seen out OR SLV_FIELD_ECHO\<rparr>)"

definition slv_sldata_parse :: "(string \<Rightarrow> json option) \<Rightarrow> string option \<Rightarrow> slv_sldata_status \<times> slv_sldata" where
  "slv_sldata_parse loadb buf =
     (case buf of
        None \<Rightarrow> (SLV_SLDATA_MALFORMED, slv_sldata_zero)
      | Some t \<Rightarrow>
        if length t = 0 then (SLV_SLDATA_MALFORMED, slv_sldata_zero)
        else if length t > SLV_SLDATA_MAX_BYTES then (SLV_SLDATA_TOOBIG, slv_sldata_zero)
        else (let doc = loadb t in
          if doc = None \<or> \<not> json_is_object doc then (SLV_SLDATA_MALFORMED, slv_sldata_zero)
          else (let out = sldata_presence doc slv_sldata_zero;
                    out = sldata_geometry doc out;
                    out = sldata_mute doc out;
                    out = sldata_gain doc out;
                    out = sldata_echo doc out
                in (if sl_fields_seen out \<noteq> 0 then SLV_SLDATA_OK else SLV_SLDATA_EMPTY, out))))"

subsection \<open>Merge and key list\<close>

definition slv_sldata_merge :: "slv_sldata \<Rightarrow> u32 \<Rightarrow> slv_sldata \<Rightarrow> slv_sldata \<times> u32" where
  "slv_sldata_merge dst dst_fields src =
     (let f = sl_fields_seen src;
          dst = (if f AND SLV_FIELD_SP \<noteq> 0 then dst\<lparr>sl_sp := sl_sp src\<rparr> else dst);
          dst = (if f AND SLV_FIELD_SH \<noteq> 0 then dst\<lparr>sl_sh := sl_sh src\<rparr> else dst);
          dst = (if f AND SLV_FIELD_LP \<noteq> 0 then dst\<lparr>sl_lp := sl_lp src\<rparr> else dst);
          dst = (if f AND SLV_FIELD_LH \<noteq> 0 then dst\<lparr>sl_lh := sl_lh src\<rparr> else dst);
          dst = (if f AND SLV_FIELD_M \<noteq> 0 then dst\<lparr>sl_m := sl_m src\<rparr> else dst);
          dst = (if f AND SLV_FIELD_UG \<noteq> 0 then dst\<lparr>sl_ug := sl_ug src\<rparr> else dst);
          dst = (if f AND SLV_FIELD_ECHO \<noteq> 0 then dst\<lparr>sl_echo := sl_echo src\<rparr> else dst)
      in (dst, dst_fields OR f))"

definition sldata_names :: "(u32 \<times> string) list" where
  "sldata_names =
     [(SLV_FIELD_J, ''j''), (SLV_FIELD_L, ''l''), (SLV_FIELD_SP, ''sp''), (SLV_FIELD_SH, ''sh''),
      (SLV_FIELD_LP, ''lp''), (SLV_FIELD_LH, ''lh''), (SLV_FIELD_M, ''m''), (SLV_FIELD_UG, ''ug''),
      (SLV_FIELD_ECHO, ''echo'')]"

fun fields_str_loop :: "u32 \<Rightarrow> nat \<Rightarrow> (u32 \<times> string) list \<Rightarrow> string \<Rightarrow> string" where
  "fields_str_loop fields_seen dstlen [] dst = dst"
| "fields_str_loop fields_seen dstlen ((b, n) # ns) dst =
     (if fields_seen AND b = 0 then fields_str_loop fields_seen dstlen ns dst
      else (let used = length dst; need = (if used \<noteq> 0 then 1 else 0) + length n + 1 in
        if used + need > dstlen then dst
        else fields_str_loop fields_seen dstlen ns (dst @ (if used \<noteq> 0 then '','' else []) @ n)))"

definition slv_sldata_fields_str :: "u32 \<Rightarrow> nat \<Rightarrow> string" where
  "slv_sldata_fields_str fields_seen dstlen =
     (if dstlen = 0 then [] else fields_str_loop fields_seen dstlen sldata_names [])"

subsection \<open>Lemmas\<close>

lemma and_flag: "(f AND push_bit k 1 \<noteq> 0) = bit (f :: u32) k" if "k < 32"
proof -
  have "f AND push_bit k 1 = (if bit f k then push_bit k 1 else 0)"
    by (rule bit_word_eqI) (auto simp: bit_simps)
  moreover have "push_bit k 1 \<noteq> (0 :: u32)" using that by (simp add: not_le)
  ultimately show ?thesis by simp
qed

lemma fields_str_loop_length:
  "length dst < dstlen \<Longrightarrow> length (fields_str_loop f dstlen ns dst) < dstlen"
  by (induction f dstlen ns dst rule: fields_str_loop.induct) (auto simp: Let_def)

lemma peer_index_Some:
  "peer_index ps u = Some i \<Longrightarrow> i < length ps \<and> take (SLV_UUID_LEN - 1) (pa_uuid (ps ! i)) = take (SLV_UUID_LEN - 1) u"
  by (induction ps arbitrary: i) (auto split: if_splits)

lemma peer_index_None:
  "peer_index ps u = None \<longleftrightarrow> take (SLV_UUID_LEN - 1) u \<notin> (\<lambda>p. take (SLV_UUID_LEN - 1) (pa_uuid p)) ` set ps"
  by (induction ps) auto

definition sldata_peers_ok :: "slv_peer_adj list \<Rightarrow> bool" where
  "sldata_peers_ok ps \<longleftrightarrow>
     length ps \<le> SLV_MAX_PEER_ADJ \<and> distinct (map pa_uuid ps) \<and>
     (\<forall>p\<in>set ps. length (pa_uuid p) < SLV_UUID_LEN \<and> (pa_has_mute p \<or> pa_has_gain p))"

lemma peers_ok_take:
  "sldata_peers_ok ps \<Longrightarrow> p \<in> set ps \<Longrightarrow> take (SLV_UUID_LEN - 1) (pa_uuid p) = pa_uuid p"
  by (force simp: sldata_peers_ok_def SLV_UUID_LEN_def)

text \<open>Setting one adjustment of a found or added peer keeps the table well formed.\<close>

lemma peers_update_ok:
  assumes "sldata_peers_ok ps" "slv_peer_find_or_add ps u = Some (ps', i)"
    and "\<And>p. pa_uuid (f p) = pa_uuid p" "\<And>p. pa_has_mute (f p) \<or> pa_has_gain (f p)"
  shows "sldata_peers_ok (ps'[i := f (ps' ! i)])"
    and "i < length ps'" "pa_uuid (ps' ! i) = take (SLV_UUID_LEN - 1) u"
proof -
  let ?k = "take (SLV_UUID_LEN - 1) u"
  have img: "(\<lambda>p. take (SLV_UUID_LEN - 1) (pa_uuid p)) ` set ps = pa_uuid ` set ps"
    by (intro image_cong refl peers_ok_take [OF assms(1)])
  consider "ps' = ps" "i < length ps" "take (SLV_UUID_LEN - 1) (pa_uuid (ps ! i)) = ?k"
    | "length ps < SLV_MAX_PEER_ADJ" "i = length ps" "?k \<notin> pa_uuid ` set ps"
      "ps' = ps @ [\<lparr>pa_uuid = ?k, pa_has_mute = False, pa_muted = False,
        pa_has_gain = False, pa_gain = 0\<rparr>]"
  proof (cases "peer_index ps u")
    case None
    then have "length ps < SLV_MAX_PEER_ADJ" "i = length ps" "ps' = ps @ [\<lparr>pa_uuid = ?k, pa_has_mute = False, pa_muted = False,
        pa_has_gain = False, pa_gain = 0\<rparr>]"
      using assms(2) by (simp_all add: slv_peer_find_or_add_def not_le split: if_splits)
    moreover have "?k \<notin> pa_uuid ` set ps" using None unfolding peer_index_None img .
    ultimately show thesis using that(2) by blast
  next
    case (Some j)
    then have "ps' = ps" "i = j" using assms(2) by (simp_all add: slv_peer_find_or_add_def)
    with peer_index_Some [OF Some] show thesis using that(1) by blast
  qed
  note cs = this
  have len: "take (SLV_UUID_LEN - 1) u = w \<Longrightarrow> length w < SLV_UUID_LEN" for w
    by (auto simp: SLV_UUID_LEN_def)
  show "i < length ps'" using cs by cases auto
  show "pa_uuid (ps' ! i) = take (SLV_UUID_LEN - 1) u"
    using cs
  proof cases
    case 1
    then show ?thesis using peers_ok_take [OF assms(1) nth_mem [OF 1(2)]] by simp
  qed simp
  show "sldata_peers_ok (ps'[i := f (ps' ! i)])"
    using cs
  proof cases
    case 1
    have m: "map pa_uuid (ps[i := f (ps ! i)]) = map pa_uuid ps"
      using 1 assms(3) by (simp add: map_update) (metis list_update_id nth_map)
    have "\<forall>p\<in>set (ps[i := f (ps ! i)]). length (pa_uuid p) < SLV_UUID_LEN \<and> (pa_has_mute p \<or> pa_has_gain p)"
      using 1 assms by (auto simp: sldata_peers_ok_def dest!: set_update_subset_insert [THEN subsetD])
    then show ?thesis using 1 assms(1) m by (simp add: sldata_peers_ok_def)
  next
    case 2
    then show ?thesis using assms len by (auto simp: sldata_peers_ok_def)
  qed
qed

lemma mute_member_ok:
  "sldata_peers_ok (sl_peers out) \<Longrightarrow> sldata_peers_ok (sl_peers (sldata_mute_member m out))"
  by (cases m)
    (auto simp: sldata_mute_member_def split: option.splits prod.splits intro!: peers_update_ok(1))

lemma gain_member_ok:
  "sldata_peers_ok (sl_peers out) \<Longrightarrow> sldata_peers_ok (sl_peers (sldata_gain_member m out))"
  by (cases m)
    (auto simp: sldata_gain_member_def split: option.splits prod.splits intro!: peers_update_ok(1))

lemma mute_members_ok:
  "sldata_peers_ok (sl_peers out) \<Longrightarrow> sldata_peers_ok (sl_peers (fold sldata_mute_member ms out))"
  by (induction ms arbitrary: out) (auto intro: mute_member_ok)

lemma gain_members_ok:
  "sldata_peers_ok (sl_peers out) \<Longrightarrow> sldata_peers_ok (sl_peers (fold sldata_gain_member ms out))"
  by (induction ms arbitrary: out) (auto intro: gain_member_ok)

lemma geometry_peers [simp]:
  "sl_peers (sldata_presence doc out) = sl_peers out"
  "sl_peers (sldata_geometry doc out) = sl_peers out"
  "sl_peers (sldata_echo doc out) = sl_peers out"
  by (auto simp: sldata_presence_def sldata_geometry_def sldata_echo_def Let_def split: option.split)

lemma mute_ok: "sldata_peers_ok (sl_peers out) \<Longrightarrow> sldata_peers_ok (sl_peers (sldata_mute doc out))"
  by (auto simp: sldata_mute_def Let_def mute_members_ok split: option.split)

lemma gain_ok: "sldata_peers_ok (sl_peers out) \<Longrightarrow> sldata_peers_ok (sl_peers (sldata_gain doc out))"
  by (auto simp: sldata_gain_def Let_def gain_members_ok split: option.split)

subsection \<open>Properties\<close>

text \<open>
  Whatever bytes a viewer sends, the parsed message is safe to use: at most 32 per-source adjustments, one
  per key, each key short enough for its buffer and each carrying a mute or a gain; the status is OK exactly when some
  field was recognised, and a refused payload leaves the zeroed message.
\<close>

theorem sldata_parse_safe:
  "(case slv_sldata_parse loadb buf of (st, out) \<Rightarrow>
     sldata_peers_ok (sl_peers out) \<and>
     (st = SLV_SLDATA_OK) = (sl_fields_seen out \<noteq> 0) \<and>
     (if st \<in> {SLV_SLDATA_OK, SLV_SLDATA_EMPTY} then True else out = slv_sldata_zero))"
proof -
  have z: "sldata_peers_ok (sl_peers slv_sldata_zero)" "sl_fields_seen slv_sldata_zero = 0"
    by (simp_all add: sldata_peers_ok_def slv_sldata_zero_def)
  have p: "sldata_peers_ok (sl_peers (sldata_echo doc (sldata_gain doc (sldata_mute doc
      (sldata_geometry doc (sldata_presence doc slv_sldata_zero))))))" for doc
    using z by (simp add: gain_ok mute_ok)
  note p = p [unfolded geometry_peers]
  show ?thesis
    by (auto simp: slv_sldata_parse_def Let_def z p split: option.splits)
qed

text \<open>The state a session keeps after a sequence of messages.\<close>

definition sldata_run :: "slv_sldata \<Rightarrow> u32 \<Rightarrow> slv_sldata list \<Rightarrow> slv_sldata \<times> u32" where
  "sldata_run dst df msgs = fold (\<lambda>m (d, f). slv_sldata_merge d f m) msgs (dst, df)"

definition last_carrying :: "u32 \<Rightarrow> (slv_sldata \<Rightarrow> 'a) \<Rightarrow> 'a \<Rightarrow> slv_sldata list \<Rightarrow> 'a" where
  "last_carrying flag get start msgs =
     (case find (\<lambda>m. sl_fields_seen m AND flag \<noteq> 0) (rev msgs) of None \<Rightarrow> start | Some m \<Rightarrow> get m)"

lemma last_carrying_snoc [simp]:
  "last_carrying flag get start (msgs @ [m]) =
     (if sl_fields_seen m AND flag \<noteq> 0 then get m else last_carrying flag get start msgs)"
  by (simp add: last_carrying_def)

lemma last_carrying_Nil [simp]: "last_carrying flag get start [] = start"
  by (simp add: last_carrying_def)

text \<open>
  A message never wipes what it does not carry: after any sequence of messages, every value a session keeps
  is the one of the last message that carried that field, or the initial one when none did, the adjustments are
  untouched, and the field mask is the union of all masks.
\<close>

theorem sldata_merge_last_wins:
  "(case sldata_run dst df msgs of (d, f) \<Rightarrow>
     sl_sp d = last_carrying SLV_FIELD_SP sl_sp (sl_sp dst) msgs \<and>
     sl_sh d = last_carrying SLV_FIELD_SH sl_sh (sl_sh dst) msgs \<and>
     sl_lp d = last_carrying SLV_FIELD_LP sl_lp (sl_lp dst) msgs \<and>
     sl_lh d = last_carrying SLV_FIELD_LH sl_lh (sl_lh dst) msgs \<and>
     sl_m d = last_carrying SLV_FIELD_M sl_m (sl_m dst) msgs \<and>
     sl_ug d = last_carrying SLV_FIELD_UG sl_ug (sl_ug dst) msgs \<and>
     sl_echo d = last_carrying SLV_FIELD_ECHO sl_echo (sl_echo dst) msgs \<and>
     sl_peers d = sl_peers dst \<and> sl_fields_seen d = sl_fields_seen dst \<and>
     f = fold (\<lambda>m g. g OR sl_fields_seen m) msgs df)"
proof (induction msgs rule: rev_induct)
  case Nil
  then show ?case by (simp add: sldata_run_def)
next
  case (snoc m msgs)
  obtain d f where r: "sldata_run dst df msgs = (d, f)" by fastforce
  then have "sldata_run dst df (msgs @ [m]) = slv_sldata_merge d f m" by (simp add: sldata_run_def)
  with snoc r show ?case by (simp add: slv_sldata_merge_def Let_def)
qed

text \<open>
  A viewer's mute map arrives as sent: for a payload \<^verbatim>\<open>{"m": {uuid: bool, ...}}\<close> with at most
  32 distinct keys that fit the buffer, the adjustments are exactly those pairs, in order.
\<close>

theorem sldata_mutes_exact:
  assumes "length ms \<le> SLV_MAX_PEER_ADJ" and "distinct (map fst ms)"
    and "\<forall>(u, b)\<in>set ms. length u < SLV_UUID_LEN"
    and "loadb t = Some (JObject [(''m'', JObject (map (\<lambda>(u, b). (u, JBool b)) ms))])"
    and "t \<noteq> []" and "length t \<le> SLV_SLDATA_MAX_BYTES"
  shows "sl_peers (snd (slv_sldata_parse loadb (Some t))) =
    map (\<lambda>(u, b). \<lparr>pa_uuid = u, pa_has_mute = True, pa_muted = b, pa_has_gain = False, pa_gain = 0\<rparr>) ms"
proof -
  let ?p = "\<lambda>(u, b). \<lparr>pa_uuid = u, pa_has_mute = True, pa_muted = b, pa_has_gain = False, pa_gain = 0\<rparr>"
  have step: "sl_peers (fold sldata_mute_member (map (\<lambda>(u, b). (u, JBool b)) ys) out) = map ?p (xs @ ys)"
    if "sl_peers out = map ?p xs" "xs @ ys = ms" for xs ys out
    using that
  proof (induction ys arbitrary: xs out)
    case (Cons y ys)
    obtain u b where y: "y = (u, b)" by fastforce
    have lens: "length u < SLV_UUID_LEN" "\<forall>(v, c)\<in>set xs. length v < SLV_UUID_LEN"
      using assms(3) unfolding Cons.prems(2) [symmetric] y by auto
    then have tk: "take (SLV_UUID_LEN - 1) u = u" "\<forall>(v, c)\<in>set xs. take (SLV_UUID_LEN - 1) v = v"
      by (auto simp: SLV_UUID_LEN_def)
    have "u \<notin> fst ` set xs" using assms(2) unfolding Cons.prems(2) [symmetric] y by auto
    then have "peer_index (sl_peers out) u = None"
      using tk Cons.prems(1) by (force simp: peer_index_None)
    moreover have "length (sl_peers out) < SLV_MAX_PEER_ADJ"
      using assms(1) Cons.prems(1) unfolding Cons.prems(2) [symmetric] by simp
    ultimately have "sl_peers (sldata_mute_member (u, JBool b) out) = map ?p (xs @ [(u, b)])"
      using Cons.prems(1) tk(1)
      by (simp add: sldata_mute_member_def slv_get_bool_def slv_peer_find_or_add_def list_update_append nth_append)
    from Cons.IH [OF this] Cons.prems(2) y show ?case by simp
  qed simp
  have peers0: "sl_peers slv_sldata_zero = map ?p []" by (simp add: slv_sldata_zero_def)
  show ?thesis
    using assms(4-6) step [of "sldata_geometry (loadb t) (sldata_presence (loadb t) slv_sldata_zero)" "[]" ms] peers0
    by (simp add: slv_sldata_parse_def Let_def sldata_gain_def sldata_mute_def)
qed

theorem sldata_mutes_exact_witness:
  "sl_peers (snd (slv_sldata_parse (\<lambda>t. Some (JObject [(''m'', JObject [(''u'', JBool True)])])) (Some ''x''))) =
     [\<lparr>pa_uuid = ''u'', pa_has_mute = True, pa_muted = True, pa_has_gain = False, pa_gain = 0\<rparr>]"
  using sldata_mutes_exact [of "[(''u'', True)]" "\<lambda>t. Some (JObject [(''m'', JObject [(''u'', JBool True)])])" "''x''"]
  by (simp add: slv_const SLV_UUID_LEN_def)

end
