(* ===== verification/State.thy ===== *)
theory State
  imports Deferred Joincap Possync Sldata
begin

text \<open>
  The state of the plugin, \<^verbatim>\<open>src/src/janus_slvoice.c\<close> lines 105-700: the constants, the settings
  read once at start-up, a listener record, a room, a participant (folded into its session) and the
  process as a whole.

  How the C objects are represented.
  \<^item> A session and a room are objects on a heap: a session is named by a number (its address), a
    room by a number of its own, which is not the room id. \<open>mx_rooms\<close> is the table \<^verbatim>\<open>rooms\<close> from
    ids to addresses, \<open>mx_sessions\<close> the sessions, \<open>mx_live\<close> the table \<^verbatim>\<open>sessions\<close>.
  \<^item> \<^verbatim>\<open>room->participants\<close> is an association list from user ids to sessions in iteration order.
  \<^item> The tables \<^verbatim>\<open>excluded\<close>, \<^verbatim>\<open>mod_muted\<close> and a record's columns are lists used as sets.
  \<^item> Objects handed to \<^verbatim>\<open>relay_data\<close> are appended to \<open>mx_outbox\<close> with the session they go to.
  \<^item> A codec is represented by the calls made on it so far: what Opus answers is a parameter of the
    operations that use it, a function of those calls.
  \<^item> Mutexes and reference counts are not represented: an operation of the model is one critical
    section (the code holds \<^verbatim>\<open>room->mutex\<close> around each of them).
  \<^item> A float or a double is a real number: rounding is not represented.
  \<^item> Left out of a session: the plugin handle (the session's number stands for it), the scratch
    buffers \<^verbatim>\<open>framebuf\<close> and \<^verbatim>\<open>outbuf\<close>, the once-a-second packet rates and the flag that limits a log
    line; left out of a room: its thread and the tick-duration histogram. None of them is read by
    the operations modelled here. \<^verbatim>\<open>vis_last_mode\<close> is None until \<^verbatim>\<open>vis_have_batch\<close>.
\<close>

subsection \<open>Constants\<close>

definition JANUS_SLVOICE_ERROR_INVALID_REQUEST :: int where "JANUS_SLVOICE_ERROR_INVALID_REQUEST = 482"
definition JANUS_SLVOICE_ERROR_MISSING_ELEMENT :: int where "JANUS_SLVOICE_ERROR_MISSING_ELEMENT = 483"
definition JANUS_SLVOICE_ERROR_INVALID_ELEMENT :: int where "JANUS_SLVOICE_ERROR_INVALID_ELEMENT = 484"
definition JANUS_SLVOICE_ERROR_NO_SUCH_ROOM :: int where "JANUS_SLVOICE_ERROR_NO_SUCH_ROOM = 485"
definition JANUS_SLVOICE_ERROR_ROOM_EXISTS :: int where "JANUS_SLVOICE_ERROR_ROOM_EXISTS = 486"
definition JANUS_SLVOICE_ERROR_NOT_JOINED :: int where "JANUS_SLVOICE_ERROR_NOT_JOINED = 487"
definition JANUS_SLVOICE_ERROR_ALREADY_JOINED :: int where "JANUS_SLVOICE_ERROR_ALREADY_JOINED = 491"
definition JANUS_SLVOICE_ERROR_INVALID_SDP :: int where "JANUS_SLVOICE_ERROR_INVALID_SDP = 493"
definition JANUS_SLVOICE_ERROR_ROOM_FULL :: int where "JANUS_SLVOICE_ERROR_ROOM_FULL = 495"
definition JANUS_SLVOICE_ERROR_JOIN_CAP :: int where "JANUS_SLVOICE_ERROR_JOIN_CAP = 496"
definition JANUS_SLVOICE_ERROR_UNKNOWN :: int where "JANUS_SLVOICE_ERROR_UNKNOWN = 499"

definition SLV_EMPTY_ROOM_GRACE_S :: nat where [slv_const]: "SLV_EMPTY_ROOM_GRACE_S = 60"
definition SLV_JOIN_MEDIA_TIMEOUT_S :: nat where [slv_const]: "SLV_JOIN_MEDIA_TIMEOUT_S = 30"
definition SLV_MAX_MIX :: nat where [slv_const]: "SLV_MAX_MIX = 110"
definition SLV_VIS_MAX_RECORDS :: nat where [slv_const]: "SLV_VIS_MAX_RECORDS = 1024"
definition G_USEC_PER_SEC :: int where [slv_const]: "G_USEC_PER_SEC = 1000000"

definition SLV_GEOM_SCALE :: real where "SLV_GEOM_SCALE = 100"
definition SLV_LEASH_DIST_M :: real where "SLV_LEASH_DIST_M = 50"
definition SLV_CUTOFF_DIST_M :: real where "SLV_CUTOFF_DIST_M = 60"
definition SLV_READD_DIST_M :: real where "SLV_READD_DIST_M = 58"
definition SLV_REF_DIST_M :: real where "SLV_REF_DIST_M = 10"
definition SLV_FALLOFF_EXP_DEFAULT :: real where "SLV_FALLOFF_EXP_DEFAULT = 2"

subsection \<open>Settings\<close>

record slv_spatial_settings =
  sp_leash_dist :: real
  sp_cutoff_dist :: real
  sp_readd_dist :: real
  sp_ref_dist :: real
  sp_falloff_exp :: real

definition slv_spatial :: slv_spatial_settings where
  "slv_spatial =
     \<lparr>sp_leash_dist = SLV_LEASH_DIST_M * SLV_GEOM_SCALE,
      sp_cutoff_dist = SLV_CUTOFF_DIST_M * SLV_GEOM_SCALE,
      sp_readd_dist = SLV_READD_DIST_M * SLV_GEOM_SCALE,
      sp_ref_dist = SLV_REF_DIST_M * SLV_GEOM_SCALE,
      sp_falloff_exp = SLV_FALLOFF_EXP_DEFAULT\<rparr>"

text \<open>The process-wide settings: fixed once \<^verbatim>\<open>janus_slvoice_init\<close> has run.\<close>

record slv_knobs =
  kn_fail_closed :: bool
  kn_stale_ms :: nat
  kn_mixer_instance :: string
  kn_room_size :: nat
  kn_empty_room_grace_s :: nat
  kn_join_media_timeout_s :: nat
  kn_echo_autostart :: bool
  kn_join_cap_required :: bool
  kn_join_cap_key :: "string option"
  kn_spatial :: slv_spatial_settings

subsection \<open>A listener record\<close>

record slv_vis_record =
  vr_epoch :: u64
  vr_listener_gen :: u32
  vr_confirmed_us :: int
  vr_stale :: bool
  vr_excl :: "string list"
  vr_mute :: "string list"

definition slv_vis_record_zero :: slv_vis_record where
  "slv_vis_record_zero =
     \<lparr>vr_epoch = 0, vr_listener_gen = 0, vr_confirmed_us = 0, vr_stale = False, vr_excl = [], vr_mute = []\<rparr>"

subsection \<open>A room\<close>

record janus_slvoice_room =
  rm_room_id :: nat
  rm_description :: string
  rm_is_private :: bool
  rm_permanent :: bool
  rm_empty_since :: int
  rm_sampling_rate :: nat
  rm_spatial_audio :: bool
  rm_participants :: "(nat \<times> nat) list"
  rm_tick_running :: bool
  rm_tick_seq :: nat
  rm_vis_epoch :: nat
  rm_vis_last_ts :: int
  rm_vis_last_mode :: "slv_vis_op option"
  rm_vis_joins_since_snapshot :: nat
  rm_vis_dropped_listener_entries :: nat
  rm_vis_last_batch_dropped_listeners :: nat
  rm_vis_deferred :: slv_deferred_store
  rm_vis_declared :: bool
  rm_sim_created :: bool
  rm_vis_auth_epoch :: u64
  rm_vis_policy_gen :: u32
  rm_vis_auth_last_us :: int
  rm_vis_records :: "(string \<times> slv_vis_record) list"
  rm_vis_ws_listeners :: nat
  rm_vis_ws_pairs :: u64
  rm_vis_ws_listener_ticks :: nat
  rm_vis_heartbeats :: nat
  rm_vis_heartbeats_outdated :: nat
  rm_vis_heartbeats_feed_stale :: nat
  rm_vis_stale_epoch_rejects :: nat
  rm_vis_stale_generation_rejects :: nat
  rm_vis_records_full :: nat
  rm_pos_store :: slv_pos_store
  rm_pos_stats :: slv_pos_room_stats
  rm_destroyed :: bool

text \<open>A room after \<^verbatim>\<open>g_malloc0\<close>, with its two stores initialised.\<close>

definition slv_pos_room_stats_zero :: slv_pos_room_stats where
  "slv_pos_room_stats_zero =
     \<lparr>pr_have_batch = False, pr_last_seq = 0, pr_last_us = 0, pr_epoch = 0, pr_batches = 0, pr_full_batches = 0,
      pr_entries_applied = 0, pr_entries_skipped = 0, pr_entries_dropped_full = 0, pr_rejected_stale_epoch = 0,
      pr_rejected_stale_seq = 0, pr_enforce_requests = 0, pr_would_clamp_ticks = 0, pr_would_use_sim_ticks = 0,
      pr_no_sim_ticks = 0, pr_no_sim_stale_ticks = 0, pr_would_clamp_max_dev_cm = 0,
      pr_would_clamp_max_excess_cm = 0, pr_would_clamp_now = 0, pr_would_use_sim_now = 0, pr_no_sim_now = 0\<rparr>"

definition janus_slvoice_room_zero :: janus_slvoice_room where
  "janus_slvoice_room_zero =
     \<lparr>rm_room_id = 0, rm_description = [], rm_is_private = False, rm_permanent = False, rm_empty_since = 0,
      rm_sampling_rate = 0, rm_spatial_audio = False, rm_participants = [], rm_tick_running = False,
      rm_tick_seq = 0, rm_vis_epoch = 0, rm_vis_last_ts = 0, rm_vis_last_mode = None,
      rm_vis_joins_since_snapshot = 0, rm_vis_dropped_listener_entries = 0,
      rm_vis_last_batch_dropped_listeners = 0, rm_vis_deferred = slv_deferred_init, rm_vis_declared = False,
      rm_sim_created = False, rm_vis_auth_epoch = 0, rm_vis_policy_gen = 0, rm_vis_auth_last_us = 0,
      rm_vis_records = [], rm_vis_ws_listeners = 0, rm_vis_ws_pairs = 0, rm_vis_ws_listener_ticks = 0,
      rm_vis_heartbeats = 0, rm_vis_heartbeats_outdated = 0, rm_vis_heartbeats_feed_stale = 0,
      rm_vis_stale_epoch_rejects = 0, rm_vis_stale_generation_rejects = 0, rm_vis_records_full = 0,
      rm_pos_store = slv_pos_store_clear, rm_pos_stats = slv_pos_room_stats_zero, rm_destroyed = False\<rparr>"

subsection \<open>A participant\<close>

record slv_peer_ctl =
  pc_uuid :: string
  pc_muted :: bool
  pc_has_gain :: bool
  pc_gain :: real

record slv_cull_hyst =
  ch_uuid :: string
  ch_culled :: bool
  ch_seen_tick :: nat

text \<open>The jitter buffer: the members \<^verbatim>\<open>jb\<close> to \<^verbatim>\<open>jb_primed\<close> of the session. The slots are absent
  until the media buffers are allocated.\<close>

record slv_jb =
  jb_alloc :: bool
  jb_pay :: "string list"
  jb_seq :: "u16 list"
  jb_len :: "nat list"
  jb_next :: u16
  jb_newest :: u16
  jb_first_seq :: u16
  jb_have_first :: bool
  jb_primed :: bool

text \<open>The session. Its media buffers (\<^verbatim>\<open>dec\<close>, \<^verbatim>\<open>enc\<close>, \<^verbatim>\<open>jb\<close>, \<^verbatim>\<open>ring\<close>, the output RTP state) are the
  members from \<open>se_media_ready\<close> to \<open>se_silent_ticks\<close>, the counters shown by \<^verbatim>\<open>query_session\<close> the last ones.\<close>

record janus_slvoice_session =
  se_user_id :: nat
  se_room :: "nat option"
  se_display :: "string option"
  se_recorder :: bool
  se_cap_present :: bool
  se_cap_verdict :: "string option"
  se_opus_pt :: int
  se_has_datachannel :: bool
  se_dc_answered :: bool
  se_created_ts :: int
  se_webrtc_up :: bool
  se_dc_open :: bool
  se_join_ts :: int
  se_media_seen :: bool
  se_media_ready :: bool
  se_dec :: "(string option \<times> int) list option"
  se_enc :: "real list list option"
  se_jb :: slv_jb
  se_decbuf :: "real list"
  se_dec_samples :: nat
  se_active :: bool
  se_last_rtp_us :: int
  se_decode_ok :: bool
  se_ring :: "(real \<times> real) list option"
  se_ring_wpos :: nat
  se_out_seq :: u16
  se_out_ts :: u32
  se_out_ssrc :: u32
  se_silent_ticks :: nat
  se_snap_sp :: slv_vec3
  se_snap_lp :: slv_vec3
  se_snap_lh :: slv_quat
  se_snap_valid :: bool
  se_cull_hyst :: "slv_cull_hyst list"
  se_echo_active :: bool
  se_peer_ctl :: "slv_peer_ctl list"
  se_excluded :: "string list"
  se_mod_muted :: "string list"
  se_vis_ok_last :: bool
  se_pos :: slv_pos_part_stats
  se_last_data :: slv_sldata
  se_last_data_fields :: u32
  se_last_msg_fields :: u32
  se_hangingup :: bool
  se_destroyed :: bool
  se_rtp_in_count :: nat
  se_frames_decoded :: nat
  se_frames_encoded :: nat
  se_frames_mixed :: nat
  se_rtp_out_count :: nat
  se_last_rms :: real
  se_last_mix_rms :: real
  se_last_mix_rms_l :: real
  se_last_mix_rms_r :: real
  se_power_p :: int
  se_vad :: bool
  se_data_msgs_received :: nat
  se_presence_pushed :: nat
  se_presence_dropped_dc_closed :: nat
  se_presence_leave_pushed :: nat
  se_backlog_confirmed :: bool
  se_backlog_resent :: nat
  se_peer_ctl_full_drops :: nat

text \<open>A session after \<^verbatim>\<open>g_malloc0\<close>, with its two sets created.\<close>

definition slv_vec3_zero :: slv_vec3 where "slv_vec3_zero = \<lparr>v_x = 0, v_y = 0, v_z = 0\<rparr>"
definition slv_quat_zero :: slv_quat where "slv_quat_zero = \<lparr>q_x = 0, q_y = 0, q_z = 0, q_w = 0\<rparr>"
definition slv_quat_identity :: slv_quat where "slv_quat_identity = \<lparr>q_x = 0, q_y = 0, q_z = 0, q_w = 1\<rparr>"

definition slv_jb_zero :: slv_jb where
  "slv_jb_zero = \<lparr>jb_alloc = False, jb_pay = [], jb_seq = [], jb_len = [], jb_next = 0, jb_newest = 0,
     jb_first_seq = 0, jb_have_first = False, jb_primed = False\<rparr>"

definition slv_pos_part_stats_zero :: slv_pos_part_stats where
  "slv_pos_part_stats_zero =
     \<lparr>pp_state = SLV_POS_SIM_NONE, pp_age_ms = 0, pp_sim = slv_pos_entry_zero, pp_dev_cm = 0, pp_ticks_observed = 0,
      pp_would_clamp = 0, pp_would_clamp_max_dev_cm = 0, pp_would_clamp_max_excess_cm = 0, pp_would_use_sim = 0,
      pp_no_sim = 0, pp_no_sim_stale = 0\<rparr>"

definition janus_slvoice_session_zero :: janus_slvoice_session where
  "janus_slvoice_session_zero =
     \<lparr>se_user_id = 0, se_room = None, se_display = None, se_recorder = False, se_cap_present = False,
      se_cap_verdict = None, se_opus_pt = 0, se_has_datachannel = False, se_dc_answered = False, se_created_ts = 0,
      se_webrtc_up = False, se_dc_open = False, se_join_ts = 0, se_media_seen = False, se_media_ready = False,
      se_dec = None, se_enc = None, se_jb = slv_jb_zero, se_decbuf = [], se_dec_samples = 0, se_active = False,
      se_last_rtp_us = 0, se_decode_ok = False, se_ring = None, se_ring_wpos = 0, se_out_seq = 0, se_out_ts = 0,
      se_out_ssrc = 0, se_silent_ticks = 0, se_snap_sp = slv_vec3_zero, se_snap_lp = slv_vec3_zero,
      se_snap_lh = slv_quat_zero, se_snap_valid = False, se_cull_hyst = [], se_echo_active = False, se_peer_ctl = [],
      se_excluded = [], se_mod_muted = [], se_vis_ok_last = False, se_pos = slv_pos_part_stats_zero,
      se_last_data = slv_sldata_zero, se_last_data_fields = 0, se_last_msg_fields = 0, se_hangingup = False,
      se_destroyed = False, se_rtp_in_count = 0, se_frames_decoded = 0, se_frames_encoded = 0, se_frames_mixed = 0,
      se_rtp_out_count = 0, se_last_rms = 0, se_last_mix_rms = 0, se_last_mix_rms_l = 0, se_last_mix_rms_r = 0,
      se_power_p = 0, se_vad = False, se_data_msgs_received = 0, se_presence_pushed = 0,
      se_presence_dropped_dc_closed = 0, se_presence_leave_pushed = 0, se_backlog_confirmed = False,
      se_backlog_resent = 0, se_peer_ctl_full_drops = 0\<rparr>"

subsection \<open>The process\<close>

record slv_mixer =
  mx_sessions :: "nat \<Rightarrow> janus_slvoice_session"
  mx_live :: "nat list"
  mx_heap :: "nat \<Rightarrow> janus_slvoice_room"
  mx_next_room :: nat
  mx_rooms :: "(nat \<times> nat) list"
  mx_outbox :: "(nat \<times> json) list"
  mx_joincap :: joincap_state
  mx_join_cap_enforced :: nat
  mx_pos_malformed_total :: nat
  mx_pos_toobig_total :: nat
  mx_pos_unknown_room_total :: nat

definition slv_mixer_init :: slv_mixer where
  "slv_mixer_init =
     \<lparr>mx_sessions = (\<lambda>s. janus_slvoice_session_zero), mx_live = [], mx_heap = (\<lambda>a. janus_slvoice_room_zero),
      mx_next_room = 0, mx_rooms = [], mx_outbox = [], mx_joincap = joincap_state_init, mx_join_cap_enforced = 0,
      mx_pos_malformed_total = 0, mx_pos_toobig_total = 0, mx_pos_unknown_room_total = 0\<rparr>"

text \<open>A change of one session, and of one room, of the process.\<close>

definition upd_session :: "nat \<Rightarrow> (janus_slvoice_session \<Rightarrow> janus_slvoice_session) \<Rightarrow> slv_mixer \<Rightarrow> slv_mixer" where
  "upd_session s f m = m\<lparr>mx_sessions := (mx_sessions m)(s := f (mx_sessions m s))\<rparr>"

definition upd_room :: "nat \<Rightarrow> (janus_slvoice_room \<Rightarrow> janus_slvoice_room) \<Rightarrow> slv_mixer \<Rightarrow> slv_mixer" where
  "upd_room a f m = m\<lparr>mx_heap := (mx_heap m)(a := f (mx_heap m a))\<rparr>"

abbreviation session_of :: "slv_mixer \<Rightarrow> nat \<Rightarrow> janus_slvoice_session" where
  "session_of m s \<equiv> mx_sessions m s"

abbreviation room_at :: "slv_mixer \<Rightarrow> nat \<Rightarrow> janus_slvoice_room" where
  "room_at m a \<equiv> mx_heap m a"

text \<open>The sessions in a room, in iteration order.\<close>

abbreviation members :: "janus_slvoice_room \<Rightarrow> nat list" where
  "members r \<equiv> map snd (rm_participants r)"

text \<open>\<^verbatim>\<open>janus_slvoice_room_ref_by_id\<close>: the room of that id, unless it is being destroyed.\<close>

definition janus_slvoice_room_ref_by_id :: "slv_mixer \<Rightarrow> nat \<Rightarrow> nat option" where
  "janus_slvoice_room_ref_by_id m i =
     (case map_of (mx_rooms m) i of
        None \<Rightarrow> None
      | Some a \<Rightarrow> if rm_destroyed (room_at m a) then None else Some a)"

lemma upd_session_same [simp]: "session_of (upd_session s f m) s = f (session_of m s)"
  and upd_session_other: "s' \<noteq> s \<Longrightarrow> session_of (upd_session s f m) s' = session_of m s'"
  by (simp_all add: upd_session_def)

lemma upd_session_sel [simp]:
  "mx_heap (upd_session s f m) = mx_heap m" "mx_rooms (upd_session s f m) = mx_rooms m"
  "mx_outbox (upd_session s f m) = mx_outbox m" "mx_live (upd_session s f m) = mx_live m"
  "mx_next_room (upd_session s f m) = mx_next_room m"
  by (simp_all add: upd_session_def)

lemma upd_room_sel [simp]:
  "mx_sessions (upd_room a f m) = mx_sessions m" "mx_rooms (upd_room a f m) = mx_rooms m"
  "mx_outbox (upd_room a f m) = mx_outbox m" "mx_live (upd_room a f m) = mx_live m"
  "mx_next_room (upd_room a f m) = mx_next_room m"
  "room_at (upd_room a f m) a = f (room_at m a)"
  by (simp_all add: upd_room_def)

end
