(* ===== verification/Jitter.thy ===== *)
theory Jitter
  imports State
begin

text \<open>
  The jitter buffer of a participant: \<^verbatim>\<open>janus_slvoice_jb_insert\<close> and \<^verbatim>\<open>janus_slvoice_jb_pull\<close> of
  \<^verbatim>\<open>src/src/janus_slvoice.c\<close>, a ring of 128 slots indexed by RTP sequence number and drained by the tick behind a
  fixed lag. Sequence numbers are 16-bit words and the code's \<^verbatim>\<open>(int16_t)(a - b)\<close> is \<open>sint (a - b)\<close>.
  The bytes of a slot beyond its length are never read, so a slot holds the payload last stored there.
\<close>

definition SLV_JB_SLOTS :: nat where [slv_const]: "SLV_JB_SLOTS = 128"
definition SLV_JB_LAG :: int where [slv_const]: "SLV_JB_LAG = 3"
definition SLV_JB_MAX_LEAD :: int where [slv_const]: "SLV_JB_MAX_LEAD = 16"
definition SLV_JB_PAYLOAD_MAX :: nat where [slv_const]: "SLV_JB_PAYLOAD_MAX = 1500"

definition jb_slot :: "u16 \<Rightarrow> nat" where
  "jb_slot seq = unat seq mod SLV_JB_SLOTS"

definition jb_store :: "u16 \<Rightarrow> string \<Rightarrow> slv_jb \<Rightarrow> slv_jb" where
  "jb_store seq payload jb =
     (if 0 < length payload \<and> length payload \<le> SLV_JB_PAYLOAD_MAX
      then jb\<lparr>jb_pay := (jb_pay jb)[jb_slot seq := payload],
              jb_seq := (jb_seq jb)[jb_slot seq := seq],
              jb_len := (jb_len jb)[jb_slot seq := length payload]\<rparr>
      else jb)"

definition jb_insert :: "u16 \<Rightarrow> string \<Rightarrow> slv_jb \<Rightarrow> slv_jb" where
  "jb_insert seq payload jb =
     (if \<not> jb_alloc jb then jb
      else let jb = jb_store seq payload jb in
        if \<not> jb_have_first jb then jb\<lparr>jb_have_first := True, jb_first_seq := seq, jb_newest := seq\<rparr>
        else if sint (seq - jb_newest jb) > 0 then jb\<lparr>jb_newest := seq\<rparr>
        else jb)"

definition janus_slvoice_jb_insert :: "janus_slvoice_session \<Rightarrow> u16 \<Rightarrow> string \<Rightarrow> janus_slvoice_session" where
  "janus_slvoice_jb_insert s seq payload = s\<lparr>se_jb := jb_insert seq payload (se_jb s)\<rparr>"

datatype slv_jb_status = SLV_JB_SILENCE | SLV_JB_PLC | SLV_JB_FRAME string

text \<open>The pull in three steps: start playout once the cushion is full, resynchronise, take the slot.\<close>

definition jb_prime :: "slv_jb \<Rightarrow> slv_jb option" where
  "jb_prime jb =
     (if \<not> jb_have_first jb then None
      else if \<not> jb_primed jb then
        if sint (jb_newest jb - jb_first_seq jb) < SLV_JB_LAG then None
        else Some (jb\<lparr>jb_primed := True, jb_next := jb_first_seq jb\<rparr>)
      else Some jb)"

definition jb_take :: "slv_jb \<Rightarrow> slv_jb \<times> slv_jb_status" where
  "jb_take jb =
     (let slot = jb_slot (jb_next jb);
          hit = jb_len jb ! slot > 0 \<and> jb_seq jb ! slot = jb_next jb
      in (jb\<lparr>jb_len := (if hit then (jb_len jb)[slot := 0] else jb_len jb), jb_next := jb_next jb + 1\<rparr>,
          if hit then SLV_JB_FRAME (jb_pay jb ! slot) else SLV_JB_PLC))"

definition jb_pull :: "slv_jb \<Rightarrow> slv_jb \<times> slv_jb_status" where
  "jb_pull jb =
     (case jb_prime jb of
        None \<Rightarrow> (jb, SLV_JB_SILENCE)
      | Some jb \<Rightarrow>
         (let lead = sint (jb_newest jb - jb_next jb) in
          if lead < 0 then (jb, SLV_JB_SILENCE)
          else let jb = (if lead > SLV_JB_MAX_LEAD then jb\<lparr>jb_next := jb_newest jb - word_of_int SLV_JB_LAG\<rparr> else jb)
               in jb_take jb))"

definition janus_slvoice_jb_pull :: "janus_slvoice_session \<Rightarrow> janus_slvoice_session \<times> slv_jb_status" where
  "janus_slvoice_jb_pull s = (case jb_pull (se_jb s) of (jb, st) \<Rightarrow> (s\<lparr>se_jb := jb\<rparr>, st))"

subsection \<open>Well-formed buffers\<close>

text \<open>The arrays are allocated together; a slot that is in use holds a packet whose number belongs to the slot,
  with its length.\<close>

definition jb_wf :: "slv_jb \<Rightarrow> bool" where
  "jb_wf jb \<longleftrightarrow>
     length (jb_pay jb) = SLV_JB_SLOTS \<and> length (jb_seq jb) = SLV_JB_SLOTS \<and> length (jb_len jb) = SLV_JB_SLOTS \<and>
     (\<forall>i < SLV_JB_SLOTS. 0 < jb_len jb ! i \<longrightarrow> jb_slot (jb_seq jb ! i) = i \<and> length (jb_pay jb ! i) = jb_len jb ! i)"

text \<open>The buffer as a map: the packet held for a sequence number.\<close>

definition jb_lookup :: "slv_jb \<Rightarrow> u16 \<Rightarrow> string option" where
  "jb_lookup jb seq =
     (if 0 < jb_len jb ! jb_slot seq \<and> jb_seq jb ! jb_slot seq = seq then Some (jb_pay jb ! jb_slot seq) else None)"

lemma jb_slot_less [simp]: "jb_slot seq < SLV_JB_SLOTS"
  by (simp add: jb_slot_def SLV_JB_SLOTS_def)

lemma jb_insert_wf: "jb_wf jb \<Longrightarrow> jb_wf (jb_insert seq payload jb)"
  by (auto simp: jb_insert_def jb_store_def jb_wf_def Let_def nth_list_update)

lemma jb_take_wf: "jb_wf jb \<Longrightarrow> jb_wf (fst (jb_take jb))"
  by (auto simp: jb_take_def jb_wf_def Let_def nth_list_update)

lemma jb_wf_cong [simp]:
  "jb_wf (jb\<lparr>jb_next := n\<rparr>) = jb_wf jb" "jb_wf (jb\<lparr>jb_primed := b\<rparr>) = jb_wf jb" "jb_wf (jb\<lparr>jb_newest := n\<rparr>) = jb_wf jb"
  "jb_wf (jb\<lparr>jb_have_first := b\<rparr>) = jb_wf jb" "jb_wf (jb\<lparr>jb_first_seq := n\<rparr>) = jb_wf jb"
  by (simp_all add: jb_wf_def)

lemma jb_pull_wf: "jb_wf jb \<Longrightarrow> jb_wf (fst (jb_pull jb))"
  by (auto simp: jb_pull_def jb_prime_def Let_def jb_take_wf split: option.splits)

lemma jb_lookup_cong [simp]:
  "jb_lookup (jb\<lparr>jb_next := n\<rparr>) = jb_lookup jb" "jb_lookup (jb\<lparr>jb_primed := b\<rparr>) = jb_lookup jb"
  "jb_lookup (jb\<lparr>jb_newest := n\<rparr>) = jb_lookup jb" "jb_lookup (jb\<lparr>jb_have_first := b\<rparr>) = jb_lookup jb"
  "jb_lookup (jb\<lparr>jb_first_seq := n\<rparr>) = jb_lookup jb"
  by (simp_all add: jb_lookup_def fun_eq_iff)

lemma jb_lookup_insert:
  assumes "jb_wf jb" "jb_alloc jb" "0 < length payload" "length payload \<le> SLV_JB_PAYLOAD_MAX"
  shows "jb_lookup (jb_insert seq payload jb) n =
    (if jb_slot n = jb_slot seq then if n = seq then Some payload else None else jb_lookup jb n)"
  using assms by (auto simp: jb_insert_def jb_store_def jb_lookup_def jb_wf_def Let_def nth_list_update)

lemma jb_take_lookup:
  assumes "jb_wf jb"
  shows "snd (jb_take jb) = (case jb_lookup jb (jb_next jb) of None \<Rightarrow> SLV_JB_PLC | Some p \<Rightarrow> SLV_JB_FRAME p)"
    and "jb_lookup (fst (jb_take jb)) = (jb_lookup jb)(jb_next jb := None)"
  using assms
  by (auto simp: jb_take_def jb_lookup_def jb_wf_def Let_def nth_list_update fun_eq_iff)

subsection \<open>Playout\<close>

text \<open>The buffer right after its allocation.\<close>

definition jb_allocate :: "slv_jb \<Rightarrow> slv_jb" where
  "jb_allocate jb = jb\<lparr>jb_alloc := True, jb_pay := replicate SLV_JB_SLOTS [], jb_seq := replicate SLV_JB_SLOTS 0,
     jb_len := replicate SLV_JB_SLOTS 0, jb_primed := False, jb_have_first := False\<rparr>"

text \<open>One packet time of a sender: packet number \<open>seq\<close> arrives, or is lost, and the tick pulls once.\<close>

fun jb_stream :: "slv_jb \<Rightarrow> u16 \<Rightarrow> string option list \<Rightarrow> slv_jb_status list" where
  "jb_stream jb seq [] = []"
| "jb_stream jb seq (x # xs) =
     (let (jb, st) = jb_pull (case x of None \<Rightarrow> jb | Some p \<Rightarrow> jb_insert seq p jb) in st # jb_stream jb (seq + 1) xs)"

fun played :: "string option \<Rightarrow> slv_jb_status" where
  "played None = SLV_JB_PLC"
| "played (Some p) = SLV_JB_FRAME p"

text \<open>At most three packets in a row are lost.\<close>

fun no_gap :: "string option list \<Rightarrow> bool" where
  "no_gap (a # b # c # d # xs) \<longleftrightarrow> list_ex (\<lambda>x. x \<noteq> None) [a, b, c, d] \<and> no_gap (b # c # d # xs)"
| "no_gap xs \<longleftrightarrow> True"

definition payload_ok :: "string option \<Rightarrow> bool" where
  "payload_ok x \<longleftrightarrow> (case x of None \<Rightarrow> True | Some p \<Rightarrow> p \<noteq> [] \<and> length p \<le> SLV_JB_PAYLOAD_MAX)"

text \<open>The buffer holds exactly the packets of \<open>q\<close>, numbered from \<open>base\<close>.\<close>

definition holds :: "string option list \<Rightarrow> u16 \<Rightarrow> slv_jb \<Rightarrow> bool" where
  "holds q base jb \<longleftrightarrow>
     jb_wf jb \<and> jb_alloc jb \<and>
     (\<forall>n. jb_lookup jb n = (if unat (n - base) < length q then q ! unat (n - base) else None))"

lemma holds_cong [simp]:
  "holds q base (jb\<lparr>jb_next := n\<rparr>) = holds q base jb" "holds q base (jb\<lparr>jb_primed := b\<rparr>) = holds q base jb"
  by (simp_all add: holds_def)

lemma jb_alloc_sel [simp]: "jb_alloc (jb_insert seq p jb) = jb_alloc jb" "jb_alloc (fst (jb_take jb)) = jb_alloc jb"
  by (simp_all add: jb_insert_def jb_store_def jb_take_def Let_def)

lemma unat_offset: "unat (base + of_nat d - base :: u16) = d" if "d < 65536"
  using that by (simp add: unat_of_nat take_bit_eq_mod)

lemma offset_unat: "base + of_nat (unat (n - base)) = (n :: u16)"
  by simp

lemma slot_offset: "jb_slot (base + of_nat d) = (unat base + d) mod 128"
  by (simp add: jb_slot_def SLV_JB_SLOTS_def unat_word_ariths unat_of_nat take_bit_eq_mod mod_mod_cancel mod_add_right_eq)

lemma slot_inj: "jb_slot (base + of_nat d) = jb_slot (base + of_nat e) \<Longrightarrow> d < 128 \<Longrightarrow> e < 128 \<Longrightarrow> d = e"
proof (induction d e rule: linorder_wlog)
  case (le d e)
  then have "(unat base + e) mod 128 = (unat base + d) mod 128" by (simp only: slot_offset)
  with le(1) have "128 dvd e - d" by (simp add: mod_eq_dvd_iff_nat)
  with le show ?case by (auto dest: dvd_imp_le)
next
  case (sym d e)
  then show ?case by metis
qed

lemma holds_insert:
  assumes "holds q base jb" "length q < 128" "payload_ok (Some p)"
  shows "holds (q @ [Some p]) base (jb_insert (base + of_nat (length q)) p jb)"
proof -
  let ?seq = "base + of_nat (length q) :: u16"
  have len: "unat (?seq - base) = length q" using assms(2) by (intro unat_offset) simp
  have "jb_lookup (jb_insert ?seq p jb) n =
      (if unat (n - base) < length (q @ [Some p]) then (q @ [Some p]) ! unat (n - base) else None)" for n
  proof -
    define d where "d = unat (n - base)"
    have n: "n = base + of_nat d" by (simp add: d_def)
    have look: "jb_lookup (jb_insert ?seq p jb) n =
        (if jb_slot n = jb_slot ?seq then if n = ?seq then Some p else None else jb_lookup jb n)"
      using assms by (intro jb_lookup_insert) (auto simp: holds_def payload_ok_def)
    have old: "jb_lookup jb n = (if d < length q then q ! d else None)"
      using assms(1) by (simp add: holds_def d_def)
    show ?thesis
    proof (cases "d < length q")
      case True
      then have "d < 128" using assms(2) by simp
      with True assms(2) slot_inj [of base d "length q"] n have "jb_slot n \<noteq> jb_slot ?seq" by auto
      with True look old show ?thesis by (simp add: d_def [symmetric] nth_append)
    next
      case False
      have "n = ?seq \<longleftrightarrow> d = length q" using len d_def n by auto
      with False look old show ?thesis by (auto simp: d_def [symmetric] nth_append)
    qed
  qed
  with assms(1) show ?thesis by (simp add: holds_def jb_insert_wf)
qed

lemma unat_minus_step: "n \<noteq> base \<Longrightarrow> unat (n - base) = Suc (unat (n - (base + 1)))" for n base :: u16
proof -
  assume "n \<noteq> base"
  then have "n - base \<noteq> 0" by simp
  then have "unat (n - base - 1) = unat (n - base) - 1" by (rule unat_minus_one)
  moreover have "unat (n - base) \<noteq> 0" using \<open>n - base \<noteq> 0\<close> by (simp add: unat_eq_zero)
  ultimately show ?thesis by (simp add: diff_diff_add)
qed

lemma holds_take:
  assumes "holds (x # q) (jb_next jb) jb" "length q < 65535"
  shows "snd (jb_take jb) = played x" and "holds q (jb_next jb + 1) (fst (jb_take jb))"
proof -
  have wf: "jb_wf jb" using assms(1) by (simp add: holds_def)
  have x: "jb_lookup jb (jb_next jb) = x" using assms(1) by (simp add: holds_def)
  then show "snd (jb_take jb) = played x" using jb_take_lookup(1) [OF wf] by (cases x) simp_all
  have "jb_lookup (fst (jb_take jb)) n =
      (if unat (n - (jb_next jb + 1)) < length q then q ! unat (n - (jb_next jb + 1)) else None)" for n
  proof (cases "n = jb_next jb")
    case True
    have "unat (jb_next jb - (jb_next jb + 1)) = 65535" by (simp add: unsigned_minus_1_eq_mask mask_eq_exp_minus_1)
    with True jb_take_lookup(2) [OF wf] assms(2) show ?thesis by simp
  next
    case False
    with jb_take_lookup(2) [OF wf] assms(1) unat_minus_step [OF False] show ?thesis by (simp add: holds_def)
  qed
  with assms(1) show "holds q (jb_next jb + 1) (fst (jb_take jb))" by (simp add: holds_def jb_take_wf)
qed

text \<open>The position of the newest packet of the window, -1 when all of them are lost.\<close>

fun last_idx :: "string option list \<Rightarrow> int" where
  "last_idx [] = -1"
| "last_idx (x # q) = (if last_idx q \<ge> 0 then last_idx q + 1 else if x \<noteq> None then 0 else -1)"

lemma last_idx_bounds: "-1 \<le> last_idx q" "last_idx q < int (length q)"
  by (induction q) auto

lemma last_idx_nonneg: "0 \<le> last_idx q \<longleftrightarrow> list_ex (\<lambda>x. x \<noteq> None) q"
  by (induction q) auto

lemma last_idx_snoc: "last_idx (q @ [x]) = (if x \<noteq> None then int (length q) else last_idx q)"
  by (induction q) (use last_idx_bounds in \<open>auto simp: not_le\<close>)

text \<open>In the middle of a stream: the window behind the newest packet.\<close>

definition steady :: "string option list \<Rightarrow> slv_jb \<Rightarrow> bool" where
  "steady q jb \<longleftrightarrow>
     holds q (jb_next jb) jb \<and> jb_have_first jb \<and> jb_primed jb \<and> jb_newest jb = jb_next jb + word_of_int (last_idx q)"

lemma jb_insert_sel [simp]:
  "jb_next (jb_insert seq p jb) = jb_next jb" "jb_primed (jb_insert seq p jb) = jb_primed jb"
  "jb_alloc jb \<Longrightarrow> jb_have_first (jb_insert seq p jb)"
  by (simp_all add: jb_insert_def jb_store_def Let_def)

lemma jb_insert_newest:
  "jb_alloc jb \<Longrightarrow> jb_have_first jb \<Longrightarrow>
     jb_newest (jb_insert seq p jb) = (if sint (seq - jb_newest jb) > 0 then seq else jb_newest jb)"
  by (simp add: jb_insert_def jb_store_def Let_def)

lemma jb_take_sel [simp]:
  "jb_next (fst (jb_take jb)) = jb_next jb + 1" "jb_primed (fst (jb_take jb)) = jb_primed jb"
  "jb_have_first (fst (jb_take jb)) = jb_have_first jb" "jb_newest (fst (jb_take jb)) = jb_newest jb"
  by (simp_all add: jb_take_def Let_def)

lemma sint_small: "-32768 \<le> k \<Longrightarrow> k < 32768 \<Longrightarrow> sint (word_of_int k :: u16) = k"
  by (simp add: sint_sbintrunc' signed_take_bit_int_eq_self)

definition arrive :: "u16 \<Rightarrow> string option \<Rightarrow> slv_jb \<Rightarrow> slv_jb" where
  "arrive seq x jb = (case x of None \<Rightarrow> jb | Some p \<Rightarrow> jb_insert seq p jb)"

lemma holds_snoc_None: "holds q base jb \<Longrightarrow> length q < 65535 \<Longrightarrow> holds (q @ [None]) base jb"
  unfolding holds_def by (auto simp: nth_append less_Suc_eq)

lemma steady_arrive:
  assumes "steady q jb" "length q < 128" "payload_ok x"
  shows "steady (q @ [x]) (arrive (jb_next jb + of_nat (length q)) x jb)"
    and "jb_next (arrive (jb_next jb + of_nat (length q)) x jb) = jb_next jb"
proof -
  let ?seq = "jb_next jb + of_nat (length q) :: u16"
  show n: "jb_next (arrive ?seq x jb) = jb_next jb" by (simp add: arrive_def split: option.split)
  show "steady (q @ [x]) (arrive ?seq x jb)"
  proof (cases x)
    case None
    with assms show ?thesis by (auto simp: steady_def arrive_def last_idx_snoc intro: holds_snoc_None)
  next
    case (Some p)
    have dist: "?seq - jb_newest jb = word_of_int (int (length q) - last_idx q)"
      using assms(1) by (simp add: steady_def)
    have "sint (word_of_int (int (length q) - last_idx q) :: u16) = int (length q) - last_idx q"
      using last_idx_bounds [of q] assms(2) by (intro sint_small) auto
    then have "0 < sint (?seq - jb_newest jb)" unfolding dist using last_idx_bounds(2) [of q] by simp
    then have "jb_newest (jb_insert ?seq p jb) = ?seq"
      using assms(1) by (simp add: steady_def holds_def jb_insert_newest)
    moreover have "holds (q @ [Some p]) (jb_next jb) (jb_insert ?seq p jb)"
      using assms Some by (intro holds_insert) (simp_all add: steady_def)
    ultimately show ?thesis
      using assms(1) Some by (simp add: steady_def arrive_def last_idx_snoc holds_def)
  qed
qed

lemma steady_pull:
  assumes "steady (x # q) jb" "length q \<le> 16" "list_ex (\<lambda>x. x \<noteq> None) (x # q)"
  shows "snd (jb_pull jb) = played x" and "steady q (fst (jb_pull jb))"
    and "jb_next (fst (jb_pull jb)) = jb_next jb + 1"
proof -
  have lead: "sint (jb_newest jb - jb_next jb) = last_idx (x # q)"
    using assms(1,2) last_idx_bounds [of "x # q"] by (simp add: steady_def sint_small del: last_idx.simps)
  moreover have "0 \<le> last_idx (x # q)" "last_idx (x # q) \<le> 16"
    using assms(2,3) last_idx_bounds(2) [of "x # q"] by (auto simp only: last_idx_nonneg) (simp del: last_idx.simps)
  ultimately have pull: "jb_pull jb = jb_take jb"
    using assms(1) by (simp add: jb_pull_def jb_prime_def steady_def SLV_JB_MAX_LEAD_def del: last_idx.simps)
  have h: "holds (x # q) (jb_next jb) jb" using assms(1) by (simp add: steady_def)
  show "snd (jb_pull jb) = played x" using holds_take(1) [OF h] assms(2) by (simp add: pull)
  show "jb_next (fst (jb_pull jb)) = jb_next jb + 1" by (simp add: pull)
  have "last_idx (x # q) = last_idx q + 1"
    using \<open>0 \<le> last_idx (x # q)\<close> last_idx_bounds(1) [of q] by (auto split: if_splits)
  then have "jb_newest jb = jb_next jb + 1 + word_of_int (last_idx q)"
    using assms(1) by (simp add: steady_def)
  with assms(1,2) holds_take(2) [OF h] show "steady q (fst (jb_pull jb))"
    by (simp add: pull steady_def)
qed

lemma jb_stream_steady:
  assumes "steady q jb" "length q = 3" "seq = jb_next jb + 3" "no_gap (q @ xs)" "list_all payload_ok xs"
  shows "jb_stream jb seq xs = map played (take (length xs) (q @ xs))"
  using assms
proof (induction xs arbitrary: q jb seq)
  case Nil
  then show ?case by simp
next
  case (Cons x xs)
  obtain a b c where q: "q = [a, b, c]" using Cons.prems(2) by (auto simp: numeral_3_eq_3 length_Suc_conv)
  let ?jb = "arrive seq x jb"
  have st: "steady (q @ [x]) ?jb" "jb_next ?jb = jb_next jb"
    using steady_arrive [OF Cons.prems(1), of x] Cons.prems(2,3,5) by simp_all
  obtain jb2 r where pull: "jb_pull ?jb = (jb2, r)" by fastforce
  from steady_pull [of a "[b, c, x]" ?jb] st q Cons.prems(4)
  have p: "r = played a" "steady [b, c, x] jb2" "jb_next jb2 = jb_next jb + 1" by (simp_all add: pull)
  have "jb_stream jb2 (seq + 1) xs = map played (take (length xs) ([b, c, x] @ xs))"
    using Cons.prems p q by (intro Cons.IH) (simp_all add: algebra_simps)
  with pull p q show ?case by (simp add: arrive_def)
qed

text \<open>Before playout: the first packets only fill the cushion.\<close>

definition filling :: "string option list \<Rightarrow> u16 \<Rightarrow> slv_jb \<Rightarrow> bool" where
  "filling q base jb \<longleftrightarrow>
     holds q base jb \<and> \<not> jb_primed jb \<and>
     (if q = [] then \<not> jb_have_first jb
      else jb_have_first jb \<and> jb_first_seq jb = base \<and> jb_newest jb = base + of_nat (length q - 1))"

lemma jb_insert_first:
  "jb_alloc jb \<Longrightarrow> \<not> jb_have_first jb \<Longrightarrow> jb_first_seq (jb_insert seq p jb) = seq \<and> jb_newest (jb_insert seq p jb) = seq"
  "jb_have_first jb \<Longrightarrow> jb_first_seq (jb_insert seq p jb) = jb_first_seq jb"
  by (simp_all add: jb_insert_def jb_store_def Let_def)

lemma filling_insert:
  assumes "filling q base jb" "length q < 8" "payload_ok (Some p)"
  shows "filling (q @ [Some p]) base (jb_insert (base + of_nat (length q)) p jb)"
proof -
  let ?jb = "jb_insert (base + of_nat (length q)) p jb"
  have h: "holds (q @ [Some p]) base ?jb"
    using assms by (intro holds_insert) (simp_all add: filling_def)
  have a: "jb_alloc jb" using assms(1) by (simp add: filling_def holds_def)
  show ?thesis
  proof (cases "q = []")
    case True
    with assms a h show ?thesis by (simp add: filling_def jb_insert_first)
  next
    case False
    then have "base + of_nat (length q) - jb_newest jb = word_of_int 1"
      using assms(1) by (simp add: filling_def of_nat_diff Suc_leI)
    then have "0 < sint (base + of_nat (length q) - jb_newest jb)" by (simp add: sint_small)
    with False assms a h show ?thesis by (simp add: filling_def jb_insert_first jb_insert_newest)
  qed
qed

lemma filling_pull: "filling q base jb \<Longrightarrow> length q \<le> 3 \<Longrightarrow> jb_pull jb = (jb, SLV_JB_SILENCE)"
proof -
  assume f: "filling q base jb" and l: "length q \<le> 3"
  have "sint (word_of_int (int (length q - 1)) :: u16) = int (length q - 1)" using l by (intro sint_small) auto
  with f l show ?thesis
    by (auto simp: filling_def jb_pull_def jb_prime_def SLV_JB_LAG_def split: if_splits)
qed

lemma filling_full:
  assumes "filling [Some a, Some b, Some c, Some d] base jb"
  shows "jb_pull jb = jb_pull (jb\<lparr>jb_primed := True, jb_next := base\<rparr>)"
    and "steady [Some a, Some b, Some c, Some d] (jb\<lparr>jb_primed := True, jb_next := base\<rparr>)"
proof -
  have n: "jb_newest jb - base = word_of_int 3" using assms by (simp add: filling_def)
  then have "sint (jb_newest jb - base) = 3" by (simp add: sint_small del: of_int_numeral)
  with assms show "jb_pull jb = jb_pull (jb\<lparr>jb_primed := True, jb_next := base\<rparr>)"
    by (simp add: filling_def jb_pull_def jb_prime_def SLV_JB_LAG_def)
  show "steady [Some a, Some b, Some c, Some d] (jb\<lparr>jb_primed := True, jb_next := base\<rparr>)"
    using assms by (simp add: steady_def filling_def)
qed

lemma jb_stream_filling:
  "filling q base jb \<Longrightarrow> length q < 3 \<Longrightarrow> payload_ok (Some p) \<Longrightarrow>
     jb_stream jb (base + of_nat (length q)) (Some p # xs) =
       SLV_JB_SILENCE # jb_stream (jb_insert (base + of_nat (length q)) p jb) (base + of_nat (length q) + 1) xs \<and>
     filling (q @ [Some p]) base (jb_insert (base + of_nat (length q)) p jb)"
  using filling_insert [of q base jb p] filling_pull [of "q @ [Some p]" base "jb_insert (base + of_nat (length q)) p jb"]
  by simp

lemma jb_allocate_filling: "filling [] base (jb_allocate jb)"
proof -
  have "jb_slot n < 128" for n using jb_slot_less [of n] by (simp add: SLV_JB_SLOTS_def)
  then show ?thesis
    by (simp add: filling_def holds_def jb_allocate_def jb_wf_def jb_lookup_def SLV_JB_SLOTS_def)
qed

text \<open>
  C13 Playout of a stream. After the allocation of the buffer, let a sender's packets arrive one per tick in order, whatever
  number the first one has (the numbers may wrap around), with the first four present and never more than three lost
  in a row. Then the ticks play silence three times, while the cushion fills, and from then on every packet exactly
  once, in order and three ticks late, with a concealment frame in the place of each lost packet.
\<close>

theorem jb_stream_playout:
  assumes "list_all payload_ok (Some a # Some b # Some c # Some d # xs)"
    and "no_gap (Some a # Some b # Some c # Some d # xs)"
  shows "jb_stream (jb_allocate jb) base (Some a # Some b # Some c # Some d # xs) =
    replicate 3 SLV_JB_SILENCE @ map played (take (length xs + 1) (Some a # Some b # Some c # Some d # xs))"
proof -
  let ?j1 = "jb_insert base a (jb_allocate jb)"
  let ?j2 = "jb_insert (base + 1) b ?j1"
  let ?j3 = "jb_insert (base + 2) c ?j2"
  let ?j4 = "jb_insert (base + 3) d ?j3"
  have ok: "payload_ok (Some a)" "payload_ok (Some b)" "payload_ok (Some c)" "payload_ok (Some d)" "list_all payload_ok xs"
    using assms(1) by simp_all
  have 1: "jb_stream (jb_allocate jb) base (Some a # ys) = SLV_JB_SILENCE # jb_stream ?j1 (base + 1) ys"
    "filling [Some a] base ?j1" for ys
    using jb_stream_filling [of "[]" base "jb_allocate jb" a ys, OF jb_allocate_filling _ ok(1)] by simp_all
  have 2: "jb_stream ?j1 (base + 1) (Some b # ys) = SLV_JB_SILENCE # jb_stream ?j2 (base + 2) ys"
    "filling [Some a, Some b] base ?j2" for ys
    using jb_stream_filling [OF 1(2) _ ok(2), of ys] by (simp_all add: add.assoc)
  have 3: "jb_stream ?j2 (base + 2) (Some c # ys) = SLV_JB_SILENCE # jb_stream ?j3 (base + 3) ys"
    "filling [Some a, Some b, Some c] base ?j3" for ys
    using jb_stream_filling [OF 2(2) _ ok(3), of ys] by (simp_all add: add.assoc)
  have f4: "filling [Some a, Some b, Some c, Some d] base ?j4"
    using filling_insert [OF 3(2) _ ok(4)] by simp
  let ?p = "?j4\<lparr>jb_primed := True, jb_next := base\<rparr>"
  have st: "steady [Some a, Some b, Some c, Some d] ?p" using filling_full(2) [OF f4] .
  obtain jb5 r where pull: "jb_pull ?p = (jb5, r)" by fastforce
  from steady_pull [OF st] have p: "r = SLV_JB_FRAME a" "steady [Some b, Some c, Some d] jb5" "jb_next jb5 = base + 1"
    by (simp_all add: pull)
  have "jb_stream jb5 (base + 4) xs = map played (take (length xs) ([Some b, Some c, Some d] @ xs))"
    using p assms(2) ok(5) by (intro jb_stream_steady) (simp_all add: add.assoc)
  then have "jb_stream ?j3 (base + 3) (Some d # xs) =
      SLV_JB_FRAME a # map played (take (length xs) ([Some b, Some c, Some d] @ xs))"
    by (simp add: filling_full(1) [OF f4] pull p(1) add.assoc)
  then show ?thesis by (simp only: 1 2 3) (simp add: numeral_3_eq_3)
qed

theorem jb_stream_playout_witness:
  "jb_stream (jb_allocate slv_jb_zero) 65534 [Some ''a'', Some ''b'', Some ''c'', Some ''d'', None, Some ''e'', None, None, None, Some ''f''] =
     [SLV_JB_SILENCE, SLV_JB_SILENCE, SLV_JB_SILENCE, SLV_JB_FRAME ''a'', SLV_JB_FRAME ''b'', SLV_JB_FRAME ''c'',
      SLV_JB_FRAME ''d'', SLV_JB_PLC, SLV_JB_FRAME ''e'', SLV_JB_PLC]"
  using jb_stream_playout [of "''a''" "''b''" "''c''" "''d''" "[None, Some ''e'', None, None, None, Some ''f'']" slv_jb_zero 65534]
  by (simp add: payload_ok_def SLV_JB_PAYLOAD_MAX_def numeral_3_eq_3 del: jb_stream.simps)

end
