(* ===== verification/Mix.thy ===== *)
theory Mix
  imports Sldata
begin

text \<open>
  The mixing and panning arithmetic of \<^verbatim>\<open>src/src/mixer/\<close>: \<^verbatim>\<open>mix.c\<close> (the N-minus-one sum, filling a frame
  from short packets, clamp, level, encode-skip), \<^verbatim>\<open>vec3.h\<close>, \<^verbatim>\<open>azimuth.h\<close> and \<^verbatim>\<open>pan.h\<close>. A sample is a real
  number: the identities below hold of the exact arithmetic, the code's differ from it by float rounding. An array
  parameter that may be NULL is an option; buffers themselves are never NULL here.
\<close>

subsection \<open>The N-minus-one mix\<close>

definition slv_gain_at :: "real list option \<Rightarrow> nat \<Rightarrow> real" where
  "slv_gain_at gains s = (case gains of None \<Rightarrow> 1 | Some g \<Rightarrow> g ! s)"

text \<open>Does source \<open>s\<close> reach the sum: the chain of \<^verbatim>\<open>continue\<close> statements.\<close>

definition mix_contributes ::
  "real list option list option \<Rightarrow> bool list option \<Rightarrow> bool list option \<Rightarrow> real list option \<Rightarrow> real list option \<Rightarrow>
   int \<Rightarrow> nat \<Rightarrow> real list option"
where
  "mix_contributes sources active mutes gainsL gainsR self s =
     (if int s = self then None
      else if (case active of None \<Rightarrow> True | Some a \<Rightarrow> \<not> a ! s) then None
      else if (case mutes of None \<Rightarrow> False | Some m \<Rightarrow> m ! s) then None
      else (case (case sources of None \<Rightarrow> None | Some ss \<Rightarrow> ss ! s) of
          None \<Rightarrow> None
        | Some src \<Rightarrow> if slv_gain_at gainsL s = 0 \<and> slv_gain_at gainsR s = 0 then None else Some src))"

text \<open>Even samples are the left channel; an odd tail takes the left gain, as its index is even.\<close>

definition mix_add :: "real list \<Rightarrow> real \<Rightarrow> real \<Rightarrow> real list \<Rightarrow> real list" where
  "mix_add src gL gR out =
     map (\<lambda>i. out ! i + src ! i * (if even i then gL else gR)) [0..<length out]"

definition slv_mix_nminus1_stereo ::
  "nat \<Rightarrow> real list option list option \<Rightarrow> bool list option \<Rightarrow> bool list option \<Rightarrow> real list option \<Rightarrow>
   real list option \<Rightarrow> nat \<Rightarrow> int \<Rightarrow> real list \<times> nat"
where
  "slv_mix_nminus1_stereo n sources active mutes gainsL gainsR nsrc self =
     (if n = 0 then ([], 0)
      else fold (\<lambda>s (out, summed).
             case mix_contributes sources active mutes gainsL gainsR self s of
               None \<Rightarrow> (out, summed)
             | Some src \<Rightarrow> (mix_add src (slv_gain_at gainsL s) (slv_gain_at gainsR s) out, summed + 1))
           [0..<nsrc] (replicate n 0, 0))"

definition slv_mix_nminus1 ::
  "nat \<Rightarrow> real list option list option \<Rightarrow> bool list option \<Rightarrow> bool list option \<Rightarrow> real list option \<Rightarrow>
   nat \<Rightarrow> int \<Rightarrow> real list \<times> nat"
where
  "slv_mix_nminus1 n sources active mutes gains nsrc self =
     slv_mix_nminus1_stereo n sources active mutes gains gains nsrc self"

subsection \<open>Filling a frame\<close>

text \<open>
  A chunk call is given the state of its source, the free capacity and the samples still wanted; it returns the new
  state, its return value and the samples it wrote (interleaved). The caller's buffer is the list \<open>out\<close>.
\<close>

definition overwrite :: "nat \<Rightarrow> 'a list \<Rightarrow> 'a list \<Rightarrow> 'a list" where
  "overwrite off xs buf = take off buf @ xs @ drop (off + length xs) buf"

fun fill_loop ::
  "('c \<Rightarrow> int \<Rightarrow> int \<Rightarrow> 'c \<times> int \<times> real list) \<Rightarrow> int \<Rightarrow> int \<Rightarrow> int \<Rightarrow> nat \<Rightarrow> int \<Rightarrow> 'c \<Rightarrow> real list \<Rightarrow>
   'c \<times> real list \<times> (int + int)"
where
  "fill_loop chunk cap frame channels 0 tot ctx out = (ctx, out, Inr tot)"
| "fill_loop chunk cap frame channels (Suc k) tot ctx out =
     (if \<not> (tot < frame \<and> tot < cap) then (ctx, out, Inr tot)
      else (case chunk ctx (cap - tot) (frame - tot) of (ctx, n, xs) \<Rightarrow>
        let out = overwrite (nat tot * nat channels) xs out in
        if n < 0 then (ctx, out, Inl n)
        else if n = 0 then (ctx, out, Inr tot)
        else fill_loop chunk cap frame channels k (tot + n) ctx out))"

definition slv_mix_fill_frame ::
  "('c \<Rightarrow> int \<Rightarrow> int \<Rightarrow> 'c \<times> int \<times> real list) \<Rightarrow> int \<Rightarrow> int \<Rightarrow> int \<Rightarrow> nat \<Rightarrow> 'c \<Rightarrow> real list \<Rightarrow>
   'c \<times> real list \<times> int \<times> int"
where
  "slv_mix_fill_frame chunk cap frame channels max_chunks ctx out =
     (if cap \<le> 0 \<or> frame \<le> 0 \<or> channels \<le> 0 then (ctx, out, 0, 0)
      else (case fill_loop chunk cap frame channels max_chunks 0 ctx out of
          (ctx, out, Inl err) \<Rightarrow> (ctx, out, 0, err)
        | (ctx, out, Inr tot) \<Rightarrow>
           (let tot = (if tot > cap then cap else tot);
                stop = (if frame < cap then frame else cap);
                out = (if tot > 0 \<and> tot < frame
                       then overwrite (nat tot * nat channels) (replicate ((nat stop - nat tot) * nat channels) 0) out
                       else out)
            in (ctx, out, tot, 0))))"

subsection \<open>Gain, clamp, level, encode-skip\<close>

definition slv_mix_apply_gain :: "real list \<Rightarrow> real \<Rightarrow> real list" where
  "slv_mix_apply_gain buf gain = (if gain = 1 then buf else map (\<lambda>x. x * gain) buf)"

definition slv_mix_clamp :: "real list \<Rightarrow> real list" where
  "slv_mix_clamp buf = map (\<lambda>x. if x > 1 then 1 else if x < -1 then -1 else x) buf"

definition slv_mix_rms :: "real list \<Rightarrow> real" where
  "slv_mix_rms buf = (if buf = [] then 0 else sqrt (sum_list (map (\<lambda>v. v * v) buf) / real (length buf)))"

definition slv_mix_is_silent :: "real list \<Rightarrow> real \<Rightarrow> bool" where
  "slv_mix_is_silent buf threshold \<longleftrightarrow> slv_mix_rms buf \<le> threshold"

definition slv_mix_encode_skip :: "nat \<Rightarrow> real list \<Rightarrow> bool" where
  "slv_mix_encode_skip summed frame \<longleftrightarrow> (if summed = 0 then True else \<not> list_ex (\<lambda>x. x \<noteq> 0) frame)"

subsection \<open>Geometry and panning\<close>

definition slv_vec3_sub :: "slv_vec3 \<Rightarrow> slv_vec3 \<Rightarrow> slv_vec3" where
  "slv_vec3_sub a b = \<lparr>v_x = v_x a - v_x b, v_y = v_y a - v_y b, v_z = v_z a - v_z b\<rparr>"

definition slv_vec3_mag :: "slv_vec3 \<Rightarrow> real" where
  "slv_vec3_mag v = sqrt (v_x v * v_x v + v_y v * v_y v + v_z v * v_z v)"

definition slv_vec3_madd :: "slv_vec3 \<Rightarrow> real \<Rightarrow> slv_vec3 \<Rightarrow> slv_vec3" where
  "slv_vec3_madd a s b = \<lparr>v_x = v_x a + s * v_x b, v_y = v_y a + s * v_y b, v_z = v_z a + s * v_z b\<rparr>"

definition slv_quat_normalize :: "slv_quat \<Rightarrow> slv_quat" where
  "slv_quat_normalize q =
     (let m = sqrt (q_x q * q_x q + q_y q * q_y q + q_z q * q_z q + q_w q * q_w q) in
      if m \<le> 0 then \<lparr>q_x = 0, q_y = 0, q_z = 0, q_w = 1\<rparr>
      else \<lparr>q_x = q_x q / m, q_y = q_y q / m, q_z = q_z q / m, q_w = q_w q / m\<rparr>)"

text \<open>\<^verbatim>\<open>atan2\<close> of the C library: the angle of the point in (-pi, pi], 0 at the origin.\<close>

definition atan2 :: "real \<Rightarrow> real \<Rightarrow> real" where
  "atan2 y x = Arg (Complex x y)"

definition slv_azimuth :: "slv_vec3 \<Rightarrow> slv_quat \<Rightarrow> slv_vec3 \<Rightarrow> real" where
  "slv_azimuth lp lh sp =
     (let q = slv_quat_normalize lh;
          fx = 1 - 2 * (q_y q * q_y q + q_z q * q_z q);
          fy = 2 * (q_x q * q_y q + q_w q * q_z q);
          d = slv_vec3_sub sp lp;
          cross = fx * v_y d - fy * v_x d;
          dot = fx * v_x d + fy * v_y d
      in - atan2 cross dot)"

definition slv_pan :: "real \<Rightarrow> real \<times> real" where
  "slv_pan azimuth =
     (let p = (sin azimuth + 1) / 2;
          a = p * (pi / 2)
      in (cos a, sin a))"

subsection \<open>What the mix is\<close>

text \<open>What source \<open>s\<close> adds to sample \<open>i\<close>, as a number.\<close>

definition contribution ::
  "real list option list option \<Rightarrow> bool list option \<Rightarrow> bool list option \<Rightarrow> real list option \<Rightarrow> real list option \<Rightarrow>
   int \<Rightarrow> nat \<Rightarrow> nat \<Rightarrow> real"
where
  "contribution sources active mutes gainsL gainsR self i s =
     (case mix_contributes sources active mutes gainsL gainsR self s of
        None \<Rightarrow> 0
      | Some src \<Rightarrow> src ! i * slv_gain_at (if even i then gainsL else gainsR) s)"

lemma length_mix_add [simp]: "length (mix_add src gL gR out) = length out"
  by (simp add: mix_add_def)

lemma mix_fold:
  assumes "length out = n"
  shows "fold (\<lambda>s (out, summed).
             case mix_contributes sources active mutes gainsL gainsR self s of
               None \<Rightarrow> (out, summed)
             | Some src \<Rightarrow> (mix_add src (slv_gain_at gainsL s) (slv_gain_at gainsR s) out, summed + 1)) ss (out, c) =
    (map (\<lambda>i. out ! i + (\<Sum>s\<leftarrow>ss. contribution sources active mutes gainsL gainsR self i s)) [0..<n],
     c + length (filter (\<lambda>s. mix_contributes sources active mutes gainsL gainsR self s \<noteq> None) ss))"
  using assms
proof (induction ss arbitrary: out c)
  case Nil
  then show ?case using map_nth [of out] by simp
next
  case (Cons s ss)
  show ?case
  proof (cases "mix_contributes sources active mutes gainsL gainsR self s")
    case None
    with Cons show ?thesis by (simp add: contribution_def)
  next
    case (Some src)
    with Cons.prems show ?thesis
      by (simp add: Cons.IH contribution_def mix_add_def algebra_simps)
  qed
qed


lemma mix_nminus1_alt:
  "slv_mix_nminus1_stereo n sources active mutes gainsL gainsR nsrc self =
     (map (\<lambda>i. \<Sum>s\<leftarrow>[0..<nsrc]. contribution sources active mutes gainsL gainsR self i s) [0..<n],
      if n = 0 then 0
      else length (filter (\<lambda>s. mix_contributes sources active mutes gainsL gainsR self s \<noteq> None) [0..<nsrc]))"
  by (simp add: slv_mix_nminus1_stereo_def mix_fold)

lemma mix_cong:
  assumes "\<And>s. s < nsrc \<Longrightarrow> mix_contributes sources active mutes gL gR self s = mix_contributes sources' active' mutes' gL' gR' self' s"
    and "\<And>s. s < nsrc \<Longrightarrow> mix_contributes sources active mutes gL gR self s \<noteq> None \<Longrightarrow>
           slv_gain_at gL s = slv_gain_at gL' s \<and> slv_gain_at gR s = slv_gain_at gR' s"
  shows "slv_mix_nminus1_stereo n sources active mutes gL gR nsrc self =
         slv_mix_nminus1_stereo n sources' active' mutes' gL' gR' nsrc self'"
proof -
  have "contribution sources active mutes gL gR self i s = contribution sources' active' mutes' gL' gR' self' i s"
    if "s < nsrc" for i s
    using assms(1) [OF that] assms(2) [OF that] by (auto simp: contribution_def split: option.split)
  then have "map (contribution sources active mutes gL gR self i) [0..<nsrc] =
      map (contribution sources' active' mutes' gL' gR' self' i) [0..<nsrc]" for i by simp
  moreover have "filter (\<lambda>s. mix_contributes sources active mutes gL gR self s \<noteq> None) [0..<nsrc] =
      filter (\<lambda>s. mix_contributes sources' active' mutes' gL' gR' self' s \<noteq> None) [0..<nsrc]"
    using assms(1) by (intro filter_cong) auto
  ultimately show ?thesis by (simp only: mix_nminus1_alt)
qed

lemma clamp_range: "x \<in> set (slv_mix_clamp buf) \<Longrightarrow> \<bar>x\<bar> \<le> 1"
  by (auto simp: slv_mix_clamp_def)

lemma length_mix_clamp [simp]: "length (slv_mix_clamp buf) = length buf"
  by (simp add: slv_mix_clamp_def)

lemma rms_nonneg: "0 \<le> slv_mix_rms buf"
proof -
  have "0 \<le> (\<Sum>v\<leftarrow>buf. v * v)" by (rule sum_list_nonneg) auto
  then show ?thesis by (simp add: slv_mix_rms_def)
qed

lemma sum_squares_le:
  "(\<And>x. x \<in> set buf \<Longrightarrow> \<bar>x\<bar> \<le> (1::real)) \<Longrightarrow> sum_list (map (\<lambda>v. v * v) buf) \<le> real (length buf)"
proof (induction buf)
  case Nil
  then show ?case by simp
next
  case (Cons x xs)
  have "\<bar>x\<bar> * \<bar>x\<bar> \<le> 1 * 1" using Cons.prems by (intro mult_mono) auto
  then have "x * x \<le> 1" by simp
  with Cons show ?case by fastforce
qed

lemma rms_clamp: "slv_mix_rms (slv_mix_clamp buf) \<le> 1"
proof (cases "buf = []")
  case True
  then show ?thesis by (simp add: slv_mix_rms_def slv_mix_clamp_def)
next
  case False
  then have "sum_list (map (\<lambda>v. v * v) (slv_mix_clamp buf)) \<le> real (length (slv_mix_clamp buf))"
    using clamp_range sum_squares_le by blast
  then have "sum_list (map (\<lambda>v. v * v) (slv_mix_clamp buf)) / real (length (slv_mix_clamp buf)) \<le> 1"
    using False by (simp add: divide_le_eq_1)
  then show ?thesis by (simp add: slv_mix_rms_def)
qed

subsection \<open>Filling a frame leaves nothing of an earlier one\<close>

lemma take_overwrite:
  "take (off + length xs) (overwrite off xs a) = take (off + length xs) (overwrite off xs b)"
  if "take off a = take off b" "off \<le> length a" "off \<le> length b"
  using that by (simp add: overwrite_def)

lemma length_overwrite: "off + length xs \<le> length buf \<Longrightarrow> length (overwrite off xs buf) = length buf"
  by (simp add: overwrite_def)

lemma overwrite_Nil: "overwrite off [] buf = buf"
  by (simp add: overwrite_def)

text \<open>A chunk source keeps to its capacity: what the decoder promises.\<close>

definition chunk_ok :: "nat \<Rightarrow> ('c \<Rightarrow> int \<Rightarrow> int \<Rightarrow> 'c \<times> int \<times> real list) \<Rightarrow> bool" where
  "chunk_ok channels chunk \<longleftrightarrow>
     (\<forall>ctx cap want. case chunk ctx cap want of (ctx', n, xs) \<Rightarrow>
        n \<le> max 0 cap \<and> length xs = nat n * channels)"

lemma chunk_okD:
  "chunk_ok channels chunk \<Longrightarrow> chunk ctx cap want = (ctx', n, xs) \<Longrightarrow> n \<le> max 0 cap \<and> length xs = nat n * channels"
  unfolding chunk_ok_def by (drule spec [of _ ctx], drule spec [of _ cap], drule spec [of _ want]) simp

text \<open>Two runs of the loop, from buffers that agree on the samples already written.\<close>

lemma fill_loop_rel:
  assumes "chunk_ok (nat channels) chunk" "0 \<le> tot" "tot \<le> cap"
    "nat cap * nat channels \<le> length a" "length b = length a"
    "take (nat tot * nat channels) a = take (nat tot * nat channels) b"
  shows "case (fill_loop chunk cap frame channels k tot ctx a, fill_loop chunk cap frame channels k tot ctx b) of
      ((ctx1, a1, r1), (ctx2, b1, r2)) \<Rightarrow>
        ctx1 = ctx2 \<and> r1 = r2 \<and> length a1 = length a \<and> length b1 = length a \<and>
        (case r1 of Inl err \<Rightarrow> err < 0
         | Inr t \<Rightarrow> 0 \<le> t \<and> t \<le> cap \<and> take (nat t * nat channels) a1 = take (nat t * nat channels) b1)"
  using assms(2-)
proof (induction k arbitrary: tot ctx a b)
  case 0
  then show ?case by simp
next
  case (Suc k)
  show ?case
  proof (cases "tot < frame \<and> tot < cap")
    case False
    with Suc.prems show ?thesis by (simp add: if_not_P)
  next
    case True
    obtain ctx' n xs where c: "chunk ctx (cap - tot) (frame - tot) = (ctx', n, xs)" by (metis prod_cases3)
    let ?off = "nat tot * nat channels"
    let ?a = "overwrite ?off xs a" and ?b = "overwrite ?off xs b"
    from c assms(1) True have n: "n \<le> cap - tot" "length xs = nat n * nat channels" by (auto dest: chunk_okD)
    have "nat tot + nat n \<le> nat cap" using n(1) Suc.prems(1,2) by linarith
    then have fit: "?off + length xs \<le> length a"
      using Suc.prems(3) n(2) by (metis add_mult_distrib le_trans mult_le_mono1)
    have len: "length ?a = length a" "length ?b = length a"
      using fit Suc.prems(4) by (simp_all add: length_overwrite)
    have eq: "take (?off + length xs) ?a = take (?off + length xs) ?b"
      using Suc.prems(4,5) fit by (intro take_overwrite) auto
    show ?thesis
    proof (cases "n \<le> 0")
      case True
      then have xs0: "xs = []" using n(2) by simp
      have r: "fill_loop chunk cap frame channels (Suc k) tot ctx d = (ctx', d, if n < 0 then Inl n else Inr tot)" for d
        using True \<open>tot < frame \<and> tot < cap\<close> by (simp add: c xs0 overwrite_Nil Let_def)
      show ?thesis unfolding r prod.case using Suc.prems by simp
    next
      case False
      have "nat (tot + n) * nat channels = ?off + length xs"
        using False Suc.prems(1) n(2) by (simp add: nat_add_distrib add_mult_distrib)
      with Suc.IH [of "tot + n" ?a ?b ctx'] False Suc.prems n len eq \<open>tot < frame \<and> tot < cap\<close> c
      show ?thesis by (simp add: Let_def)
    qed
  qed
qed

lemma fill_frame_Inl:
  assumes "\<not> (cap \<le> 0 \<or> frame \<le> 0 \<or> channels \<le> 0)"
    and "fill_loop chunk cap frame channels max_chunks 0 ctx a = (ctx', a', Inl err)"
  shows "slv_mix_fill_frame chunk cap frame channels max_chunks ctx a = (ctx', a', 0, err)"
  using assms by (simp add: slv_mix_fill_frame_def)

lemma fill_frame_Inr:
  assumes "\<not> (cap \<le> 0 \<or> frame \<le> 0 \<or> channels \<le> 0)" "t \<le> cap"
    and "fill_loop chunk cap frame channels max_chunks 0 ctx a = (ctx', a', Inr t)"
  shows "slv_mix_fill_frame chunk cap frame channels max_chunks ctx a =
    (ctx', if 0 < t \<and> t < frame
           then overwrite (nat t * nat channels) (replicate ((nat (min frame cap) - nat t) * nat channels) 0) a'
           else a', t, 0)"
proof -
  have "(if frame < cap then frame else cap) = min frame cap" by simp
  with assms show ?thesis by (simp add: slv_mix_fill_frame_def Let_def not_less)
qed

text \<open>
  Filling a frame. With a decoder that keeps to the capacity it is given, the frame that the mix reads depends only on
  what the decoder delivered in this tick and not on what the buffer held before: two runs from different buffers end
  in the same state, with the same count and error, and when the count is not 0 the first \<open>min frame cap\<close> samples are
  the same; the count is between 0 and the capacity, and is 0 after an error.
\<close>

theorem fill_frame_no_stale:
  assumes "chunk_ok (nat channels) chunk" and "nat cap * nat channels \<le> length a" and "length b = length a"
  shows "case (slv_mix_fill_frame chunk cap frame channels max_chunks ctx a,
               slv_mix_fill_frame chunk cap frame channels max_chunks ctx b) of
      ((ctx1, a1, t1, err1), (ctx2, b1, t2, err2)) \<Rightarrow>
        ctx1 = ctx2 \<and> t1 = t2 \<and> err1 = err2 \<and> length a1 = length a \<and> length b1 = length a \<and>
        0 \<le> t1 \<and> (if err1 < 0 then t1 = 0 else err1 = 0) \<and>
        (if t1 = 0 then True
         else t1 \<le> cap \<and>
          take (nat (min frame cap) * nat channels) a1 = take (nat (min frame cap) * nat channels) b1)"
proof (cases "cap \<le> 0 \<or> frame \<le> 0 \<or> channels \<le> 0")
  case True
  then show ?thesis using assms(3) by (auto simp: slv_mix_fill_frame_def)
next
  case False
  obtain ctx1 a1 r1 where l1: "fill_loop chunk cap frame channels max_chunks 0 ctx a = (ctx1, a1, r1)" by (metis prod_cases3)
  obtain ctx2 b1 r2 where l2: "fill_loop chunk cap frame channels max_chunks 0 ctx b = (ctx2, b1, r2)" by (metis prod_cases3)
  have t0: "take (nat 0 * nat channels) a = take (nat 0 * nat channels) b" by simp
  have cap0: "0 \<le> cap" using False by simp
  have all: "ctx1 = ctx2 \<and> r1 = r2 \<and> length a1 = length a \<and> length b1 = length a \<and>
     (case r1 of Inl err \<Rightarrow> err < 0
      | Inr t \<Rightarrow> 0 \<le> t \<and> t \<le> cap \<and> take (nat t * nat channels) a1 = take (nat t * nat channels) b1)"
    using fill_loop_rel [OF assms(1) order_refl cap0 assms(2,3) t0, of frame max_chunks ctx] unfolding l1 l2 prod.case .
  then have rel: "ctx1 = ctx2" "r1 = r2" "length a1 = length a" "length b1 = length a"
    and res: "case r1 of Inl err \<Rightarrow> err < 0
         | Inr t \<Rightarrow> 0 \<le> t \<and> t \<le> cap \<and> take (nat t * nat channels) a1 = take (nat t * nat channels) b1"
    by blast+
  show ?thesis
  proof (cases r1)
    case (Inl err)
    with rel have r2: "r2 = Inl err" by simp
    with Inl res have "err < 0" by simp
    have e: "slv_mix_fill_frame chunk cap frame channels max_chunks ctx a = (ctx1, a1, 0, err)"
      "slv_mix_fill_frame chunk cap frame channels max_chunks ctx b = (ctx2, b1, 0, err)"
      using False l1 l2 Inl r2 by (intro fill_frame_Inl; simp)+
    from \<open>err < 0\<close> rel(1,3,4) show ?thesis unfolding e prod.case by simp
  next
    case (Inr t)
    with rel have r2: "r2 = Inr t" by simp
    from Inr res have t: "0 \<le> t" "t \<le> cap" and eq: "take (nat t * nat channels) a1 = take (nat t * nat channels) b1" by auto
    let ?zeros = "replicate ((nat (min frame cap) - nat t) * nat channels) (0::real)"
    let ?pad = "\<lambda>d. if 0 < t \<and> t < frame then overwrite (nat t * nat channels) ?zeros d else d"
    have e: "slv_mix_fill_frame chunk cap frame channels max_chunks ctx a = (ctx1, ?pad a1, t, 0)"
      "slv_mix_fill_frame chunk cap frame channels max_chunks ctx b = (ctx2, ?pad b1, t, 0)"
      using False l1 l2 Inr r2 t(2) by (intro fill_frame_Inr; simp)+
    have p: "length (?pad a1) = length a \<and> length (?pad b1) = length a \<and>
        (t = 0 \<or> take (nat (min frame cap) * nat channels) (?pad a1) = take (nat (min frame cap) * nat channels) (?pad b1))"
    proof (cases "0 < t \<and> t < frame")
      case True
      have nt: "nat t \<le> nat (min frame cap)" "nat (min frame cap) \<le> nat cap" using True t by auto
      then have fit: "nat t * nat channels + length ?zeros = nat (min frame cap) * nat channels"
        by (simp add: add_mult_distrib [symmetric])
      moreover have le: "nat t * nat channels + length ?zeros \<le> length a"
        unfolding fit using assms(2) nt(2) by (metis le_trans mult_le_mono1)
      ultimately have "take (nat (min frame cap) * nat channels) (overwrite (nat t * nat channels) ?zeros a1) =
          take (nat (min frame cap) * nat channels) (overwrite (nat t * nat channels) ?zeros b1)"
        using take_overwrite [OF eq, of ?zeros] rel(3,4) by (metis add_leD1)
      with le rel(3,4) True show ?thesis by (simp only: length_overwrite if_True simp_thms)
    next
      case beyond: False
      have "take (nat (min frame cap) * nat channels) a1 = take (nat (min frame cap) * nat channels) b1" if "t \<noteq> 0"
      proof -
        have "frame \<le> t" using beyond t(1) that by auto
        then have "nat (min frame cap) * nat channels \<le> nat t * nat channels" by (intro mult_le_mono1) auto
        with eq show ?thesis by (metis min.absorb1 take_take)
      qed
      with rel(3,4) show ?thesis unfolding if_not_P [OF beyond] by blast
    qed
    have shape: "ctx1 = ctx2 \<and> t = t \<and> (0::int) = 0 \<and> length x = length a \<and> length y = length a \<and> 0 \<le> t \<and>
        (if (0::int) < 0 then t = 0 else (0::int) = 0) \<and> (if t = 0 then True else t \<le> cap \<and> P)"
      if "length x = length a \<and> length y = length a \<and> (t = 0 \<or> P)" for x y :: "real list" and P
      using that rel(1) t by auto
    show ?thesis unfolding e prod.case using p by (rule shape)
  qed
qed

definition chunk_sample :: "nat \<Rightarrow> int \<Rightarrow> int \<Rightarrow> nat \<times> int \<times> real list" where
  "chunk_sample left cap want = (if left = 0 \<or> cap < 1 then (left, 0, []) else (left - 1, 1, [1 / 2, 1 / 4]))"

lemma chunk_sample_ok: "chunk_ok 2 chunk_sample"
  by (simp add: chunk_ok_def chunk_sample_def)

text \<open>Two samples arrive, the buffer holds an earlier frame: the third sample is zeroed.\<close>

theorem fill_frame_no_stale_witness:
  "slv_mix_fill_frame chunk_sample 3 3 2 6 2 [9, 9, 9, 9, 9, 9] = (0, [1/2, 1/4, 1/2, 1/4, 0, 0], 2, 0) \<and>
   (case (slv_mix_fill_frame chunk_sample 3 3 2 6 2 [9, 9, 9, 9, 9, 9],
          slv_mix_fill_frame chunk_sample 3 3 2 6 2 [7, 7, 7, 7, 7, 7]) of
      ((ctx1, a1, t1, err1), (ctx2, b1, t2, err2)) \<Rightarrow> take (nat (min 3 3) * nat 2) a1 = take (nat (min 3 3) * nat 2) b1)"
proof -
  have 1: "slv_mix_fill_frame chunk_sample 3 3 2 6 2 [9, 9, 9, 9, 9, 9] = (0, [1/2, 1/4, 1/2, 1/4, 0, 0], 2, 0)"
    by (simp add: slv_mix_fill_frame_def chunk_sample_def overwrite_def eval_nat_numeral)
  with fill_frame_no_stale [of 2 chunk_sample 3 "[9, 9, 9, 9, 9, 9]" "[7, 7, 7, 7, 7, 7]" 3 6 2]
  show ?thesis by (simp add: chunk_sample_ok split: prod.splits)
qed

subsection \<open>Constant-power panning\<close>

lemma pan_angle: "0 \<le> (sin azimuth + 1) / 2 * (pi / 2)" "(sin azimuth + 1) / 2 * (pi / 2) \<le> pi / 2"
proof -
  have "0 \<le> sin azimuth + 1" "sin azimuth + 1 \<le> 2" using sin_ge_minus_one [of azimuth] sin_le_one [of azimuth] by linarith+
  then show "0 \<le> (sin azimuth + 1) / 2 * (pi / 2)" "(sin azimuth + 1) / 2 * (pi / 2) \<le> pi / 2" by auto
qed

lemma pan_gains:
  "slv_pan azimuth = (gL, gR) \<Longrightarrow>
     gL\<^sup>2 + gR\<^sup>2 = 1 \<and> 0 \<le> gL \<and> gL \<le> 1 \<and> 0 \<le> gR \<and> gR \<le> 1 \<and>
     (gL < gR \<longleftrightarrow> 0 < sin azimuth) \<and> (gR < gL \<longleftrightarrow> sin azimuth < 0)"
proof -
  assume g: "slv_pan azimuth = (gL, gR)"
  define a where "a = (sin azimuth + 1) / 2 * (pi / 2)"
  have a: "0 \<le> a" "a \<le> pi / 2" using pan_angle [of azimuth] by (simp_all only: a_def)
  have e: "gL = cos a" "gR = sin a" using g by (simp_all add: slv_pan_def a_def Let_def)
  have c: "cos a = sin (pi / 2 - a)" by (simp add: sin_diff)
  have "sin (pi / 2 - a) < sin a \<longleftrightarrow> pi / 2 - a < a" "sin a < sin (pi / 2 - a) \<longleftrightarrow> a < pi / 2 - a"
    using a by (intro sin_mono_less_eq; simp)+
  moreover have "pi / 2 - a < a \<longleftrightarrow> 0 < sin azimuth" "a < pi / 2 - a \<longleftrightarrow> sin azimuth < 0"
    by (simp_all add: a_def field_simps zero_less_mult_iff mult_less_0_iff not_less)
  ultimately show ?thesis
    using a by (simp add: e sin_ge_zero cos_ge_zero) (simp add: c)
qed

lemma sin_atan2: "sin (atan2 y x) = (if x = 0 \<and> y = 0 then 0 else y / sqrt (x\<^sup>2 + y\<^sup>2))"
proof (cases "Complex x y = 0")
  case True
  then show ?thesis by (simp add: atan2_def Arg_zero) (simp add: complex_eq_iff)
next
  case False
  then have "cis (Arg (Complex x y)) = sgn (Complex x y)" by (rule cis_Arg)
  then have "sin (Arg (Complex x y)) = Im (sgn (Complex x y))" by (metis cis.simps(2))
  with False show ?thesis by (auto simp: atan2_def sgn_div_norm complex_norm complex_eq_iff divide_inverse)
qed

lemma sin_atan2_sign: "0 < sin (atan2 y x) \<longleftrightarrow> 0 < y" "sin (atan2 y x) < 0 \<longleftrightarrow> y < 0"
  by (auto simp: sin_atan2 zero_less_divide_iff divide_less_0_iff sum_power2_gt_zero_iff not_sum_power2_lt_zero)

text \<open>How far to the right of the listener's view the source is: the negated cross product of the
  horizontal view direction and the displacement.\<close>

definition right_of :: "slv_vec3 \<Rightarrow> slv_quat \<Rightarrow> slv_vec3 \<Rightarrow> real" where
  "right_of lp lh sp =
     (let q = slv_quat_normalize lh in
      2 * (q_x q * q_y q + q_w q * q_z q) * (v_x sp - v_x lp) -
      (1 - 2 * (q_y q * q_y q + q_z q * q_z q)) * (v_y sp - v_y lp))"

text \<open>
  Panning. For every listener position, heading and source position the two gains have constant power (the squares
  add up to 1) and lie in [0, 1]; the right ear is the louder one exactly when the source is to the right of
  the view direction, and the left ear exactly when it is to the left: ahead, behind and overhead are centred.
\<close>

theorem pan_power_and_side:
  "case slv_pan (slv_azimuth lp lh sp) of (gL, gR) \<Rightarrow>
     gL\<^sup>2 + gR\<^sup>2 = 1 \<and> 0 \<le> gL \<and> gL \<le> 1 \<and> 0 \<le> gR \<and> gR \<le> 1 \<and>
     (gL < gR \<longleftrightarrow> 0 < right_of lp lh sp) \<and> (gR < gL \<longleftrightarrow> right_of lp lh sp < 0)"
proof -
  obtain gL gR where g: "slv_pan (slv_azimuth lp lh sp) = (gL, gR)" by (metis prod.exhaust)
  obtain cross dot where az: "slv_azimuth lp lh sp = - atan2 cross dot" and c: "cross = - right_of lp lh sp"
    by (simp add: slv_azimuth_def right_of_def Let_def slv_vec3_sub_def)
  have "0 < sin (slv_azimuth lp lh sp) \<longleftrightarrow> 0 < right_of lp lh sp" "sin (slv_azimuth lp lh sp) < 0 \<longleftrightarrow> right_of lp lh sp < 0"
    by (simp_all add: az c sin_atan2_sign)
  with pan_gains [OF g] show ?thesis by (simp add: g)
qed

end
