(* ===== verification/Media.thy ===== *)
theory Media
  imports Jitter Mix
begin

text \<open>
  The media of one participant, the section "Media" of \<^verbatim>\<open>src/src/janus_slvoice.c\<close>: allocating and freeing codecs
  and buffers, feeding and draining the jitter buffer, decoding one tick's frame, the delayed echo and encoding and
  sending the listener's frame.

  The Opus library is a parameter, a record of functions of the calls made on the codec so far. A decoder's history holds
  the payload (None for a concealment call) and the capacity of each call, an encoder's the frames. The result of a
  decoder call is its return value and the interleaved samples it wrote. The random numbers drawn at the allocation are
  arguments. Opus cannot fail to write what it reports, an assumption stated where a lemma needs it (\<open>opus_ok\<close>).
\<close>

definition SLV_CHANNELS :: nat where [slv_const]: "SLV_CHANNELS = 2"
definition SLV_FRAME_SAMPLES :: nat where [slv_const]: "SLV_FRAME_SAMPLES = 960"
definition SLV_FRAME_TOTAL :: nat where [slv_const]: "SLV_FRAME_TOTAL = 1920"
definition SLV_DELAY_SAMPLES :: nat where [slv_const]: "SLV_DELAY_SAMPLES = 24000"
definition SLV_DECODE_MAX :: nat where [slv_const]: "SLV_DECODE_MAX = 5760"
definition SLV_RING_SAMPLES :: nat where [slv_const]: "SLV_RING_SAMPLES = SLV_DELAY_SAMPLES + SLV_DECODE_MAX + SLV_FRAME_SAMPLES"
definition SLV_RTP_OUT_MAX :: nat where [slv_const]: "SLV_RTP_OUT_MAX = 1500"
definition SLV_FILL_MAX_CHUNKS :: nat where [slv_const]: "SLV_FILL_MAX_CHUNKS = 8"
definition SLV_VAD_RMS :: real where "SLV_VAD_RMS = 2 / 100"
definition SLV_VAD_RELEASE_MS :: int where [slv_const]: "SLV_VAD_RELEASE_MS = 150"

type_synonym dec_calls = "(string option \<times> int) list"

record slv_opus =
  op_decode :: "dec_calls \<Rightarrow> string option \<Rightarrow> int \<Rightarrow> int \<times> real list"
  op_last_duration :: "dec_calls \<Rightarrow> int option"
  op_encode :: "real list list \<Rightarrow> real list \<Rightarrow> int \<times> string"

subsection \<open>Allocation\<close>

definition janus_slvoice_media_free_locked :: "janus_slvoice_session \<Rightarrow> janus_slvoice_session" where
  "janus_slvoice_media_free_locked s =
     s\<lparr>se_dec := None, se_enc := None,
       se_jb := (se_jb s)\<lparr>jb_alloc := False, jb_pay := [], jb_seq := [], jb_len := [], jb_primed := False, jb_have_first := False\<rparr>,
       se_ring := None, se_decbuf := [], se_ring_wpos := 0, se_dec_samples := 0, se_media_ready := False,
       se_echo_active := False, se_active := False, se_power_p := 0, se_vad := False\<rparr>"

text \<open>\<open>dec_ok\<close> and \<open>enc_ok\<close>: does creating the decoder and the encoder succeed; the rest are the random numbers.\<close>

definition janus_slvoice_media_alloc_locked ::
  "bool \<Rightarrow> bool \<Rightarrow> u16 \<Rightarrow> u32 \<Rightarrow> u32 \<Rightarrow> janus_slvoice_session \<Rightarrow> janus_slvoice_session \<times> bool"
where
  "janus_slvoice_media_alloc_locked dec_ok enc_ok seq ts ssrc s =
     (if se_media_ready s \<and> se_dec s \<noteq> None \<and> se_enc s \<noteq> None then (s, True)
      else if \<not> dec_ok then (janus_slvoice_media_free_locked (s\<lparr>se_dec := None\<rparr>), False)
      else if \<not> enc_ok then (janus_slvoice_media_free_locked (s\<lparr>se_dec := Some [], se_enc := None\<rparr>), False)
      else
        (s\<lparr>se_dec := Some [], se_enc := Some [], se_jb := jb_allocate (se_jb s),
           se_decbuf := replicate (SLV_DECODE_MAX * SLV_CHANNELS) 0, se_ring_wpos := 0, se_dec_samples := 0,
           se_frames_decoded := 0, se_frames_encoded := 0, se_frames_mixed := 0, se_rtp_out_count := 0,
           se_silent_ticks := 0, se_last_rms := 0, se_last_mix_rms := 0, se_last_mix_rms_l := 0, se_last_mix_rms_r := 0,
           se_decode_ok := False, se_power_p := 0, se_vad := False, se_active := False, se_out_seq := seq,
           se_out_ts := ts, se_out_ssrc := ssrc, se_media_ready := True\<rparr>, True))"

text \<open>The echo override. The ring is allocated at the first use and cleared at every start and stop.\<close>

definition ring_zero :: "(real \<times> real) list" where
  "ring_zero = replicate SLV_RING_SAMPLES (0, 0)"

definition janus_slvoice_echo_start_locked ::
  "bool \<Rightarrow> bool \<Rightarrow> u16 \<Rightarrow> u32 \<Rightarrow> u32 \<Rightarrow> janus_slvoice_session \<Rightarrow> janus_slvoice_session"
where
  "janus_slvoice_echo_start_locked dec_ok enc_ok seq ts ssrc s =
     (let s = (if \<not> se_media_ready s then fst (janus_slvoice_media_alloc_locked dec_ok enc_ok seq ts ssrc s) else s)
      in s\<lparr>se_ring := Some ring_zero, se_ring_wpos := 0, se_echo_active := True\<rparr>)"

definition janus_slvoice_echo_stop_locked :: "janus_slvoice_session \<Rightarrow> janus_slvoice_session" where
  "janus_slvoice_echo_stop_locked s =
     s\<lparr>se_echo_active := False, se_ring := map_option (\<lambda>r. ring_zero) (se_ring s), se_ring_wpos := 0\<rparr>"

subsection \<open>A packet arrives\<close>

definition janus_slvoice_incoming_rtp :: "int \<Rightarrow> u16 \<Rightarrow> string \<Rightarrow> janus_slvoice_session \<Rightarrow> janus_slvoice_session" where
  "janus_slvoice_incoming_rtp now seq payload s =
     (if se_destroyed s then s
      else let s = s\<lparr>se_rtp_in_count := se_rtp_in_count s + 1, se_last_rtp_us := now\<rparr> in
        if se_media_ready s \<and> payload \<noteq> [] then janus_slvoice_jb_insert s seq payload else s)"

subsection \<open>Decoding a tick's frame\<close>

definition dec_call :: "slv_opus \<Rightarrow> string option \<Rightarrow> int \<Rightarrow> janus_slvoice_session \<Rightarrow> janus_slvoice_session \<times> int \<times> real list"
where
  "dec_call op pl cap s =
     (case se_dec s of
        None \<Rightarrow> (s, 0, [])
      | Some calls \<Rightarrow> (case op_decode op calls pl cap of (n, xs) \<Rightarrow> (s\<lparr>se_dec := Some (calls @ [(pl, cap)])\<rparr>, n, xs)))"

definition janus_slvoice_decode_chunk_locked ::
  "slv_opus \<Rightarrow> janus_slvoice_session \<Rightarrow> int \<Rightarrow> int \<Rightarrow> janus_slvoice_session \<times> int \<times> real list"
where
  "janus_slvoice_decode_chunk_locked op s cap want =
     (case janus_slvoice_jb_pull s of
        (s, SLV_JB_SILENCE) \<Rightarrow> (s, 0, [])
      | (s, SLV_JB_FRAME pl) \<Rightarrow> dec_call op (Some pl) cap s
      | (s, SLV_JB_PLC) \<Rightarrow>
         (let last = (case op_last_duration op (case se_dec s of None \<Rightarrow> [] | Some calls \<Rightarrow> calls) of
                        None \<Rightarrow> int SLV_FRAME_SAMPLES
                      | Some d \<Rightarrow> if d \<le> 0 then int SLV_FRAME_SAMPLES else d);
              plc = (if last < want then last else want)
          in dec_call op None (if plc < cap then plc else cap) s))"

definition power_of_rms :: "real \<Rightarrow> int" where
  "power_of_rms rms = (let p = \<lfloor>rms * 128\<rfloor> in if p < 0 then 0 else if p > 127 then 127 else p)"

definition tick_silent :: "janus_slvoice_session \<Rightarrow> janus_slvoice_session" where
  "tick_silent s = s\<lparr>se_power_p := 0, se_vad := False\<rparr>"

definition janus_slvoice_tick_decode_locked :: "slv_opus \<Rightarrow> int \<Rightarrow> janus_slvoice_session \<Rightarrow> janus_slvoice_session" where
  "janus_slvoice_tick_decode_locked op now s =
     (let act = (se_last_rtp_us s \<noteq> 0 \<and> now - se_last_rtp_us s \<le> SLV_VAD_RELEASE_MS * 1000);
          s = s\<lparr>se_active := act, se_dec_samples := 0\<rparr>
      in if \<not> se_media_ready s \<or> se_dec s = None \<or> \<not> act then if \<not> act then tick_silent s else s
      else (case slv_mix_fill_frame (janus_slvoice_decode_chunk_locked op) (int SLV_DECODE_MAX) (int SLV_FRAME_SAMPLES)
                   (int SLV_CHANNELS) SLV_FILL_MAX_CHUNKS s (se_decbuf s) of
          (s, buf, samples, err) \<Rightarrow>
            let s = s\<lparr>se_decbuf := buf\<rparr> in
            if err < 0 then tick_silent (s\<lparr>se_decode_ok := False\<rparr>)
            else if samples = 0 then tick_silent s
            else
              let samples = (if samples > int SLV_DECODE_MAX then int SLV_DECODE_MAX else samples);
                  rms = slv_mix_rms (take (nat samples * SLV_CHANNELS) buf)
              in s\<lparr>se_decode_ok := True, se_frames_decoded := se_frames_decoded s + 1, se_dec_samples := nat samples,
                   se_last_rms := rms, se_power_p := power_of_rms rms, se_vad := rms > SLV_VAD_RMS\<rparr>))"

subsection \<open>Echo\<close>

text \<open>One sample of the echo: what is read at \<open>rp\<close> goes out, the input sample is written at \<open>wp\<close>.\<close>

definition echo_sample :: "janus_slvoice_session \<Rightarrow> nat \<Rightarrow> (real \<times> real) list \<times> nat \<times> nat \<times> (real \<times> real) list \<Rightarrow>
  (real \<times> real) list \<times> nat \<times> nat \<times> (real \<times> real) list"
where
  "echo_sample s i = (\<lambda>(ring, wp, rp, out).
     let x = (if i < se_dec_samples s then (se_decbuf s ! (2 * i), se_decbuf s ! (2 * i + 1)) else (0, 0))
     in (ring[wp := x], (wp + 1) mod SLV_RING_SAMPLES, (rp + 1) mod SLV_RING_SAMPLES, out @ [ring ! rp]))"

text \<open>The interleaved frame of a list of stereo samples.\<close>

definition interleave :: "(real \<times> real) list \<Rightarrow> real list" where
  "interleave xs = concat (map (\<lambda>(l, r). [l, r]) xs)"

text \<open>The caller has seen \<open>echo_active\<close>, which implies a ring (\<open>media_inv\<close> below).\<close>

definition janus_slvoice_build_echo :: "janus_slvoice_session \<Rightarrow> nat \<Rightarrow> janus_slvoice_session \<times> real list" where
  "janus_slvoice_build_echo s samples =
     (let wp = se_ring_wpos s;
          rp = (wp + SLV_RING_SAMPLES - SLV_DELAY_SAMPLES) mod SLV_RING_SAMPLES
      in case fold (echo_sample s) [0..<samples] (case se_ring s of None \<Rightarrow> [] | Some r \<Rightarrow> r, wp, rp, []) of
           (ring, wp, rp, out) \<Rightarrow> (s\<lparr>se_ring := map_option (\<lambda>r. ring) (se_ring s), se_ring_wpos := wp\<rparr>, interleave out))"

subsection \<open>Encoding and sending\<close>

record slv_rtp =
  rp_type :: int
  rp_seq :: u16
  rp_ts :: u32
  rp_ssrc :: u32
  rp_payload :: string

definition janus_slvoice_encode_relay ::
  "slv_opus \<Rightarrow> real list \<Rightarrow> nat \<Rightarrow> bool \<Rightarrow> janus_slvoice_session \<Rightarrow> janus_slvoice_session \<times> slv_rtp option"
where
  "janus_slvoice_encode_relay op frame samples silence s =
     (let ts = se_out_ts s;
          s = s\<lparr>se_out_ts := se_out_ts s + of_nat samples\<rparr>
      in case (if silence then None else se_enc s) of
           None \<Rightarrow> (s\<lparr>se_silent_ticks := se_silent_ticks s + 1\<rparr>, None)
         | Some calls \<Rightarrow>
            (case op_encode op calls frame of (enc_len, bytes) \<Rightarrow>
               let s = s\<lparr>se_enc := Some (calls @ [frame])\<rparr> in
               if enc_len < 0 then (s, None)
               else if enc_len \<le> 2 then (s\<lparr>se_silent_ticks := se_silent_ticks s + 1\<rparr>, None)
               else
                 (s\<lparr>se_silent_ticks := 0, se_frames_encoded := se_frames_encoded s + 1, se_out_seq := se_out_seq s + 1,
                    se_rtp_out_count := se_rtp_out_count s + 1\<rparr>,
                  Some \<lparr>rp_type = (if se_opus_pt s > 0 then se_opus_pt s else 111) mod 128, rp_seq = se_out_seq s, rp_ts = ts,
                        rp_ssrc = se_out_ssrc s, rp_payload = take (nat enc_len) bytes\<rparr>)))"

subsection \<open>The echo is a delay line\<close>

text \<open>The samples of the ring that are still to be heard, the oldest first.\<close>

definition delay_line :: "(real \<times> real) list \<Rightarrow> nat \<Rightarrow> (real \<times> real) list" where
  "delay_line ring wp =
     map (\<lambda>j. ring ! ((wp + (SLV_RING_SAMPLES - SLV_DELAY_SAMPLES) + j) mod SLV_RING_SAMPLES)) [0..<SLV_DELAY_SAMPLES]"

definition ring_ok :: "(real \<times> real) list \<Rightarrow> nat \<Rightarrow> bool" where
  "ring_ok ring wp \<longleftrightarrow> length ring = SLV_RING_SAMPLES \<and> wp < SLV_RING_SAMPLES"

lemma ring_bounds: "0 < SLV_DELAY_SAMPLES" "SLV_DELAY_SAMPLES < SLV_RING_SAMPLES"
  by (simp_all add: slv_const)

lemma mod_shift_ne: "(w + c) mod r \<noteq> w" if "w < r" "0 < c" "c < (r::nat)"
proof (cases "w + c < r")
  case True
  with that show ?thesis by simp
next
  case False
  with that have "(w + c) mod r = w + c - r" by (simp add: le_mod_geq)
  with that False show ?thesis by auto
qed

lemma delay_line_step:
  assumes "ring_ok ring wp"
  shows "delay_line ring wp = ring ! ((wp + (SLV_RING_SAMPLES - SLV_DELAY_SAMPLES)) mod SLV_RING_SAMPLES) # tl (delay_line ring wp)"
    and "delay_line (ring[wp := x]) ((wp + 1) mod SLV_RING_SAMPLES) = tl (delay_line ring wp) @ [x]"
    and "ring_ok (ring[wp := x]) ((wp + 1) mod SLV_RING_SAMPLES)"
proof -
  let ?R = SLV_RING_SAMPLES and ?D = SLV_DELAY_SAMPLES
  have D: "[0..<?D] = 0 # [1..<?D]" using ring_bounds(1) by (simp add: upt_conv_Cons)
  show "delay_line ring wp = ring ! ((wp + (?R - ?D)) mod ?R) # tl (delay_line ring wp)"
    by (simp add: delay_line_def D)
  show "ring_ok (ring[wp := x]) ((wp + 1) mod ?R)" using assms by (simp add: ring_ok_def)
  show "delay_line (ring[wp := x]) ((wp + 1) mod ?R) = tl (delay_line ring wp) @ [x]"
  proof (rule nth_equalityI)
    show "length (delay_line (ring[wp := x]) ((wp + 1) mod ?R)) = length (tl (delay_line ring wp) @ [x])"
      using ring_bounds(1) by (simp add: delay_line_def)
    fix j assume "j < length (delay_line (ring[wp := x]) ((wp + 1) mod ?R))"
    then have j: "j < ?D" by (simp add: delay_line_def)
    have ix: "((wp + 1) mod ?R + (?R - ?D) + j) mod ?R = (wp + (?R - ?D + (j + 1))) mod ?R"
      by (metis (no_types, opaque_lifting) add.assoc add.commute mod_add_left_eq)
    have l: "delay_line (ring[wp := x]) ((wp + 1) mod ?R) ! j = ring[wp := x] ! ((wp + (?R - ?D + (j + 1))) mod ?R)"
      using j by (simp only: delay_line_def nth_map length_upt nth_upt diff_zero add_0 ix)
    show "delay_line (ring[wp := x]) ((wp + 1) mod ?R) ! j = (tl (delay_line ring wp) @ [x]) ! j"
    proof (cases "j + 1 < ?D")
      case True
      then have "(wp + (?R - ?D + (j + 1))) mod ?R \<noteq> wp"
        using assms ring_bounds by (intro mod_shift_ne) (auto simp: ring_ok_def)
      with l have "delay_line (ring[wp := x]) ((wp + 1) mod ?R) ! j = ring ! ((wp + (?R - ?D + (j + 1))) mod ?R)" by simp
      moreover have "delay_line ring wp ! Suc j = ring ! ((wp + (?R - ?D + (j + 1))) mod ?R)"
        using True by (simp add: delay_line_def add.assoc)
      moreover have "j < length (tl (delay_line ring wp))" using True by (simp add: delay_line_def)
      ultimately show ?thesis by (simp add: nth_append nth_tl)
    next
      case False
      with j have "?R - ?D + (j + 1) = ?R" using ring_bounds(2) by simp
      then have "(wp + (?R - ?D + (j + 1))) mod ?R = wp" using assms by (simp add: ring_ok_def)
      moreover have "j = ?D - 1" using False j by simp
      ultimately show ?thesis using l assms by (simp add: nth_append delay_line_def ring_ok_def)
    qed
  qed
qed

text \<open>What the participant said in this tick, padded with silence to a whole frame.\<close>

definition heard :: "real list \<Rightarrow> nat \<Rightarrow> nat \<Rightarrow> (real \<times> real) list" where
  "heard buf have_samples n = map (\<lambda>i. if i < have_samples then (buf ! (2 * i), buf ! (2 * i + 1)) else (0, 0)) [0..<n]"

lemma echo_fold:
  assumes "ring_ok ring wp" "rp = (wp + (SLV_RING_SAMPLES - SLV_DELAY_SAMPLES)) mod SLV_RING_SAMPLES"
  shows "\<exists>ring' wp' rp'.
    fold (echo_sample s) is (ring, wp, rp, out) =
      (ring', wp', rp', out @ take (length is) (delay_line ring wp @
         map (\<lambda>i. if i < se_dec_samples s then (se_decbuf s ! (2 * i), se_decbuf s ! (2 * i + 1)) else (0, 0)) is)) \<and>
    ring_ok ring' wp' \<and>
    delay_line ring' wp' = drop (length is) (delay_line ring wp @
         map (\<lambda>i. if i < se_dec_samples s then (se_decbuf s ! (2 * i), se_decbuf s ! (2 * i + 1)) else (0, 0)) is)"
  using assms
proof (induction "is" arbitrary: ring wp rp out)
  case Nil
  then show ?case by simp
next
  case (Cons i "is")
  let ?x = "if i < se_dec_samples s then (se_decbuf s ! (2 * i), se_decbuf s ! (2 * i + 1)) else (0, 0)"
  let ?wp = "(wp + 1) mod SLV_RING_SAMPLES"
  let ?rest = "map (\<lambda>i. if i < se_dec_samples s then (se_decbuf s ! (2 * i), se_decbuf s ! (2 * i + 1)) else (0, 0)) is"
  note st = delay_line_step [OF Cons.prems(1)]
  have "(rp + 1) mod SLV_RING_SAMPLES = (?wp + (SLV_RING_SAMPLES - SLV_DELAY_SAMPLES)) mod SLV_RING_SAMPLES"
    unfolding Cons.prems(2) by (simp add: mod_Suc_eq mod_add_left_eq)
  from Cons.IH [OF st(3) this, of ?x "out @ [ring ! rp]"]
  obtain ring' wp' rp' where
    f: "fold (echo_sample s) is (ring[wp := ?x], ?wp, (rp + 1) mod SLV_RING_SAMPLES, out @ [ring ! rp]) =
      (ring', wp', rp', (out @ [ring ! rp]) @ take (length is) ((tl (delay_line ring wp) @ [?x]) @ ?rest))"
    and ok: "ring_ok ring' wp'"
    and d: "delay_line ring' wp' = drop (length is) ((tl (delay_line ring wp) @ [?x]) @ ?rest)"
    unfolding st(2) by blast
  have hd: "delay_line ring wp = ring ! rp # tl (delay_line ring wp)" using st(1) by (simp only: Cons.prems(2))
  have "fold (echo_sample s) (i # is) (ring, wp, rp, out) =
      (ring', wp', rp', (out @ [ring ! rp]) @ take (length is) ((tl (delay_line ring wp) @ [?x]) @ ?rest))"
    using f by (simp add: echo_sample_def Let_def)
  then have "fold (echo_sample s) (i # is) (ring, wp, rp, out) =
      (ring', wp', rp', out @ take (length (i # is)) (delay_line ring wp @ ?x # ?rest))"
    by (subst hd) simp
  moreover have "delay_line ring' wp' = drop (length (i # is)) (delay_line ring wp @ ?x # ?rest)"
    using d by (subst hd) simp
  ultimately show ?case using ok by (intro exI [of _ ring'] exI [of _ wp'] exI [of _ rp']) (simp only: list.map)
qed

lemma build_echo_step:
  assumes "se_ring s = Some ring" "ring_ok ring (se_ring_wpos s)"
  shows "\<exists>ring' wp'. janus_slvoice_build_echo s n =
      (s\<lparr>se_ring := Some ring', se_ring_wpos := wp'\<rparr>,
       interleave (take n (delay_line ring (se_ring_wpos s) @ heard (se_decbuf s) (se_dec_samples s) n))) \<and>
    ring_ok ring' wp' \<and>
    delay_line ring' wp' = drop n (delay_line ring (se_ring_wpos s) @ heard (se_decbuf s) (se_dec_samples s) n)"
proof -
  have "se_ring_wpos s + SLV_RING_SAMPLES - SLV_DELAY_SAMPLES = se_ring_wpos s + (SLV_RING_SAMPLES - SLV_DELAY_SAMPLES)"
    using ring_bounds(2) by simp
  moreover from echo_fold [OF assms(2) refl, of s "[0..<n]" "[]"]
  obtain ring' wp' rp' where
    "fold (echo_sample s) [0..<n] (ring, se_ring_wpos s,
        (se_ring_wpos s + (SLV_RING_SAMPLES - SLV_DELAY_SAMPLES)) mod SLV_RING_SAMPLES, []) =
      (ring', wp', rp', take n (delay_line ring (se_ring_wpos s) @ heard (se_decbuf s) (se_dec_samples s) n))"
    and "ring_ok ring' wp'"
    and "delay_line ring' wp' = drop n (delay_line ring (se_ring_wpos s) @ heard (se_decbuf s) (se_dec_samples s) n)"
    unfolding heard_def length_upt append_Nil diff_zero by blast
  ultimately show ?thesis
    using assms(1) by (intro exI [of _ ring'] exI [of _ wp']) (simp add: janus_slvoice_build_echo_def Let_def)
qed

text \<open>The echo over several ticks: each brings its own decoded frame.\<close>

fun echo_run :: "janus_slvoice_session \<Rightarrow> (real list \<times> nat) list \<Rightarrow> real list" where
  "echo_run s [] = []"
| "echo_run s ((buf, k) # fs) =
     (case janus_slvoice_build_echo (s\<lparr>se_decbuf := buf, se_dec_samples := k\<rparr>) SLV_FRAME_SAMPLES of
        (s, out) \<Rightarrow> out @ echo_run s fs)"

lemma length_heard [simp]: "length (heard buf k n) = n"
  by (simp add: heard_def)

lemma interleave_append [simp]: "interleave (a @ b) = interleave a @ interleave b"
  by (simp add: interleave_def)

lemma take_add_append: "n \<le> length a \<Longrightarrow> take (n + m) (a @ ys) = take n a @ take m (drop n a @ ys)"
  by (subst take_add) simp

lemma echo_run_line:
  assumes "se_ring s = Some ring" "ring_ok ring (se_ring_wpos s)"
  shows "echo_run s fs = interleave (take (SLV_FRAME_SAMPLES * length fs)
    (delay_line ring (se_ring_wpos s) @ concat (map (\<lambda>(buf, k). heard buf k SLV_FRAME_SAMPLES) fs)))"
  using assms
proof (induction fs arbitrary: s ring)
  case Nil
  then show ?case by (simp add: interleave_def)
next
  case (Cons f fs)
  obtain buf k where f: "f = (buf, k)" by fastforce
  let ?s = "s\<lparr>se_decbuf := buf, se_dec_samples := k\<rparr>"
  let ?n = SLV_FRAME_SAMPLES
  let ?line = "delay_line ring (se_ring_wpos s)" and ?in = "heard buf k SLV_FRAME_SAMPLES"
  from build_echo_step [of ?s ring ?n] Cons.prems
  obtain ring' wp' where b: "janus_slvoice_build_echo ?s ?n =
      (?s\<lparr>se_ring := Some ring', se_ring_wpos := wp'\<rparr>, interleave (take ?n (?line @ ?in)))"
    and ok: "ring_ok ring' wp'" and d: "delay_line ring' wp' = drop ?n (?line @ ?in)" by auto
  have "echo_run (?s\<lparr>se_ring := Some ring', se_ring_wpos := wp'\<rparr>) fs =
      interleave (take (?n * length fs) (drop ?n (?line @ ?in) @ concat (map (\<lambda>(buf, k). heard buf k ?n) fs)))"
    using Cons.IH [of "?s\<lparr>se_ring := Some ring', se_ring_wpos := wp'\<rparr>" ring'] ok d by simp
  moreover have "take (?n + ?n * length fs) ((?line @ ?in) @ ys) =
      take ?n (?line @ ?in) @ take (?n * length fs) (drop ?n (?line @ ?in) @ ys)" for ys
    by (rule take_add_append) simp
  ultimately show ?case using b by (simp add: f)
qed

text \<open>
  Echo. Once the echo is started, on any participant, the frames it is sent are its own decoded frames, each padded with
  silence to 20 ms, delayed by exactly 24000 samples (500 ms) of silence.
\<close>

theorem echo_delay_exact:
  "echo_run (janus_slvoice_echo_start_locked dec_ok enc_ok seq ts ssrc s) fs =
     interleave (take (SLV_FRAME_SAMPLES * length fs)
       (replicate SLV_DELAY_SAMPLES (0, 0) @ concat (map (\<lambda>(buf, k). heard buf k SLV_FRAME_SAMPLES) fs)))"
proof -
  let ?s = "janus_slvoice_echo_start_locked dec_ok enc_ok seq ts ssrc s"
  have s: "se_ring ?s = Some ring_zero" "se_ring_wpos ?s = 0"
    by (simp_all add: janus_slvoice_echo_start_locked_def Let_def)
  have "ring_ok ring_zero 0" using ring_bounds by (simp add: ring_ok_def ring_zero_def)
  moreover have "delay_line ring_zero 0 = replicate SLV_DELAY_SAMPLES (0, 0)"
    using ring_bounds by (intro nth_equalityI) (simp_all add: delay_line_def ring_zero_def)
  ultimately show ?thesis using echo_run_line [of ?s ring_zero fs] s by simp
qed

subsection \<open>The outgoing stream\<close>

text \<open>A sequence of ticks, each with its frame and the verdict that it is silent: the packets sent, with the tick of each.\<close>

fun send_run :: "slv_opus \<Rightarrow> nat \<Rightarrow> (real list \<times> bool) list \<Rightarrow> janus_slvoice_session \<Rightarrow> (nat \<times> slv_rtp) list" where
  "send_run op t [] s = []"
| "send_run op t ((frame, silence) # fs) s =
     (case janus_slvoice_encode_relay op frame SLV_FRAME_SAMPLES silence s of
        (s, None) \<Rightarrow> send_run op (t + 1) fs s
      | (s, Some p) \<Rightarrow> (t, p) # send_run op (t + 1) fs s)"

lemma encode_relay_cases:
  assumes "janus_slvoice_encode_relay op frame n silence s = (s', r)"
  shows "se_out_ts s' = se_out_ts s + of_nat n" "se_out_ssrc s' = se_out_ssrc s"
    and "r = None \<Longrightarrow> se_out_seq s' = se_out_seq s"
    and "r = Some p \<Longrightarrow> se_out_seq s' = se_out_seq s + 1 \<and> rp_seq p = se_out_seq s \<and> rp_ts p = se_out_ts s \<and>
           rp_ssrc p = se_out_ssrc s \<and> \<not> silence"
  using assms by (auto simp: janus_slvoice_encode_relay_def Let_def split: option.splits prod.splits if_splits)

text \<open>
  C39 The outgoing RTP stream. Whatever is silent, suppressed by the codec or fails to encode, the packets that are sent carry
  consecutive sequence numbers, the time stamp of their own tick (960 units per tick, also over ticks that sent
  nothing) and one synchronisation source, with the 16- and 32-bit wrap-around of the counters.
\<close>

theorem rtp_stream_continuous:
  "list_all (\<lambda>(k, t, p). rp_seq p = se_out_seq s + of_nat k \<and>
      rp_ts p = se_out_ts s + of_nat (SLV_FRAME_SAMPLES * t) \<and> rp_ssrc p = se_out_ssrc s)
     (enumerate 0 (send_run op 0 fs s))"
proof -
  have "list_all (\<lambda>(k, t, p). rp_seq p = q + of_nat k \<and> rp_ts p = b + of_nat (SLV_FRAME_SAMPLES * t) \<and> rp_ssrc p = c)
     (enumerate k (send_run op t fs s))"
    if "se_out_seq s = q + of_nat k" "se_out_ts s = b + of_nat (SLV_FRAME_SAMPLES * t)" "se_out_ssrc s = c" for q b c k t s
    using that
  proof (induction fs arbitrary: s k t)
    case Nil
    then show ?case by simp
  next
    case (Cons f fs)
    obtain frame silence where f: "f = (frame, silence)" by fastforce
    obtain s' r where r: "janus_slvoice_encode_relay op frame SLV_FRAME_SAMPLES silence s = (s', r)" by fastforce
    note e = encode_relay_cases [OF r]
    have ts: "se_out_ts s' = b + of_nat (SLV_FRAME_SAMPLES * (t + 1))" "se_out_ssrc s' = c"
      using e(1,2) Cons.prems by (simp_all add: algebra_simps)
    show ?case
    proof (cases r)
      case None
      with e(3) Cons.prems have "se_out_seq s' = q + of_nat k" by simp
      from Cons.IH [OF this ts] None show ?thesis by (simp add: f r)
    next
      case (Some p)
      with e(4) Cons.prems have "se_out_seq s' = q + of_nat (k + 1)" by (simp add: algebra_simps)
      note later = Cons.IH [OF this ts]
      from Some e(4) Cons.prems
      have "rp_seq p = q + of_nat k" "rp_ts p = b + of_nat (SLV_FRAME_SAMPLES * t)" "rp_ssrc p = c" by simp_all
      with later Some show ?thesis by (simp add: f r)
    qed
  qed
  from this [of s "se_out_seq s" 0 "se_out_ts s" 0 "se_out_ssrc s"] show ?thesis by simp
qed

end
