(* ===== verification/Spatial.thy ===== *)
theory Spatial
  imports State Mix
begin

text \<open>
  The spatial stage of the room tick, \<^verbatim>\<open>src/src/janus_slvoice.c\<close>: reading the spatial settings, the geometry
  snapshot with the camera leash, observing the simulator's positions, the distance cull with hysteresis and the
  gains of one (listener, source) pair. Coordinates are centimetres, as stored.
\<close>

subsection \<open>Settings\<close>

definition janus_slvoice_spatial_from_json :: "json option \<Rightarrow> bool" where
  "janus_slvoice_spatial_from_json v \<longleftrightarrow> \<not> (v \<noteq> None \<and> v = Some (JBool False))"

definition janus_slvoice_spatial_from_cfg :: "string option \<Rightarrow> bool" where
  "janus_slvoice_spatial_from_cfg v =
     (case v of None \<Rightarrow> True | Some s \<Rightarrow> \<not> (strcaseeq s ''false'' \<or> strcaseeq s ''no''))"

text \<open>
  A configured number: the key is absent, or its text is not a number (the code then uses NAN, which no comparison
  of the validation accepts), or it is a number. The parsing of the text is \<^verbatim>\<open>g_ascii_strtod\<close>'s; an infinite value is
  not a number of the model either.
\<close>

datatype slv_cfg_double = Cfg_absent | Cfg_bad | Cfg_number real

definition cfg_or :: "real \<Rightarrow> slv_cfg_double \<Rightarrow> real option" where
  "cfg_or dflt c = (case c of Cfg_absent \<Rightarrow> Some dflt | Cfg_bad \<Rightarrow> None | Cfg_number v \<Rightarrow> Some v)"

definition cfg_positive :: "real option \<Rightarrow> bool" where
  "cfg_positive v \<longleftrightarrow> (case v of None \<Rightarrow> False | Some x \<Rightarrow> x > 0)"

definition janus_slvoice_load_spatial_settings ::
  "slv_cfg_double \<Rightarrow> slv_cfg_double \<Rightarrow> slv_cfg_double \<Rightarrow> slv_cfg_double \<Rightarrow> slv_cfg_double \<Rightarrow>
   slv_spatial_settings \<Rightarrow> slv_spatial_settings"
where
  "janus_slvoice_load_spatial_settings ref_c cutoff_c readd_c leash_c falloff_c sp =
     (let ref_m = cfg_or SLV_REF_DIST_M ref_c; cutoff_m = cfg_or SLV_CUTOFF_DIST_M cutoff_c;
          readd_m = cfg_or SLV_READD_DIST_M readd_c; leash_m = cfg_or SLV_LEASH_DIST_M leash_c;
          falloff = cfg_or SLV_FALLOFF_EXP_DEFAULT falloff_c
      in if ref_c = Cfg_absent \<and> cutoff_c = Cfg_absent \<and> readd_c = Cfg_absent \<and> leash_c = Cfg_absent \<and>
            falloff_c = Cfg_absent then sp
      else if \<not> cfg_positive ref_m then sp
      else if \<not> cfg_positive cutoff_m then sp
      else if \<not> cfg_positive readd_m then sp
      else if \<not> cfg_positive leash_m then sp
      else if \<not> cfg_positive falloff then sp
      else if \<not> the ref_m < the cutoff_m then sp
      else if \<not> the readd_m < the cutoff_m then sp
      else \<lparr>sp_leash_dist = the leash_m * SLV_GEOM_SCALE, sp_cutoff_dist = the cutoff_m * SLV_GEOM_SCALE,
            sp_readd_dist = the readd_m * SLV_GEOM_SCALE, sp_ref_dist = the ref_m * SLV_GEOM_SCALE,
            sp_falloff_exp = the falloff\<rparr>)"

text \<open>What the tick relies on.\<close>

definition spatial_ok :: "slv_spatial_settings \<Rightarrow> bool" where
  "spatial_ok sp \<longleftrightarrow>
     0 < sp_leash_dist sp \<and> 0 < sp_ref_dist sp \<and> 0 < sp_readd_dist sp \<and> 0 < sp_falloff_exp sp \<and>
     sp_ref_dist sp < sp_cutoff_dist sp \<and> sp_readd_dist sp < sp_cutoff_dist sp"

subsection \<open>Geometry of the tick\<close>

definition janus_slvoice_snapshot_geometry_locked ::
  "slv_spatial_settings \<Rightarrow> janus_slvoice_session \<Rightarrow> janus_slvoice_session"
where
  "janus_slvoice_snapshot_geometry_locked sp s =
     (let f = se_last_data_fields s;
          valid = (f AND SLV_FIELD_SP \<noteq> 0 \<and> f AND SLV_FIELD_LP \<noteq> 0);
          s = s\<lparr>se_snap_valid := valid\<rparr>
      in if \<not> valid then s
         else
           let s = s\<lparr>se_snap_sp := sl_sp (se_last_data s), se_snap_lp := sl_lp (se_last_data s),
                     se_snap_lh := (if f AND SLV_FIELD_LH \<noteq> 0 then sl_lh (se_last_data s) else slv_quat_identity)\<rparr>;
               off = slv_vec3_sub (se_snap_lp s) (se_snap_sp s);
               d = slv_vec3_mag off
           in if d > sp_leash_dist sp
              then s\<lparr>se_snap_lp := slv_vec3_madd (se_snap_sp s) (sp_leash_dist sp / d) off\<rparr>
              else s)"

definition janus_slvoice_pos_observe_locked ::
  "janus_slvoice_room \<Rightarrow> janus_slvoice_session \<Rightarrow> int \<Rightarrow> janus_slvoice_session \<times> slv_pos_room_stats"
where
  "janus_slvoice_pos_observe_locked room s now =
     (if \<not> pr_have_batch (rm_pos_stats room) then (s, rm_pos_stats room)
      else
        let sim = (case se_display s of None \<Rightarrow> None | Some d \<Rightarrow> slv_pos_store_find (rm_pos_store room) (Some d));
            v = sl_sp (se_last_data s)
        in case slv_pos_observe (se_pos s) (rm_pos_stats room) sim now
                  (se_last_data_fields s AND SLV_FIELD_SP \<noteq> 0) (se_last_data_fields s AND SLV_FIELD_LP \<noteq> 0)
                  (v_x v, v_y v, v_z v) of
             (ps, rs) \<Rightarrow> (s\<lparr>se_pos := ps\<rparr>, rs))"

subsection \<open>The distance cull\<close>

fun cull_find :: "slv_cull_hyst list \<Rightarrow> string \<Rightarrow> nat option" where
  "cull_find [] uuid = None"
| "cull_find (c # cs) uuid = (if ch_uuid c = uuid then Some 0 else map_option Suc (cull_find cs uuid))"

text \<open>The least recently seen slot, the first one of several.\<close>

definition cull_oldest :: "slv_cull_hyst list \<Rightarrow> nat" where
  "cull_oldest cs =
     fold (\<lambda>k best. if ch_seen_tick (cs ! k) < ch_seen_tick (cs ! best) then k else best) [1..<length cs] 0"

definition janus_slvoice_distance_cull_locked ::
  "slv_spatial_settings \<Rightarrow> slv_cull_hyst list \<Rightarrow> string \<Rightarrow> real \<Rightarrow> nat \<Rightarrow> slv_cull_hyst list \<times> bool"
where
  "janus_slvoice_distance_cull_locked sp cs uuid d now_tick =
     (case cull_find cs uuid of
        None \<Rightarrow>
          let culled = (d > sp_cutoff_dist sp);
              slot = \<lparr>ch_uuid = slv_ucpy uuid, ch_culled = culled, ch_seen_tick = now_tick\<rparr>
          in if length cs < SLV_MAX_MIX then (cs @ [slot], culled) else (cs[cull_oldest cs := slot], culled)
      | Some i \<Rightarrow>
          let culled = (if ch_culled (cs ! i) then \<not> d < sp_readd_dist sp else d > sp_cutoff_dist sp)
          in (cs[i := (cs ! i)\<lparr>ch_culled := culled, ch_seen_tick := now_tick\<rparr>], culled))"

subsection \<open>One pair\<close>

text \<open>The result: the listener's new table, whether the source is culled, and the two gains.\<close>

definition janus_slvoice_spatial_pair_locked ::
  "slv_spatial_settings \<Rightarrow> janus_slvoice_room \<Rightarrow> janus_slvoice_session \<Rightarrow> janus_slvoice_session \<Rightarrow> string \<Rightarrow> real \<Rightarrow>
   slv_cull_hyst list \<times> bool \<times> real \<times> real"
where
  "janus_slvoice_spatial_pair_locked sp room s src disp gain =
     (if \<not> rm_spatial_audio room then (se_cull_hyst s, False, gain, gain)
      else if \<not> se_snap_valid s \<or> \<not> se_snap_valid src then (se_cull_hyst s, False, gain, gain)
      else
        let dcull = slv_vec3_mag (slv_vec3_sub (se_snap_lp s) (se_snap_sp src)) in
        case janus_slvoice_distance_cull_locked sp (se_cull_hyst s) disp dcull (rm_tick_seq room) of
          (cs, culled) \<Rightarrow>
            if culled then (cs, True, gain, gain)
            else
              let gain = (if dcull > sp_ref_dist sp
                          then gain * ((sp_cutoff_dist sp - dcull) / (sp_cutoff_dist sp - sp_ref_dist sp)) powr sp_falloff_exp sp
                          else gain);
                  (pl, pr) = slv_pan (slv_azimuth (se_snap_lp s) (se_snap_lh s) (se_snap_sp src))
              in (cs, False, gain * pl, gain * pr))"

subsection \<open>The settings are usable whatever the configuration says\<close>

lemma load_spatial_ok: "spatial_ok (janus_slvoice_load_spatial_settings ref_c cutoff_c readd_c leash_c falloff_c slv_spatial)"
proof -
  have d: "spatial_ok slv_spatial"
    by (simp add: spatial_ok_def slv_spatial_def SLV_LEASH_DIST_M_def SLV_CUTOFF_DIST_M_def SLV_READD_DIST_M_def
        SLV_REF_DIST_M_def SLV_FALLOFF_EXP_DEFAULT_def SLV_GEOM_SCALE_def)
  show ?thesis
  proof (rule ccontr)
    assume n: "\<not> ?thesis"
    then obtain r c a l f where
      v: "cfg_or SLV_REF_DIST_M ref_c = Some r" "cfg_or SLV_CUTOFF_DIST_M cutoff_c = Some c"
        "cfg_or SLV_READD_DIST_M readd_c = Some a" "cfg_or SLV_LEASH_DIST_M leash_c = Some l"
        "cfg_or SLV_FALLOFF_EXP_DEFAULT falloff_c = Some f"
      and pos: "0 < r" "0 < c" "0 < a" "0 < l" "0 < f" "r < c" "a < c"
      using d by (auto simp: janus_slvoice_load_spatial_settings_def Let_def cfg_positive_def split: if_splits option.splits)
    with d have "spatial_ok (janus_slvoice_load_spatial_settings ref_c cutoff_c readd_c leash_c falloff_c slv_spatial)"
      by (simp add: janus_slvoice_load_spatial_settings_def Let_def cfg_positive_def spatial_ok_def SLV_GEOM_SCALE_def)
    with n show False by blast
  qed
qed

text \<open>The settings the process runs with.\<close>

definition spatial_settings ::
  "slv_cfg_double \<times> slv_cfg_double \<times> slv_cfg_double \<times> slv_cfg_double \<times> slv_cfg_double \<Rightarrow> slv_spatial_settings"
where
  "spatial_settings cfg =
     (case cfg of (ref_c, cutoff_c, readd_c, leash_c, falloff_c) \<Rightarrow>
        janus_slvoice_load_spatial_settings ref_c cutoff_c readd_c leash_c falloff_c slv_spatial)"

lemma spatial_settings_ok: "spatial_ok (spatial_settings cfg)"
  by (cases cfg) (simp add: spatial_settings_def load_spatial_ok)

subsection \<open>The camera leash\<close>

lemma mag_scaled: "slv_vec3_mag \<lparr>v_x = c * v_x v, v_y = c * v_y v, v_z = c * v_z v\<rparr> = \<bar>c\<bar> * slv_vec3_mag v"
proof -
  have "c * v_x v * (c * v_x v) + c * v_y v * (c * v_y v) + c * v_z v * (c * v_z v) =
      c\<^sup>2 * (v_x v * v_x v + v_y v * v_y v + v_z v * v_z v)"
    by (simp add: power2_eq_square algebra_simps)
  then show ?thesis by (simp add: slv_vec3_mag_def real_sqrt_mult)
qed

lemma sub_madd: "slv_vec3_sub (slv_vec3_madd a c b) a = \<lparr>v_x = c * v_x b, v_y = c * v_y b, v_z = c * v_z b\<rparr>"
  by (simp add: slv_vec3_sub_def slv_vec3_madd_def)

text \<open>
  The camera leash. With any configuration, after the snapshot of a tick the listening position a mix is made from is
  at most the leash away from the avatar: it is the claimed camera position when that is inside the leash, and
  otherwise a point exactly on the leash; the avatar position is the claimed one. Without both positions there is
  no usable snapshot.
\<close>

theorem camera_leash:
  "let sp = spatial_settings cfg; s' = janus_slvoice_snapshot_geometry_locked sp s;
       avatar = sl_sp (se_last_data s); camera = sl_lp (se_last_data s);
       out = slv_vec3_mag (slv_vec3_sub camera avatar) > sp_leash_dist sp
   in if se_last_data_fields s AND SLV_FIELD_SP = 0 \<or> se_last_data_fields s AND SLV_FIELD_LP = 0 then \<not> se_snap_valid s'
      else se_snap_valid s' \<and> se_snap_sp s' = avatar \<and>
        slv_vec3_mag (slv_vec3_sub (se_snap_lp s') avatar) \<le> sp_leash_dist sp \<and>
        (if out then slv_vec3_mag (slv_vec3_sub (se_snap_lp s') avatar) = sp_leash_dist sp else se_snap_lp s' = camera)"
proof -
  define sp where "sp = spatial_settings cfg"
  define off where "off = slv_vec3_sub (sl_lp (se_last_data s)) (sl_sp (se_last_data s))"
  have leash: "0 < sp_leash_dist sp" using spatial_settings_ok [of cfg] by (simp add: sp_def spatial_ok_def)
  have "slv_vec3_mag (slv_vec3_sub (slv_vec3_madd (sl_sp (se_last_data s)) (sp_leash_dist sp / slv_vec3_mag off) off)
        (sl_sp (se_last_data s))) = sp_leash_dist sp" if "slv_vec3_mag off > sp_leash_dist sp"
    unfolding sub_madd mag_scaled using that leash by simp
  with leash show ?thesis
    by (simp add: Let_def janus_slvoice_snapshot_geometry_locked_def sp_def [symmetric] off_def [symmetric])
qed

subsection \<open>The gains of a pair\<close>

text \<open>The part of its volume that a source at distance \<open>d\<close> keeps.\<close>

definition falloff :: "slv_spatial_settings \<Rightarrow> real \<Rightarrow> real" where
  "falloff sp d =
     (if d \<le> sp_ref_dist sp then 1
      else ((sp_cutoff_dist sp - d) / (sp_cutoff_dist sp - sp_ref_dist sp)) powr sp_falloff_exp sp)"

lemma falloff_bounds: "spatial_ok sp \<Longrightarrow> d \<le> sp_cutoff_dist sp \<Longrightarrow> 0 \<le> falloff sp d \<and> falloff sp d \<le> 1"
proof -
  assume ok: "spatial_ok sp" and d: "d \<le> sp_cutoff_dist sp"
  let ?t = "(sp_cutoff_dist sp - d) / (sp_cutoff_dist sp - sp_ref_dist sp)"
  have "?t powr sp_falloff_exp sp \<le> 1" if "\<not> d \<le> sp_ref_dist sp"
  proof -
    have "0 \<le> ?t" "?t \<le> 1" using ok d that by (simp_all add: spatial_ok_def divide_le_eq_1)
    then have "?t powr sp_falloff_exp sp \<le> 1 powr sp_falloff_exp sp"
      using ok by (intro powr_mono2) (simp_all add: spatial_ok_def)
    then show ?thesis by simp
  qed
  then show ?thesis by (simp add: falloff_def)
qed

lemma cull_not_culled:
  assumes "spatial_ok sp" "janus_slvoice_distance_cull_locked sp cs u d t = (cs', False)"
  shows "d \<le> sp_cutoff_dist sp"
  using assms by (auto simp: janus_slvoice_distance_cull_locked_def spatial_ok_def Let_def split: option.splits if_splits)

text \<open>
  Distance and direction never amplify. With any configuration: in a room that is not spatial, and for a pair without
  geometry on both sides, the gain is the flat one and the cull table is not touched. Otherwise the cull
  decides by the distance between the leashed listening position and the source; a source that is not culled is within
  the cutoff distance, and its two gains carry exactly the power of the
  flat gain times the falloff, which lies in [0, 1] and is 1 inside the reference distance.
\<close>

theorem spatial_pair_gains:
  "let sp = spatial_settings cfg; d = slv_vec3_mag (slv_vec3_sub (se_snap_lp s) (se_snap_sp src)) in
   case janus_slvoice_spatial_pair_locked sp room s src disp gain of (cs, culled, gL, gR) \<Rightarrow>
     if rm_spatial_audio room \<and> se_snap_valid s \<and> se_snap_valid src
     then (cs, culled) = janus_slvoice_distance_cull_locked sp (se_cull_hyst s) disp d (rm_tick_seq room) \<and>
       (if culled then True
        else d \<le> sp_cutoff_dist sp \<and> gL\<^sup>2 + gR\<^sup>2 = (gain * falloff sp d)\<^sup>2 \<and> 0 \<le> falloff sp d \<and> falloff sp d \<le> 1 \<and>
          (if d \<le> sp_ref_dist sp then falloff sp d = 1 else True))
     else \<not> culled \<and> gL = gain \<and> gR = gain \<and> cs = se_cull_hyst s"
proof -
  define sp where "sp = spatial_settings cfg"
  define d where "d = slv_vec3_mag (slv_vec3_sub (se_snap_lp s) (se_snap_sp src))"
  obtain pl pr where pan: "slv_pan (slv_azimuth (se_snap_lp s) (se_snap_lh s) (se_snap_sp src)) = (pl, pr)" by fastforce
  then have power: "pl\<^sup>2 + pr\<^sup>2 = 1" using pan_gains by blast
  have split: "(g * pl)\<^sup>2 + (g * pr)\<^sup>2 = g\<^sup>2" for g
  proof -
    have "(g * pl)\<^sup>2 + (g * pr)\<^sup>2 = g\<^sup>2 * (pl\<^sup>2 + pr\<^sup>2)" by (simp add: power_mult_distrib distrib_left)
    then show ?thesis by (simp add: power)
  qed
  have ok: "spatial_ok sp" by (simp add: sp_def spatial_settings_ok)
  obtain cs culled where cull: "janus_slvoice_distance_cull_locked sp (se_cull_hyst s) disp d (rm_tick_seq room) = (cs, culled)"
    by fastforce
  have "d \<le> sp_cutoff_dist sp" if "\<not> culled" using cull_not_culled [OF ok] cull that by simp
  then have f: "0 \<le> falloff sp d \<and> falloff sp d \<le> 1 \<and> d \<le> sp_cutoff_dist sp" if "\<not> culled"
    using falloff_bounds [OF ok] that by simp
  show ?thesis
    unfolding Let_def sp_def [symmetric] d_def [symmetric]
    using f by (auto simp: janus_slvoice_spatial_pair_locked_def d_def [symmetric] cull pan Let_def split falloff_def)
qed

subsection \<open>Hysteresis\<close>

definition cull_lookup :: "slv_cull_hyst list \<Rightarrow> string \<Rightarrow> bool option" where
  "cull_lookup cs u = map_option (\<lambda>i. ch_culled (cs ! i)) (cull_find cs u)"

text \<open>The latch of one pair: it closes beyond the cutoff and opens again only inside the re-add distance.\<close>

definition next_latch :: "slv_spatial_settings \<Rightarrow> bool option \<Rightarrow> real \<Rightarrow> bool" where
  "next_latch sp prev d = (if prev = Some True then \<not> d < sp_readd_dist sp else d > sp_cutoff_dist sp)"

definition cull_wf :: "slv_cull_hyst list \<Rightarrow> bool" where
  "cull_wf cs \<longleftrightarrow> distinct (map ch_uuid cs) \<and> length cs \<le> SLV_MAX_MIX"

lemma cull_find_Some: "cull_find cs u = Some i \<Longrightarrow> i < length cs \<and> ch_uuid (cs ! i) = u"
  by (induction cs arbitrary: i) (auto split: if_splits)

lemma cull_find_None: "cull_find cs u = None \<longleftrightarrow> u \<notin> ch_uuid ` set cs"
  by (induction cs) auto

lemma cull_find_append: "cull_find (cs @ [c]) u =
    (case cull_find cs u of Some i \<Rightarrow> Some i | None \<Rightarrow> if ch_uuid c = u then Some (length cs) else None)"
  by (induction cs) (auto split: option.split)

lemma cull_find_update: "i < length cs \<Longrightarrow> ch_uuid c = ch_uuid (cs ! i) \<Longrightarrow> cull_find (cs[i := c]) u = cull_find cs u"
  by (induction cs arbitrary: i) (auto split: nat.splits simp: nth_Cons')

lemma cull_step:
  assumes "cull_wf cs" "length u < SLV_UUID_LEN" "u \<in> ch_uuid ` set cs \<or> length cs < SLV_MAX_MIX"
    and "janus_slvoice_distance_cull_locked sp cs u d t = (cs', v)"
  shows "v = next_latch sp (cull_lookup cs u) d" "cull_lookup cs' = (cull_lookup cs)(u := Some v)"
    and "cull_wf cs'" "ch_uuid ` set cs' = insert u (ch_uuid ` set cs)" "length cs \<le> length cs'"
proof -
  have "v = next_latch sp (cull_lookup cs u) d \<and> cull_lookup cs' = (cull_lookup cs)(u := Some v) \<and>
    cull_wf cs' \<and> ch_uuid ` set cs' = insert u (ch_uuid ` set cs) \<and> length cs \<le> length cs'"
  proof (cases "cull_find cs u")
    case None
    then have u: "u \<notin> ch_uuid ` set cs" by (simp add: cull_find_None)
    with assms(3) have "length cs < SLV_MAX_MIX" by blast
    with None assms u show ?thesis
      by (auto simp: janus_slvoice_distance_cull_locked_def Let_def cull_lookup_def next_latch_def cull_wf_def
          cull_find_append fun_eq_iff nth_append split: option.splits dest: cull_find_Some)
  next
    case (Some i)
    note i = cull_find_Some [OF Some]
    let ?c = "(cs ! i)\<lparr>ch_culled := v, ch_seen_tick := t\<rparr>"
    have v: "v = next_latch sp (cull_lookup cs u) d" and cs': "cs' = cs[i := ?c]"
      using assms(4) Some by (auto simp: janus_slvoice_distance_cull_locked_def Let_def cull_lookup_def next_latch_def)
    have "map ch_uuid cs' = map ch_uuid cs" using i by (simp add: cs' map_update list_update_same_conv)
    then have wf: "cull_wf cs'" and im: "ch_uuid ` set cs' = ch_uuid ` set cs"
      using assms(1) unfolding cull_wf_def cs' by (simp, metis list.set_map)
    have "cull_find cs' w = cull_find cs w" for w using i by (simp add: cs' cull_find_update)
    then have "cull_lookup cs' w = ((cull_lookup cs)(u := Some v)) w" for w
      using i Some
      by (cases "w = u"; cases "cull_find cs w") (auto simp: cull_lookup_def cs' nth_list_update dest: cull_find_Some)
    with v wf im i cs' show ?thesis by (auto simp: fun_eq_iff)
  qed
  then show "v = next_latch sp (cull_lookup cs u) d" "cull_lookup cs' = (cull_lookup cs)(u := Some v)"
    "cull_wf cs'" "ch_uuid ` set cs' = insert u (ch_uuid ` set cs)" "length cs \<le> length cs'" by blast+
qed

text \<open>A listener's evaluations in order: source, distance, tick.\<close>

definition cull_run :: "slv_spatial_settings \<Rightarrow> (string \<times> real \<times> nat) list \<Rightarrow> slv_cull_hyst list" where
  "cull_run sp calls = fold (\<lambda>(u, d, t) cs. fst (janus_slvoice_distance_cull_locked sp cs u d t)) calls []"

definition latch_of :: "slv_spatial_settings \<Rightarrow> string \<Rightarrow> (string \<times> real \<times> nat) list \<Rightarrow> bool option" where
  "latch_of sp u calls = fold (\<lambda>(w, d, t) st. if w = u then Some (next_latch sp st d) else st) calls None"

text \<open>
  C38 The distance cull. While a listener has seen at most 110 sources, whether a source is culled is decided by the
  distances of that source alone, in order: it is culled once it is beyond the cutoff and audible
  again only inside the re-add distance, whatever the other sources did in between; the table never
  outgrows its 110 slots.
\<close>

theorem cull_history_exact:
  assumes "length (remdups (map fst calls)) \<le> SLV_MAX_MIX" and "list_all (\<lambda>(u, d, t). length u < SLV_UUID_LEN) calls"
  shows "cull_lookup (cull_run sp calls) u = latch_of sp u calls \<and> length (cull_run sp calls) \<le> SLV_MAX_MIX"
proof -
  have "card (fst ` set calls) \<le> SLV_MAX_MIX" using assms(1) by (simp add: length_remdups_card_conv)
  then have "cull_wf (cull_run sp calls) \<and> ch_uuid ` set (cull_run sp calls) = fst ` set calls \<and>
      (\<forall>u. cull_lookup (cull_run sp calls) u = latch_of sp u calls)"
    using assms(2)
  proof (induction calls rule: rev_induct)
    case Nil
    then show ?case by (simp add: cull_run_def latch_of_def cull_wf_def cull_lookup_def)
  next
    case (snoc c calls)
    obtain w d t where c: "c = (w, d, t)" by (metis prod_cases3)
    have "card (fst ` set calls) \<le> card (fst ` set (calls @ [c]))" by (intro card_mono) auto
    with snoc have IH: "cull_wf (cull_run sp calls)" "ch_uuid ` set (cull_run sp calls) = fst ` set calls"
      "\<And>u. cull_lookup (cull_run sp calls) u = latch_of sp u calls" by auto
    obtain cs' v where r: "janus_slvoice_distance_cull_locked sp (cull_run sp calls) w d t = (cs', v)" by fastforce
    have len: "length (cull_run sp calls) = card (fst ` set calls)"
      using IH(1,2) by (metis cull_wf_def distinct_card length_map list.set_map)
    have room: "w \<in> ch_uuid ` set (cull_run sp calls) \<or> length (cull_run sp calls) < SLV_MAX_MIX"
    proof (rule disjCI)
      assume "\<not> length (cull_run sp calls) < SLV_MAX_MIX"
      then have "card (insert w (fst ` set calls)) \<le> card (fst ` set calls)"
        using snoc.prems(1) len by (simp add: c)
      then show "w \<in> ch_uuid ` set (cull_run sp calls)"
        unfolding IH(2) by (metis List.finite_set card_insert_disjoint finite_imageI not_less_eq_eq order.refl)
    qed
    have "length w < SLV_UUID_LEN" using snoc.prems(2) by (simp add: c)
    note st = cull_step [OF IH(1) this room r]
    have run: "cull_run sp (calls @ [c]) = cs'" using r by (simp add: cull_run_def c)
    have latch: "latch_of sp u (calls @ [c]) = (if w = u then Some (next_latch sp (latch_of sp u calls) d) else latch_of sp u calls)" for u
      by (simp add: c latch_of_def)
    have "fst ` set (calls @ [c]) = insert w (fst ` set calls)" by (auto simp: c)
    with st IH(2,3) show ?case unfolding run latch by auto
  qed
  then show ?thesis by (simp add: cull_wf_def)
qed

text \<open>A source walks away and stops between the two distances: it stays culled, one that came that far is not.\<close>

theorem cull_history_exact_witness:
  "cull_lookup (cull_run slv_spatial [(''a'', 7000, 3), (''b'', 5900, 3), (''a'', 5900, 4), (''b'', 5900, 4)]) ''a'' = Some True \<and>
   cull_lookup (cull_run slv_spatial [(''a'', 7000, 3), (''b'', 5900, 3), (''a'', 5900, 4), (''b'', 5900, 4)]) ''b'' = Some False"
  using cull_history_exact [of "[(''a'', 7000, 3), (''b'', 5900, 3), (''a'', 5900, 4), (''b'', 5900, 4)]" slv_spatial "''a''"]
    cull_history_exact [of "[(''a'', 7000, 3), (''b'', 5900, 3), (''a'', 5900, 4), (''b'', 5900, 4)]" slv_spatial "''b''"]
  by (simp add: SLV_MAX_MIX_def SLV_UUID_LEN_def latch_of_def next_latch_def slv_spatial_def SLV_CUTOFF_DIST_M_def
      SLV_READD_DIST_M_def SLV_GEOM_SCALE_def)

end
