(* ===== verification/Authority.thy ===== *)
theory Authority
  imports State
begin

text \<open>
  The visibility authority of a room, \<^verbatim>\<open>src/src/janus_slvoice.c\<close>: the rule (lines 793-824), a
  record's copy of its columns, adoption, the check of a stamped batch and the part of a heartbeat that concerns
  one room (lines 2403-2800). Everything here is a function of one room, the settings and the clock.
\<close>

subsection \<open>The rule\<close>

definition janus_slvoice_vis_stale_us :: "slv_knobs \<Rightarrow> int" where
  "janus_slvoice_vis_stale_us k = int (kn_stale_ms k) * 1000"

definition janus_slvoice_vis_enforced :: "slv_knobs \<Rightarrow> janus_slvoice_room \<Rightarrow> bool" where
  "janus_slvoice_vis_enforced k r \<longleftrightarrow> kn_fail_closed k \<and> rm_vis_declared r"

definition janus_slvoice_vis_row_locked :: "slv_knobs \<Rightarrow> janus_slvoice_room \<Rightarrow> string option \<Rightarrow> int \<Rightarrow> nat" where
  "janus_slvoice_vis_row_locked k room display now =
     (case (case display of None \<Rightarrow> None | Some d \<Rightarrow> map_of (rm_vis_records room) d) of
        None \<Rightarrow> slv_vis_row False 0 (rm_vis_auth_epoch room) 0 False now (janus_slvoice_vis_stale_us k)
      | Some r \<Rightarrow> slv_vis_row True (vr_epoch r) (rm_vis_auth_epoch room) (vr_confirmed_us r) (vr_stale r) now
                   (janus_slvoice_vis_stale_us k))"

definition janus_slvoice_vis_ok_locked :: "slv_knobs \<Rightarrow> janus_slvoice_room \<Rightarrow> string option \<Rightarrow> int \<Rightarrow> bool" where
  "janus_slvoice_vis_ok_locked k room display now \<longleftrightarrow> janus_slvoice_vis_row_locked k room display now = 4"

definition janus_slvoice_vis_pair_visible_locked ::
  "slv_knobs \<Rightarrow> janus_slvoice_room \<Rightarrow> string option \<Rightarrow> string option \<Rightarrow> int \<Rightarrow> bool"
where
  "janus_slvoice_vis_pair_visible_locked k room listener source now \<longleftrightarrow>
     janus_slvoice_vis_ok_locked k room listener now \<and> janus_slvoice_vis_ok_locked k room source now"

subsection \<open>Columns of a record\<close>

definition janus_slvoice_vis_find_entry :: "slv_vis_entry list \<Rightarrow> string \<Rightarrow> slv_vis_entry option" where
  "janus_slvoice_vis_find_entry entries listener = find (\<lambda>e. e_listener e = listener) entries"

definition janus_slvoice_vis_mirror_apply :: "string list \<Rightarrow> slv_vis_op \<Rightarrow> slv_vis_entry \<Rightarrow> string list" where
  "janus_slvoice_vis_mirror_apply col op e =
     fold (\<lambda>s c. if op = SLV_VIS_OP_REMOVE then gset_remove s c else if s \<notin> set c then gset_add s c else c)
       (e_excl e) (if op = SLV_VIS_OP_REPLACE then [] else col)"

definition mirror_opt :: "string list \<Rightarrow> slv_vis_op \<Rightarrow> slv_vis_entry option \<Rightarrow> string list" where
  "mirror_opt col op e = (case e of None \<Rightarrow> col | Some e \<Rightarrow> janus_slvoice_vis_mirror_apply col op e)"

subsection \<open>Adoption\<close>

definition janus_slvoice_vis_adopt_locked ::
  "slv_knobs \<Rightarrow> u64 \<Rightarrow> int \<Rightarrow> janus_slvoice_room \<Rightarrow> slv_vis_epoch_verdict \<times> janus_slvoice_room"
where
  "janus_slvoice_vis_adopt_locked k incoming now room =
     (let v = slv_vis_epoch_decide (rm_vis_auth_epoch room) (rm_vis_auth_last_us room) now
                (janus_slvoice_vis_stale_us k) incoming in
      if v = SLV_VIS_EPOCH_STALE then
        (v, room\<lparr>rm_vis_stale_epoch_rejects := rm_vis_stale_epoch_rejects room + 1\<rparr>)
      else (let room = (if v \<noteq> SLV_VIS_EPOCH_EQUAL
                        then room\<lparr>rm_vis_records := [], rm_vis_auth_epoch := incoming, rm_vis_policy_gen := 0\<rparr>
                        else room)
            in (v, room\<lparr>rm_vis_auth_last_us := now\<rparr>)))"

subsection \<open>The check of a stamped batch\<close>

record janus_slvoice_vis_outcome =
  vo_verdict :: slv_vis_epoch_verdict
  vo_stale_generation :: bool
  vo_refused :: bool
  vo_skip :: "string list"
  vo_stale :: "string list"
  vo_unarmed :: "string list"

definition vis_outcome_zero :: janus_slvoice_vis_outcome where
  "vis_outcome_zero =
     \<lparr>vo_verdict = SLV_VIS_EPOCH_EQUAL, vo_stale_generation = False, vo_refused = False,
      vo_skip = [], vo_stale = [], vo_unarmed = []\<rparr>"

definition vis_base_of :: "slv_visbatch \<Rightarrow> string \<Rightarrow> int" where
  "vis_base_of vb l = (case find (\<lambda>b. bs_listener b = l) (vb_base vb) of None \<Rightarrow> -1 | Some b \<Rightarrow> bs_gen b)"

text \<open>A replace that names a listener: its record, new or held, is set from the batch.\<close>

definition vis_arm_record ::
  "slv_visbatch \<Rightarrow> u64 \<Rightarrow> u32 \<Rightarrow> int \<Rightarrow> string \<Rightarrow> slv_vis_record \<Rightarrow> slv_vis_record"
where
  "vis_arm_record vb epoch gen now l r =
     r\<lparr>vr_epoch := epoch, vr_listener_gen := gen, vr_confirmed_us := now, vr_stale := False,
       vr_excl := mirror_opt (vr_excl r) SLV_VIS_OP_REPLACE (janus_slvoice_vis_find_entry (vb_entries vb) l),
       vr_mute := mirror_opt (vr_mute r) SLV_VIS_OP_REPLACE (janus_slvoice_vis_find_entry (vb_mute_entries vb) l)\<rparr>"

definition vis_advance_record ::
  "slv_visbatch \<Rightarrow> u32 \<Rightarrow> int \<Rightarrow> string \<Rightarrow> slv_vis_record \<Rightarrow> slv_vis_record"
where
  "vis_advance_record vb gen now l r =
     r\<lparr>vr_listener_gen := gen, vr_confirmed_us := now,
       vr_excl := mirror_opt (vr_excl r) (vb_op vb) (janus_slvoice_vis_find_entry (vb_entries vb) l),
       vr_mute := mirror_opt (vr_mute r) (vb_op vb) (janus_slvoice_vis_find_entry (vb_mute_entries vb) l)\<rparr>"

text \<open>One listener the batch names.\<close>

definition vis_batch_listener ::
  "bool \<Rightarrow> slv_visbatch \<Rightarrow> u32 \<Rightarrow> int \<Rightarrow> string \<Rightarrow> janus_slvoice_room \<times> janus_slvoice_vis_outcome \<Rightarrow>
   janus_slvoice_room \<times> janus_slvoice_vis_outcome"
where
  "vis_batch_listener enforced vb gen now l st =
     (case st of (room, out) \<Rightarrow>
      let r = map_of (rm_vis_records room) l in
      if vb_op vb = SLV_VIS_OP_REPLACE then
        (if r = None \<and> length (rm_vis_records room) \<ge> SLV_VIS_MAX_RECORDS then
           (room\<lparr>rm_vis_records_full := rm_vis_records_full room + 1\<rparr>, out\<lparr>vo_unarmed := vo_unarmed out @ [l]\<rparr>)
         else
           (let rec = (case r of None \<Rightarrow> slv_vis_record_zero | Some rec \<Rightarrow> rec);
                rec = vis_arm_record vb (rm_vis_auth_epoch room) gen now l rec
            in (room\<lparr>rm_vis_records := AList.update l rec (rm_vis_records room)\<rparr>, out)))
      else
        (let base = vis_base_of vb l in
         case r of
           Some rec \<Rightarrow>
             if vr_epoch rec = rm_vis_auth_epoch room \<and> base \<ge> 0 \<and> of_int base = vr_listener_gen rec then
               (room\<lparr>rm_vis_records := AList.update l (vis_advance_record vb gen now l rec) (rm_vis_records room)\<rparr>, out)
             else
               (room\<lparr>rm_vis_records := AList.update l (rec\<lparr>vr_stale := True\<rparr>) (rm_vis_records room)\<rparr>,
                out\<lparr>vo_stale := vo_stale out @ [l], vo_skip := (if enforced then gset_add l (vo_skip out) else vo_skip out)\<rparr>)
         | None \<Rightarrow>
             (room, out\<lparr>vo_stale := vo_stale out @ [l],
                        vo_skip := (if enforced then gset_add l (vo_skip out) else vo_skip out)\<rparr>)))"

definition vis_named :: "slv_visbatch \<Rightarrow> string list" where
  "vis_named vb = gset_of (map e_listener (vb_entries vb) @ map e_listener (vb_mute_entries vb))"

definition janus_slvoice_vis_batch_authority_locked ::
  "slv_knobs \<Rightarrow> slv_visbatch \<Rightarrow> int \<Rightarrow> janus_slvoice_room \<Rightarrow> janus_slvoice_room \<times> janus_slvoice_vis_outcome"
where
  "janus_slvoice_vis_batch_authority_locked k vb now room =
     (if \<not> vb_has_epoch vb then (room, vis_outcome_zero)
      else (let enforced = janus_slvoice_vis_enforced k room;
                (v, room) = janus_slvoice_vis_adopt_locked k (vb_room_epoch vb) now room;
                out = vis_outcome_zero\<lparr>vo_verdict := v\<rparr> in
        if v = SLV_VIS_EPOCH_STALE then (room, out\<lparr>vo_refused := enforced\<rparr>)
        else (let gen = of_int (vb_policy_generation vb) in
          if gen \<le> rm_vis_policy_gen room then
            (room\<lparr>rm_vis_stale_generation_rejects := rm_vis_stale_generation_rejects room + 1\<rparr>,
             out\<lparr>vo_stale_generation := True, vo_refused := enforced\<rparr>)
          else fold (vis_batch_listener enforced vb gen now) (vis_named vb)
                 (room\<lparr>rm_vis_policy_gen := gen\<rparr>, out))))"

subsection \<open>A heartbeat's room entry\<close>

definition vis_heartbeat_listener ::
  "int \<Rightarrow> string \<times> json \<Rightarrow> janus_slvoice_room \<times> string list \<times> string list \<Rightarrow>
   janus_slvoice_room \<times> string list \<times> string list"
where
  "vis_heartbeat_listener now lg st =
     (case (lg, st) of ((l, g), (room, stale, unarmed)) \<Rightarrow>
      case map_of (rm_vis_records room) l of
        None \<Rightarrow> (room, stale, unarmed @ [l])
      | Some r \<Rightarrow>
          if vr_epoch r \<noteq> rm_vis_auth_epoch room then (room, stale, unarmed @ [l])
          else if json_is_integer (Some g) \<and> json_integer_value (Some g) = int (unat (vr_listener_gen r)) then
            (room\<lparr>rm_vis_records := AList.update l (r\<lparr>vr_confirmed_us := now\<rparr>) (rm_vis_records room)\<rparr>,
             if vr_stale r then stale @ [l] else stale, unarmed)
          else
            (room\<lparr>rm_vis_records := AList.update l (r\<lparr>vr_stale := True\<rparr>) (rm_vis_records room)\<rparr>,
             stale @ [l], unarmed))"

definition janus_slvoice_vis_heartbeat_listeners_locked ::
  "json option \<Rightarrow> int \<Rightarrow> janus_slvoice_room \<Rightarrow> janus_slvoice_room \<times> string list \<times> string list"
where
  "janus_slvoice_vis_heartbeat_listeners_locked listeners now room =
     (let (room, stale, unarmed) = fold (vis_heartbeat_listener now) (json_members listeners) (room, [], []) in
      (room\<lparr>rm_vis_records := filter (\<lambda>(l, r). l \<in> fst ` set (json_members listeners)) (rm_vis_records room)\<rparr>,
       stale, unarmed))"

text \<open>The graceful stop: every record stale at once and no sign of life.\<close>

definition vis_authority_stopping :: "janus_slvoice_room \<Rightarrow> janus_slvoice_room" where
  "vis_authority_stopping room =
     room\<lparr>rm_vis_records := map (\<lambda>(l, r). (l, r\<lparr>vr_stale := True\<rparr>)) (rm_vis_records room),
          rm_vis_auth_last_us := 0\<rparr>"

definition vis_entry_outdated :: "json \<Rightarrow> janus_slvoice_room \<Rightarrow> bool" where
  "vis_entry_outdated rval room \<longleftrightarrow>
     (let jas_of = (if json_is_object (Some rval) then json_object_get (Some rval) ''as_of'' else None) in
      json_is_integer jas_of \<and> json_integer_value jas_of \<ge> 0 \<and>
      (of_int (json_integer_value jas_of) :: u64) < ucast (rm_vis_policy_gen room))"

text \<open>One entry of \<^verbatim>\<open>rooms\<close> for a room that exists, with \<^verbatim>\<open>room->mutex\<close> held: the room after, the
  status of the reply and its two lists.\<close>

definition heartbeat_room ::
  "slv_knobs \<Rightarrow> u64 \<Rightarrow> bool \<Rightarrow> bool \<Rightarrow> int \<Rightarrow> json \<Rightarrow> janus_slvoice_room \<Rightarrow>
   janus_slvoice_room \<times> string \<times> string list \<times> string list"
where
  "heartbeat_room k epoch feed_stale stopping now rval room =
     (if feed_stale \<and> \<not> stopping then
        (room\<lparr>rm_vis_heartbeats_feed_stale := rm_vis_heartbeats_feed_stale room + 1\<rparr>, ''feed_stale'', [], [])
      else (let (v, room) = janus_slvoice_vis_adopt_locked k epoch now room;
                status = (if rm_vis_declared room then ''ok'' else ''undeclared_room'') in
        if v = SLV_VIS_EPOCH_STALE then (room, ''stale_epoch'', [], [])
        else (let room = room\<lparr>rm_vis_heartbeats := rm_vis_heartbeats room + 1\<rparr> in
          if stopping then (vis_authority_stopping room, status, [], [])
          else if vis_entry_outdated rval room then
            (room\<lparr>rm_vis_heartbeats_outdated := rm_vis_heartbeats_outdated room + 1\<rparr>, status, [], [])
          else (let listeners = (if json_is_object (Some rval) then json_object_get (Some rval) ''listeners'' else None);
                    (room, stale, unarmed) = janus_slvoice_vis_heartbeat_listeners_locked listeners now room
                in (room, status, stale, unarmed)))))"

subsection \<open>Records\<close>

text \<open>Every record of a room satisfies \<open>Q\<close>, and no listener has two.\<close>

definition recs_all :: "(string \<Rightarrow> slv_vis_record \<Rightarrow> bool) \<Rightarrow> janus_slvoice_room \<Rightarrow> bool" where
  "recs_all Q room \<longleftrightarrow> distinct (map fst (rm_vis_records room)) \<and>
     (\<forall>l r. map_of (rm_vis_records room) l = Some r \<longrightarrow> Q l r)"

lemma length_alist_update:
  "length (AList.update k v al) = (if k \<in> fst ` set al then length al else Suc (length al))"
  by (induction al) auto

lemma length_update_Some: "map_of al k = Some v \<Longrightarrow> length (AList.update k x al) = length al"
  by (induction al) (auto split: if_splits)

lemma length_update_le: "length (AList.update k x al) \<le> Suc (length al)"
  by (induction al) auto

lemma recs_all_update:
  "recs_all Q room \<Longrightarrow> Q l rec \<Longrightarrow> recs_all Q (room\<lparr>rm_vis_records := AList.update l rec (rm_vis_records room)\<rparr>)"
  by (auto simp: recs_all_def update_conv' distinct_update split: if_splits)

lemma map_of_filter_keys:
  "map_of (filter (\<lambda>(l, r). l \<in> S) al) l = (if l \<in> S then map_of al l else None)"
  by (induction al) auto

lemma map_of_map_vals: "map_of (map (\<lambda>(l, r). (l, f r)) al) l = map_option f (map_of al l)"
  by (induction al) auto

lemma recs_all_filter:
  "recs_all Q room \<Longrightarrow> recs_all Q (room\<lparr>rm_vis_records := filter (\<lambda>(l, r). l \<in> S) (rm_vis_records room)\<rparr>)"
  by (auto simp: recs_all_def map_of_filter_keys distinct_map_filter split: if_splits)

lemma recs_all_cong:
  "rm_vis_records room = rm_vis_records room' \<Longrightarrow> recs_all Q room = recs_all Q room'"
  by (simp add: recs_all_def)

lemma recs_all_empty [simp]: "rm_vis_records room = [] \<Longrightarrow> recs_all Q room"
  by (simp add: recs_all_def)

lemma recs_allD: "recs_all Q room \<Longrightarrow> map_of (rm_vis_records room) l = Some r \<Longrightarrow> Q l r"
  by (simp add: recs_all_def)

lemma pred_option_recs: "recs_all Q room \<Longrightarrow> pred_option (Q l) (map_of (rm_vis_records room) l)"
  by (auto simp: recs_all_def pred_option_def)

lemma recs_all_mono: "recs_all Q room \<Longrightarrow> (\<And>l r. Q l r \<Longrightarrow> Q' l r) \<Longrightarrow> recs_all Q' room"
  by (auto simp: recs_all_def)

text \<open>The columns after a batch entry: the op on sets, and a set.\<close>

lemma mirror_apply_set:
  "set (janus_slvoice_vis_mirror_apply col op e) = op_apply op (set (e_excl e)) (set col)"
  "distinct col \<Longrightarrow> distinct (janus_slvoice_vis_mirror_apply col op e)"
proof -
  have add: "(\<lambda>s c. if s \<notin> set c then gset_add s c else c) = (gset_add :: string \<Rightarrow> string list \<Rightarrow> string list)"
    by (auto simp: gset_add_def fun_eq_iff)
  show "set (janus_slvoice_vis_mirror_apply col op e) = op_apply op (set (e_excl e)) (set col)"
    by (cases op) (auto simp: janus_slvoice_vis_mirror_apply_def add)
  show "distinct col \<Longrightarrow> distinct (janus_slvoice_vis_mirror_apply col op e)"
    by (cases op) (auto simp: janus_slvoice_vis_mirror_apply_def add)
qed

definition op_opt :: "slv_vis_op \<Rightarrow> slv_vis_entry option \<Rightarrow> string set \<Rightarrow> string set" where
  "op_opt op e C = (case e of None \<Rightarrow> C | Some e \<Rightarrow> op_apply op (set (e_excl e)) C)"

lemma mirror_opt_set [simp]:
  "set (mirror_opt col op e) = op_opt op e (set col)"
  "distinct col \<Longrightarrow> distinct (mirror_opt col op e)"
  by (auto simp: mirror_opt_def op_opt_def mirror_apply_set split: option.split)

subsection \<open>What one listener of a batch does to the records\<close>

definition batch_record ::
  "slv_visbatch \<Rightarrow> u64 \<Rightarrow> u32 \<Rightarrow> int \<Rightarrow> string \<Rightarrow> slv_vis_record option \<Rightarrow> slv_vis_record option"
where
  "batch_record vb epoch gen now l r =
     (if vb_op vb = SLV_VIS_OP_REPLACE
      then Some (vis_arm_record vb epoch gen now l (case r of None \<Rightarrow> slv_vis_record_zero | Some rec \<Rightarrow> rec))
      else map_option (\<lambda>rec.
        if vr_epoch rec = epoch \<and> vis_base_of vb l \<ge> 0 \<and> of_int (vis_base_of vb l) = vr_listener_gen rec
        then vis_advance_record vb gen now l rec else rec\<lparr>vr_stale := True\<rparr>) r)"

lemma batch_listener_frame:
  assumes "vis_batch_listener enf vb gen now l (room, out) = (room', out')"
  shows "rm_vis_auth_epoch room' = rm_vis_auth_epoch room" "rm_vis_policy_gen room' = rm_vis_policy_gen room"
    "rm_vis_auth_last_us room' = rm_vis_auth_last_us room" "rm_vis_declared room' = rm_vis_declared room"
  using assms by (auto simp: vis_batch_listener_def Let_def split: if_splits option.splits)

lemma batch_listener_records:
  assumes "vis_batch_listener enf vb gen now l (room, out) = (room', out')"
    and "vb_op vb = SLV_VIS_OP_REPLACE \<longrightarrow> map_of (rm_vis_records room) l \<noteq> None \<or>
      length (rm_vis_records room) < SLV_VIS_MAX_RECORDS"
  shows "map_of (rm_vis_records room') = (map_of (rm_vis_records room))
      (l := batch_record vb (rm_vis_auth_epoch room) gen now l (map_of (rm_vis_records room) l))"
  using assms
  by (cases "map_of (rm_vis_records room) l")
    (auto simp: vis_batch_listener_def batch_record_def Let_def update_conv' fun_eq_iff
      split: if_splits option.splits)

lemma batch_listener_full:
  assumes "vis_batch_listener enf vb gen now l (room, out) = (room', out')"
    and "vb_op vb = SLV_VIS_OP_REPLACE" "map_of (rm_vis_records room) l = None"
    and "SLV_VIS_MAX_RECORDS \<le> length (rm_vis_records room)"
  shows "rm_vis_records room' = rm_vis_records room" "vo_unarmed out' = vo_unarmed out @ [l]"
  using assms by (auto simp: vis_batch_listener_def)

lemma batch_listener_recs_all:
  assumes step: "vis_batch_listener enf vb gen now l (room, out) = (room', out')"
    and inv: "recs_all Q room"
    and new: "\<And>rec. batch_record vb (rm_vis_auth_epoch room) gen now l (map_of (rm_vis_records room) l) = Some rec \<Longrightarrow> Q l rec"
  shows "recs_all Q room'"
proof (cases "vb_op vb = SLV_VIS_OP_REPLACE \<and> map_of (rm_vis_records room) l = None \<and>
    SLV_VIS_MAX_RECORDS \<le> length (rm_vis_records room)")
  case True
  with batch_listener_full(1) [OF step] inv show ?thesis by (simp add: recs_all_def)
next
  case False
  then have m: "map_of (rm_vis_records room') = (map_of (rm_vis_records room))
      (l := batch_record vb (rm_vis_auth_epoch room) gen now l (map_of (rm_vis_records room) l))"
    using batch_listener_records [OF step] by (auto simp: not_le)
  have "distinct (map fst (rm_vis_records room'))"
    using step inv by (auto simp: vis_batch_listener_def Let_def recs_all_def distinct_update
        split: if_splits option.splits)
  with m inv new show ?thesis by (auto simp: recs_all_def split: if_splits)
qed

lemma batch_listener_length:
  assumes "vis_batch_listener enf vb gen now l (room, out) = (room', out')"
    and "length (rm_vis_records room) \<le> SLV_VIS_MAX_RECORDS"
  shows "length (rm_vis_records room') \<le> SLV_VIS_MAX_RECORDS"
  using assms
  by (auto simp: vis_batch_listener_def Let_def length_alist_update dest: map_of_eq_None_iff [THEN iffD1]
      weak_map_of_SomeI split: if_splits option.splits)
    (metis map_of_eq_None_iff option.distinct(1))+

subsection \<open>The whole batch\<close>

lemma batch_fold_frame:
  assumes "fold (vis_batch_listener enf vb gen now) ls (room, out) = (room', out')"
  shows "rm_vis_auth_epoch room' = rm_vis_auth_epoch room \<and> rm_vis_policy_gen room' = rm_vis_policy_gen room \<and>
    rm_vis_auth_last_us room' = rm_vis_auth_last_us room \<and> rm_vis_declared room' = rm_vis_declared room \<and>
    (length (rm_vis_records room) \<le> SLV_VIS_MAX_RECORDS \<longrightarrow> length (rm_vis_records room') \<le> SLV_VIS_MAX_RECORDS)"
  using assms
proof (induction ls arbitrary: room out)
  case (Cons l ls)
  obtain r1 o1 where s: "vis_batch_listener enf vb gen now l (room, out) = (r1, o1)" by fastforce
  from Cons.IH [of r1 o1] Cons.prems s batch_listener_frame [OF s] batch_listener_length [OF s]
  show ?case by simp
qed simp

lemma batch_fold_recs_all:
  assumes "fold (vis_batch_listener enf vb gen now) ls (room, out) = (room', out')"
    and "recs_all Q room"
    and new: "\<And>l r0 rec. l \<in> set ls \<Longrightarrow> pred_option (Q l) r0 \<Longrightarrow>
      batch_record vb (rm_vis_auth_epoch room) gen now l r0 = Some rec \<Longrightarrow> Q l rec"
  shows "recs_all Q room'"
  using assms
proof (induction ls arbitrary: room out)
  case (Cons l ls)
  obtain r1 o1 where s: "vis_batch_listener enf vb gen now l (room, out) = (r1, o1)" by fastforce
  show ?case
  proof (rule Cons.IH)
    show "fold (vis_batch_listener enf vb gen now) ls (r1, o1) = (room', out')" using Cons.prems(1) s by simp
    show "recs_all Q r1"
    proof (rule batch_listener_recs_all [OF s Cons.prems(2)])
      fix rec
      assume "batch_record vb (rm_vis_auth_epoch room) gen now l (map_of (rm_vis_records room) l) = Some rec"
      then show "Q l rec"
        by (rule Cons.prems(3) [rotated 2]) (simp_all add: pred_option_recs [OF Cons.prems(2)])
    qed
    fix l' r0 rec
    assume l: "l' \<in> set ls" and "pred_option (Q l') r0" "batch_record vb (rm_vis_auth_epoch r1) gen now l' r0 = Some rec"
    then have "l' \<in> set (l # ls)" "pred_option (Q l') r0" "batch_record vb (rm_vis_auth_epoch room) gen now l' r0 = Some rec"
      by (simp_all add: batch_listener_frame(1) [OF s])
    then show "Q l' rec" by (rule Cons.prems(3))
  qed
qed simp

definition batch_matches :: "slv_visbatch \<Rightarrow> u64 \<Rightarrow> string \<Rightarrow> slv_vis_record option \<Rightarrow> bool" where
  "batch_matches vb epoch l r \<longleftrightarrow>
     (case r of None \<Rightarrow> False
      | Some rec \<Rightarrow> vr_epoch rec = epoch \<and> vis_base_of vb l \<ge> 0 \<and> of_int (vis_base_of vb l) = vr_listener_gen rec)"

text \<open>There is room for the records a replace creates.\<close>

definition batch_fits :: "slv_visbatch \<Rightarrow> string list \<Rightarrow> janus_slvoice_room \<Rightarrow> bool" where
  "batch_fits vb ls room \<longleftrightarrow> (if vb_op vb = SLV_VIS_OP_REPLACE
     then length (rm_vis_records room) + length (filter (\<lambda>l. map_of (rm_vis_records room) l = None) ls) \<le> SLV_VIS_MAX_RECORDS
     else True)"

lemma batch_listener_out:
  assumes "vis_batch_listener enf vb gen now l (room, out) = (room', out')"
    and "vb_op vb = SLV_VIS_OP_REPLACE \<longrightarrow> map_of (rm_vis_records room) l \<noteq> None \<or>
      length (rm_vis_records room) < SLV_VIS_MAX_RECORDS"
  shows "vo_stale out' = vo_stale out @ (if vb_op vb \<noteq> SLV_VIS_OP_REPLACE \<and>
      \<not> batch_matches vb (rm_vis_auth_epoch room) l (map_of (rm_vis_records room) l) then [l] else [])"
    and "set (vo_skip out') = set (vo_skip out) \<union> (if enf \<and> vb_op vb \<noteq> SLV_VIS_OP_REPLACE \<and>
      \<not> batch_matches vb (rm_vis_auth_epoch room) l (map_of (rm_vis_records room) l) then {l} else {})"
    and "vo_unarmed out' = vo_unarmed out"
  using assms
  by (cases "map_of (rm_vis_records room) l";
      auto simp: vis_batch_listener_def batch_matches_def Let_def split: if_splits)+

lemma batch_listener_length_new:
  assumes "vis_batch_listener enf vb gen now l (room, out) = (room', out')"
  shows "length (rm_vis_records room') \<le>
    (if map_of (rm_vis_records room) l = None then Suc (length (rm_vis_records room)) else length (rm_vis_records room))"
  using assms
  by (auto simp: vis_batch_listener_def Let_def length_update_Some length_update_le split: if_splits option.splits)

lemma batch_fold_exact:
  assumes "fold (vis_batch_listener enf vb gen now) ls (room, out) = (room', out')"
    and "distinct ls" and "batch_fits vb ls room"
  shows "(\<forall>l. map_of (rm_vis_records room') l =
      (if l \<in> set ls then batch_record vb (rm_vis_auth_epoch room) gen now l (map_of (rm_vis_records room) l)
       else map_of (rm_vis_records room) l)) \<and>
    vo_stale out' = vo_stale out @ filter (\<lambda>l. vb_op vb \<noteq> SLV_VIS_OP_REPLACE \<and>
      \<not> batch_matches vb (rm_vis_auth_epoch room) l (map_of (rm_vis_records room) l)) ls \<and>
    set (vo_skip out') = set (vo_skip out) \<union> {l \<in> set ls. enf \<and> vb_op vb \<noteq> SLV_VIS_OP_REPLACE \<and>
      \<not> batch_matches vb (rm_vis_auth_epoch room) l (map_of (rm_vis_records room) l)} \<and>
    vo_unarmed out' = vo_unarmed out"
  using assms
proof (induction ls arbitrary: room out)
  case (Cons l ls)
  obtain r1 o1 where s: "vis_batch_listener enf vb gen now l (room, out) = (r1, o1)" by fastforce
  have room1: "vb_op vb = SLV_VIS_OP_REPLACE \<longrightarrow> map_of (rm_vis_records room) l \<noteq> None \<or>
      length (rm_vis_records room) < SLV_VIS_MAX_RECORDS"
    using Cons.prems(3) by (auto simp: batch_fits_def split: if_splits)
  note R = batch_listener_records [OF s room1] and F = batch_listener_frame [OF s]
    and O = batch_listener_out [OF s room1]
  have same: "map_of (rm_vis_records r1) l' = map_of (rm_vis_records room) l'" if "l' \<in> set ls" for l'
    using R that Cons.prems(2) by auto
  have flt: "filter (\<lambda>l. map_of (rm_vis_records r1) l = None) ls = filter (\<lambda>l. map_of (rm_vis_records room) l = None) ls"
    "filter (\<lambda>l. vb_op vb \<noteq> SLV_VIS_OP_REPLACE \<and> \<not> batch_matches vb (rm_vis_auth_epoch room) l (map_of (rm_vis_records r1) l)) ls =
     filter (\<lambda>l. vb_op vb \<noteq> SLV_VIS_OP_REPLACE \<and> \<not> batch_matches vb (rm_vis_auth_epoch room) l (map_of (rm_vis_records room) l)) ls"
    using same by (auto intro: filter_cong)
  have "batch_fits vb ls r1"
    using Cons.prems(3) batch_listener_length_new [OF s] flt(1)
    by (auto simp: batch_fits_def split: if_splits)
  from Cons.IH [OF _ _ this, of o1] Cons.prems(1,2) s
  show ?case using F(1) R O same flt(2) by auto
qed simp

subsection \<open>A heartbeat's listeners\<close>

definition heartbeat_record :: "u64 \<Rightarrow> int \<Rightarrow> json \<Rightarrow> slv_vis_record \<Rightarrow> slv_vis_record" where
  "heartbeat_record epoch now g r =
     (if vr_epoch r \<noteq> epoch then r
      else if g = JInt (int (unat (vr_listener_gen r))) then r\<lparr>vr_confirmed_us := now\<rparr>
      else r\<lparr>vr_stale := True\<rparr>)"

lemma json_int_iff:
  "(json_is_integer (Some g) \<and> json_integer_value (Some g) = i) \<longleftrightarrow> g = JInt i"
  by (cases g) auto

lemma map_fst_update_Some: "map_of al k = Some v \<Longrightarrow> map fst (AList.update k x al) = map fst al"
  by (induction al) (auto split: if_splits)

definition auth_frame :: "janus_slvoice_room \<Rightarrow> u64 \<times> u32 \<times> int \<times> bool" where
  "auth_frame room = (rm_vis_auth_epoch room, rm_vis_policy_gen room, rm_vis_auth_last_us room, rm_vis_declared room)"

lemma heartbeat_listener_step:
  assumes "vis_heartbeat_listener now (l, g) (room, st, un) = (room', st', un')"
  shows "map_of (rm_vis_records room') = (map_of (rm_vis_records room))
      (l := map_option (heartbeat_record (rm_vis_auth_epoch room) now g) (map_of (rm_vis_records room) l))"
    and "map fst (rm_vis_records room') = map fst (rm_vis_records room)"
    and "auth_frame room' = auth_frame room"
proof -
  show "map_of (rm_vis_records room') = (map_of (rm_vis_records room))
      (l := map_option (heartbeat_record (rm_vis_auth_epoch room) now g) (map_of (rm_vis_records room) l))"
    using assms by (auto simp: vis_heartbeat_listener_def heartbeat_record_def json_int_iff update_conv' fun_eq_iff
        split: if_splits option.splits)
  show "map fst (rm_vis_records room') = map fst (rm_vis_records room)" "auth_frame room' = auth_frame room"
    using assms by (auto simp: vis_heartbeat_listener_def map_fst_update_Some auth_frame_def
        split: if_splits option.splits)
qed

lemma heartbeat_fold_frame:
  assumes "fold (vis_heartbeat_listener now) lgs (room, st, un) = (room', st', un')"
  shows "map fst (rm_vis_records room') = map fst (rm_vis_records room) \<and> auth_frame room' = auth_frame room"
  using assms
proof (induction lgs arbitrary: room st un)
  case (Cons lg lgs)
  obtain l g where lg: "lg = (l, g)" by fastforce
  obtain r1 s1 u1 where s: "vis_heartbeat_listener now (l, g) (room, st, un) = (r1, s1, u1)"
    by (metis prod_cases3)
  with Cons.IH [of r1 s1 u1] Cons.prems lg heartbeat_listener_step(2,3) [OF s] show ?case by simp
qed simp

lemma heartbeat_fold_records:
  assumes "fold (vis_heartbeat_listener now) lgs (room, st, un) = (room', st', un')"
    and "distinct (map fst lgs)"
  shows "map_of (rm_vis_records room') l =
    (case map_of lgs l of
       None \<Rightarrow> map_of (rm_vis_records room) l
     | Some g \<Rightarrow> map_option (heartbeat_record (rm_vis_auth_epoch room) now g) (map_of (rm_vis_records room) l))"
  using assms
proof (induction lgs arbitrary: room st un)
  case (Cons lg lgs)
  obtain l' g where lg: "lg = (l', g)" by fastforce
  obtain r1 s1 u1 where s: "vis_heartbeat_listener now (l', g) (room, st, un) = (r1, s1, u1)"
    by (metis prod_cases3)
  have ep: "rm_vis_auth_epoch r1 = rm_vis_auth_epoch room"
    using heartbeat_listener_step(3) [OF s] by (simp add: auth_frame_def)
  have "map_of lgs l' = None" using Cons.prems(2) lg by (simp add: map_of_eq_None_iff)
  with Cons.IH [of r1 s1 u1] Cons.prems s lg heartbeat_listener_step(1) [OF s] ep show ?case
    by (auto split: option.splits)
qed simp

lemma heartbeat_fold_recs_all:
  assumes "fold (vis_heartbeat_listener now) lgs (room, st, un) = (room', st', un')"
    and "recs_all Q room"
    and "\<And>l g r. Q l r \<Longrightarrow> Q l (heartbeat_record (rm_vis_auth_epoch room) now g r)"
  shows "recs_all Q room'"
  using assms
proof (induction lgs arbitrary: room st un)
  case (Cons lg lgs)
  obtain l g where lg: "lg = (l, g)" by fastforce
  obtain r1 s1 u1 where s: "vis_heartbeat_listener now (l, g) (room, st, un) = (r1, s1, u1)"
    by (metis prod_cases3)
  note S = heartbeat_listener_step [OF s]
  have "recs_all Q r1"
    using Cons.prems(2,3) S(1,2) by (auto simp: recs_all_def split: if_splits)
  moreover have "rm_vis_auth_epoch r1 = rm_vis_auth_epoch room" using S(3) by (simp add: auth_frame_def)
  ultimately show ?case using Cons.IH [of r1 s1 u1] Cons.prems(1,3) s lg by simp
qed simp

text \<open>The listeners of a heartbeat: a record is kept only when the heartbeat names it.\<close>

lemma heartbeat_listeners_records:
  assumes "janus_slvoice_vis_heartbeat_listeners_locked listeners now room = (room', st, un)"
    and "distinct (map fst (json_members listeners))"
  shows "map_of (rm_vis_records room') l =
    (case map_of (json_members listeners) l of
       None \<Rightarrow> None
     | Some g \<Rightarrow> map_option (heartbeat_record (rm_vis_auth_epoch room) now g) (map_of (rm_vis_records room) l))"
proof -
  obtain r1 s1 u1 where f: "fold (vis_heartbeat_listener now) (json_members listeners) (room, [], []) = (r1, s1, u1)"
    by (metis prod_cases3)
  have k: "l \<in> fst ` set (json_members listeners) \<longleftrightarrow> map_of (json_members listeners) l \<noteq> None"
    by (metis map_of_eq_None_iff)
  have "rm_vis_records room' = filter (\<lambda>(l, r). l \<in> fst ` set (json_members listeners)) (rm_vis_records r1)"
    using assms(1) f by (auto simp: janus_slvoice_vis_heartbeat_listeners_locked_def)
  then have "map_of (rm_vis_records room') l =
      (if map_of (json_members listeners) l \<noteq> None then map_of (rm_vis_records r1) l else None)"
    by (simp only: map_of_filter_keys k)
  with heartbeat_fold_records [OF f assms(2), of l] show ?thesis by (auto split: option.splits)
qed

lemma heartbeat_listeners_frame:
  assumes "janus_slvoice_vis_heartbeat_listeners_locked listeners now room = (room', st, un)"
  shows "auth_frame room' = auth_frame room" "length (rm_vis_records room') \<le> length (rm_vis_records room)"
proof -
  obtain r1 s1 u1 where f: "fold (vis_heartbeat_listener now) (json_members listeners) (room, [], []) = (r1, s1, u1)"
    by (metis prod_cases3)
  note F = heartbeat_fold_frame [OF f]
  have r: "room' = r1\<lparr>rm_vis_records := filter (\<lambda>(l, r). l \<in> fst ` set (json_members listeners)) (rm_vis_records r1)\<rparr>"
    using assms f by (simp add: janus_slvoice_vis_heartbeat_listeners_locked_def)
  have "length (rm_vis_records r1) = length (rm_vis_records room)" using F by (metis length_map)
  then show "length (rm_vis_records room') \<le> length (rm_vis_records room)"
    unfolding r by (simp, metis length_filter_le)
  show "auth_frame room' = auth_frame room" using F unfolding r by (simp add: auth_frame_def)
qed

lemma heartbeat_listeners_recs_all:
  assumes "janus_slvoice_vis_heartbeat_listeners_locked listeners now room = (room', st, un)"
    and "recs_all Q room"
    and "\<And>l g r. Q l r \<Longrightarrow> Q l (heartbeat_record (rm_vis_auth_epoch room) now g r)"
  shows "recs_all Q room'"
proof -
  obtain r1 s1 u1 where f: "fold (vis_heartbeat_listener now) (json_members listeners) (room, [], []) = (r1, s1, u1)"
    by (metis prod_cases3)
  from heartbeat_fold_recs_all [OF f assms(2,3)] assms(1) f show ?thesis
    by (auto simp: janus_slvoice_vis_heartbeat_listeners_locked_def intro: recs_all_filter)
qed

subsection \<open>Invariant\<close>

text \<open>
  A record belongs to the adopted epoch, at a generation not ahead of the room's; unless it is stale it
  was confirmed no later than the authority's last sign of life.
\<close>

definition vis_record_ok :: "u64 \<Rightarrow> u32 \<Rightarrow> int \<Rightarrow> slv_vis_record \<Rightarrow> bool" where
  "vis_record_ok epoch gen since r \<longleftrightarrow>
     vr_epoch r = epoch \<and> vr_listener_gen r \<le> gen \<and>
     (vr_stale r \<or> 0 < vr_confirmed_us r \<and> vr_confirmed_us r \<le> since) \<and>
     distinct (vr_excl r) \<and> distinct (vr_mute r)"

definition auth_inv :: "janus_slvoice_room \<Rightarrow> bool" where
  "auth_inv room \<longleftrightarrow>
     recs_all (\<lambda>l. vis_record_ok (rm_vis_auth_epoch room) (rm_vis_policy_gen room) (rm_vis_auth_last_us room)) room \<and>
     length (rm_vis_records room) \<le> SLV_VIS_MAX_RECORDS \<and>
     (rm_vis_auth_epoch room = 0 \<longrightarrow> rm_vis_records room = [] \<and> rm_vis_policy_gen room = 0)"

lemma vis_record_ok_mono:
  "vis_record_ok e g la r \<Longrightarrow> g \<le> g' \<Longrightarrow> la \<le> la' \<Longrightarrow> vis_record_ok e g' la' r"
  by (auto simp: vis_record_ok_def)

lemma adopt_cases:
  assumes "janus_slvoice_vis_adopt_locked k e now room = (v, room')"
  obtains (stale) "v = SLV_VIS_EPOCH_STALE" "rm_vis_auth_epoch room \<noteq> 0" "e < rm_vis_auth_epoch room"
      "\<not> slv_vis_authority_stale (rm_vis_auth_last_us room) now (janus_slvoice_vis_stale_us k)"
      "room' = room\<lparr>rm_vis_stale_epoch_rejects := rm_vis_stale_epoch_rejects room + 1\<rparr>"
  | (equal) "v = SLV_VIS_EPOCH_EQUAL" "e = rm_vis_auth_epoch room" "e \<noteq> 0"
      "room' = room\<lparr>rm_vis_auth_last_us := now\<rparr>"
  | (new) "v = SLV_VIS_EPOCH_ADOPT \<or> v = SLV_VIS_EPOCH_TAKEOVER" 
      "rm_vis_auth_epoch room = 0 \<or> rm_vis_auth_epoch room < e \<or>
       slv_vis_authority_stale (rm_vis_auth_last_us room) now (janus_slvoice_vis_stale_us k)"
      "room' = room\<lparr>rm_vis_records := [], rm_vis_auth_epoch := e, rm_vis_policy_gen := 0, rm_vis_auth_last_us := now\<rparr>"
  using assms
  by (cases "slv_vis_epoch_decide (rm_vis_auth_epoch room) (rm_vis_auth_last_us room) now (janus_slvoice_vis_stale_us k) e")
    (auto simp: janus_slvoice_vis_adopt_locked_def Let_def slv_vis_epoch_decide_def not_less split: if_splits)

lemma adopt_inv [slv_inv]:
  assumes "auth_inv room" "e \<noteq> 0" "0 < now" "rm_vis_auth_last_us room \<le> now"
    and "janus_slvoice_vis_adopt_locked k e now room = (v, room')"
  shows "auth_inv room'"
  using assms(5)
proof (cases rule: adopt_cases)
  case equal
  then show ?thesis
    using assms(1,4) vis_record_ok_mono
    by (auto simp: auth_inv_def recs_all_def) blast
qed (use assms in \<open>auto simp: auth_inv_def recs_all_def\<close>)

lemma batch_record_ok:
  assumes "pred_option (vis_record_ok epoch gen now) r0" "0 < now"
    and "batch_record vb epoch gen now l r0 = Some rec"
  shows "vis_record_ok epoch gen now rec"
  using assms
  by (cases r0)
    (auto simp: batch_record_def vis_arm_record_def vis_advance_record_def vis_record_ok_def
      slv_vis_record_zero_def split: if_splits)

lemma batch_authority_inv [slv_inv]:
  assumes inv: "auth_inv room" and ok: "visbatch_ok vb" and now: "0 < now" "rm_vis_auth_last_us room \<le> now"
  shows "auth_inv (fst (janus_slvoice_vis_batch_authority_locked k vb now room))"
proof (cases "vb_has_epoch vb")
  case True
  obtain v r1 where a: "janus_slvoice_vis_adopt_locked k (vb_room_epoch vb) now room = (v, r1)" by fastforce
  have e: "vb_room_epoch vb \<noteq> 0" using ok True by (simp add: visbatch_ok_def)
  have i1: "auth_inv r1" by (rule adopt_inv [OF inv e now a])
  let ?gen = "of_int (vb_policy_generation vb) :: u32"
  consider (refuse) "v = SLV_VIS_EPOCH_STALE" | (old) "v \<noteq> SLV_VIS_EPOCH_STALE" "?gen \<le> rm_vis_policy_gen r1"
    | (go) "v \<noteq> SLV_VIS_EPOCH_STALE" "rm_vis_policy_gen r1 < ?gen" by fastforce
  then show ?thesis
  proof cases
    case go
    obtain r2 o2 where f: "fold (vis_batch_listener (janus_slvoice_vis_enforced k room) vb ?gen now) (vis_named vb)
        (r1\<lparr>rm_vis_policy_gen := ?gen\<rparr>, vis_outcome_zero\<lparr>vo_verdict := v\<rparr>) = (r2, o2)" by fastforce
    have last: "rm_vis_auth_last_us r1 = now" "rm_vis_auth_epoch r1 \<noteq> 0"
      using a go(1) e by (auto elim!: adopt_cases)
    have q: "recs_all (\<lambda>l. vis_record_ok (rm_vis_auth_epoch r1) ?gen now) (r1\<lparr>rm_vis_policy_gen := ?gen\<rparr>)"
      using i1 last go(2) vis_record_ok_mono by (auto simp: auth_inv_def recs_all_def) fastforce
    have "recs_all (\<lambda>l. vis_record_ok (rm_vis_auth_epoch r1) ?gen now) r2"
      by (rule batch_fold_recs_all [OF f q]) (auto intro: batch_record_ok now)
    with batch_fold_frame [OF f] i1 last go a f True show ?thesis
      by (auto simp: janus_slvoice_vis_batch_authority_locked_def Let_def auth_inv_def)
  qed (use i1 a True in \<open>auto simp: janus_slvoice_vis_batch_authority_locked_def Let_def auth_inv_def recs_all_def\<close>)
qed (use inv in \<open>simp add: janus_slvoice_vis_batch_authority_locked_def\<close>)

lemma heartbeat_record_ok:
  "vis_record_ok epoch gen now r \<Longrightarrow> 0 < now \<Longrightarrow> vis_record_ok epoch gen now (heartbeat_record epoch now g r)"
  by (auto simp: heartbeat_record_def vis_record_ok_def)

lemma heartbeat_room_inv [slv_inv]:
  assumes inv: "auth_inv room" and e: "e \<noteq> 0" and now: "0 < now" "rm_vis_auth_last_us room \<le> now"
  shows "auth_inv (fst (heartbeat_room k e fs stopping now rval room))"
proof -
  obtain v r1 where a: "janus_slvoice_vis_adopt_locked k e now room = (v, r1)" by fastforce
  have i1: "auth_inv r1" by (rule adopt_inv [OF inv e now a])
  let ?r1 = "r1\<lparr>rm_vis_heartbeats := rm_vis_heartbeats r1 + 1\<rparr>"
  let ?l = "if json_is_object (Some rval) then json_object_get (Some rval) ''listeners'' else None"
  obtain r2 st un where h: "janus_slvoice_vis_heartbeat_listeners_locked ?l now ?r1 = (r2, st, un)"
    by (metis prod_cases3)
  have stop: "auth_inv (vis_authority_stopping ?r1)"
    using i1 by (auto simp: vis_authority_stopping_def auth_inv_def recs_all_def map_of_map_vals vis_record_ok_def
        comp_def case_prod_unfold)
  have beat: "auth_inv r2" if "v \<noteq> SLV_VIS_EPOCH_STALE"
  proof -
    have last: "rm_vis_auth_last_us r1 = now" using a that by (auto elim!: adopt_cases)
    have q: "recs_all (\<lambda>l. vis_record_ok (rm_vis_auth_epoch r1) (rm_vis_policy_gen r1) now) ?r1"
      using i1 last by (simp add: auth_inv_def recs_all_def)
    have "recs_all (\<lambda>l. vis_record_ok (rm_vis_auth_epoch r1) (rm_vis_policy_gen r1) now) r2"
      by (rule heartbeat_listeners_recs_all [OF h q]) (simp add: heartbeat_record_ok now)
    with heartbeat_listeners_frame [OF h] i1 last show ?thesis by (auto simp: auth_inv_def auth_frame_def)
  qed
  have upd: "auth_inv (room\<lparr>rm_vis_heartbeats_feed_stale := n\<rparr>)" "auth_inv (?r1\<lparr>rm_vis_heartbeats_outdated := m\<rparr>)" for n m
    using inv i1 by (simp_all add: auth_inv_def recs_all_def)
  show ?thesis
    using a h stop beat upd i1 by (auto simp: heartbeat_room_def Let_def)
qed

subsection \<open>The states a room's authority can reach\<close>

datatype auth_msg =
    Auth_batch slv_visbatch
  | Auth_heartbeat u64 bool bool json

fun auth_deliver :: "slv_knobs \<Rightarrow> int \<Rightarrow> auth_msg \<Rightarrow> janus_slvoice_room \<Rightarrow> janus_slvoice_room" where
  "auth_deliver k now (Auth_batch vb) room = fst (janus_slvoice_vis_batch_authority_locked k vb now room)"
| "auth_deliver k now (Auth_heartbeat e feed_stale stopping rval) room =
     fst (heartbeat_room k e feed_stale stopping now rval room)"

text \<open>What the parsers guarantee of a message.\<close>

fun auth_msg_ok :: "auth_msg \<Rightarrow> bool" where
  "auth_msg_ok (Auth_batch vb) = visbatch_ok vb"
| "auth_msg_ok (Auth_heartbeat e _ _ _) = (e \<noteq> 0)"

text \<open>
  From a room as it is created, by the messages of any number of senders in any order, at times that
  do not run backwards, and by any operation that leaves the authority alone. \<open>sent\<close> restricts the
  messages.
\<close>

inductive auth_reach :: "slv_knobs \<Rightarrow> (auth_msg \<Rightarrow> bool) \<Rightarrow> janus_slvoice_room \<Rightarrow> bool"
  for k :: slv_knobs and sent :: "auth_msg \<Rightarrow> bool" where
  created: "rm_vis_records room = [] \<Longrightarrow> auth_frame room = (0, 0, 0, d) \<Longrightarrow> auth_reach k sent room"
| deliver: "auth_reach k sent room \<Longrightarrow> sent msg \<Longrightarrow> auth_msg_ok msg \<Longrightarrow> 0 < now \<Longrightarrow>
    rm_vis_auth_last_us room \<le> now \<Longrightarrow> auth_reach k sent (auth_deliver k now msg room)"
| other: "auth_reach k sent room \<Longrightarrow> rm_vis_records room' = rm_vis_records room \<Longrightarrow>
    auth_frame room' = auth_frame room \<Longrightarrow> auth_reach k sent room'"

inductive_cases auth_reachE: "auth_reach k sent room"

lemma auth_inv_cong:
  "rm_vis_records room' = rm_vis_records room \<Longrightarrow> auth_frame room' = auth_frame room \<Longrightarrow> auth_inv room' = auth_inv room"
  by (simp add: auth_inv_def auth_frame_def recs_all_def)

lemma auth_deliver_inv [slv_inv]:
  "auth_inv room \<Longrightarrow> auth_msg_ok msg \<Longrightarrow> 0 < now \<Longrightarrow> rm_vis_auth_last_us room \<le> now \<Longrightarrow>
   auth_inv (auth_deliver k now msg room)"
  by (cases msg) (simp_all add: batch_authority_inv heartbeat_room_inv)

lemma auth_reach_imp_inv: "auth_reach k sent room \<Longrightarrow> auth_inv room"
proof (induction rule: auth_reach.induct)
  case (created room d)
  then show ?case by (simp add: auth_inv_def auth_frame_def)
next
  case (other room room')
  then show ?case using auth_inv_cong by blast
qed (simp add: auth_deliver_inv)

text \<open>
  Whatever messages of whatever senders a room receives, in any order, it holds at most 1024
  listener records, one per listener; each belongs to the adopted epoch at a generation not ahead of the room's;
  and before any epoch is adopted there are none.
\<close>

theorem auth_reach_inv:
  assumes "auth_reach k sent room"
  shows "length (rm_vis_records room) \<le> SLV_VIS_MAX_RECORDS \<and> distinct (map fst (rm_vis_records room)) \<and>
    (\<forall>(l, r)\<in>set (rm_vis_records room). vr_epoch r = rm_vis_auth_epoch room \<and> rm_vis_auth_epoch room \<noteq> 0 \<and>
       vr_listener_gen r \<le> rm_vis_policy_gen room \<and> distinct (vr_excl r) \<and> distinct (vr_mute r))"
proof -
  have inv: "auth_inv room" using assms by (rule auth_reach_imp_inv)
  then have q: "vis_record_ok (rm_vis_auth_epoch room) (rm_vis_policy_gen room) (rm_vis_auth_last_us room) r"
    if "(l, r) \<in> set (rm_vis_records room)" for l r
    using that by (auto simp: auth_inv_def recs_all_def)
  moreover have "rm_vis_auth_epoch room \<noteq> 0" if "rm_vis_records room \<noteq> []"
    using inv that by (auto simp: auth_inv_def)
  ultimately show ?thesis
    using inv by (fastforce simp: auth_inv_def recs_all_def vis_record_ok_def)
qed

text \<open>
  C8 Silence fails closed: in every reachable room, once the authority has been silent for longer
  than the staleness window (or has said it is stopping), nobody stands in row 4, so no pair is audible or
  visible. In particular a lower epoch can take a room over only when nobody in it is armed and fresh.
\<close>

theorem silent_authority_silences:
  assumes "auth_reach k sent room"
    and "slv_vis_authority_stale (rm_vis_auth_last_us room) now (janus_slvoice_vis_stale_us k)"
  shows "\<not> janus_slvoice_vis_ok_locked k room display now \<and>
    \<not> janus_slvoice_vis_pair_visible_locked k room listener source now"
proof -
  have inv: "auth_inv room" using assms(1) by (rule auth_reach_imp_inv)
  have no: "\<not> janus_slvoice_vis_ok_locked k room d now" for d
  proof
    assume "janus_slvoice_vis_ok_locked k room d now"
    then obtain l r where r: "map_of (rm_vis_records room) l = Some r"
      and row: "\<not> vr_stale r" "now - vr_confirmed_us r \<le> janus_slvoice_vis_stale_us k"
      by (auto simp: janus_slvoice_vis_ok_locked_def janus_slvoice_vis_row_locked_def vis_row_4_iff
          split: option.splits)
    from inv have "recs_all (\<lambda>l. vis_record_ok (rm_vis_auth_epoch room) (rm_vis_policy_gen room)
        (rm_vis_auth_last_us room)) room" by (simp add: auth_inv_def)
    from recs_allD [OF this r] row(1)
    have "0 < vr_confirmed_us r \<and> vr_confirmed_us r \<le> rm_vis_auth_last_us room" by (simp add: vis_record_ok_def)
    with assms(2) row(2) show False by (auto simp: slv_vis_authority_stale_def)
  qed
  then show ?thesis by (simp add: janus_slvoice_vis_pair_visible_locked_def)
qed

text \<open>The accepting path of a stamped batch, and the one of a heartbeat's room entry.\<close>

lemma batch_authority_cases:
  assumes "vb_has_epoch vb" "janus_slvoice_vis_adopt_locked k (vb_room_epoch vb) now room = (v, r1)"
  obtains (refuse) "v = SLV_VIS_EPOCH_STALE"
      "fst (janus_slvoice_vis_batch_authority_locked k vb now room) = r1"
  | (old) "v \<noteq> SLV_VIS_EPOCH_STALE" "of_int (vb_policy_generation vb) \<le> rm_vis_policy_gen r1"
      "fst (janus_slvoice_vis_batch_authority_locked k vb now room) =
        r1\<lparr>rm_vis_stale_generation_rejects := rm_vis_stale_generation_rejects r1 + 1\<rparr>"
  | (go) "v \<noteq> SLV_VIS_EPOCH_STALE" "rm_vis_policy_gen r1 < of_int (vb_policy_generation vb)"
      "janus_slvoice_vis_batch_authority_locked k vb now room =
        fold (vis_batch_listener (janus_slvoice_vis_enforced k room) vb (of_int (vb_policy_generation vb)) now)
          (vis_named vb) (r1\<lparr>rm_vis_policy_gen := of_int (vb_policy_generation vb)\<rparr>, vis_outcome_zero\<lparr>vo_verdict := v\<rparr>)"
proof -
  have d: "rm_vis_declared r1 = rm_vis_declared room"
    using assms(2) by (auto elim!: adopt_cases)
  show ?thesis
    using assms that d
    by (cases "v = SLV_VIS_EPOCH_STALE"; cases "of_int (vb_policy_generation vb) \<le> rm_vis_policy_gen r1")
      (auto simp: janus_slvoice_vis_batch_authority_locked_def Let_def janus_slvoice_vis_enforced_def)
qed

lemma heartbeat_room_cases:
  assumes "janus_slvoice_vis_adopt_locked k e now room = (v, r1)"
  obtains (feed) "feed_stale" "\<not> stopping" "fst (heartbeat_room k e feed_stale stopping now rval room) =
      room\<lparr>rm_vis_heartbeats_feed_stale := rm_vis_heartbeats_feed_stale room + 1\<rparr>"
  | (refuse) "\<not> (feed_stale \<and> \<not> stopping)" "v = SLV_VIS_EPOCH_STALE" "fst (heartbeat_room k e feed_stale stopping now rval room) = r1"
  | (stop) "v \<noteq> SLV_VIS_EPOCH_STALE" "stopping" "fst (heartbeat_room k e feed_stale stopping now rval room) =
      vis_authority_stopping (r1\<lparr>rm_vis_heartbeats := rm_vis_heartbeats r1 + 1\<rparr>)"
  | (outdated) "v \<noteq> SLV_VIS_EPOCH_STALE" "\<not> stopping" "\<not> feed_stale" "vis_entry_outdated rval r1"
      "rm_vis_records (fst (heartbeat_room k e feed_stale stopping now rval room)) = rm_vis_records r1"
      "auth_frame (fst (heartbeat_room k e feed_stale stopping now rval room)) = auth_frame r1"
  | (listeners) st un where "v \<noteq> SLV_VIS_EPOCH_STALE" "\<not> stopping" "\<not> feed_stale" "\<not> vis_entry_outdated rval r1"
      "janus_slvoice_vis_heartbeat_listeners_locked
         (if json_is_object (Some rval) then json_object_get (Some rval) ''listeners'' else None) now
         (r1\<lparr>rm_vis_heartbeats := rm_vis_heartbeats r1 + 1\<rparr>) =
       (fst (heartbeat_room k e feed_stale stopping now rval room), st, un)"
proof -
  have o: "vis_entry_outdated rval (r1\<lparr>rm_vis_heartbeats := n\<rparr>) = vis_entry_outdated rval r1" for n
    by (simp add: vis_entry_outdated_def)
  obtain r2 st un where h: "janus_slvoice_vis_heartbeat_listeners_locked
         (if json_is_object (Some rval) then json_object_get (Some rval) ''listeners'' else None) now
         (r1\<lparr>rm_vis_heartbeats := rm_vis_heartbeats r1 + 1\<rparr>) = (r2, st, un)" by (metis prod_cases3)
  consider (1) "feed_stale" "\<not> stopping" | (2) "\<not> (feed_stale \<and> \<not> stopping)" "v = SLV_VIS_EPOCH_STALE"
    | (3) "v \<noteq> SLV_VIS_EPOCH_STALE" "stopping"
    | (4) "v \<noteq> SLV_VIS_EPOCH_STALE" "\<not> stopping" "\<not> feed_stale" "vis_entry_outdated rval r1"
    | (5) "v \<noteq> SLV_VIS_EPOCH_STALE" "\<not> stopping" "\<not> feed_stale" "\<not> vis_entry_outdated rval r1" by blast
  then show ?thesis
  proof cases
    case 1 then show ?thesis by (intro feed) (simp_all add: heartbeat_room_def)
  next
    case 2 then show ?thesis using assms by (intro refuse) (auto simp: heartbeat_room_def)
  next
    case 3 then show ?thesis using assms by (intro stop) (auto simp: heartbeat_room_def Let_def)
  next
    case 4 then show ?thesis
      using assms o by (intro outdated) (auto simp: heartbeat_room_def Let_def auth_frame_def)
  next
    case 5 then show ?thesis
      using assms o h by (intro listeners) (auto simp: heartbeat_room_def Let_def)
  qed
qed

text \<open>
  A property of the records is preserved by a message when every record the message can write
  satisfies it: a record it arms or advances, and a record a heartbeat answers.
\<close>

lemma adopt_recs_all:
  assumes "janus_slvoice_vis_adopt_locked k e now room = (v, r1)" "recs_all Q room"
  shows "recs_all Q r1"
  using assms(1) by (cases rule: adopt_cases) (use assms(2) in \<open>auto simp: recs_all_def\<close>)

lemma deliver_recs_all:
  assumes "recs_all Q room"
    and batch: "\<And>vb l r0 rec. msg = Auth_batch vb \<Longrightarrow> vb_has_epoch vb \<Longrightarrow> l \<in> set (vis_named vb) \<Longrightarrow>
      pred_option (Q l) r0 \<Longrightarrow>
      batch_record vb (vb_room_epoch vb) (of_int (vb_policy_generation vb)) now l r0 = Some rec \<Longrightarrow> Q l rec"
    and beat: "\<And>l e g r. Q l r \<Longrightarrow> Q l (heartbeat_record e now g r)"
    and stop: "\<And>l r. Q l r \<Longrightarrow> Q l (r\<lparr>vr_stale := True\<rparr>)"
  shows "recs_all Q (auth_deliver k now msg room)"
proof (cases msg)
  case (Auth_batch vb)
  show ?thesis
  proof (cases "vb_has_epoch vb")
    case True
    obtain v r1 where a: "janus_slvoice_vis_adopt_locked k (vb_room_epoch vb) now room = (v, r1)" by fastforce
    note Q1 = adopt_recs_all [OF a assms(1)]
    show ?thesis using True a
    proof (cases rule: batch_authority_cases)
      case go
      let ?gen = "of_int (vb_policy_generation vb) :: u32"
      obtain r2 o2 where f: "fold (vis_batch_listener (janus_slvoice_vis_enforced k room) vb ?gen now) (vis_named vb)
          (r1\<lparr>rm_vis_policy_gen := ?gen\<rparr>, vis_outcome_zero\<lparr>vo_verdict := v\<rparr>) = (r2, o2)" by fastforce
      have e: "rm_vis_auth_epoch r1 = vb_room_epoch vb" using a go(1) by (auto elim!: adopt_cases)
      have "recs_all Q r2"
      proof (rule batch_fold_recs_all [OF f])
        show "recs_all Q (r1\<lparr>rm_vis_policy_gen := ?gen\<rparr>)" using Q1 by (simp add: recs_all_def)
        fix l r0 rec
        assume "l \<in> set (vis_named vb)" "pred_option (Q l) r0"
          "batch_record vb (rm_vis_auth_epoch (r1\<lparr>rm_vis_policy_gen := ?gen\<rparr>)) ?gen now l r0 = Some rec"
        then show "Q l rec" using e by (intro batch [OF Auth_batch True]) simp_all
      qed
      with go(3) f Auth_batch show ?thesis by simp
    qed (use Q1 Auth_batch in \<open>auto simp: recs_all_def\<close>)
  qed (use assms(1) Auth_batch in \<open>simp add: janus_slvoice_vis_batch_authority_locked_def\<close>)
next
  case (Auth_heartbeat e fs st rval)
  obtain v r1 where a: "janus_slvoice_vis_adopt_locked k e now room = (v, r1)" by fastforce
  note Q1 = adopt_recs_all [OF a assms(1)]
  from a show ?thesis
  proof (cases rule: heartbeat_room_cases [where feed_stale = fs and stopping = st and rval = rval])
    case feed
    with assms(1) Auth_heartbeat show ?thesis by (simp add: recs_all_def)
  next
    case stop': stop
    with Q1 Auth_heartbeat stop show ?thesis
      by (auto simp: vis_authority_stopping_def recs_all_def map_of_map_vals comp_def case_prod_unfold)
  next
    case (listeners sl ul)
    have "recs_all Q (r1\<lparr>rm_vis_heartbeats := rm_vis_heartbeats r1 + 1\<rparr>)" using Q1 by (simp add: recs_all_def)
    from heartbeat_listeners_recs_all [OF listeners(5) this beat] Auth_heartbeat show ?thesis by simp
  qed (use Q1 Auth_heartbeat in \<open>auto simp: recs_all_def\<close>)
qed

text \<open>
  What a region server's own history of a room says: at each generation of each epoch, the two
  columns of each listener. Its batches are stamped from that history: a replace carries both columns of every listener
  it names, empty ones included (mixer-feed-protocol.md, section 7.1), and a delta the difference from the
  generation it names as its base.
\<close>

type_synonym sim_history = "u64 \<Rightarrow> u32 \<Rightarrow> string \<Rightarrow> columns"

definition delta_columns :: "slv_visbatch \<Rightarrow> string \<Rightarrow> columns \<Rightarrow> columns" where
  "delta_columns vb l c =
     (op_opt (vb_op vb) (janus_slvoice_vis_find_entry (vb_entries vb) l) (fst c),
      op_opt (vb_op vb) (janus_slvoice_vis_find_entry (vb_mute_entries vb) l) (snd c))"

fun sim_sent :: "sim_history \<Rightarrow> auth_msg \<Rightarrow> bool" where
  "sim_sent H (Auth_batch vb) =
     (vb_has_epoch vb \<longrightarrow> (\<forall>l\<in>set (vis_named vb).
        if vb_op vb = SLV_VIS_OP_REPLACE then
          (\<exists>ex mu. janus_slvoice_vis_find_entry (vb_entries vb) l = Some ex \<and>
             janus_slvoice_vis_find_entry (vb_mute_entries vb) l = Some mu \<and>
             H (vb_room_epoch vb) (of_int (vb_policy_generation vb)) l = (set (e_excl ex), set (e_excl mu)))
        else 0 \<le> vis_base_of vb l \<longrightarrow>
          H (vb_room_epoch vb) (of_int (vb_policy_generation vb)) l =
            delta_columns vb l (H (vb_room_epoch vb) (of_int (vis_base_of vb l)) l)))"
| "sim_sent H (Auth_heartbeat e feed_stale stopping rval) = True"

definition rec_columns :: "slv_vis_record \<Rightarrow> columns" where
  "rec_columns r = (set (vr_excl r), set (vr_mute r))"

lemma batch_record_history:
  assumes "sim_sent H (Auth_batch vb)" "vb_has_epoch vb" "l \<in> set (vis_named vb)"
    and "pred_option (\<lambda>r. rec_columns r = H (vr_epoch r) (vr_listener_gen r) l) r0"
    and "batch_record vb (vb_room_epoch vb) (of_int (vb_policy_generation vb)) now l r0 = Some rec"
  shows "rec_columns rec = H (vr_epoch rec) (vr_listener_gen rec) l"
proof (cases "vb_op vb = SLV_VIS_OP_REPLACE")
  case True
  with assms(1-3) obtain ex mu where f: "janus_slvoice_vis_find_entry (vb_entries vb) l = Some ex"
    "janus_slvoice_vis_find_entry (vb_mute_entries vb) l = Some mu"
    "H (vb_room_epoch vb) (of_int (vb_policy_generation vb)) l = (set (e_excl ex), set (e_excl mu))"
    by auto
  with True assms(5) show ?thesis
    by (auto simp: batch_record_def vis_arm_record_def rec_columns_def op_opt_def)
next
  case False
  with assms(5) obtain r where r: "r0 = Some r" by (auto simp: batch_record_def)
  have H: "rec_columns r = H (vr_epoch r) (vr_listener_gen r) l" using assms(4) r by simp
  show ?thesis
  proof (cases "vr_epoch r = vb_room_epoch vb \<and> vis_base_of vb l \<ge> 0 \<and> of_int (vis_base_of vb l) = vr_listener_gen r")
    case True
    then have "H (vb_room_epoch vb) (of_int (vb_policy_generation vb)) l = delta_columns vb l (rec_columns r)"
      using assms(1-3) False H by auto
    with True False assms(5) r show ?thesis
      by (auto simp: batch_record_def vis_advance_record_def rec_columns_def delta_columns_def)
  next
    case f: False
    with False assms(5) r H show ?thesis by (auto simp: batch_record_def rec_columns_def)
  qed
qed

text \<open>
  A record never drifts from the policy it was armed with: however the batches and heartbeats of a
  room are lost, repeated, delayed or reordered, and whichever of several instances sent them, the columns the mixer
  holds for a listener are exactly the sender's columns at that record's epoch and listener generation.
\<close>

theorem records_follow_history:
  assumes "auth_reach k (sim_sent H) room" and "map_of (rm_vis_records room) l = Some r"
  shows "(set (vr_excl r), set (vr_mute r)) = H (vr_epoch r) (vr_listener_gen r) l"
proof -
  let ?Q = "\<lambda>l r. rec_columns r = H (vr_epoch r) (vr_listener_gen r) l"
  have "recs_all ?Q room"
    using assms(1)
  proof (induction rule: auth_reach.induct)
    case (deliver room msg now)
    show ?case
    proof (rule deliver_recs_all [OF deliver.IH])
      fix vb l r0 rec
      assume "msg = Auth_batch vb" "vb_has_epoch vb" "l \<in> set (vis_named vb)" "pred_option (?Q l) r0"
        "batch_record vb (vb_room_epoch vb) (of_int (vb_policy_generation vb)) now l r0 = Some rec"
      then show "?Q l rec" using deliver.hyps(2) by (intro batch_record_history) auto
    qed (auto simp: heartbeat_record_def rec_columns_def)
  qed (simp_all add: recs_all_def)
  from recs_allD [OF this assms(2)] show ?thesis by (simp add: rec_columns_def)
qed

text \<open>
  Only a replace arms: if after a message a listener has a record that is not stale, and before it
  the listener had none or a stale one, then the message was a stamped replace naming the listener. No heartbeat and
  no delta ever arms anyone or clears the stale flag.
\<close>

theorem only_replace_arms:
  assumes "distinct (map fst (rm_vis_records room))"
    and "map_of (rm_vis_records (auth_deliver k now msg room)) l = Some r" and "\<not> vr_stale r"
    and "case map_of (rm_vis_records room) l of None \<Rightarrow> True | Some r0 \<Rightarrow> vr_stale r0"
  shows "\<exists>vb. msg = Auth_batch vb \<and> vb_has_epoch vb \<and> vb_op vb = SLV_VIS_OP_REPLACE \<and> l \<in> set (vis_named vb)"
proof (rule ccontr)
  assume no: "\<not> ?thesis"
  let ?Q = "\<lambda>l' r. l' = l \<longrightarrow> vr_stale r"
  have "recs_all ?Q room" using assms(1,4) by (auto simp: recs_all_def)
  then have "recs_all ?Q (auth_deliver k now msg room)"
  proof (rule deliver_recs_all)
    fix vb l' r0 rec
    assume "msg = Auth_batch vb" "vb_has_epoch vb" "l' \<in> set (vis_named vb)" "pred_option (?Q l') r0"
      "batch_record vb (vb_room_epoch vb) (of_int (vb_policy_generation vb)) now l' r0 = Some rec"
    with no show "?Q l' rec"
      by (cases r0) (auto simp: batch_record_def vis_advance_record_def split: if_splits)
  qed (auto simp: heartbeat_record_def)
  from recs_allD [OF this assms(2)] assms(3) show False by simp
qed

text \<open>The epoch a message asks the room to adopt, if it reaches the adoption rule.\<close>

fun auth_msg_epoch :: "auth_msg \<Rightarrow> u64 option" where
  "auth_msg_epoch (Auth_batch vb) = (if vb_has_epoch vb then Some (vb_room_epoch vb) else None)"
| "auth_msg_epoch (Auth_heartbeat e feed_stale stopping _) = (if feed_stale \<and> \<not> stopping then None else Some e)"

lemma adopt_epoch:
  assumes "janus_slvoice_vis_adopt_locked k e now room = (v, r1)"
  shows "v = slv_vis_epoch_decide (rm_vis_auth_epoch room) (rm_vis_auth_last_us room) now (janus_slvoice_vis_stale_us k) e"
    and "rm_vis_auth_epoch r1 = (if v = SLV_VIS_EPOCH_STALE then rm_vis_auth_epoch room else e)"
proof -
  show "v = slv_vis_epoch_decide (rm_vis_auth_epoch room) (rm_vis_auth_last_us room) now (janus_slvoice_vis_stale_us k) e"
    using assms by (auto simp: janus_slvoice_vis_adopt_locked_def Let_def split: if_splits)
  show "rm_vis_auth_epoch r1 = (if v = SLV_VIS_EPOCH_STALE then rm_vis_auth_epoch room else e)"
    using assms by (auto elim!: adopt_cases)
qed

lemma deliver_epoch:
  "rm_vis_auth_epoch (auth_deliver k now msg room) =
     (case auth_msg_epoch msg of
        None \<Rightarrow> rm_vis_auth_epoch room
      | Some e \<Rightarrow> if slv_vis_epoch_decide (rm_vis_auth_epoch room) (rm_vis_auth_last_us room) now
                        (janus_slvoice_vis_stale_us k) e = SLV_VIS_EPOCH_STALE
                 then rm_vis_auth_epoch room else e)"
proof (cases msg)
  case (Auth_batch vb)
  show ?thesis
  proof (cases "vb_has_epoch vb")
    case True
    obtain v r1 where a: "janus_slvoice_vis_adopt_locked k (vb_room_epoch vb) now room = (v, r1)" by fastforce
    note e = adopt_epoch [OF a]
    show ?thesis using True a
    proof (cases rule: batch_authority_cases)
      case go
      obtain r2 o2 where f: "fold (vis_batch_listener (janus_slvoice_vis_enforced k room) vb (of_int (vb_policy_generation vb)) now)
          (vis_named vb) (r1\<lparr>rm_vis_policy_gen := of_int (vb_policy_generation vb)\<rparr>, vis_outcome_zero\<lparr>vo_verdict := v\<rparr>) = (r2, o2)"
        by fastforce
      from batch_fold_frame [OF f] go f e Auth_batch True show ?thesis by simp
    qed (use e Auth_batch True in simp_all)
  qed (use Auth_batch in \<open>simp add: janus_slvoice_vis_batch_authority_locked_def\<close>)
next
  case (Auth_heartbeat e fs st rval)
  obtain v r1 where a: "janus_slvoice_vis_adopt_locked k e now room = (v, r1)" by fastforce
  note ep = adopt_epoch [OF a]
  from a show ?thesis
  proof (cases rule: heartbeat_room_cases [where feed_stale = fs and stopping = st and rval = rval])
    case (listeners sl ul)
    with heartbeat_listeners_frame(1) [OF listeners(5)] ep Auth_heartbeat show ?thesis by (simp add: auth_frame_def)
  qed (use ep Auth_heartbeat in \<open>auto simp: vis_authority_stopping_def auth_frame_def\<close>)
qed

text \<open>
  C19 While an authority is fresh nothing can replace it but a higher epoch: the adopted epoch of a
  room never falls, and a message of a lower epoch, batch or heartbeat, changes nothing of the room but the
  counter of such messages.
\<close>

theorem fresh_epoch_never_lowered:
  assumes "\<not> slv_vis_authority_stale (rm_vis_auth_last_us room) now (janus_slvoice_vis_stale_us k)"
  shows "rm_vis_auth_epoch room \<le> rm_vis_auth_epoch (auth_deliver k now msg room) \<and>
    (case auth_msg_epoch msg of
       None \<Rightarrow> True
     | Some e \<Rightarrow> if e < rm_vis_auth_epoch room
                then auth_deliver k now msg room = room\<lparr>rm_vis_stale_epoch_rejects := rm_vis_stale_epoch_rejects room + 1\<rparr>
                else True)"
proof
  show "rm_vis_auth_epoch room \<le> rm_vis_auth_epoch (auth_deliver k now msg room)"
    using assms by (auto simp: deliver_epoch epoch_decide_stale_iff not_less split: option.split)
  show "case auth_msg_epoch msg of
       None \<Rightarrow> True
     | Some e \<Rightarrow> if e < rm_vis_auth_epoch room
                then auth_deliver k now msg room = room\<lparr>rm_vis_stale_epoch_rejects := rm_vis_stale_epoch_rejects room + 1\<rparr>
                else True"
  proof (cases "auth_msg_epoch msg")
    case (Some e)
    have a: "janus_slvoice_vis_adopt_locked k e now room =
        (SLV_VIS_EPOCH_STALE, room\<lparr>rm_vis_stale_epoch_rejects := rm_vis_stale_epoch_rejects room + 1\<rparr>)"
      if "e < rm_vis_auth_epoch room"
    proof -
      have "rm_vis_auth_epoch room \<noteq> 0" using that by auto
      then have "slv_vis_epoch_decide (rm_vis_auth_epoch room) (rm_vis_auth_last_us room) now
          (janus_slvoice_vis_stale_us k) e = SLV_VIS_EPOCH_STALE"
        using that assms by (simp add: epoch_decide_stale_iff)
      then show ?thesis by (simp add: janus_slvoice_vis_adopt_locked_def Let_def)
    qed
    show ?thesis
    proof (cases msg)
      case (Auth_batch vb)
      with Some a show ?thesis
        by (auto simp: janus_slvoice_vis_batch_authority_locked_def split: if_splits)
    next
      case (Auth_heartbeat e' fs st rval)
      with Some a show ?thesis by (auto simp: heartbeat_room_def split: if_splits)
    qed
  qed simp
qed

text \<open>
  What an accepted heartbeat does to the records, in full: a listener it names at its
  generation is confirmed, one it names at another generation is stale, one it omits is disarmed, one it names that has no
  record stays without; and a heartbeat built before the last applied batch changes no record.
\<close>

theorem heartbeat_records_exact:
  assumes "slv_vis_epoch_decide (rm_vis_auth_epoch room) (rm_vis_auth_last_us room) now
      (janus_slvoice_vis_stale_us k) (rm_vis_auth_epoch room) = SLV_VIS_EPOCH_EQUAL"
    and "json_object_get (Some (JObject rval)) ''listeners'' = Some (JObject ls)" and "distinct (map fst ls)"
  shows "map_of (rm_vis_records (fst (heartbeat_room k (rm_vis_auth_epoch room) False False now (JObject rval) room))) l =
     (if vis_entry_outdated (JObject rval) room then map_of (rm_vis_records room) l
      else case map_of ls l of
        None \<Rightarrow> None
      | Some g \<Rightarrow> map_option (\<lambda>r.
          if vr_epoch r \<noteq> rm_vis_auth_epoch room then r
          else if g = JInt (int (unat (vr_listener_gen r))) then r\<lparr>vr_confirmed_us := now\<rparr>
          else r\<lparr>vr_stale := True\<rparr>) (map_of (rm_vis_records room) l))"
proof -
  have a: "janus_slvoice_vis_adopt_locked k (rm_vis_auth_epoch room) now room =
      (SLV_VIS_EPOCH_EQUAL, room\<lparr>rm_vis_auth_last_us := now\<rparr>)"
    using assms(1) by (simp add: janus_slvoice_vis_adopt_locked_def Let_def)
  have o: "vis_entry_outdated j (room\<lparr>rm_vis_auth_last_us := n\<rparr>) = vis_entry_outdated j room" for j n
    by (simp add: vis_entry_outdated_def)
  from a show ?thesis
  proof (cases rule: heartbeat_room_cases [where feed_stale = False and stopping = False and rval = "JObject rval"])
    case (listeners st un)
    have "distinct (map fst (json_members (if json_is_object (Some (JObject rval))
        then json_object_get (Some (JObject rval)) ''listeners'' else None)))"
      using assms(2,3) by simp
    from heartbeat_listeners_records [OF listeners(5) this, of l] listeners(4) assms(2) o show ?thesis
      by (simp add: heartbeat_record_def [abs_def] cong: option.case_cong)
  qed (use o in auto)
qed


subsection \<open>A concrete run\<close>

definition auth_knobs_sample :: slv_knobs where
  "auth_knobs_sample =
     \<lparr>kn_fail_closed = True, kn_stale_ms = 8000, kn_mixer_instance = ''0123456789abcdef'', kn_room_size = 50,
      kn_empty_room_grace_s = 60, kn_join_media_timeout_s = 30, kn_echo_autostart = False,
      kn_join_cap_required = False, kn_join_cap_key = None, kn_spatial = slv_spatial\<rparr>"

definition auth_replace_sample :: slv_visbatch where
  "auth_replace_sample = slv_visbatch_zero\<lparr>vb_op := SLV_VIS_OP_REPLACE, vb_room := 7,
     vb_entries := [\<lparr>e_listener = ''l'', e_excl = [''s'']\<rparr>],
     vb_mute_entries := [\<lparr>e_listener = ''l'', e_excl = []\<rparr>],
     vb_has_epoch := True, vb_room_epoch := 10, vb_policy_generation := 1\<rparr>"

definition auth_add_sample :: slv_visbatch where
  "auth_add_sample = slv_visbatch_zero\<lparr>vb_op := SLV_VIS_OP_ADD, vb_room := 7,
     vb_entries := [\<lparr>e_listener = ''l'', e_excl = [''t'']\<rparr>],
     vb_has_epoch := True, vb_room_epoch := 10, vb_policy_generation := 2,
     vb_base := [\<lparr>bs_listener = ''l'', bs_gen = 1\<rparr>]\<rparr>"

definition auth_history_sample :: sim_history where
  "auth_history_sample e g l =
     (if l = ''l'' then (if g = 1 then ({''s''}, {}) else if g = 2 then ({''s'', ''t''}, {}) else ({}, {})) else ({}, {}))"

definition auth_room_sample :: janus_slvoice_room where
  "auth_room_sample = janus_slvoice_room_zero\<lparr>rm_vis_declared := True\<rparr>"

definition auth_armed_sample :: janus_slvoice_room where
  "auth_armed_sample = auth_deliver auth_knobs_sample 2000000 (Auth_batch auth_add_sample)
     (auth_deliver auth_knobs_sample 1000000 (Auth_batch auth_replace_sample) auth_room_sample)"

lemmas auth_sample_defs =
  auth_knobs_sample_def auth_replace_sample_def auth_add_sample_def auth_room_sample_def
  janus_slvoice_room_zero_def slv_visbatch_zero_def

lemma auth_samples_ok:
  "visbatch_ok auth_replace_sample" "visbatch_ok auth_add_sample"
  by (simp_all add: auth_sample_defs visbatch_ok_def vis_entries_ok_def vis_entry_ok_def vis_uuids_ok_def
      vis_base_ok_def slv_const SLV_UUID_LEN_def)

lemma auth_samples_named:
  "vis_named auth_replace_sample = [''l'']" "vis_named auth_add_sample = [''l'']"
  by (simp_all add: vis_named_def auth_sample_defs gset_add_def)

lemma auth_samples_sent:
  "sim_sent auth_history_sample (Auth_batch auth_replace_sample)"
  "sim_sent auth_history_sample (Auth_batch auth_add_sample)"
  unfolding sim_sent.simps auth_samples_named
  by (auto simp: auth_sample_defs janus_slvoice_vis_find_entry_def vis_base_of_def
      auth_history_sample_def delta_columns_def op_opt_def)

lemma auth_armed_sample_state:
  "map_of (rm_vis_records auth_armed_sample) ''l'' =
     Some \<lparr>vr_epoch = 10, vr_listener_gen = 2, vr_confirmed_us = 2000000, vr_stale = False,
           vr_excl = [''s'', ''t''], vr_mute = []\<rparr>"
  "rm_vis_auth_last_us auth_armed_sample = 2000000" "rm_vis_auth_epoch auth_armed_sample = 10"
  "rm_vis_auth_last_us (auth_deliver auth_knobs_sample 1000000 (Auth_batch auth_replace_sample) auth_room_sample) = 1000000"
  unfolding auth_armed_sample_def auth_deliver.simps janus_slvoice_vis_batch_authority_locked_def auth_samples_named
  by (simp_all add: auth_sample_defs janus_slvoice_vis_adopt_locked_def slv_vis_epoch_decide_def Let_def
      vis_batch_listener_def vis_arm_record_def vis_advance_record_def slv_vis_record_zero_def mirror_opt_def
      janus_slvoice_vis_find_entry_def janus_slvoice_vis_mirror_apply_def gset_add_def vis_base_of_def slv_const word_le_nat_alt)

lemma auth_armed_sample_reach:
  "auth_reach auth_knobs_sample (sim_sent auth_history_sample) auth_armed_sample"
proof -
  have "auth_reach auth_knobs_sample (sim_sent auth_history_sample) auth_room_sample"
    by (rule auth_reach.created [of _ True]) (simp_all add: auth_sample_defs auth_frame_def)
  then have "auth_reach auth_knobs_sample (sim_sent auth_history_sample)
      (auth_deliver auth_knobs_sample 1000000 (Auth_batch auth_replace_sample) auth_room_sample)"
    by (rule auth_reach.deliver)
      (simp_all add: auth_samples_ok auth_samples_sent del: sim_sent.simps auth_deliver.simps, simp add: auth_sample_defs)
  then show ?thesis
    unfolding auth_armed_sample_def
    by (rule auth_reach.deliver)
      (simp_all add: auth_samples_ok auth_samples_sent auth_armed_sample_state(4) del: sim_sent.simps auth_deliver.simps)
qed

theorem auth_reach_inv_witness:
  "distinct (map fst (rm_vis_records auth_armed_sample))"
  using auth_reach_inv [OF auth_armed_sample_reach] by simp

theorem silent_authority_silences_witness:
  "\<not> janus_slvoice_vis_ok_locked auth_knobs_sample auth_armed_sample (Some ''l'') 10000001"
  using silent_authority_silences [OF auth_armed_sample_reach, of 10000001]
  by (simp add: slv_vis_authority_stale_def auth_armed_sample_state janus_slvoice_vis_stale_us_def auth_knobs_sample_def)

theorem records_follow_history_witness:
  "({''s'', ''t''}, {}) = auth_history_sample 10 2 ''l''"
  using records_follow_history [OF auth_armed_sample_reach auth_armed_sample_state(1)] by simp

theorem only_replace_arms_witness:
  "\<exists>vb. Auth_batch auth_replace_sample = Auth_batch vb \<and> vb_has_epoch vb \<and> vb_op vb = SLV_VIS_OP_REPLACE \<and>
     ''l'' \<in> set (vis_named vb)"
proof (rule only_replace_arms)
  show "distinct (map fst (rm_vis_records auth_room_sample))"
    "case map_of (rm_vis_records auth_room_sample) ''l'' of None \<Rightarrow> True | Some r0 \<Rightarrow> vr_stale r0"
    by (simp_all add: auth_sample_defs)
  show "map_of (rm_vis_records (auth_deliver auth_knobs_sample 1000000 (Auth_batch auth_replace_sample) auth_room_sample)) ''l'' =
      Some (vis_arm_record auth_replace_sample 10 1 1000000 ''l'' slv_vis_record_zero)"
    unfolding auth_deliver.simps janus_slvoice_vis_batch_authority_locked_def auth_samples_named
    by (simp add: auth_sample_defs janus_slvoice_vis_adopt_locked_def slv_vis_epoch_decide_def Let_def
        vis_batch_listener_def slv_const)
qed (simp add: vis_arm_record_def)

theorem fresh_epoch_never_lowered_witness:
  "auth_deliver auth_knobs_sample 3000000 (Auth_heartbeat 9 False False JNull) auth_armed_sample =
     auth_armed_sample\<lparr>rm_vis_stale_epoch_rejects := rm_vis_stale_epoch_rejects auth_armed_sample + 1\<rparr>"
  using fresh_epoch_never_lowered [of auth_armed_sample 3000000 auth_knobs_sample "Auth_heartbeat 9 False False JNull"]
  by (simp add: slv_vis_authority_stale_def auth_armed_sample_state janus_slvoice_vis_stale_us_def
      auth_knobs_sample_def del: auth_deliver.simps)

theorem heartbeat_records_exact_witness:
  "map_of (rm_vis_records (fst (heartbeat_room auth_knobs_sample (rm_vis_auth_epoch auth_armed_sample) False False 3000000
     (JObject [(''listeners'', JObject [(''l'', JInt 2)])]) auth_armed_sample))) ''l'' =
     Some \<lparr>vr_epoch = 10, vr_listener_gen = 2, vr_confirmed_us = 3000000, vr_stale = False,
           vr_excl = [''s'', ''t''], vr_mute = []\<rparr>"
  by (subst heartbeat_records_exact [where ls = "[(''l'', JInt 2)]"])
    (simp_all add: auth_armed_sample_state slv_vis_epoch_decide_def vis_entry_outdated_def)


end
