(* ===== verification/Visibility.thy ===== *)
theory Visibility
  imports Authority
begin

text \<open>
  What a listener is told about the others, \<^verbatim>\<open>src/src/janus_slvoice.c\<close>: the objects relayed over a data
  channel (lines 1027-1170), the application of a visibility batch and of a mute batch to the sessions of a
  room with the deferral of columns for a listener that is not there (lines 2065-2372), the columns and the roster a
  joiner starts with (lines 2380-2460, 3118-3192), and \<^verbatim>\<open>src/src/roster.h\<close>.

  \<open>dumps\<close> stands for \<^verbatim>\<open>json_dumps\<close> with \<^verbatim>\<open>JSON_COMPACT\<close>: NULL or the text. One reading of the clock
  stands for the readings of one critical section. \<open>mem\<close> says whether the deferred store's allocations succeed.
\<close>

definition slv_roster_excludes :: "string list \<Rightarrow> string option \<Rightarrow> bool" where
  "slv_roster_excludes excluded uuid \<longleftrightarrow> (case uuid of None \<Rightarrow> False | Some u \<Rightarrow> u \<in> set excluded)"

subsection \<open>Relaying one object\<close>

definition janus_slvoice_relay_json ::
  "(json \<Rightarrow> string option) \<Rightarrow> nat \<Rightarrow> json \<Rightarrow> slv_mixer \<Rightarrow> slv_mixer \<times> bool"
where
  "janus_slvoice_relay_json dumps s obj m =
     (if \<not> se_dc_open (session_of m s) then
        (upd_session s (\<lambda>x. x\<lparr>se_presence_dropped_dc_closed := se_presence_dropped_dc_closed x + 1\<rparr>) m, False)
      else (case dumps obj of
          None \<Rightarrow> (m, False)
        | Some text \<Rightarrow>
            if length text < 65536 then
              (upd_session s (\<lambda>x. x\<lparr>se_presence_pushed := se_presence_pushed x + 1\<rparr>)
                 (m\<lparr>mx_outbox := mx_outbox m @ [(s, obj)]\<rparr>), True)
            else (m, False)))"

definition presence_entry :: "string \<Rightarrow> bool \<Rightarrow> json" where
  "presence_entry who join =
     JObject [(who, JObject [if join then (''j'', JObject [(''p'', JBool True)]) else (''l'', JBool True)])]"

definition janus_slvoice_relay_presence_one ::
  "(json \<Rightarrow> string option) \<Rightarrow> nat \<Rightarrow> string \<Rightarrow> bool \<Rightarrow> slv_mixer \<Rightarrow> slv_mixer"
where
  "janus_slvoice_relay_presence_one dumps s who join m =
     (let (m, sent) = janus_slvoice_relay_json dumps s (presence_entry who join) m in
      if sent \<and> \<not> join then upd_session s (\<lambda>x. x\<lparr>se_presence_leave_pushed := se_presence_leave_pushed x + 1\<rparr>) m
      else m)"

text \<open>One participant of the loop of \<^verbatim>\<open>janus_slvoice_push_presence\<close>; the object and the counting are
  those of \<^verbatim>\<open>relay_presence_one\<close>.\<close>

definition presence_to ::
  "(json \<Rightarrow> string option) \<Rightarrow> slv_knobs \<Rightarrow> int \<Rightarrow> nat \<Rightarrow> string \<Rightarrow> bool \<Rightarrow> nat \<Rightarrow> slv_mixer \<Rightarrow> slv_mixer"
where
  "presence_to dumps k now a who join p m =
     (let room = room_at m a; x = session_of m p in
      if se_display x = Some who then m
      else if slv_roster_excludes (se_excluded x) (Some who) then m
      else if janus_slvoice_vis_enforced k room \<and>
              \<not> janus_slvoice_vis_pair_visible_locked k room (se_display x) (Some who) now then m
      else janus_slvoice_relay_presence_one dumps p who join m)"

definition janus_slvoice_push_presence ::
  "(json \<Rightarrow> string option) \<Rightarrow> slv_knobs \<Rightarrow> int \<Rightarrow> nat \<Rightarrow> string \<Rightarrow> bool \<Rightarrow> slv_mixer \<Rightarrow> slv_mixer"
where
  "janus_slvoice_push_presence dumps k now a who join m =
     (let m = (if join then upd_room a (\<lambda>r. r\<lparr>rm_vis_joins_since_snapshot := rm_vis_joins_since_snapshot r + 1\<rparr>) m
               else m)
      in fold (presence_to dumps k now a who join) (members (room_at m a)) m)"

subsection \<open>The join backlog\<close>

definition janus_slvoice_is_mod_muted :: "janus_slvoice_session \<Rightarrow> string option \<Rightarrow> bool" where
  "janus_slvoice_is_mod_muted L uuid \<longleftrightarrow> (case uuid of None \<Rightarrow> False | Some u \<Rightarrow> u \<in> set (se_mod_muted L))"

definition backlog_entry :: "janus_slvoice_session \<Rightarrow> string \<Rightarrow> json" where
  "backlog_entry L who =
     JObject [(who, JObject ((''j'', JObject [(''p'', JBool True)]) #
       (if janus_slvoice_is_mod_muted L (Some who) then [(''m'', JBool True)] else [])))]"

definition backlog_to ::
  "(json \<Rightarrow> string option) \<Rightarrow> slv_knobs \<Rightarrow> int \<Rightarrow> nat \<Rightarrow> nat \<Rightarrow> nat \<Rightarrow> slv_mixer \<Rightarrow> slv_mixer"
where
  "backlog_to dumps k now a listener p m =
     (let room = room_at m a; L = session_of m listener in
      case se_display (session_of m p) of
        None \<Rightarrow> m
      | Some d \<Rightarrow>
          if p = listener then m
          else if slv_roster_excludes (se_excluded L) (Some d) then m
          else if janus_slvoice_vis_enforced k room \<and>
                  \<not> janus_slvoice_vis_pair_visible_locked k room (se_display L) (Some d) now then m
          else fst (janus_slvoice_relay_json dumps listener (backlog_entry L d) m))"

definition janus_slvoice_send_join_backlog_locked ::
  "(json \<Rightarrow> string option) \<Rightarrow> slv_knobs \<Rightarrow> int \<Rightarrow> nat \<Rightarrow> nat \<Rightarrow> slv_mixer \<Rightarrow> slv_mixer"
where
  "janus_slvoice_send_join_backlog_locked dumps k now listener a m =
     fold (backlog_to dumps k now a listener) (members (room_at m a)) m"

subsection \<open>The exclusion channel of a batch\<close>

text \<open>The displays of a room: the keys of \<^verbatim>\<open>by_display\<close>.\<close>

definition room_displays :: "slv_mixer \<Rightarrow> nat \<Rightarrow> string set" where
  "room_displays m a = {d. Some d \<in> (\<lambda>p. se_display (session_of m p)) ` set (members (room_at m a))}"

definition add_trans :: "string set \<Rightarrow> string \<Rightarrow> bool \<Rightarrow> (string \<times> bool) list \<Rightarrow> (string \<times> bool) list" where
  "add_trans present s flag tr =
     (if length tr < SLV_VIS_MAX_EXCL * 2 \<and> s \<in> present then tr @ [(slv_ucpy s, flag)] else tr)"

definition excl_update ::
  "string set \<Rightarrow> slv_vis_op \<Rightarrow> string list \<Rightarrow> string list \<Rightarrow> string list \<times> (string \<times> bool) list"
where
  "excl_update present op src old =
     (case op of
        SLV_VIS_OP_ADD \<Rightarrow>
          fold (\<lambda>s (c, tr). if s \<notin> set c then (gset_add s c, add_trans present s False tr) else (c, tr)) src (old, [])
      | SLV_VIS_OP_REMOVE \<Rightarrow>
          fold (\<lambda>s (c, tr). if s \<in> set c then (gset_remove s c, add_trans present s True tr) else (c, tr)) src (old, [])
      | SLV_VIS_OP_REPLACE \<Rightarrow>
         (let newset = gset_of src;
              tr = fold (\<lambda>s tr. if s \<notin> set newset then add_trans present s True tr else tr) old [];
              tr = fold (\<lambda>s tr. if s \<notin> set old then add_trans present s False tr else tr) src tr
          in (newset, tr)))"

definition relay_transitions ::
  "(json \<Rightarrow> string option) \<Rightarrow> slv_knobs \<Rightarrow> int \<Rightarrow> nat \<Rightarrow> nat \<Rightarrow> (string \<times> bool) list \<Rightarrow> slv_mixer \<Rightarrow> slv_mixer"
where
  "relay_transitions dumps k now a p tr m =
     fold (\<lambda>(who, join) m.
       if \<not> janus_slvoice_vis_enforced k (room_at m a) \<or>
          janus_slvoice_vis_pair_visible_locked k (room_at m a) (se_display (session_of m p)) (Some who) now
       then janus_slvoice_relay_presence_one dumps p who join m else m) tr m"

text \<open>One session that matches the entry's listener; then one entry.\<close>

definition visbatch_session ::
  "(json \<Rightarrow> string option) \<Rightarrow> slv_knobs \<Rightarrow> int \<Rightarrow> nat \<Rightarrow> slv_vis_op \<Rightarrow> string set \<Rightarrow> slv_vis_entry \<Rightarrow> nat \<Rightarrow>
   slv_mixer \<Rightarrow> slv_mixer"
where
  "visbatch_session dumps k now a op present e p m =
     (if se_display (session_of m p) \<noteq> Some (e_listener e) then m
      else (let (c, tr) = excl_update present op (e_excl e) (se_excluded (session_of m p));
                m = upd_session p (\<lambda>x. x\<lparr>se_excluded := c\<rparr>) m
            in relay_transitions dumps k now a p tr m))"

definition matching :: "slv_mixer \<Rightarrow> nat \<Rightarrow> string \<Rightarrow> nat list" where
  "matching m a l = filter (\<lambda>p. se_display (session_of m p) = Some l) (members (room_at m a))"

definition visbatch_entry ::
  "(json \<Rightarrow> string option) \<Rightarrow> bool \<Rightarrow> slv_knobs \<Rightarrow> int \<Rightarrow> nat \<Rightarrow> slv_vis_op \<Rightarrow> string set \<Rightarrow> string list \<Rightarrow>
   slv_vis_entry \<Rightarrow> slv_mixer \<times> nat \<Rightarrow> slv_mixer \<times> nat"
where
  "visbatch_entry dumps mem k now a op present skip e st =
     (case st of (m, dropped) \<Rightarrow>
      if e_listener e \<in> set skip then (m, dropped)
      else (let nmatch = length (matching m a (e_listener e));
                m = fold (visbatch_session dumps k now a op present e) (members (room_at m a)) m
            in if nmatch = 0 then
                 (upd_room a (\<lambda>r. r\<lparr>rm_vis_dropped_listener_entries := rm_vis_dropped_listener_entries r + 1,
                    rm_vis_deferred := slv_deferred_put mem (rm_vis_deferred r) (e_listener e) op (e_excl e) False\<rparr>) m,
                  dropped + 1)
               else (m, dropped)))"

definition janus_slvoice_apply_visbatch_locked ::
  "(json \<Rightarrow> string option) \<Rightarrow> bool \<Rightarrow> slv_knobs \<Rightarrow> int \<Rightarrow> nat \<Rightarrow> slv_visbatch \<Rightarrow> string list \<Rightarrow>
   slv_mixer \<Rightarrow> slv_mixer \<times> nat"
where
  "janus_slvoice_apply_visbatch_locked dumps mem k now a vb skip m =
     (let present = room_displays m a;
          (m, dropped) = fold (visbatch_entry dumps mem k now a (vb_op vb) present skip) (vb_entries vb) (m, 0);
          m = upd_room a (\<lambda>r. r\<lparr>rm_vis_epoch := rm_vis_epoch r + 1, rm_vis_last_ts := now,
                rm_vis_last_mode := Some (vb_op vb), rm_vis_last_batch_dropped_listeners := dropped,
                rm_vis_joins_since_snapshot :=
                  (if vb_op vb = SLV_VIS_OP_REPLACE then 0 else rm_vis_joins_since_snapshot r)\<rparr>) m
      in (m, dropped))"

subsection \<open>The mute channel of a batch\<close>

definition janus_slvoice_relay_mute_one ::
  "(json \<Rightarrow> string option) \<Rightarrow> nat \<Rightarrow> string \<Rightarrow> bool \<Rightarrow> slv_mixer \<Rightarrow> slv_mixer"
where
  "janus_slvoice_relay_mute_one dumps s who muted m =
     fst (janus_slvoice_relay_json dumps s (JObject [(who, JObject [(''m'', JBool muted)])]) m)"

definition janus_slvoice_set_mod_muted_locked :: "string \<Rightarrow> bool \<Rightarrow> string list \<Rightarrow> string list \<times> bool" where
  "janus_slvoice_set_mod_muted_locked uuid muted c =
     (if \<not> muted then (gset_remove uuid c, uuid \<in> set c)
      else if uuid \<in> set c then (c, False)
      else (gset_add uuid c, True))"

definition mute_member ::
  "bool \<Rightarrow> string \<Rightarrow> string list \<times> (string \<times> bool) list \<Rightarrow> string list \<times> (string \<times> bool) list"
where
  "mute_member want s st =
     (case st of (c, tr) \<Rightarrow>
      let (c, changed) = janus_slvoice_set_mod_muted_locked s want c in
      (c, if changed \<and> length tr < SLV_VIS_MAX_EXCL * 2 then tr @ [(slv_ucpy s, want)] else tr))"

definition mute_update :: "slv_vis_op \<Rightarrow> string list \<Rightarrow> string list \<Rightarrow> string list \<times> (string \<times> bool) list" where
  "mute_update op src old =
     (if op = SLV_VIS_OP_REPLACE then
        (let (c, tr) = fold (\<lambda>mu (c, tr).
               if mu \<in> set src then (c, tr)
               else (gset_remove mu c, if length tr < SLV_VIS_MAX_EXCL * 2 then tr @ [(slv_ucpy mu, False)] else tr))
             old (old, [])
         in fold (mute_member True) src (c, tr))
      else fold (mute_member (op = SLV_VIS_OP_ADD)) src (old, []))"

definition relay_mutes ::
  "(json \<Rightarrow> string option) \<Rightarrow> slv_knobs \<Rightarrow> int \<Rightarrow> nat \<Rightarrow> nat \<Rightarrow> (string \<times> bool) list \<Rightarrow> slv_mixer \<Rightarrow> slv_mixer"
where
  "relay_mutes dumps k now a p tr m =
     fold (\<lambda>(who, muted) m.
       if \<not> janus_slvoice_vis_enforced k (room_at m a) \<or>
          janus_slvoice_vis_pair_visible_locked k (room_at m a) (se_display (session_of m p)) (Some who) now
       then janus_slvoice_relay_mute_one dumps p who muted m else m) tr m"

definition mutebatch_session ::
  "(json \<Rightarrow> string option) \<Rightarrow> slv_knobs \<Rightarrow> int \<Rightarrow> nat \<Rightarrow> slv_vis_op \<Rightarrow> slv_vis_entry \<Rightarrow> nat \<Rightarrow> slv_mixer \<Rightarrow> slv_mixer"
where
  "mutebatch_session dumps k now a op e p m =
     (if se_display (session_of m p) \<noteq> Some (e_listener e) then m
      else (let (c, tr) = mute_update op (e_excl e) (se_mod_muted (session_of m p));
                m = upd_session p (\<lambda>x. x\<lparr>se_mod_muted := c\<rparr>) m
            in relay_mutes dumps k now a p tr m))"

definition mutebatch_entry ::
  "(json \<Rightarrow> string option) \<Rightarrow> bool \<Rightarrow> slv_knobs \<Rightarrow> int \<Rightarrow> nat \<Rightarrow> slv_vis_op \<Rightarrow> string list \<Rightarrow>
   slv_vis_entry \<Rightarrow> slv_mixer \<times> nat \<Rightarrow> slv_mixer \<times> nat"
where
  "mutebatch_entry dumps mem k now a op skip e st =
     (case st of (m, deferred) \<Rightarrow>
      if e_listener e \<in> set skip then (m, deferred)
      else (let nmatch = length (matching m a (e_listener e));
                m = fold (mutebatch_session dumps k now a op e) (members (room_at m a)) m
            in if nmatch = 0 then
                 (upd_room a (\<lambda>r. r\<lparr>rm_vis_deferred :=
                    slv_deferred_put mem (rm_vis_deferred r) (e_listener e) op (e_excl e) True\<rparr>) m, deferred + 1)
               else (m, deferred)))"

definition janus_slvoice_apply_mutebatch_locked ::
  "(json \<Rightarrow> string option) \<Rightarrow> bool \<Rightarrow> slv_knobs \<Rightarrow> int \<Rightarrow> nat \<Rightarrow> slv_visbatch \<Rightarrow> string list \<Rightarrow>
   slv_mixer \<Rightarrow> slv_mixer \<times> nat"
where
  "janus_slvoice_apply_mutebatch_locked dumps mem k now a vb skip m =
     fold (mutebatch_entry dumps mem k now a (vb_op vb) skip) (vb_mute_entries vb) (m, 0)"

text \<open>Both channels, each skipped when it is empty, as \<^verbatim>\<open>janus_slvoice_handle_admin_message\<close> applies them,
  with the number of entries deferred.\<close>

definition apply_channels ::
  "(json \<Rightarrow> string option) \<Rightarrow> bool \<Rightarrow> slv_knobs \<Rightarrow> int \<Rightarrow> nat \<Rightarrow> slv_visbatch \<Rightarrow> string list \<Rightarrow>
   slv_mixer \<Rightarrow> slv_mixer \<times> nat"
where
  "apply_channels dumps mem k now a vb skip m =
     (let (m, excl_deferred) = (if length (vb_entries vb) > 0
            then janus_slvoice_apply_visbatch_locked dumps mem k now a vb skip m else (m, 0));
          (m, mute_deferred) = (if length (vb_mute_entries vb) > 0
            then janus_slvoice_apply_mutebatch_locked dumps mem k now a vb skip m else (m, 0))
      in (m, excl_deferred + mute_deferred))"

subsection \<open>A joiner's columns and its roster\<close>

definition janus_slvoice_room_replay_deferred_locked :: "nat \<Rightarrow> nat \<Rightarrow> slv_mixer \<Rightarrow> slv_mixer" where
  "janus_slvoice_room_replay_deferred_locked a s m =
     (case se_display (session_of m s) of
        None \<Rightarrow> m
      | Some l \<Rightarrow>
         (case slv_deferred_get (rm_vis_deferred (room_at m a)) l of
            None \<Rightarrow> m
          | Some d \<Rightarrow>
             (let m = upd_session s (\<lambda>x. x\<lparr>
                    se_excluded := fold (\<lambda>u c. if u \<notin> set c then gset_add u c else c) (de_excl d) (se_excluded x),
                    se_mod_muted := fold (\<lambda>u c. fst (janus_slvoice_set_mod_muted_locked u True c)) (de_mute d)
                      (se_mod_muted x)\<rparr>) m
              in upd_room a (\<lambda>r. r\<lparr>rm_vis_deferred := snd (slv_deferred_replay_done (rm_vis_deferred r) l)\<rparr>) m)))"

definition janus_slvoice_vis_rejoin_columns_locked :: "slv_knobs \<Rightarrow> nat \<Rightarrow> nat \<Rightarrow> slv_mixer \<Rightarrow> slv_mixer \<times> bool" where
  "janus_slvoice_vis_rejoin_columns_locked k a s m =
     (let room = room_at m a in
      if \<not> janus_slvoice_vis_enforced k room then (m, False)
      else (case se_display (session_of m s) of
          None \<Rightarrow> (m, False)
        | Some l \<Rightarrow>
           (case map_of (rm_vis_records room) l of
              None \<Rightarrow> (m, False)
            | Some r \<Rightarrow>
                if vr_epoch r \<noteq> rm_vis_auth_epoch room then (m, False)
                else (let m = upd_session s (\<lambda>x. x\<lparr>
                        se_excluded := fold gset_add (vr_excl r) [],
                        se_mod_muted := fold (\<lambda>u c. fst (janus_slvoice_set_mod_muted_locked u True c)) (vr_mute r) []\<rparr>) m
                      in (upd_room a (\<lambda>r. r\<lparr>rm_vis_deferred :=
                            snd (slv_deferred_replay_done (rm_vis_deferred r) l)\<rparr>) m, True)))))"

definition janus_slvoice_participant_summary :: "janus_slvoice_session \<Rightarrow> json" where
  "janus_slvoice_participant_summary p =
     JObject ([(''id'', JInt (json_int_of_u64 (se_user_id p)))] @
       (case se_display p of None \<Rightarrow> [] | Some d \<Rightarrow> [(''display'', JString d)]) @
       [(''setup'', JBool (se_webrtc_up p)),
        (''muted'', JBool (se_last_data_fields p AND SLV_FIELD_M \<noteq> 0 \<and> sl_m (se_last_data p)))] @
       (if se_recorder p then [(''recorder'', JBool True)] else []))"

definition roster_shows :: "slv_knobs \<Rightarrow> int \<Rightarrow> nat \<Rightarrow> nat \<Rightarrow> slv_mixer \<Rightarrow> nat \<Rightarrow> bool" where
  "roster_shows k now a s m p \<longleftrightarrow>
     p \<noteq> s \<and> \<not> slv_roster_excludes (se_excluded (session_of m s)) (se_display (session_of m p)) \<and>
     \<not> (janus_slvoice_vis_enforced k (room_at m a) \<and>
        \<not> janus_slvoice_vis_pair_visible_locked k (room_at m a) (se_display (session_of m s)) (se_display (session_of m p)) now)"

text \<open>The commit of the join arm: the joiner is already among the participants.\<close>

definition janus_slvoice_join_commit_locked :: "slv_knobs \<Rightarrow> int \<Rightarrow> nat \<Rightarrow> nat \<Rightarrow> slv_mixer \<Rightarrow> slv_mixer \<times> json" where
  "janus_slvoice_join_commit_locked k now a s m =
     (let (m, took) = janus_slvoice_vis_rejoin_columns_locked k a s m;
          m = (if \<not> took then janus_slvoice_room_replay_deferred_locked a s m else m);
          m = upd_session s (\<lambda>x. x\<lparr>se_vis_ok_last :=
                janus_slvoice_vis_ok_locked k (room_at m a) (se_display x) now\<rparr>) m
      in (m, JArray (map (\<lambda>p. janus_slvoice_participant_summary (session_of m p))
                (filter (roster_shows k now a s m) (members (room_at m a))))))"

subsection \<open>Relaying changes nothing but the outbox and counters\<close>

text \<open>A session without the counters that relaying changes.\<close>

definition sess_core :: "janus_slvoice_session \<Rightarrow> janus_slvoice_session" where
  "sess_core x = x\<lparr>se_presence_pushed := 0, se_presence_dropped_dc_closed := 0, se_presence_leave_pushed := 0\<rparr>"

lemma sess_core_eqD:
  assumes "sess_core x = sess_core y"
  shows "se_display x = se_display y" "se_excluded x = se_excluded y" "se_mod_muted x = se_mod_muted y"
    "se_dc_open x = se_dc_open y" "se_vis_ok_last x = se_vis_ok_last y" "se_room x = se_room y"
  using arg_cong [OF assms, of se_display] arg_cong [OF assms, of se_excluded] arg_cong [OF assms, of se_mod_muted]
    arg_cong [OF assms, of se_dc_open] arg_cong [OF assms, of se_vis_ok_last] arg_cong [OF assms, of se_room]
  by (simp_all add: sess_core_def)

definition relayed :: "slv_mixer \<Rightarrow> slv_mixer \<Rightarrow> bool" where
  "relayed m m' \<longleftrightarrow> mx_heap m' = mx_heap m \<and> mx_rooms m' = mx_rooms m \<and> mx_live m' = mx_live m \<and>
     mx_next_room m' = mx_next_room m \<and> (\<forall>s. sess_core (session_of m' s) = sess_core (session_of m s))"

lemma relayed_refl [simp]: "relayed m m"
  by (simp add: relayed_def)

lemma relayed_trans: "relayed m m' \<Longrightarrow> relayed m' m'' \<Longrightarrow> relayed m m''"
  by (simp add: relayed_def)

lemma relayed_sel:
  assumes "relayed m m'"
  shows "mx_heap m' = mx_heap m" "se_display (session_of m' s) = se_display (session_of m s)"
    "se_excluded (session_of m' s) = se_excluded (session_of m s)"
    "se_mod_muted (session_of m' s) = se_mod_muted (session_of m s)"
    "se_dc_open (session_of m' s) = se_dc_open (session_of m s)"
  using assms sess_core_eqD [of "session_of m' s" "session_of m s"] by (simp_all add: relayed_def)

definition sendable :: "(json \<Rightarrow> string option) \<Rightarrow> slv_mixer \<Rightarrow> nat \<Rightarrow> json \<Rightarrow> bool" where
  "sendable dumps m s obj \<longleftrightarrow> se_dc_open (session_of m s) \<and>
     (case dumps obj of None \<Rightarrow> False | Some text \<Rightarrow> length text < 65536)"

lemma sendable_relayed: "relayed m m' \<Longrightarrow> sendable dumps m' s obj = sendable dumps m s obj"
  by (simp add: sendable_def relayed_sel)

lemma relay_json:
  assumes "janus_slvoice_relay_json dumps s obj m = (m', sent)"
  shows "relayed m m'" "sent = sendable dumps m s obj"
    "mx_outbox m' = mx_outbox m @ (if sendable dumps m s obj then [(s, obj)] else [])"
  using assms
  by (auto simp: janus_slvoice_relay_json_def sendable_def relayed_def sess_core_def upd_session_def
      split: if_splits option.splits)

lemma relay_json_fst:
  "relayed m (fst (janus_slvoice_relay_json dumps s obj m))"
  "mx_outbox (fst (janus_slvoice_relay_json dumps s obj m)) =
     mx_outbox m @ (if sendable dumps m s obj then [(s, obj)] else [])"
  using relay_json [of dumps s obj m, OF prod.collapse [symmetric]] by simp_all

lemma relay_presence_one:
  "relayed m (janus_slvoice_relay_presence_one dumps s who join m)"
  "mx_outbox (janus_slvoice_relay_presence_one dumps s who join m) =
     mx_outbox m @ (if sendable dumps m s (presence_entry who join) then [(s, presence_entry who join)] else [])"
proof -
  obtain m1 sent where r: "janus_slvoice_relay_json dumps s (presence_entry who join) m = (m1, sent)" by fastforce
  note R = relay_json [OF r]
  have "relayed m1 (upd_session s (\<lambda>x. x\<lparr>se_presence_leave_pushed := se_presence_leave_pushed x + 1\<rparr>) m1)"
    by (simp add: relayed_def upd_session_def sess_core_def)
  then show "relayed m (janus_slvoice_relay_presence_one dumps s who join m)"
    using R(1) r by (auto simp: janus_slvoice_relay_presence_one_def intro: relayed_trans)
  show "mx_outbox (janus_slvoice_relay_presence_one dumps s who join m) =
     mx_outbox m @ (if sendable dumps m s (presence_entry who join) then [(s, presence_entry who join)] else [])"
    using R(2,3) r by (simp add: janus_slvoice_relay_presence_one_def)
qed

text \<open>A loop of relays sends, in order, what each of its turns would send from the state at its start.\<close>

lemma fold_relayed:
  assumes "\<And>x m. relayed m (f x m)" and "\<And>x m. mx_outbox (f x m) = mx_outbox m @ g x m"
    and "\<And>x m m'. relayed m m' \<Longrightarrow> g x m' = g x m"
  shows "relayed m (fold f xs m) \<and> mx_outbox (fold f xs m) = mx_outbox m @ concat (map (\<lambda>x. g x m) xs)"
proof (induction xs arbitrary: m)
  case (Cons x xs)
  have "map (\<lambda>y. g y (f x m)) xs = map (\<lambda>y. g y m) xs" using assms(1,3) by simp
  with Cons.IH [of "f x m"] assms(1) [of m x] assms(2) [of x m] show ?case
    by (auto intro: relayed_trans)
qed simp

lemma concat_map_singletons: "concat (map (\<lambda>x. if P x then [h x] else []) xs) = map h (filter P xs)"
  by (induction xs) auto

subsection \<open>Who is told\<close>

definition told :: "slv_knobs \<Rightarrow> int \<Rightarrow> janus_slvoice_room \<Rightarrow> janus_slvoice_session \<Rightarrow> string \<Rightarrow> bool" where
  "told k now room x who \<longleftrightarrow> who \<notin> set (se_excluded x) \<and>
     (janus_slvoice_vis_enforced k room \<longrightarrow>
        janus_slvoice_vis_pair_visible_locked k room (se_display x) (Some who) now)"

lemma room_rule_cong:
  assumes "auth_frame r' = auth_frame r" "rm_vis_records r' = rm_vis_records r"
  shows "janus_slvoice_vis_enforced k r' = janus_slvoice_vis_enforced k r"
    and "janus_slvoice_vis_ok_locked k r' d now = janus_slvoice_vis_ok_locked k r d now"
    and "janus_slvoice_vis_pair_visible_locked k r' d d' now = janus_slvoice_vis_pair_visible_locked k r d d' now"
proof -
  have e: "rm_vis_auth_epoch r' = rm_vis_auth_epoch r" "rm_vis_declared r' = rm_vis_declared r"
    using assms(1) by (simp_all add: auth_frame_def)
  show "janus_slvoice_vis_enforced k r' = janus_slvoice_vis_enforced k r"
    by (simp add: janus_slvoice_vis_enforced_def e)
  have ok: "janus_slvoice_vis_ok_locked k r' d now = janus_slvoice_vis_ok_locked k r d now" for d
    unfolding janus_slvoice_vis_ok_locked_def janus_slvoice_vis_row_locked_def assms(2) e by (rule refl)
  show "janus_slvoice_vis_ok_locked k r' d now = janus_slvoice_vis_ok_locked k r d now" by (rule ok)
  show "janus_slvoice_vis_pair_visible_locked k r' d d' now = janus_slvoice_vis_pair_visible_locked k r d d' now"
    by (simp add: janus_slvoice_vis_pair_visible_locked_def ok)
qed

lemma told_cong:
  "auth_frame r' = auth_frame r \<Longrightarrow> rm_vis_records r' = rm_vis_records r \<Longrightarrow> told k now r' x who = told k now r x who"
  by (simp add: told_def room_rule_cong(1,3) [of r' r])

lemma presence_to_step:
  "relayed m (presence_to dumps k now a who join p m)"
  "mx_outbox (presence_to dumps k now a who join p m) = mx_outbox m @
     (if se_display (session_of m p) \<noteq> Some who \<and> told k now (room_at m a) (session_of m p) who \<and>
         sendable dumps m p (presence_entry who join)
      then [(p, presence_entry who join)] else [])"
  by (auto simp: presence_to_def Let_def told_def slv_roster_excludes_def relay_presence_one)

lemma push_presence_outbox:
  "mx_outbox (janus_slvoice_push_presence dumps k now a who join m) = mx_outbox m @
     map (\<lambda>p. (p, presence_entry who join))
       (filter (\<lambda>p. se_display (session_of m p) \<noteq> Some who \<and> told k now (room_at m a) (session_of m p) who \<and>
          sendable dumps m p (presence_entry who join)) (members (room_at m a)))"
proof -
  let ?P = "\<lambda>m p. se_display (session_of m p) \<noteq> Some who \<and> told k now (room_at m a) (session_of m p) who \<and>
      sendable dumps m p (presence_entry who join)"
  have F: "mx_outbox (fold (presence_to dumps k now a who join) ps m1) =
      mx_outbox m1 @ concat (map (\<lambda>p. if ?P m1 p then [(p, presence_entry who join)] else []) ps)" for ps m1
    by (rule fold_relayed [THEN conjunct2])
      (auto simp: presence_to_step relayed_sel sendable_relayed told_def)
  let ?m = "upd_room a (\<lambda>r. r\<lparr>rm_vis_joins_since_snapshot := rm_vis_joins_since_snapshot r + 1\<rparr>) m"
  have "told k now (room_at ?m a) x who = told k now (room_at m a) x who" for x
    by (rule told_cong) (simp_all add: auth_frame_def)
  then have P: "?P ?m = ?P m" by (simp add: sendable_def fun_eq_iff)
  have same: "members (room_at ?m a) = members (room_at m a)" "mx_outbox ?m = mx_outbox m" by simp_all
  define m0 where "m0 = (if join then ?m else m)"
  have "?P m0 = ?P m" "members (room_at m0 a) = members (room_at m a)" "mx_outbox m0 = mx_outbox m"
  proof -
    have "m0 = ?m \<or> m0 = m" by (simp add: m0_def)
    then show "?P m0 = ?P m" "members (room_at m0 a) = members (room_at m a)" "mx_outbox m0 = mx_outbox m"
      by (elim disjE; simp only: P same)+
  qed
  note S = this
  show ?thesis
    unfolding janus_slvoice_push_presence_def Let_def m0_def [symmetric] F S(2,3) concat_map_singletons S(1)
    by (rule refl)
qed

text \<open>
  A join or leave is announced to exactly those who may see its subject: the objects sent are
  one notice to every other participant whose exclusions do not hold the subject, whose channel is open and, in
  an enforced room, who stands in row 4 together with the subject, in the order of the participants.
\<close>

theorem push_presence_exact:
  "mx_outbox (janus_slvoice_push_presence dumps k now a who join m) = mx_outbox m @
     map (\<lambda>p. (p, presence_entry who join))
       (filter (\<lambda>p. se_display (session_of m p) \<noteq> Some who \<and> told k now (room_at m a) (session_of m p) who \<and>
          sendable dumps m p (presence_entry who join)) (members (room_at m a)))"
  by (rule push_presence_outbox)

text \<open>
  A newcomer's backlog reveals exactly what a live join would have: for every other named
  participant the newcomer may see, and for nobody else, one join notice, carrying the mute flag exactly when the
  newcomer moderation-mutes that participant.
\<close>

theorem join_backlog_exact:
  "mx_outbox (janus_slvoice_send_join_backlog_locked dumps k now s a m) = mx_outbox m @
     concat (map (\<lambda>p. case se_display (session_of m p) of
         None \<Rightarrow> []
       | Some d \<Rightarrow>
           if p \<noteq> s \<and> told k now (room_at m a) (session_of m s) d \<and> sendable dumps m s (backlog_entry (session_of m s) d)
           then [(s, JObject [(d, JObject ((''j'', JObject [(''p'', JBool True)]) #
                     (if d \<in> set (se_mod_muted (session_of m s)) then [(''m'', JBool True)] else [])))])]
           else []) (members (room_at m a)))"
proof -
  let ?g = "\<lambda>p m. case se_display (session_of m p) of
         None \<Rightarrow> []
       | Some d \<Rightarrow>
           if p \<noteq> s \<and> told k now (room_at m a) (session_of m s) d \<and> sendable dumps m s (backlog_entry (session_of m s) d)
           then [(s, backlog_entry (session_of m s) d)] else []"
  have step: "relayed m (backlog_to dumps k now a s p m)"
    "mx_outbox (backlog_to dumps k now a s p m) = mx_outbox m @ ?g p m" for p m
  proof -
    show "relayed m (backlog_to dumps k now a s p m)"
      by (auto simp: backlog_to_def Let_def relay_json_fst split: option.split)
    show "mx_outbox (backlog_to dumps k now a s p m) = mx_outbox m @ ?g p m"
      by (auto simp: backlog_to_def Let_def told_def slv_roster_excludes_def relay_json_fst split: option.split)
  qed
  have entry: "backlog_entry (session_of m' s) d = backlog_entry (session_of m s) d" if "relayed m m'" for m m' d
    using that by (simp add: backlog_entry_def janus_slvoice_is_mod_muted_def relayed_sel)
  have "mx_outbox (fold (backlog_to dumps k now a s) (members (room_at m a)) m) =
      mx_outbox m @ concat (map (\<lambda>p. ?g p m) (members (room_at m a)))"
    by (rule fold_relayed [THEN conjunct2, OF step])
      (auto simp: relayed_sel sendable_relayed told_def entry split: option.split)
  moreover have "backlog_entry (session_of m s) d = JObject [(d, JObject ((''j'', JObject [(''p'', JBool True)]) #
      (if d \<in> set (se_mod_muted (session_of m s)) then [(''m'', JBool True)] else [])))]" for d
    by (simp add: backlog_entry_def janus_slvoice_is_mod_muted_def)
  ultimately show ?thesis by (simp only: janus_slvoice_send_join_backlog_locked_def)
qed

subsection \<open>One column of one session\<close>

lemma fold_fst:
  assumes "\<And>s c tr. fst (f s (c, tr)) = g s c"
  shows "fst (fold f xs (c, tr)) = fold g xs c"
proof (induction xs arbitrary: c tr)
  case (Cons x xs)
  obtain c' tr' where s: "f x (c, tr) = (c', tr')" by fastforce
  with assms [of x c tr] Cons.IH [of c' tr'] show ?case by simp
qed simp

lemma fold_gset_add_guard: "fold (\<lambda>s c. if s \<notin> set c then gset_add s c else c) xs c = fold gset_add xs c"
  by (induction xs arbitrary: c) (auto simp: gset_add_def)

lemma fold_gset_remove_guard: "fold (\<lambda>s c. if s \<in> set c then gset_remove s c else c) xs c = fold gset_remove xs c"
proof (induction xs arbitrary: c)
  case (Cons x xs)
  have "gset_remove x c = c" if "x \<notin> set c" using that by (auto simp: gset_remove_def filter_id_conv)
  with Cons show ?case by simp
qed simp

lemma excl_update_fst:
  "fst (excl_update present op src old) =
     (case op of SLV_VIS_OP_ADD \<Rightarrow> fold gset_add src old
      | SLV_VIS_OP_REMOVE \<Rightarrow> fold gset_remove src old
      | SLV_VIS_OP_REPLACE \<Rightarrow> gset_of src)"
  unfolding fold_gset_add_guard [symmetric] fold_gset_remove_guard [symmetric]
  by (cases op) (auto simp: excl_update_def Let_def intro!: fold_fst)

lemma excl_update_set:
  "set (fst (excl_update present op src old)) = op_apply op (set src) (set old)"
  by (cases op) (simp_all add: excl_update_fst)

lemma mute_member_fst: "fst (mute_member want s (c, tr)) = (if want then gset_add s c else gset_remove s c)"
  by (auto simp: mute_member_def janus_slvoice_set_mod_muted_locked_def gset_add_def)

lemma mute_members_set:
  "set (fst (fold (mute_member want) src (c, tr))) = (if want then set c \<union> set src else set c - set src)"
proof -
  have "fst (fold (mute_member want) src (c, tr)) =
      fold (\<lambda>s c. if want then gset_add s c else gset_remove s c) src c"
    by (rule fold_fst) (rule mute_member_fst)
  then show ?thesis by (cases want) simp_all
qed

lemma mute_replace_remove:
  "set (fst (fold (\<lambda>mu (c, tr). if mu \<in> S then (c, tr)
     else (gset_remove mu c, if length tr < N then tr @ [(slv_ucpy mu, False)] else tr)) xs (c, tr))) =
   set c - (set xs - S)"
proof -
  have "fst (fold (\<lambda>mu (c, tr). if mu \<in> S then (c, tr)
     else (gset_remove mu c, if length tr < N then tr @ [(slv_ucpy mu, False)] else tr)) xs (c, tr)) =
     fold (\<lambda>mu c. if mu \<in> S then c else gset_remove mu c) xs c"
    by (rule fold_fst) simp
  also have "set \<dots> = set c - (set xs - S)"
    by (induction xs arbitrary: c) auto
  finally show ?thesis .
qed

lemma mute_update_set: "set (fst (mute_update op src old)) = op_apply op (set src) (set old)"
proof (cases "op = SLV_VIS_OP_REPLACE")
  case True
  obtain c tr where f: "fold (\<lambda>mu (c, tr). if mu \<in> set src then (c, tr)
      else (gset_remove mu c, if length tr < SLV_VIS_MAX_EXCL * 2 then tr @ [(slv_ucpy mu, False)] else tr)) old (old, []) = (c, tr)"
    by fastforce
  have "set c = set old - (set old - set src)"
    using mute_replace_remove [of "set src" "SLV_VIS_MAX_EXCL * 2" old old "[]"] f by simp
  with True f mute_members_set [of True src c tr] show ?thesis by (auto simp: mute_update_def)
next
  case False
  with mute_members_set [of "op = SLV_VIS_OP_ADD" src old "[]"] show ?thesis
    by (cases op) (simp_all add: mute_update_def)
qed

subsection \<open>What the two channels of a batch do to a room\<close>

text \<open>The columns of a session, and what a batch does to a listener's columns.\<close>

definition session_cols :: "slv_mixer \<Rightarrow> nat \<Rightarrow> columns" where
  "session_cols m s = (set (se_excluded (session_of m s)), set (se_mod_muted (session_of m s)))"

definition entries_for :: "string \<Rightarrow> string list \<Rightarrow> slv_vis_entry list \<Rightarrow> slv_vis_entry list" where
  "entries_for l skip es = filter (\<lambda>e. e_listener e = l \<and> e_listener e \<notin> set skip) es"

definition channel_spec :: "bool \<Rightarrow> slv_vis_op \<Rightarrow> string list \<Rightarrow> slv_vis_entry list \<Rightarrow> string \<Rightarrow> columns \<Rightarrow> columns" where
  "channel_spec is_mute op skip es l c = fold (\<lambda>e. col_step is_mute op (set (e_excl e))) (entries_for l skip es) c"

definition batch_spec :: "slv_visbatch \<Rightarrow> string list \<Rightarrow> string \<Rightarrow> columns \<Rightarrow> columns" where
  "batch_spec vb skip l c =
     channel_spec True (vb_op vb) skip (vb_mute_entries vb) l (channel_spec False (vb_op vb) skip (vb_entries vb) l c)"

text \<open>A session without the columns as well, and what of a room decides who is a participant and what rule holds.\<close>

definition sess_frame :: "janus_slvoice_session \<Rightarrow> janus_slvoice_session" where
  "sess_frame x = (sess_core x)\<lparr>se_excluded := [], se_mod_muted := []\<rparr>"

definition room_seat :: "janus_slvoice_room \<Rightarrow> nat \<times> bool \<times> int \<times> bool \<times> bool" where
  "room_seat r = (rm_room_id r, rm_permanent r, rm_empty_since r, rm_destroyed r, rm_tick_running r)"

definition room_frame :: "janus_slvoice_room \<Rightarrow> (nat \<times> nat) list \<times> (string \<times> slv_vis_record) list \<times> (u64 \<times> u32 \<times> int \<times> bool) \<times>
  nat \<times> bool \<times> int \<times> bool \<times> bool" where
  "room_frame r = (rm_participants r, rm_vis_records r, auth_frame r, room_seat r)"

definition settled :: "nat \<Rightarrow> slv_mixer \<Rightarrow> slv_mixer \<Rightarrow> bool" where
  "settled a m m' \<longleftrightarrow> room_frame (room_at m' a) = room_frame (room_at m a) \<and>
     (\<forall>b. b \<noteq> a \<longrightarrow> room_at m' b = room_at m b) \<and>
     mx_rooms m' = mx_rooms m \<and> mx_live m' = mx_live m \<and> mx_next_room m' = mx_next_room m \<and>
     (\<forall>s. sess_frame (session_of m' s) = sess_frame (session_of m s))"

lemma settled_refl [simp]: "settled a m m"
  by (simp add: settled_def)

lemma settled_trans: "settled a m m' \<Longrightarrow> settled a m' m'' \<Longrightarrow> settled a m m''"
  by (simp add: settled_def)

lemma relayed_settled: "relayed m m' \<Longrightarrow> settled a m m'"
  by (simp add: relayed_def settled_def sess_frame_def)

lemma sess_frame_display: "sess_frame x = sess_frame y \<Longrightarrow> se_display x = se_display y"
  by (drule arg_cong [of _ _ se_display]) (simp add: sess_frame_def sess_core_def)

lemma settled_sel:
  assumes "settled a m m'"
  shows "members (room_at m' a) = members (room_at m a)"
    "se_display (session_of m' s) = se_display (session_of m s)"
    "matching m' a l = matching m a l"
proof -
  show d: "se_display (session_of m' s) = se_display (session_of m s)" for s
    using assms unfolding settled_def by (intro sess_frame_display) blast
  show mem: "members (room_at m' a) = members (room_at m a)"
    using assms by (simp add: settled_def room_frame_def)
  show "matching m' a l = matching m a l" unfolding matching_def mem d by (rule refl)
qed

lemma relay_loop:
  assumes "\<And>x m. relayed m (f x m)"
  shows "relayed m (fold f xs m)"
  by (induction xs arbitrary: m) (auto intro: relayed_trans assms)

lemma relay_transitions_relayed: "relayed m (relay_transitions dumps k now a p tr m)"
  unfolding relay_transitions_def by (rule relay_loop) (auto simp: relay_presence_one split: prod.split)

lemma relay_mutes_relayed: "relayed m (relay_mutes dumps k now a p tr m)"
  unfolding relay_mutes_def
  by (rule relay_loop) (auto simp: janus_slvoice_relay_mute_one_def relay_json_fst split: prod.split)

lemma relayed_cols: "relayed m m' \<Longrightarrow> session_cols m' s = session_cols m s"
  by (simp add: session_cols_def relayed_sel)

lemma upd_cols_settled:
  assumes "\<And>x. sess_frame (f x) = sess_frame x"
  shows "settled a m (upd_session p f m)"
  using assms by (simp add: settled_def upd_session_def)

lemma visbatch_session:
  "settled a m (visbatch_session dumps k now a op present e p m)"
  "mx_heap (visbatch_session dumps k now a op present e p m) = mx_heap m"
  "session_cols (visbatch_session dumps k now a op present e p m) s =
     (if s = p \<and> se_display (session_of m s) = Some (e_listener e)
      then col_step False op (set (e_excl e)) (session_cols m s) else session_cols m s)"
proof -
  let ?c = "excl_update present op (e_excl e) (se_excluded (session_of m p))"
  let ?m = "upd_session p (\<lambda>x. x\<lparr>se_excluded := fst ?c\<rparr>) m"
  have R: "relayed ?m (relay_transitions dumps k now a p (snd ?c) ?m)" by (rule relay_transitions_relayed)
  have S: "settled a m ?m" by (rule upd_cols_settled) (simp add: sess_frame_def sess_core_def)
  have e: "visbatch_session dumps k now a op present e p m =
      (if se_display (session_of m p) \<noteq> Some (e_listener e) then m else relay_transitions dumps k now a p (snd ?c) ?m)"
    by (simp add: visbatch_session_def case_prod_unfold Let_def)
  show "settled a m (visbatch_session dumps k now a op present e p m)"
    unfolding e using S relayed_settled [OF R] by (auto intro: settled_trans)
  show "mx_heap (visbatch_session dumps k now a op present e p m) = mx_heap m"
    unfolding e using relayed_sel(1) [OF R] by simp
  have "session_cols ?m s = (if s = p then (set (fst ?c), set (se_mod_muted (session_of m p))) else session_cols m s)"
    by (simp add: session_cols_def upd_session_def)
  then show "session_cols (visbatch_session dumps k now a op present e p m) s =
     (if s = p \<and> se_display (session_of m s) = Some (e_listener e)
      then col_step False op (set (e_excl e)) (session_cols m s) else session_cols m s)"
    unfolding e using relayed_cols [OF R, of s]
    by (auto simp: col_step_def excl_update_set session_cols_def)
qed

lemma mutebatch_session:
  "settled a m (mutebatch_session dumps k now a op e p m)"
  "mx_heap (mutebatch_session dumps k now a op e p m) = mx_heap m"
  "session_cols (mutebatch_session dumps k now a op e p m) s =
     (if s = p \<and> se_display (session_of m s) = Some (e_listener e)
      then col_step True op (set (e_excl e)) (session_cols m s) else session_cols m s)"
proof -
  let ?c = "mute_update op (e_excl e) (se_mod_muted (session_of m p))"
  let ?m = "upd_session p (\<lambda>x. x\<lparr>se_mod_muted := fst ?c\<rparr>) m"
  have R: "relayed ?m (relay_mutes dumps k now a p (snd ?c) ?m)" by (rule relay_mutes_relayed)
  have S: "settled a m ?m" by (rule upd_cols_settled) (simp add: sess_frame_def sess_core_def)
  have e: "mutebatch_session dumps k now a op e p m =
      (if se_display (session_of m p) \<noteq> Some (e_listener e) then m else relay_mutes dumps k now a p (snd ?c) ?m)"
    by (simp add: mutebatch_session_def case_prod_unfold Let_def)
  show "settled a m (mutebatch_session dumps k now a op e p m)"
    unfolding e using S relayed_settled [OF R] by (auto intro: settled_trans)
  show "mx_heap (mutebatch_session dumps k now a op e p m) = mx_heap m"
    unfolding e using relayed_sel(1) [OF R] by simp
  have "session_cols ?m s = (if s = p then (set (se_excluded (session_of m p)), set (fst ?c)) else session_cols m s)"
    by (simp add: session_cols_def upd_session_def)
  then show "session_cols (mutebatch_session dumps k now a op e p m) s =
     (if s = p \<and> se_display (session_of m s) = Some (e_listener e)
      then col_step True op (set (e_excl e)) (session_cols m s) else session_cols m s)"
    unfolding e using relayed_cols [OF R, of s]
    by (auto simp: col_step_def mute_update_set session_cols_def)
qed

text \<open>A loop over the sessions of a room whose turn changes the columns of that session when its display matches.\<close>

lemma fold_settled: "(\<And>p m. settled a m (f p m)) \<Longrightarrow> settled a m (fold f ps m)"
  by (induction ps arbitrary: m) (auto intro: settled_trans)

lemma fold_heap: "(\<And>p m. mx_heap (f p m) = mx_heap m) \<Longrightarrow> mx_heap (fold f ps m) = mx_heap m"
  by (induction ps arbitrary: m) simp_all

lemma fold_sessions:
  assumes "\<And>p m. settled a m (f p m)"
    and "\<And>p m s. session_cols (f p m) s =
      (if s = p \<and> se_display (session_of m s) = Some l then h (session_cols m s) else session_cols m s)"
    and "distinct ps"
  shows "session_cols (fold f ps m) s =
      (if s \<in> set ps \<and> se_display (session_of m s) = Some l then h (session_cols m s) else session_cols m s)"
  using assms(3)
proof (induction ps arbitrary: m)
  case (Cons p ps)
  have d: "se_display (session_of (f p m) s) = se_display (session_of m s)"
    by (rule settled_sel(2) [OF assms(1)])
  with Cons.IH [of "f p m"] Cons.prems assms(2) [of p m s] show ?case by auto
qed simp

subsection \<open>The contract of a channel\<close>

text \<open>
  A channel of a batch handles one entry at a time: the columns of the sessions the entry names change by its op,
  and an entry that names nobody in the room goes to the deferred store and is counted. The two channels differ in the
  column; what a whole channel does follows from the contract.
\<close>

definition channel_deposit :: "bool \<Rightarrow> slv_vis_op \<Rightarrow> slv_vis_entry \<Rightarrow> deposit" where
  "channel_deposit is_mute op e = \<lparr>dp_listener = e_listener e, dp_op = op, dp_src = e_excl e, dp_mute = is_mute\<rparr>"

locale batch_columns =
  fixes a :: nat and is_mute :: bool and op :: slv_vis_op and skip :: "string list"
    and entry :: "slv_vis_entry \<Rightarrow> slv_mixer \<times> nat \<Rightarrow> slv_mixer \<times> nat"
  assumes entry_settled: "settled a m (fst (entry e (m, n)))"
    and entry_cols: "distinct (members (room_at m a)) \<Longrightarrow> session_cols (fst (entry e (m, n))) s =
      (if s \<in> set (members (room_at m a)) \<and> se_display (session_of m s) = Some (e_listener e) \<and> e_listener e \<notin> set skip
       then col_step is_mute op (set (e_excl e)) (session_cols m s) else session_cols m s)"
begin

lemma run_settled: "settled a m (fst (fold entry es (m, n)))"
proof (induction es arbitrary: m n)
  case (Cons e es)
  obtain m1 n1 where s: "entry e (m, n) = (m1, n1)" by fastforce
  with Cons.IH [of m1 n1] entry_settled [of m e n] show ?case by (auto intro: settled_trans)
qed simp

lemma run_cols:
  assumes "distinct (members (room_at m a))" "s \<in> set (members (room_at m a))" "se_display (session_of m s) = Some l"
  shows "session_cols (fst (fold entry es (m, n))) s = channel_spec is_mute op skip es l (session_cols m s)"
  using assms
proof (induction es arbitrary: m n)
  case (Cons e es)
  obtain m1 n1 where s: "entry e (m, n) = (m1, n1)" by fastforce
  then have st: "settled a m m1" using entry_settled [of m e n] by simp
  have "session_cols m1 s = (if l = e_listener e \<and> e_listener e \<notin> set skip
      then col_step is_mute op (set (e_excl e)) (session_cols m s) else session_cols m s)"
    using entry_cols [OF Cons.prems(1), of e n s] s Cons.prems by simp
  with Cons.IH [of m1 n1] Cons.prems s settled_sel [OF st] show ?case
    by (auto simp: channel_spec_def entries_for_def)
qed (simp add: channel_spec_def entries_for_def)

lemma run_cols_other:
  assumes "distinct (members (room_at m a))"
    and "s \<notin> set (members (room_at m a)) \<or> se_display (session_of m s) = None"
  shows "session_cols (fst (fold entry es (m, n))) s = session_cols m s"
  using assms
proof (induction es arbitrary: m n)
  case (Cons e es)
  obtain m1 n1 where s: "entry e (m, n) = (m1, n1)" by fastforce
  then have st: "settled a m m1" using entry_settled [of m e n] by simp
  show ?case
    using Cons.IH [of m1 n1] Cons.prems s settled_sel [OF st] entry_cols [OF Cons.prems(1), of e n s] by auto
qed simp

lemma run_all:
  assumes "distinct (members (room_at m a))"
  shows "session_cols (fst (fold entry es (m, n))) s =
    (if s \<in> set (members (room_at m a))
     then (case se_display (session_of m s) of None \<Rightarrow> session_cols m s
           | Some l \<Rightarrow> channel_spec is_mute op skip es l (session_cols m s))
     else session_cols m s)"
  using run_cols [OF assms, of s] run_cols_other [OF assms, of s] by (cases "se_display (session_of m s)") auto

end

text \<open>When the memory for the deferred columns is there, nothing of an entry is lost.\<close>

locale batch_channel = batch_columns +
  assumes entry_deferred: "rm_vis_deferred (room_at (fst (entry e (m, n))) a) =
      (if e_listener e \<notin> set skip \<and> matching m a (e_listener e) = []
       then slv_deferred_deposit (channel_deposit is_mute op e) (rm_vis_deferred (room_at m a))
       else rm_vis_deferred (room_at m a))"
    and entry_count: "snd (entry e (m, n)) =
      n + (if e_listener e \<notin> set skip \<and> matching m a (e_listener e) = [] then 1 else 0)"
begin

definition absent :: "slv_mixer \<Rightarrow> slv_vis_entry list \<Rightarrow> slv_vis_entry list" where
  "absent m es = filter (\<lambda>e. e_listener e \<notin> set skip \<and> matching m a (e_listener e) = []) es"

lemma run_deferred:
  "rm_vis_deferred (room_at (fst (fold entry es (m, n))) a) =
     fold slv_deferred_deposit (map (channel_deposit is_mute op) (absent m es)) (rm_vis_deferred (room_at m a)) \<and>
   snd (fold entry es (m, n)) = n + length (absent m es)"
proof (induction es arbitrary: m n)
  case (Cons e es)
  obtain m1 n1 where s: "entry e (m, n) = (m1, n1)" by fastforce
  then have st: "settled a m m1" using entry_settled [of m e n] by simp
  have "absent m1 es = absent m es" by (simp add: absent_def settled_sel [OF st])
  with Cons.IH [of m1 n1] s entry_deferred [of e m n] entry_count [of e m n] show ?case
    by (simp add: absent_def)
qed (simp add: absent_def)

end

lemma cols_upd_room [simp]: "session_cols (upd_room a f m) s = session_cols m s"
  by (simp add: session_cols_def)

lemma matching_Nil: "matching m a l = [] \<longleftrightarrow> (\<forall>p\<in>set (members (room_at m a)). se_display (session_of m p) \<noteq> Some l)"
  by (simp add: matching_def filter_empty_conv)

lemma room_upd_settled:
  assumes "\<And>r. room_frame (f r) = room_frame r"
  shows "settled a m (upd_room a f m)"
  using assms by (simp add: settled_def upd_room_def)

interpretation excl_columns: batch_columns a False op skip "visbatch_entry dumps mem k now a op present skip"
  for a op skip dumps mem k now present
proof unfold_locales
  fix e m n s
  let ?e = "visbatch_entry dumps mem k now a op present skip e (m, n)"
  let ?f = "fold (visbatch_session dumps k now a op present e) (members (room_at m a)) m"
  let ?g = "\<lambda>r. r\<lparr>rm_vis_dropped_listener_entries := rm_vis_dropped_listener_entries r + 1,
      rm_vis_deferred := slv_deferred_put mem (rm_vis_deferred r) (e_listener e) op (e_excl e) False\<rparr>"
  have G: "settled a m' (upd_room a ?g m')" for m'
    by (rule room_upd_settled) (simp add: room_frame_def auth_frame_def room_seat_def)
  have F: "settled a m ?f" by (rule fold_settled) (rule visbatch_session)
  show "settled a m (fst ?e)"
    using settled_trans [OF F G] F by (simp add: visbatch_entry_def Let_def)
  assume d: "distinct (members (room_at m a))"
  have "session_cols ?f s = (if s \<in> set (members (room_at m a)) \<and> se_display (session_of m s) = Some (e_listener e)
      then col_step False op (set (e_excl e)) (session_cols m s) else session_cols m s)"
    by (rule fold_sessions [OF visbatch_session(1,3) d])
  then show "session_cols (fst ?e) s =
      (if s \<in> set (members (room_at m a)) \<and> se_display (session_of m s) = Some (e_listener e) \<and> e_listener e \<notin> set skip
       then col_step False op (set (e_excl e)) (session_cols m s) else session_cols m s)"
    by (simp add: visbatch_entry_def Let_def)
qed

interpretation excl_channel: batch_channel a False op skip "visbatch_entry dumps True k now a op present skip"
  for a op skip dumps k now present
proof unfold_locales
  fix e m n
  let ?e = "visbatch_entry dumps True k now a op present skip e (m, n)"
  have H: "mx_heap (fold (visbatch_session dumps k now a op present e) (members (room_at m a)) m) = mx_heap m"
    by (rule fold_heap) (rule visbatch_session)
  show "rm_vis_deferred (room_at (fst ?e) a) =
      (if e_listener e \<notin> set skip \<and> matching m a (e_listener e) = []
       then slv_deferred_deposit (channel_deposit False op e) (rm_vis_deferred (room_at m a))
       else rm_vis_deferred (room_at m a))"
    using H by (simp add: visbatch_entry_def Let_def channel_deposit_def slv_deferred_deposit_def)
  show "snd ?e = n + (if e_listener e \<notin> set skip \<and> matching m a (e_listener e) = [] then 1 else 0)"
    by (simp add: visbatch_entry_def Let_def)
qed

interpretation mute_columns: batch_columns a True op skip "mutebatch_entry dumps mem k now a op skip"
  for a op skip dumps mem k now
proof unfold_locales
  fix e m n s
  let ?e = "mutebatch_entry dumps mem k now a op skip e (m, n)"
  let ?f = "fold (mutebatch_session dumps k now a op e) (members (room_at m a)) m"
  let ?g = "\<lambda>r. r\<lparr>rm_vis_deferred := slv_deferred_put mem (rm_vis_deferred r) (e_listener e) op (e_excl e) True\<rparr>"
  have G: "settled a m' (upd_room a ?g m')" for m'
    by (rule room_upd_settled) (simp add: room_frame_def auth_frame_def room_seat_def)
  have F: "settled a m ?f" by (rule fold_settled) (rule mutebatch_session)
  show "settled a m (fst ?e)"
    using settled_trans [OF F G] F by (simp add: mutebatch_entry_def Let_def)
  assume d: "distinct (members (room_at m a))"
  have "session_cols ?f s = (if s \<in> set (members (room_at m a)) \<and> se_display (session_of m s) = Some (e_listener e)
      then col_step True op (set (e_excl e)) (session_cols m s) else session_cols m s)"
    by (rule fold_sessions [OF mutebatch_session(1,3) d])
  then show "session_cols (fst ?e) s =
      (if s \<in> set (members (room_at m a)) \<and> se_display (session_of m s) = Some (e_listener e) \<and> e_listener e \<notin> set skip
       then col_step True op (set (e_excl e)) (session_cols m s) else session_cols m s)"
    by (simp add: mutebatch_entry_def Let_def)
qed

interpretation mute_channel: batch_channel a True op skip "mutebatch_entry dumps True k now a op skip"
  for a op skip dumps k now
proof unfold_locales
  fix e m n
  let ?e = "mutebatch_entry dumps True k now a op skip e (m, n)"
  have H: "mx_heap (fold (mutebatch_session dumps k now a op e) (members (room_at m a)) m) = mx_heap m"
    by (rule fold_heap) (rule mutebatch_session)
  show "rm_vis_deferred (room_at (fst ?e) a) =
      (if e_listener e \<notin> set skip \<and> matching m a (e_listener e) = []
       then slv_deferred_deposit (channel_deposit True op e) (rm_vis_deferred (room_at m a))
       else rm_vis_deferred (room_at m a))"
    using H by (simp add: mutebatch_entry_def Let_def channel_deposit_def slv_deferred_deposit_def)
  show "snd ?e = n + (if e_listener e \<notin> set skip \<and> matching m a (e_listener e) = [] then 1 else 0)"
    by (simp add: mutebatch_entry_def Let_def)
qed

subsection \<open>The two channels together\<close>

lemma channel_mine:
  "fold dep_step (slv.mine l (map (channel_deposit mu op)
     (filter (\<lambda>e. e_listener e \<notin> set skip \<and> matching m a (e_listener e) = []) es))) c =
   (if matching m a l = [] then channel_spec mu op skip es l c else c)"
  by (induction es arbitrary: c)
    (auto simp: slv.mine_def channel_spec_def entries_for_def channel_deposit_def dep_step_def)

lemma deposits_ok:
  "vis_entries_ok es \<Longrightarrow> d \<in> set (map (channel_deposit mu op) (filter P es)) \<Longrightarrow> deposit_ok d"
  by (auto simp: channel_deposit_def deposit_ok_def src_ok_def vis_entries_ok_def vis_entry_ok_def vis_uuids_ok_def)

lemma deposits_run:
  assumes "deferred_inv st" "\<forall>d\<in>set ds. deposit_ok d" "length (ds_entries st) + length ds \<le> SLV_VIS_MAX_DEFERRED"
  shows "deferred_inv (fold slv_deferred_deposit ds st)"
    and "length (ds_entries (fold slv_deferred_deposit ds st)) \<le> length (ds_entries st) + length ds"
    and "deferred_cols (fold slv_deferred_deposit ds st) l = fold dep_step (slv.mine l ds) (deferred_cols st l)"
proof -
  show "deferred_inv (fold slv_deferred_deposit ds st)" using assms(1,2) by (rule slv.run_valid)
  show "deferred_cols (fold slv_deferred_deposit ds st) l = fold dep_step (slv.mine l ds) (deferred_cols st l)"
    by (rule slv.run_exact [OF assms])
  show "length (ds_entries (fold slv_deferred_deposit ds st)) \<le> length (ds_entries st) + length ds"
    using assms(1,2)
  proof (induction ds arbitrary: st)
    case (Cons d ds)
    then have "deferred_inv (slv_deferred_deposit d st)" "length (ds_entries (slv_deferred_deposit d st)) \<le> Suc (length (ds_entries st))"
      by (auto intro: slv.valid_put held_put_bound)
    with Cons.IH [of "slv_deferred_deposit d st"] Cons.prems(2) show ?case by simp
  qed simp
qed

lemma apply_visbatch_fold:
  assumes "janus_slvoice_apply_visbatch_locked dumps mem k now a vb skip m = (m', n)"
  obtains m1 where "fold (visbatch_entry dumps mem k now a (vb_op vb) (room_displays m a) skip) (vb_entries vb) (m, 0) = (m1, n)"
    and "settled a m1 m'" "session_cols m' s = session_cols m1 s" "rm_vis_deferred (room_at m' a) = rm_vis_deferred (room_at m1 a)"
proof -
  obtain m1 n1 where f: "fold (visbatch_entry dumps mem k now a (vb_op vb) (room_displays m a) skip) (vb_entries vb) (m, 0) = (m1, n1)"
    by fastforce
  have "settled a m1 m'"
    using assms f by (auto simp: janus_slvoice_apply_visbatch_locked_def Let_def room_frame_def auth_frame_def room_seat_def
        intro!: room_upd_settled)
  with assms f that show ?thesis by (auto simp: janus_slvoice_apply_visbatch_locked_def Let_def)
qed

text \<open>One channel: what it does to sessions and to the deferred store, for a room of any state.\<close>

definition channel_effect :: "nat \<Rightarrow> bool \<Rightarrow> slv_vis_op \<Rightarrow> string list \<Rightarrow> slv_vis_entry list \<Rightarrow> slv_mixer \<Rightarrow> slv_mixer \<Rightarrow> bool" where
  "channel_effect a mu op skip es m m' \<longleftrightarrow> settled a m m' \<and>
     (\<forall>s. session_cols m' s =
        (if s \<in> set (members (room_at m a))
         then (case se_display (session_of m s) of None \<Rightarrow> session_cols m s
               | Some l \<Rightarrow> channel_spec mu op skip es l (session_cols m s))
         else session_cols m s)) \<and>
     deferred_inv (rm_vis_deferred (room_at m' a)) \<and>
     length (ds_entries (rm_vis_deferred (room_at m' a))) \<le> length (ds_entries (rm_vis_deferred (room_at m a))) + length es \<and>
     (\<forall>l. deferred_cols (rm_vis_deferred (room_at m' a)) l =
        (if matching m a l = [] then channel_spec mu op skip es l (deferred_cols (rm_vis_deferred (room_at m a)) l)
         else deferred_cols (rm_vis_deferred (room_at m a)) l))"

context batch_channel
begin

lemma run_effect:
  assumes "distinct (members (room_at m a))" "deferred_inv (rm_vis_deferred (room_at m a))" "vis_entries_ok es"
    and "length (ds_entries (rm_vis_deferred (room_at m a))) + length es \<le> SLV_VIS_MAX_DEFERRED"
  shows "channel_effect a is_mute op skip es m (fst (fold entry es (m, n)))"
proof -
  let ?m = "fst (fold entry es (m, n))"
  let ?ds = "map (channel_deposit is_mute op) (absent m es)"
  have d: "rm_vis_deferred (room_at ?m a) = fold slv_deferred_deposit ?ds (rm_vis_deferred (room_at m a))"
    by (rule run_deferred [THEN conjunct1])
  have ok: "\<forall>d\<in>set ?ds. deposit_ok d" using deposits_ok [OF assms(3)] unfolding absent_def by blast
  have len: "length ?ds \<le> length es" by (simp add: absent_def)
  with assms(4) have cap: "length (ds_entries (rm_vis_deferred (room_at m a))) + length ?ds \<le> SLV_VIS_MAX_DEFERRED" by simp
  note D = deposits_run [OF assms(2) ok cap]
  have cols: "deferred_cols (rm_vis_deferred (room_at ?m a)) l =
        (if matching m a l = [] then channel_spec is_mute op skip es l (deferred_cols (rm_vis_deferred (room_at m a)) l)
         else deferred_cols (rm_vis_deferred (room_at m a)) l)" for l
    using D(3) [of l] channel_mine [of l is_mute op skip m a es] by (simp add: d absent_def)
  show ?thesis
    unfolding channel_effect_def using run_settled cols run_all [OF assms(1)] D(1,2) len d by (auto intro: le_trans)
qed

end

lemma visbatch_effect:
  assumes "distinct (members (room_at m a))" "deferred_inv (rm_vis_deferred (room_at m a))" "vis_entries_ok (vb_entries vb)"
    and "length (ds_entries (rm_vis_deferred (room_at m a))) + length (vb_entries vb) \<le> SLV_VIS_MAX_DEFERRED"
  shows "channel_effect a False (vb_op vb) skip (vb_entries vb) m
    (fst (janus_slvoice_apply_visbatch_locked dumps True k now a vb skip m))"
proof -
  obtain m' n where r: "janus_slvoice_apply_visbatch_locked dumps True k now a vb skip m = (m', n)" by fastforce
  obtain m1 where f: "fold (visbatch_entry dumps True k now a (vb_op vb) (room_displays m a) skip) (vb_entries vb) (m, 0) = (m1, n)"
    and s: "settled a m1 m'" and d: "rm_vis_deferred (room_at m' a) = rm_vis_deferred (room_at m1 a)"
    using r by (rule apply_visbatch_fold)
  have c: "session_cols m' s = session_cols m1 s" for s
    using r f by (auto simp: janus_slvoice_apply_visbatch_locked_def Let_def)
  have E: "channel_effect a False (vb_op vb) skip (vb_entries vb) m m1"
    using excl_channel.run_effect [OF assms, of "vb_op vb" skip dumps k now "room_displays m a" 0] f by simp
  show ?thesis
    using E s c d r by (auto simp: channel_effect_def intro: settled_trans)
qed

lemma mutebatch_effect:
  assumes "distinct (members (room_at m a))" "deferred_inv (rm_vis_deferred (room_at m a))" "vis_entries_ok (vb_mute_entries vb)"
    and "length (ds_entries (rm_vis_deferred (room_at m a))) + length (vb_mute_entries vb) \<le> SLV_VIS_MAX_DEFERRED"
  shows "channel_effect a True (vb_op vb) skip (vb_mute_entries vb) m
    (fst (janus_slvoice_apply_mutebatch_locked dumps True k now a vb skip m))"
  unfolding janus_slvoice_apply_mutebatch_locked_def by (rule mute_channel.run_effect [OF assms])

lemma channel_effect_Nil:
  "deferred_inv (rm_vis_deferred (room_at m a)) \<Longrightarrow> channel_effect a mu op skip [] m m"
  by (auto simp: channel_effect_def channel_spec_def entries_for_def split: option.split)

definition channels_ready :: "nat \<Rightarrow> slv_mixer \<Rightarrow> nat \<Rightarrow> bool" where
  "channels_ready a m n \<longleftrightarrow> distinct (members (room_at m a)) \<and> deferred_inv (rm_vis_deferred (room_at m a)) \<and>
     length (ds_entries (rm_vis_deferred (room_at m a))) + n \<le> SLV_VIS_MAX_DEFERRED"

definition batch_size :: "slv_visbatch \<Rightarrow> nat" where
  "batch_size vb = length (vb_entries vb) + length (vb_mute_entries vb)"

definition listener_effect :: "nat \<Rightarrow> (string \<Rightarrow> columns \<Rightarrow> columns) \<Rightarrow> slv_mixer \<Rightarrow> slv_mixer \<Rightarrow> bool" where
  "listener_effect a f m m' \<longleftrightarrow>
     (\<forall>s. session_cols m' s =
        (if s \<in> set (members (room_at m a))
         then (case se_display (session_of m s) of None \<Rightarrow> session_cols m s | Some l \<Rightarrow> f l (session_cols m s))
         else session_cols m s)) \<and>
     (\<forall>l. deferred_cols (rm_vis_deferred (room_at m' a)) l =
        (if matching m a l = [] then f l (deferred_cols (rm_vis_deferred (room_at m a)) l)
         else deferred_cols (rm_vis_deferred (room_at m a)) l))"

lemma apply_channels_effect:
  assumes "channels_ready a m (batch_size vb + n)" and "visbatch_ok vb"
  shows "settled a m (fst (apply_channels dumps True k now a vb skip m)) \<and>
    channels_ready a (fst (apply_channels dumps True k now a vb skip m)) n \<and>
    listener_effect a (batch_spec vb skip) m (fst (apply_channels dumps True k now a vb skip m))"
proof -
  define m1 where "m1 = (if length (vb_entries vb) > 0
      then fst (janus_slvoice_apply_visbatch_locked dumps True k now a vb skip m) else m)"
  define m2 where "m2 = (if length (vb_mute_entries vb) > 0
      then fst (janus_slvoice_apply_mutebatch_locked dumps True k now a vb skip m1) else m1)"
  have m2: "fst (apply_channels dumps True k now a vb skip m) = m2"
    by (auto simp: apply_channels_def m2_def m1_def split: prod.split)
  have rd: "distinct (members (room_at m a))" "deferred_inv (rm_vis_deferred (room_at m a))"
    "length (ds_entries (rm_vis_deferred (room_at m a))) + length (vb_entries vb) + length (vb_mute_entries vb) + n
       \<le> SLV_VIS_MAX_DEFERRED"
    using assms(1) by (simp_all add: channels_ready_def batch_size_def)
  have es: "vis_entries_ok (vb_entries vb)" "vis_entries_ok (vb_mute_entries vb)"
    using assms(2) by (auto simp: visbatch_ok_def)
  have E1: "channel_effect a False (vb_op vb) skip (vb_entries vb) m m1"
    using visbatch_effect [OF rd(1,2) es(1)] channel_effect_Nil [OF rd(2)] rd(3) by (auto simp: m1_def)
  then have S: "settled a m m1" and i1: "deferred_inv (rm_vis_deferred (room_at m1 a))"
    and l1: "length (ds_entries (rm_vis_deferred (room_at m1 a))) + length (vb_mute_entries vb) \<le> SLV_VIS_MAX_DEFERRED"
    using rd(3) by (auto simp: channel_effect_def)
  have "distinct (members (room_at m1 a))" using rd(1) settled_sel(1) [OF S] by simp
  then have E2: "channel_effect a True (vb_op vb) skip (vb_mute_entries vb) m1 m2"
    using mutebatch_effect [OF _ i1 es(2) l1] channel_effect_Nil [OF i1] by (auto simp: m2_def)
  have "settled a m m2" using settled_trans [OF S] E2 by (simp add: channel_effect_def)
  moreover have "channels_ready a m2 n"
    using E1 E2 rd(1,3) settled_sel(1) [OF S] settled_sel(1) [OF calculation] by (auto simp: channels_ready_def channel_effect_def)
  moreover have "listener_effect a (batch_spec vb skip) m m2"
    using E1 E2 settled_sel [OF S]
    by (auto simp: channel_effect_def listener_effect_def batch_spec_def split: option.splits)
  ultimately show ?thesis unfolding m2 by blast
qed

text \<open>
  C23 A batch means the same to a listener whether it is in the room or not: applying a batch changes the
  columns of every session in the room, and the columns held for every listener that is not there, by one and the same
  function of the batch, and nothing of any session outside the room.
\<close>

theorem batch_refines_columns:
  assumes "channels_ready a m (batch_size vb)" and "visbatch_ok vb"
  shows "session_cols (fst (apply_channels dumps True k now a vb skip m)) s =
      (if s \<in> set (members (room_at m a))
       then (case se_display (session_of m s) of None \<Rightarrow> session_cols m s
             | Some l \<Rightarrow> batch_spec vb skip l (session_cols m s))
       else session_cols m s) \<and>
    deferred_cols (rm_vis_deferred (room_at (fst (apply_channels dumps True k now a vb skip m)) a)) l =
      (if matching m a l = [] then batch_spec vb skip l (deferred_cols (rm_vis_deferred (room_at m a)) l)
       else deferred_cols (rm_vis_deferred (room_at m a)) l)"
  using apply_channels_effect [of a m vb 0 dumps k now skip] assms
  by (simp add: listener_effect_def)

subsection \<open>Joining\<close>

lemma fold_set_mod_muted: "fold (\<lambda>u c. fst (janus_slvoice_set_mod_muted_locked u True c)) us c = fold gset_add us c"
  by (induction us arbitrary: c) (auto simp: janus_slvoice_set_mod_muted_locked_def gset_add_def)

lemma replay_deferred:
  assumes "deferred_inv (rm_vis_deferred (room_at m a))" and "se_display (session_of m s) = Some l"
  shows "settled a m (janus_slvoice_room_replay_deferred_locked a s m)"
    and "session_cols (janus_slvoice_room_replay_deferred_locked a s m) s =
      (fst (session_cols m s) \<union> fst (deferred_cols (rm_vis_deferred (room_at m a)) l),
       snd (session_cols m s) \<union> snd (deferred_cols (rm_vis_deferred (room_at m a)) l))"
    and "s' \<noteq> s \<Longrightarrow> session_cols (janus_slvoice_room_replay_deferred_locked a s m) s' = session_cols m s'"
    and "deferred_cols (rm_vis_deferred (room_at (janus_slvoice_room_replay_deferred_locked a s m) a)) =
      (deferred_cols (rm_vis_deferred (room_at m a)))(l := ({}, {}))"
proof -
  let ?st = "rm_vis_deferred (room_at m a)"
  have none: "deferred_cols ?st l = ({}, {}) \<and> (deferred_cols ?st)(l := ({}, {})) = deferred_cols ?st"
    if "slv_deferred_get ?st l = None"
    using that by (auto simp: deferred_cols_def)
  define f :: "slv_deferred_entry \<Rightarrow> janus_slvoice_session \<Rightarrow> janus_slvoice_session" where "f d = (\<lambda>x. x\<lparr>se_excluded := fold (\<lambda>u c. if u \<notin> set c then gset_add u c else c) (de_excl d) (se_excluded x),
      se_mod_muted := fold (\<lambda>u c. fst (janus_slvoice_set_mod_muted_locked u True c)) (de_mute d) (se_mod_muted x)\<rparr>)" for d
  define g :: "janus_slvoice_room \<Rightarrow> janus_slvoice_room" where "g = (\<lambda>r. r\<lparr>rm_vis_deferred := snd (slv_deferred_replay_done (rm_vis_deferred r) l)\<rparr>)"
  have e: "janus_slvoice_room_replay_deferred_locked a s m =
      (case slv_deferred_get ?st l of None \<Rightarrow> m | Some d \<Rightarrow> upd_room a g (upd_session s (f d) m))"
    using assms(2) by (auto simp: janus_slvoice_room_replay_deferred_locked_def f_def g_def Let_def split: option.split)
  have sf: "settled a m (upd_session s (f d) m)" for d
    by (rule upd_cols_settled) (simp add: f_def sess_frame_def sess_core_def)
  have sg: "settled a m' (upd_room a g m')" for m'
    by (rule room_upd_settled) (simp add: g_def room_frame_def auth_frame_def room_seat_def)
  show "settled a m (janus_slvoice_room_replay_deferred_locked a s m)"
    unfolding e using settled_trans [OF sf sg] by (auto split: option.split)
  have c: "session_cols (upd_session s (f d) m) s =
      (fst (session_cols m s) \<union> set (de_excl d), snd (session_cols m s) \<union> set (de_mute d))" for d
    by (simp add: session_cols_def f_def fold_gset_add_guard fold_set_mod_muted)
  show "session_cols (janus_slvoice_room_replay_deferred_locked a s m) s =
      (fst (session_cols m s) \<union> fst (deferred_cols ?st l), snd (session_cols m s) \<union> snd (deferred_cols ?st l))"
    unfolding e using none c by (auto simp: deferred_cols_def split: option.splits)
  show "session_cols (janus_slvoice_room_replay_deferred_locked a s m) s' = session_cols m s'" if "s' \<noteq> s"
    unfolding e using that by (auto simp: session_cols_def upd_session_other split: option.split)
  show "deferred_cols (rm_vis_deferred (room_at (janus_slvoice_room_replay_deferred_locked a s m) a)) =
      (deferred_cols ?st)(l := ({}, {}))"
    unfolding e using none cols_replay_done [OF assms(1), of l] by (auto simp: g_def split: option.splits)
qed

text \<open>Batches applied one after another, each with its time and the listeners withheld from it.\<close>

definition run_batches ::
  "(json \<Rightarrow> string option) \<Rightarrow> slv_knobs \<Rightarrow> nat \<Rightarrow> (int \<times> slv_visbatch \<times> string list) list \<Rightarrow> slv_mixer \<Rightarrow> slv_mixer"
where
  "run_batches dumps k a bs m =
     fold (\<lambda>(now, vb, skip) m. fst (apply_channels dumps True k now a vb skip m)) bs m"

definition batches_spec :: "(int \<times> slv_visbatch \<times> string list) list \<Rightarrow> string \<Rightarrow> columns \<Rightarrow> columns" where
  "batches_spec bs l c = fold (\<lambda>(now, vb, skip) c. batch_spec vb skip l c) bs c"

definition batches_size :: "(int \<times> slv_visbatch \<times> string list) list \<Rightarrow> nat" where
  "batches_size bs = sum_list (map (\<lambda>(now, vb, skip). batch_size vb) bs)"

lemma run_batches_effect:
  assumes "channels_ready a m (batches_size bs)" and "\<forall>(now, vb, skip)\<in>set bs. visbatch_ok vb"
  shows "settled a m (run_batches dumps k a bs m) \<and> channels_ready a (run_batches dumps k a bs m) 0 \<and>
    listener_effect a (batches_spec bs) m (run_batches dumps k a bs m)"
  using assms
proof (induction bs arbitrary: m)
  case Nil
  then show ?case
    by (auto simp: run_batches_def batches_spec_def batches_size_def listener_effect_def split: option.split)
next
  case (Cons b bs)
  obtain now vb skip where b: "b = (now, vb, skip)" by (metis prod_cases3)
  let ?m = "fst (apply_channels dumps True k now a vb skip m)"
  have "channels_ready a m (batch_size vb + batches_size bs)" "visbatch_ok vb"
    using Cons.prems b by (auto simp: batches_size_def)
  from apply_channels_effect [OF this, of dumps k now skip]
  have E: "settled a m ?m" "channels_ready a ?m (batches_size bs)" "listener_effect a (batch_spec vb skip) m ?m" by auto
  from Cons.IH [OF E(2)] Cons.prems(2)
  have R: "settled a ?m (run_batches dumps k a bs ?m)" "channels_ready a (run_batches dumps k a bs ?m) 0"
    "listener_effect a (batches_spec bs) ?m (run_batches dumps k a bs ?m)" by auto
  have r: "run_batches dumps k a (b # bs) m = run_batches dumps k a bs ?m" by (simp add: run_batches_def b)
  have "listener_effect a (batches_spec (b # bs)) m (run_batches dumps k a bs ?m)"
    using E(3) R(3) settled_sel [OF E(1)]
    by (auto simp: listener_effect_def batches_spec_def b split: option.splits)
  with settled_trans [OF E(1) R(1)] R(2) r show ?case by simp
qed

text \<open>
  C9 The join window loses nothing: a listener whose batches arrive before it joins, and whose columns
  are replayed when it does, ends up with exactly the columns of a listener that was in the room when the same
  batches were applied. Both are those the batches spell out in order, starting from nothing.
\<close>

theorem join_window_equivalence:
  assumes "channels_ready a m (batches_size bs)" and "\<forall>(now, vb, skip)\<in>set bs. visbatch_ok vb"
    and "matching m a l = []" and "deferred_cols (rm_vis_deferred (room_at m a)) l = ({}, {})"
    and "s \<notin> set (members (room_at m a))" and "se_display (session_of m s) = Some l" and "session_cols m s = ({}, {})"
    and "channels_ready a m' (batches_size bs)" and "s' \<in> set (members (room_at m' a))"
    and "se_display (session_of m' s') = Some l" and "session_cols m' s' = ({}, {})"
  shows "session_cols (janus_slvoice_room_replay_deferred_locked a s (run_batches dumps k a bs m)) s =
      session_cols (run_batches dumps k a bs m') s' \<and>
    session_cols (run_batches dumps k a bs m') s' = batches_spec bs l ({}, {})"
proof -
  note L = run_batches_effect [OF assms(8,2), of dumps k] and D = run_batches_effect [OF assms(1,2), of dumps k]
  have live: "session_cols (run_batches dumps k a bs m') s' = batches_spec bs l ({}, {})"
    using L assms(9-11) by (simp add: listener_effect_def)
  have st: "settled a m (run_batches dumps k a bs m)" using D by simp
  have d: "deferred_cols (rm_vis_deferred (room_at (run_batches dumps k a bs m) a)) l = batches_spec bs l ({}, {})"
    "session_cols (run_batches dumps k a bs m) s = ({}, {})"
    using D assms(3-7) by (auto simp: listener_effect_def)
  have i: "deferred_inv (rm_vis_deferred (room_at (run_batches dumps k a bs m) a))"
    using D by (simp add: channels_ready_def)
  have s: "se_display (session_of (run_batches dumps k a bs m) s) = Some l"
    using settled_sel(2) [OF st] assms(6) by simp
  show ?thesis using replay_deferred(2) [OF i s] d live by simp
qed

lemma rejoin_columns:
  assumes "deferred_inv (rm_vis_deferred (room_at m a))" and "se_display (session_of m s) = Some l"
    and "janus_slvoice_vis_rejoin_columns_locked k a s m = (m', took)"
  shows "took = (janus_slvoice_vis_enforced k (room_at m a) \<and>
      (case map_of (rm_vis_records (room_at m a)) l of None \<Rightarrow> False | Some r \<Rightarrow> vr_epoch r = rm_vis_auth_epoch (room_at m a)))"
    and "\<not> took \<Longrightarrow> m' = m"
    and "took \<Longrightarrow> settled a m m'"
    and "took \<Longrightarrow> session_cols m' s = rec_columns (the (map_of (rm_vis_records (room_at m a)) l))"
    and "took \<Longrightarrow> deferred_cols (rm_vis_deferred (room_at m' a)) = (deferred_cols (rm_vis_deferred (room_at m a)))(l := ({}, {}))"
proof -
  define f :: "slv_vis_record \<Rightarrow> janus_slvoice_session \<Rightarrow> janus_slvoice_session" where
    "f r = (\<lambda>x. x\<lparr>se_excluded := fold gset_add (vr_excl r) [],
       se_mod_muted := fold (\<lambda>u c. fst (janus_slvoice_set_mod_muted_locked u True c)) (vr_mute r) []\<rparr>)" for r
  define g :: "janus_slvoice_room \<Rightarrow> janus_slvoice_room" where
    "g = (\<lambda>r. r\<lparr>rm_vis_deferred := snd (slv_deferred_replay_done (rm_vis_deferred r) l)\<rparr>)"
  have sf: "settled a m (upd_session s (f d) m)" for d
    by (rule upd_cols_settled) (simp add: f_def sess_frame_def sess_core_def)
  have sg: "settled a m' (upd_room a g m')" for m'
    by (rule room_upd_settled) (simp add: g_def room_frame_def auth_frame_def room_seat_def)
  have c: "session_cols (upd_session s (f r) m) s = rec_columns r" for r
    by (simp add: session_cols_def f_def rec_columns_def fold_set_mod_muted)
  have d: "deferred_cols (rm_vis_deferred (room_at (upd_room a g (upd_session s (f r) m)) a)) =
      (deferred_cols (rm_vis_deferred (room_at m a)))(l := ({}, {}))" for r
    using cols_replay_done [OF assms(1), of l] by (simp add: g_def)
  let ?P = "\<lambda>r. janus_slvoice_vis_enforced k (room_at m a) \<and> map_of (rm_vis_records (room_at m a)) l = Some r \<and>
      vr_epoch r = rm_vis_auth_epoch (room_at m a)"
  have e: "(m', took) = (if \<exists>r. ?P r
      then (upd_room a g (upd_session s (f (the (map_of (rm_vis_records (room_at m a)) l))) m), True) else (m, False))"
    unfolding assms(3) [symmetric] janus_slvoice_vis_rejoin_columns_locked_def f_def g_def Let_def assms(2)
    by (cases "map_of (rm_vis_records (room_at m a)) l") auto
  show "took = (janus_slvoice_vis_enforced k (room_at m a) \<and>
      (case map_of (rm_vis_records (room_at m a)) l of None \<Rightarrow> False | Some r \<Rightarrow> vr_epoch r = rm_vis_auth_epoch (room_at m a)))"
    using e by (auto split: if_splits option.splits)
  show "\<not> took \<Longrightarrow> m' = m" using e by (auto split: if_splits)
  assume took
  then have m': "m' = upd_room a g (upd_session s (f (the (map_of (rm_vis_records (room_at m a)) l))) m)"
    using e by (auto split: if_splits)
  show "settled a m m'" unfolding m' by (rule settled_trans [OF sf sg])
  show "session_cols m' s = rec_columns (the (map_of (rm_vis_records (room_at m a)) l))" unfolding m' cols_upd_room c ..
  show "deferred_cols (rm_vis_deferred (room_at m' a)) = (deferred_cols (rm_vis_deferred (room_at m a)))(l := ({}, {}))"
    unfolding m' by (rule d)
qed

text \<open>
  What a joiner starts with: in an enforced room where the current authority has armed its display,
  exactly that record's columns; otherwise what it had plus everything deferred for it. Either way nothing stays
  deferred for it, nobody else's deferred columns change, and its first roster lists exactly the others
  that these columns and the pair rule let it see.
\<close>

theorem join_commit_columns:
  assumes "deferred_inv (rm_vis_deferred (room_at m a))" and "se_display (session_of m s) = Some l"
    and "janus_slvoice_join_commit_locked k now a s m = (m', roster)"
  shows "session_cols m' s =
      (case map_of (rm_vis_records (room_at m a)) l of
         Some r \<Rightarrow>
           if janus_slvoice_vis_enforced k (room_at m a) \<and> vr_epoch r = rm_vis_auth_epoch (room_at m a)
           then (set (vr_excl r), set (vr_mute r))
           else (fst (session_cols m s) \<union> fst (deferred_cols (rm_vis_deferred (room_at m a)) l),
                 snd (session_cols m s) \<union> snd (deferred_cols (rm_vis_deferred (room_at m a)) l))
       | None \<Rightarrow> (fst (session_cols m s) \<union> fst (deferred_cols (rm_vis_deferred (room_at m a)) l),
                 snd (session_cols m s) \<union> snd (deferred_cols (rm_vis_deferred (room_at m a)) l))) \<and>
    deferred_cols (rm_vis_deferred (room_at m' a)) = (deferred_cols (rm_vis_deferred (room_at m a)))(l := ({}, {})) \<and>
    roster = JArray (map (\<lambda>p. janus_slvoice_participant_summary (session_of m' p))
      (filter (\<lambda>p. p \<noteq> s \<and> (case se_display (session_of m p) of
           None \<Rightarrow> \<not> janus_slvoice_vis_enforced k (room_at m a)
         | Some d \<Rightarrow> told k now (room_at m a) (session_of m' s) d)) (members (room_at m a))))"
proof -
  obtain m1 took where r: "janus_slvoice_vis_rejoin_columns_locked k a s m = (m1, took)" by fastforce
  note R = rejoin_columns [OF assms(1,2) r]
  define m2 where "m2 = (if \<not> took then janus_slvoice_room_replay_deferred_locked a s m1 else m1)"
  define h :: "janus_slvoice_session \<Rightarrow> janus_slvoice_session" where
    "h = (\<lambda>x. x\<lparr>se_vis_ok_last := janus_slvoice_vis_ok_locked k (room_at m2 a) (se_display x) now\<rparr>)"
  note P = replay_deferred [OF assms(1,2)]
  have j: "m' = upd_session s h m2"
    "roster = JArray (map (\<lambda>p. janus_slvoice_participant_summary (session_of m' p))
       (filter (roster_shows k now a s m') (members (room_at m' a))))"
  proof -
    show m': "m' = upd_session s h m2"
      using assms(3) by (auto simp: janus_slvoice_join_commit_locked_def r m2_def h_def Let_def)
    show "roster = JArray (map (\<lambda>p. janus_slvoice_participant_summary (session_of m' p))
       (filter (roster_shows k now a s m') (members (room_at m' a))))"
      using assms(3) unfolding m' by (auto simp: janus_slvoice_join_commit_locked_def r m2_def h_def Let_def)
  qed
  have S: "settled a m m2" using R(2,3) P(1) by (auto simp: m2_def)
  have cols: "session_cols m' s = session_cols m2 s" "rm_vis_deferred (room_at m' a) = rm_vis_deferred (room_at m2 a)"
    by (simp_all add: j(1) session_cols_def h_def)
  have disp: "se_display (session_of m' p) = se_display (session_of m p)" for p
    using settled_sel(2) [OF S, of p] by (cases "p = s") (simp_all add: j(1) h_def upd_session_other)
  have mem: "members (room_at m' a) = members (room_at m a)" using settled_sel(1) [OF S] by (simp add: j(1))
  have fr: "auth_frame (room_at m' a) = auth_frame (room_at m a)" "rm_vis_records (room_at m' a) = rm_vis_records (room_at m a)"
    using S by (simp_all add: j(1) settled_def room_frame_def)
  have sh: "roster_shows k now a s m' p \<longleftrightarrow> p \<noteq> s \<and> (case se_display (session_of m p) of
           None \<Rightarrow> \<not> janus_slvoice_vis_enforced k (room_at m a)
         | Some d \<Rightarrow> told k now (room_at m a) (session_of m' s) d)" for p
    unfolding roster_shows_def room_rule_cong [OF fr] disp told_def slv_roster_excludes_def
    by (cases "se_display (session_of m p)")
      (auto simp: janus_slvoice_vis_pair_visible_locked_def janus_slvoice_vis_ok_locked_def
        janus_slvoice_vis_row_locked_def slv_vis_row_def)
  have c: "session_cols m2 s = (if took then rec_columns (the (map_of (rm_vis_records (room_at m a)) l))
      else (fst (session_cols m s) \<union> fst (deferred_cols (rm_vis_deferred (room_at m a)) l),
            snd (session_cols m s) \<union> snd (deferred_cols (rm_vis_deferred (room_at m a)) l)))"
    using R(2,4) P(2) by (simp add: m2_def)
  have d: "deferred_cols (rm_vis_deferred (room_at m2 a)) = (deferred_cols (rm_vis_deferred (room_at m a)))(l := ({}, {}))"
    using R(2,5) P(4) by (simp add: m2_def)
  show ?thesis
    unfolding cols d j(2) mem sh
    using c R(1) by (auto simp: rec_columns_def split: option.splits)
qed

subsection \<open>The notices of a batch are its real changes\<close>

lemma trans_add:
  assumes "length tr + length src \<le> SLV_VIS_MAX_EXCL * 2" "\<forall>s\<in>present. length s < SLV_UUID_LEN"
  shows "set (snd (fold (\<lambda>s (c, tr). if s \<notin> set c then (gset_add s c, add_trans present s False tr) else (c, tr)) src (c, tr))) =
    set tr \<union> {(s, False) | s. s \<in> present \<and> s \<in> set src \<and> s \<notin> set c}"
  using assms(1)
proof (induction src arbitrary: c tr)
  case (Cons s src)
  show ?case
  proof (cases "s \<in> set c")
    case True
    with Cons.IH [of tr c] Cons.prems show ?thesis by auto
  next
    case False
    have "length (add_trans present s False tr) + length src \<le> SLV_VIS_MAX_EXCL * 2"
      using Cons.prems by (simp add: add_trans_def)
    from Cons.IH [OF this, of "gset_add s c"] False Cons.prems assms(2) show ?thesis
      by (auto simp: add_trans_def)
  qed
qed simp

lemma trans_remove:
  assumes "length tr + length src \<le> SLV_VIS_MAX_EXCL * 2" "\<forall>s\<in>present. length s < SLV_UUID_LEN"
  shows "set (snd (fold (\<lambda>s (c, tr). if s \<in> set c then (gset_remove s c, add_trans present s True tr) else (c, tr)) src (c, tr))) =
    set tr \<union> {(s, True) | s. s \<in> present \<and> s \<in> set src \<and> s \<in> set c}"
  using assms(1)
proof (induction src arbitrary: c tr)
  case (Cons s src)
  show ?case
  proof (cases "s \<in> set c")
    case False
    with Cons.IH [of tr c] Cons.prems show ?thesis by auto
  next
    case True
    have "length (add_trans present s True tr) + length src \<le> SLV_VIS_MAX_EXCL * 2"
      using Cons.prems by (simp add: add_trans_def)
    from Cons.IH [OF this, of "gset_remove s c"] True Cons.prems assms(2) show ?thesis
      by (auto simp: add_trans_def)
  qed
qed simp

lemma trans_diff:
  assumes "length tr + length xs \<le> SLV_VIS_MAX_EXCL * 2" "\<forall>s\<in>present. length s < SLV_UUID_LEN"
  shows "set (fold (\<lambda>s tr. if s \<notin> S then add_trans present s flag tr else tr) xs tr) =
      set tr \<union> {(s, flag) | s. s \<in> present \<and> s \<in> set xs \<and> s \<notin> S} \<and>
    length (fold (\<lambda>s tr. if s \<notin> S then add_trans present s flag tr else tr) xs tr) \<le> length tr + length xs"
  using assms(1)
proof (induction xs arbitrary: tr)
  case (Cons s xs)
  let ?tr = "if s \<notin> S then add_trans present s flag tr else tr"
  have l: "length ?tr \<le> Suc (length tr)" by (simp add: add_trans_def)
  with Cons.prems have "length ?tr + length xs \<le> SLV_VIS_MAX_EXCL * 2" by simp
  from Cons.IH [OF this] l Cons.prems assms(2) show ?case by (auto simp: add_trans_def)
qed simp

text \<open>
  A batch announces exactly what it changes: as long as neither the listener's set nor the entry
  holds more than 128 sources, the notices computed for a session are a leave for every participant it newly excludes and
  a join for every participant it no longer excludes, and none for anyone else.
\<close>

theorem excl_transitions_exact:
  assumes "length src \<le> SLV_VIS_MAX_EXCL" and "length old \<le> SLV_VIS_MAX_EXCL"
    and "\<forall>s\<in>present. length s < SLV_UUID_LEN"
  shows "set (snd (excl_update present op src old)) =
    {(s, False) | s. s \<in> present \<and> s \<notin> set old \<and> s \<in> set (fst (excl_update present op src old))} \<union>
    {(s, True) | s. s \<in> present \<and> s \<in> set old \<and> s \<notin> set (fst (excl_update present op src old))}"
proof (cases op)
  case SLV_VIS_OP_ADD
  have "set (snd (excl_update present op src old)) = {(s, False) | s. s \<in> present \<and> s \<in> set src \<and> s \<notin> set old}"
    using trans_add [of "[]" src present old] assms(1,3) by (simp add: SLV_VIS_OP_ADD excl_update_def)
  then show ?thesis using SLV_VIS_OP_ADD by (auto simp: excl_update_set)
next
  case SLV_VIS_OP_REMOVE
  have "set (snd (excl_update present op src old)) = {(s, True) | s. s \<in> present \<and> s \<in> set src \<and> s \<in> set old}"
    using trans_remove [of "[]" src present old] assms(1,3) by (simp add: SLV_VIS_OP_REMOVE excl_update_def)
  then show ?thesis using SLV_VIS_OP_REMOVE by (auto simp: excl_update_set)
next
  case SLV_VIS_OP_REPLACE
  let ?tr = "fold (\<lambda>s tr. if s \<notin> set src then add_trans present s True tr else tr) old []"
  note T = trans_diff [of "[]" old present "set src" True]
  have "length ?tr + length src \<le> SLV_VIS_MAX_EXCL * 2" using T assms by simp
  from trans_diff [OF this assms(3), of "set old" False] T assms
  show ?thesis by (auto simp: SLV_VIS_OP_REPLACE excl_update_def Let_def excl_update_set)
qed

subsection \<open>Concrete runs\<close>

definition vis_absent_sample :: slv_mixer where
  "vis_absent_sample = upd_session 3 (\<lambda>x. x\<lparr>se_display := Some ''l''\<rparr>) slv_mixer_init"

definition vis_live_sample :: slv_mixer where
  "vis_live_sample = upd_room 0 (\<lambda>r. r\<lparr>rm_participants := [(3, 3)]\<rparr>)
     (upd_session 3 (\<lambda>x. x\<lparr>se_display := Some ''l'', se_dc_open := True\<rparr>) slv_mixer_init)"

lemmas vis_sample_defs =
  vis_absent_sample_def vis_live_sample_def upd_session_def upd_room_def slv_mixer_init_def
  janus_slvoice_room_zero_def janus_slvoice_session_zero_def

lemma vis_samples_state:
  "members (room_at vis_absent_sample 0) = []" "members (room_at vis_live_sample 0) = [3]"
  "rm_vis_deferred (room_at vis_absent_sample 0) = slv_deferred_init"
  "rm_vis_deferred (room_at vis_live_sample 0) = slv_deferred_init"
  "se_display (session_of vis_absent_sample 3) = Some ''l''" "se_display (session_of vis_live_sample 3) = Some ''l''"
  "session_cols vis_absent_sample 3 = ({}, {})" "session_cols vis_live_sample 3 = ({}, {})"
  "rm_vis_records (room_at vis_absent_sample 0) = []" "rm_vis_declared (room_at vis_absent_sample 0) = False"
  by (simp_all add: vis_sample_defs session_cols_def)

lemma vis_samples_ready:
  "batch_size auth_replace_sample = 2"
  "channels_ready 0 vis_absent_sample 2" "channels_ready 0 vis_live_sample 2"
  using deferred_init_inv
  by (simp_all add: batch_size_def auth_replace_sample_def channels_ready_def vis_samples_state slv_deferred_init_def slv_const)

lemma init_cols: "deferred_cols slv_deferred_init l = ({}, {})"
  by (simp add: deferred_cols_def slv_deferred_get_def slv_deferred_init_def)

lemma vis_samples_spec: "batch_spec auth_replace_sample [] ''l'' ({}, {}) = ({''s''}, {})"
  by (simp add: batch_spec_def channel_spec_def entries_for_def auth_replace_sample_def col_step_def)

theorem batch_refines_columns_witness:
  "session_cols (fst (apply_channels (\<lambda>j. Some ''x'') True auth_knobs_sample 5 0 auth_replace_sample [] vis_live_sample)) 3 =
     ({''s''}, {})"
  using batch_refines_columns [of 0 vis_live_sample auth_replace_sample "\<lambda>j. Some ''x''" auth_knobs_sample 5 "[]" 3]
  by (simp add: vis_samples_ready auth_samples_ok vis_samples_state vis_samples_spec)

theorem join_window_equivalence_witness:
  "session_cols (janus_slvoice_room_replay_deferred_locked 0 3
     (run_batches (\<lambda>j. Some ''x'') auth_knobs_sample 0 [(5, auth_replace_sample, [])] vis_absent_sample)) 3 = ({''s''}, {})"
proof -
  have "batches_size [(5, auth_replace_sample, [])] = 2" by (simp add: batches_size_def vis_samples_ready)
  moreover have "batches_spec [(5, auth_replace_sample, [])] ''l'' ({}, {}) = ({''s''}, {})"
    by (simp add: batches_spec_def vis_samples_spec)
  ultimately show ?thesis
    using join_window_equivalence [of 0 vis_absent_sample "[(5, auth_replace_sample, [])]" "''l''" 3 vis_live_sample 3
        "\<lambda>j. Some ''x''" auth_knobs_sample]
    by (simp add: vis_samples_ready auth_samples_ok vis_samples_state init_cols matching_def)
qed

theorem join_commit_columns_witness:
  "session_cols (fst (janus_slvoice_join_commit_locked auth_knobs_sample 5 0 3 vis_absent_sample)) 3 = ({}, {}) \<and>
   snd (janus_slvoice_join_commit_locked auth_knobs_sample 5 0 3 vis_absent_sample) = JArray []"
proof -
  obtain m' roster where j: "janus_slvoice_join_commit_locked auth_knobs_sample 5 0 3 vis_absent_sample = (m', roster)"
    by fastforce
  have "deferred_inv (rm_vis_deferred (room_at vis_absent_sample 0))"
    by (simp add: vis_samples_state deferred_init_inv)
  from join_commit_columns [OF this vis_samples_state(5) j] j show ?thesis
    by (simp add: vis_samples_state init_cols)
qed

theorem excl_transitions_exact_witness:
  "set (snd (excl_update {''a'', ''b''} SLV_VIS_OP_REPLACE [''a''] [''b''])) = {(''a'', False), (''b'', True)}"
proof -
  have "set (snd (excl_update {''a'', ''b''} SLV_VIS_OP_REPLACE [''a''] [''b''])) =
      {(s, False) |s. s \<in> {''a'', ''b''} \<and> s \<notin> set [''b''] \<and> s \<in> {''a''}} \<union>
      {(s, True) |s. s \<in> {''a'', ''b''} \<and> s \<in> set [''b''] \<and> s \<notin> {''a''}}"
    by (subst excl_transitions_exact) (simp_all add: slv_const SLV_UUID_LEN_def excl_update_set)
  also have "\<dots> = {(''a'', False), (''b'', True)}" by auto
  finally show ?thesis .
qed

end
