(* ===== verification/Tick.thy ===== *)
theory Tick
  imports Media Spatial Visibility
begin

text \<open>
  The room tick, \<^verbatim>\<open>janus_slvoice_room_tick\<close> of \<^verbatim>\<open>src/src/janus_slvoice.c\<close> up to the release of
  \<^verbatim>\<open>room->mutex\<close> (the duration histogram is not modelled, the reaping that follows is in the theory
  \<^verbatim>\<open>Lifecycle\<close>): pass 1 decodes every participant and takes its geometry, then come the visibility rows, and pass 2
  builds, encodes and sends every listener's frame. The packets are returned with the session they go to, the
  participants to reap with their join time.
\<close>

definition SLV_TICK_MS :: nat where [slv_const]: "SLV_TICK_MS = 20"

subsection \<open>Pass 1\<close>

definition pass1_one ::
  "slv_opus \<Rightarrow> slv_knobs \<Rightarrow> int \<Rightarrow> nat \<Rightarrow> bool \<Rightarrow> nat \<Rightarrow> slv_mixer \<times> (nat \<times> int) list \<Rightarrow> slv_mixer \<times> (nat \<times> int) list"
where
  "pass1_one op k t0 a check_reap s = (\<lambda>(m, reap).
     let x = janus_slvoice_tick_decode_locked op t0 (session_of m s);
         x = janus_slvoice_snapshot_geometry_locked (kn_spatial k) x;
         (x, rs) = janus_slvoice_pos_observe_locked (room_at m a) x t0;
         m = upd_room a (\<lambda>r. r\<lparr>rm_pos_stats := rs\<rparr>) (upd_session s (\<lambda>_. x) m)
     in if check_reap \<and> se_join_ts x \<noteq> 0 \<and> \<not> se_media_seen x \<and> \<not> se_destroyed x \<and>
           t0 - se_join_ts x \<ge> int (kn_join_media_timeout_s k) * G_USEC_PER_SEC
        then (m, reap @ [(s, se_join_ts x)]) else (m, reap))"

definition tick_pass1 ::
  "slv_opus \<Rightarrow> slv_knobs \<Rightarrow> int \<Rightarrow> nat \<Rightarrow> bool \<Rightarrow> nat list \<Rightarrow> slv_mixer \<Rightarrow> slv_mixer \<times> (nat \<times> int) list"
where
  "tick_pass1 op k t0 a check_reap sess m = fold (pass1_one op k t0 a check_reap) sess (m, [])"

subsection \<open>The visibility rows\<close>

text \<open>None in a room without a visibility authority, where no row is computed.\<close>

definition tick_rows :: "slv_knobs \<Rightarrow> int \<Rightarrow> nat list \<Rightarrow> slv_mixer \<Rightarrow> janus_slvoice_room \<Rightarrow> bool list option" where
  "tick_rows k t0 sess m room =
     (if rm_vis_declared room
      then Some (map (\<lambda>s. janus_slvoice_vis_ok_locked k room (se_display (session_of m s)) t0) sess) else None)"

definition tick_gauges :: "bool list option \<Rightarrow> janus_slvoice_room \<Rightarrow> janus_slvoice_room" where
  "tick_gauges rows room =
     (case rows of
        None \<Rightarrow> room
      | Some ok \<Rightarrow>
          let good = length (filter id ok)
          in room\<lparr>rm_vis_ws_listeners := length ok - good,
                  rm_vis_ws_pairs := slv_vis_would_silence_pairs (of_nat (length ok)) (of_nat good),
                  rm_vis_ws_listener_ticks := rm_vis_ws_listener_ticks room + (length ok - good)\<rparr>)"

subsection \<open>Pass 2\<close>

definition peer_ctl_of :: "slv_peer_ctl list \<Rightarrow> string \<Rightarrow> slv_peer_ctl option" where
  "peer_ctl_of pcs uuid = find (\<lambda>p. pc_uuid p = uuid) pcs"

text \<open>Listener \<open>i\<close> with session \<open>s\<close>, source \<open>j\<close> with session \<open>src\<close>; \<open>rows\<close> are the enforced rows, None when nothing is
  enforced. The result for the source: is it muted, and its two gains.\<close>

definition pass2_source ::
  "slv_spatial_settings \<Rightarrow> janus_slvoice_room \<Rightarrow> bool list option \<Rightarrow> nat \<Rightarrow> janus_slvoice_session \<Rightarrow>
   slv_cull_hyst list \<Rightarrow> nat \<Rightarrow> janus_slvoice_session \<Rightarrow> slv_cull_hyst list \<times> bool \<times> real \<times> real"
where
  "pass2_source sp room rows i s cs j src =
     (if j = i then (cs, False, 1, 1)
      else if (case rows of None \<Rightarrow> False | Some ok \<Rightarrow> \<not> ok ! i \<or> \<not> ok ! j) then (cs, True, 1, 1)
      else case se_display src of
        None \<Rightarrow> (cs, False, 1, 1)
      | Some disp \<Rightarrow>
         let mute = (disp \<in> set (se_mod_muted s));
             (mute, gain) = (case peer_ctl_of (se_peer_ctl s) disp of
                 None \<Rightarrow> (mute, 1)
               | Some p \<Rightarrow> (mute \<or> pc_muted p, if pc_has_gain p then pc_gain p else 1));
             mute = (mute \<or> slv_roster_excludes (se_excluded s) (Some disp))
         in if mute then (cs, True, 1, 1)
            else janus_slvoice_spatial_pair_locked sp room (s\<lparr>se_cull_hyst := cs\<rparr>) src disp gain)"

definition pass2_step ::
  "slv_spatial_settings \<Rightarrow> janus_slvoice_room \<Rightarrow> bool list option \<Rightarrow> nat \<Rightarrow> janus_slvoice_session \<Rightarrow>
   janus_slvoice_session list \<Rightarrow> nat \<Rightarrow> slv_cull_hyst list \<times> (bool \<times> real \<times> real) list \<Rightarrow>
   slv_cull_hyst list \<times> (bool \<times> real \<times> real) list"
where
  "pass2_step sp room rows i s srcs j st =
     (case pass2_source sp room rows i s (fst st) j (srcs ! j) of (cs, x) \<Rightarrow> (cs, snd st @ [x]))"

definition pass2_matrix ::
  "slv_spatial_settings \<Rightarrow> janus_slvoice_room \<Rightarrow> bool list option \<Rightarrow> nat \<Rightarrow> janus_slvoice_session \<Rightarrow>
   janus_slvoice_session list \<Rightarrow> slv_cull_hyst list \<times> (bool \<times> real \<times> real) list"
where
  "pass2_matrix sp room rows i s srcs =
     fold (pass2_step sp room rows i s srcs) [0..<length srcs] (se_cull_hyst s, [])"

definition every_other :: "nat \<Rightarrow> real list \<Rightarrow> real list" where
  "every_other c frame = map (\<lambda>t. frame ! (2 * t + c)) [0..<length frame div 2]"

definition channel_rms :: "nat \<Rightarrow> real list \<Rightarrow> real" where
  "channel_rms c frame = sqrt (sum_list (map (\<lambda>v. v * v) (every_other c frame)) / real SLV_FRAME_SAMPLES)"

text \<open>One listener: \<open>srcbuf\<close> and \<open>audible\<close> are what pass 1 left of every source.\<close>

definition pass2_listener ::
  "slv_opus \<Rightarrow> slv_spatial_settings \<Rightarrow> janus_slvoice_room \<Rightarrow> bool list option \<Rightarrow> real list option list \<Rightarrow> bool list \<Rightarrow>
   nat \<Rightarrow> janus_slvoice_session \<Rightarrow> janus_slvoice_session list \<Rightarrow> janus_slvoice_session \<times> slv_rtp option"
where
  "pass2_listener op sp room rows srcbuf audible i s srcs =
     (if \<not> se_webrtc_up s \<or> \<not> se_media_ready s then (s, None)
      else case pass2_matrix sp room rows i s srcs of (cs, row) \<Rightarrow>
        let s = s\<lparr>se_cull_hyst := cs\<rparr>;
            (s, frame, summed) =
              (if se_echo_active s
               then case janus_slvoice_build_echo s SLV_FRAME_SAMPLES of (s, frame) \<Rightarrow> (s, frame, 1)
               else case slv_mix_nminus1_stereo SLV_FRAME_TOTAL (Some srcbuf) (Some audible) (Some (map fst row))
                        (Some (map (fst \<circ> snd) row)) (Some (map (snd \<circ> snd) row)) (length srcs) (int i) of
                      (frame, summed) \<Rightarrow> (s, slv_mix_clamp frame, summed));
            silence = slv_mix_encode_skip summed frame;
            s = s\<lparr>se_last_mix_rms := slv_mix_rms frame, se_last_mix_rms_l := channel_rms 0 frame,
                  se_last_mix_rms_r := channel_rms 1 frame,
                  se_frames_mixed := (if silence then se_frames_mixed s else se_frames_mixed s + 1)\<rparr>
        in janus_slvoice_encode_relay op frame SLV_FRAME_SAMPLES silence s)"

definition pass2_one ::
  "slv_opus \<Rightarrow> slv_knobs \<Rightarrow> nat \<Rightarrow> bool list option \<Rightarrow> real list option list \<Rightarrow> bool list \<Rightarrow> nat list \<Rightarrow> nat \<Rightarrow>
   slv_mixer \<times> (nat \<times> slv_rtp) list \<Rightarrow> slv_mixer \<times> (nat \<times> slv_rtp) list"
where
  "pass2_one op k a rows srcbuf audible sess i = (\<lambda>(m, out).
     case pass2_listener op (kn_spatial k) (room_at m a) rows srcbuf audible i (session_of m (sess ! i))
            (map (session_of m) sess) of
       (x, p) \<Rightarrow> (upd_session (sess ! i) (\<lambda>_. x) m,
                   case p of None \<Rightarrow> out | Some p \<Rightarrow> out @ [(sess ! i, p)]))"

subsection \<open>The tick\<close>

text \<open>The sessions one tick serves: the first 110 of the room.\<close>

definition tick_sessions :: "slv_mixer \<Rightarrow> nat \<Rightarrow> nat list" where
  "tick_sessions m a = take SLV_MAX_MIX (members (room_at m a))"

definition room_tick_begin :: "janus_slvoice_room \<Rightarrow> janus_slvoice_room" where
  "room_tick_begin r =
     (let r = r\<lparr>rm_tick_seq := rm_tick_seq r + 1\<rparr>
      in if pr_have_batch (rm_pos_stats r) then r\<lparr>rm_pos_stats := slv_pos_room_tick_begin (rm_pos_stats r)\<rparr> else r)"

text \<open>Pass 2 and the rows before it, for the state that pass 1 left.\<close>

definition tick_after_pass1 ::
  "slv_opus \<Rightarrow> slv_knobs \<Rightarrow> int \<Rightarrow> nat \<Rightarrow> nat list \<Rightarrow> slv_mixer \<Rightarrow> slv_mixer \<times> (nat \<times> slv_rtp) list"
where
  "tick_after_pass1 op k t0 a sess m =
     (let srcbuf = map (\<lambda>s. if jb_alloc (se_jb (session_of m s)) then Some (se_decbuf (session_of m s)) else None) sess;
          audible = map (\<lambda>s. se_dec_samples (session_of m s) > 0) sess;
          rows = tick_rows k t0 sess m (room_at m a);
          m = upd_room a (tick_gauges rows) m;
          enforced = (if kn_fail_closed k then rows else None)
      in fold (pass2_one op k a enforced srcbuf audible sess) [0..<length sess] (m, []))"

definition room_tick_locked ::
  "slv_opus \<Rightarrow> slv_knobs \<Rightarrow> int \<Rightarrow> nat \<Rightarrow> slv_mixer \<Rightarrow> slv_mixer \<times> (nat \<times> slv_rtp) list \<times> (nat \<times> int) list"
where
  "room_tick_locked op k t0 a m =
     (let m = upd_room a room_tick_begin m;
          sess = tick_sessions m a;
          check_reap = (kn_join_media_timeout_s k > 0 \<and> rm_tick_seq (room_at m a) mod (1000 div SLV_TICK_MS) = 0)
      in case tick_pass1 op k t0 a check_reap sess m of
           (m, reap) \<Rightarrow> (case tick_after_pass1 op k t0 a sess m of (m, out) \<Rightarrow> (m, out, reap)))"

subsection \<open>What a pass leaves alone\<close>

text \<open>What other listeners read of a session in pass 2, and what decides whom a session hears.\<close>

definition src_view :: "janus_slvoice_session \<Rightarrow> string option \<times> bool \<times> slv_vec3" where
  "src_view x = (se_display x, se_snap_valid x, se_snap_sp x)"

definition ear_view :: "janus_slvoice_session \<Rightarrow> string option \<times> string list \<times> string list \<times> slv_peer_ctl list \<times> bool" where
  "ear_view x = (se_display x, se_excluded x, se_mod_muted x, se_peer_ctl x, se_echo_active x)"

lemma fill_loop_ctx:
  assumes "\<And>ctx cap want. f (fst (chunk ctx cap want)) = f ctx"
  shows "f (fst (fill_loop chunk cap frame channels k tot ctx out)) = f ctx"
proof (induction k arbitrary: tot ctx out)
  case 0
  then show ?case by simp
next
  case (Suc k)
  obtain ctx' n xs where c: "chunk ctx (cap - tot) (frame - tot) = (ctx', n, xs)" by (metis prod_cases3)
  then have "f ctx' = f ctx" using assms [of ctx "cap - tot" "frame - tot"] by simp
  with Suc c show ?case by (simp add: Let_def)
qed

lemma fill_frame_ctx:
  assumes "\<And>ctx cap want. f (fst (chunk ctx cap want)) = f ctx"
  shows "f (fst (slv_mix_fill_frame chunk cap frame channels k ctx out)) = f ctx"
  using fill_loop_ctx [of f chunk cap frame channels k 0 ctx out, OF assms]
  by (auto simp: slv_mix_fill_frame_def Let_def split: prod.splits sum.splits)

text \<open>Pass 1 of one participant, as a function of the session and of what it reads of the room.\<close>

definition pass1_session :: "slv_opus \<Rightarrow> slv_knobs \<Rightarrow> int \<Rightarrow> janus_slvoice_room \<Rightarrow> janus_slvoice_session \<Rightarrow> janus_slvoice_session" where
  "pass1_session op k t0 room x =
     fst (janus_slvoice_pos_observe_locked room
       (janus_slvoice_snapshot_geometry_locked (kn_spatial k) (janus_slvoice_tick_decode_locked op t0 x)) t0)"

text \<open>A view of a session that none of the members pass 1 writes is part of. Pass 1 leaves such a view alone.\<close>

locale decode_view =
  fixes view :: "janus_slvoice_session \<Rightarrow> 'v"
  assumes view_upd:
    "view (s\<lparr>se_decbuf := a\<rparr>) = view s" "view (s\<lparr>se_power_p := p\<rparr>) = view s" "view (s\<lparr>se_vad := v\<rparr>) = view s"
    "view (s\<lparr>se_decode_ok := b\<rparr>) = view s" "view (s\<lparr>se_frames_decoded := n\<rparr>) = view s"
    "view (s\<lparr>se_dec_samples := n\<rparr>) = view s" "view (s\<lparr>se_last_rms := r\<rparr>) = view s" "view (s\<lparr>se_active := b\<rparr>) = view s"
    "view (s\<lparr>se_pos := q\<rparr>) = view s" "view (s\<lparr>se_snap_valid := b\<rparr>) = view s" "view (s\<lparr>se_snap_sp := w\<rparr>) = view s"
    "view (s\<lparr>se_snap_lp := w\<rparr>) = view s" "view (s\<lparr>se_snap_lh := h\<rparr>) = view s"
    "view (s\<lparr>se_jb := j\<rparr>) = view s" "view (s\<lparr>se_dec := d\<rparr>) = view s"
begin

lemma decode_chunk_view: "view (fst (janus_slvoice_decode_chunk_locked op s cap want)) = view s"
  by (auto simp: janus_slvoice_decode_chunk_locked_def janus_slvoice_jb_pull_def dec_call_def view_upd Let_def
      split: prod.splits slv_jb_status.splits option.splits)

lemma tick_decode_view: "view (janus_slvoice_tick_decode_locked op now s) = view s"
proof -
  have "view x = view s"
    if "slv_mix_fill_frame (janus_slvoice_decode_chunk_locked op) c f n k (s\<lparr>se_active := b, se_dec_samples := 0\<rparr>) buf = (x, r)"
    for c f n k b buf x r
    using fill_frame_ctx [where f = view and chunk = "janus_slvoice_decode_chunk_locked op", OF decode_chunk_view,
        of c f n k "s\<lparr>se_active := b, se_dec_samples := 0\<rparr>" buf] that
    by (simp add: view_upd)
  then show ?thesis
    by (auto simp: janus_slvoice_tick_decode_locked_def Let_def tick_silent_def view_upd split: prod.splits)
qed

lemma snapshot_view: "view (janus_slvoice_snapshot_geometry_locked sp s) = view s"
  by (simp add: janus_slvoice_snapshot_geometry_locked_def Let_def view_upd)

lemma pass1_session_view: "view (pass1_session op k t0 room x) = view x"
  by (auto simp: pass1_session_def janus_slvoice_pos_observe_locked_def snapshot_view tick_decode_view view_upd Let_def
      split: prod.splits)

end

interpretation ear: decode_view ear_view
  by unfold_locales (simp_all add: ear_view_def)

lemmas pass1_session_view = ear.pass1_session_view

text \<open>Two rooms that agree on what a tick reads of them, besides the counters of the simulator's positions.\<close>

definition room_alike :: "janus_slvoice_room \<Rightarrow> janus_slvoice_room \<Rightarrow> bool" where
  "room_alike r r' \<longleftrightarrow>
     pr_have_batch (rm_pos_stats r') = pr_have_batch (rm_pos_stats r) \<and> rm_pos_store r' = rm_pos_store r \<and>
     rm_vis_declared r' = rm_vis_declared r \<and> rm_vis_records r' = rm_vis_records r \<and>
     rm_vis_auth_epoch r' = rm_vis_auth_epoch r \<and> rm_spatial_audio r' = rm_spatial_audio r \<and> rm_tick_seq r' = rm_tick_seq r"

lemma pos_observe_claim_stats:
  "fst (pos_observe_claim sim age claim (ps, rs)) = fst (pos_observe_claim sim age claim (ps, rs'))"
  "pr_have_batch (snd (pos_observe_claim sim age claim (ps, rs))) = pr_have_batch rs"
  by (cases claim; simp add: pos_observe_claim_def Let_def)+

lemma pos_observe_stats:
  "fst (slv_pos_observe ps rs sim now sp lp claim) = fst (slv_pos_observe ps rs' sim now sp lp claim)"
  "pr_have_batch (snd (slv_pos_observe ps rs sim now sp lp claim)) = pr_have_batch rs"
  by (auto simp: slv_pos_observe_def Let_def pos_observe_claim_stats(2) intro: pos_observe_claim_stats(1) split: option.splits)

lemma room_alike_refl: "room_alike r r"
  by (simp add: room_alike_def)

lemma room_alike_stats: "pr_have_batch rs = pr_have_batch (rm_pos_stats r) \<Longrightarrow> room_alike r' (r\<lparr>rm_pos_stats := rs\<rparr>) = room_alike r' r"
  by (simp add: room_alike_def)

lemma room_alike_stats_left:
  "pr_have_batch rs = pr_have_batch (rm_pos_stats r) \<Longrightarrow> room_alike (r\<lparr>rm_pos_stats := rs\<rparr>) r' = room_alike r r'"
  by (simp add: room_alike_def)

lemma pos_observe_have_batch:
  "pr_have_batch (snd (janus_slvoice_pos_observe_locked r x t)) = pr_have_batch (rm_pos_stats r)"
  by (simp add: janus_slvoice_pos_observe_locked_def Let_def split_beta pos_observe_stats(2))

lemma pos_observe_session:
  assumes "room_alike r r'"
  shows "fst (janus_slvoice_pos_observe_locked r' x t) = fst (janus_slvoice_pos_observe_locked r x t)"
  using assms pos_observe_stats(1) [of "se_pos x" "rm_pos_stats r'" _ t _ _ _ "rm_pos_stats r"]
  by (cases "se_display x") (simp_all add: room_alike_def janus_slvoice_pos_observe_locked_def Let_def split_beta)

lemma pass1_session_alike: "room_alike r r' \<Longrightarrow> pass1_session op k t0 r' x = pass1_session op k t0 r x"
  by (simp add: pass1_session_def pos_observe_session)

text \<open>Two states of the process that differ, besides those counters, only in session \<open>sj\<close>, and there not in the display.\<close>

definition alike :: "nat \<Rightarrow> nat \<Rightarrow> slv_mixer \<Rightarrow> slv_mixer \<Rightarrow> bool" where
  "alike sj a m m' \<longleftrightarrow>
     (\<forall>s. s \<noteq> sj \<longrightarrow> session_of m' s = session_of m s) \<and>
     se_display (session_of m' sj) = se_display (session_of m sj) \<and> room_alike (room_at m a) (room_at m' a)"

lemma pass1_one_state:
  "session_of (fst (pass1_one op k t0 a check s (m, reap))) w =
     (if w = s then pass1_session op k t0 (room_at m a) (session_of m s) else session_of m w)"
  "room_at (fst (pass1_one op k t0 a check s (m, reap))) a =
     (room_at m a)\<lparr>rm_pos_stats := snd (janus_slvoice_pos_observe_locked (room_at m a)
        (janus_slvoice_snapshot_geometry_locked (kn_spatial k) (janus_slvoice_tick_decode_locked op t0 (session_of m s))) t0)\<rparr>"
  by (simp_all add: pass1_one_def Let_def split_beta pass1_session_def upd_session_def upd_room_def)

lemma pass1_one_alike:
  assumes "alike sj a m m'"
  shows "alike sj a (fst (pass1_one op k t0 a check s (m, reap))) (fst (pass1_one op k t0 a check s (m', reap')))"
proof -
  have r: "room_alike (room_at m a) (room_at m' a)" using assms by (simp add: alike_def)
  have "se_display (pass1_session op k t0 q x) = se_display x" for q x
    using pass1_session_view [of op k t0 q x] by (simp add: ear_view_def)
  with assms r show ?thesis
    unfolding alike_def pass1_one_state
    by (cases "sj = s") (simp_all add: pass1_session_alike room_alike_stats room_alike_stats_left pos_observe_have_batch)
qed

lemma pass1_fold_alike:
  "alike sj a m m' \<Longrightarrow> alike sj a (fst (fold (pass1_one op k t0 a check) ss (m, reap))) (fst (fold (pass1_one op k t0 a check) ss (m', reap')))"
proof (induction ss arbitrary: m m' reap reap')
  case Nil
  then show ?case by simp
next
  case (Cons s ss)
  obtain m1 r1 where 1: "pass1_one op k t0 a check s (m, reap) = (m1, r1)" by fastforce
  obtain m2 r2 where 2: "pass1_one op k t0 a check s (m', reap') = (m2, r2)" by fastforce
  from pass1_one_alike [OF Cons.prems, of op k t0 check s reap reap'] have "alike sj a m1 m2" by (simp add: 1 2)
  from Cons.IH [OF this] show ?case by (simp add: 1 2)
qed

lemma pass1_check: "fst (fold (pass1_one op k t0 a check) ss (m, reap)) = fst (fold (pass1_one op k t0 a check') ss (m, reap'))"
proof (induction ss arbitrary: m reap reap')
  case Nil
  then show ?case by simp
next
  case (Cons s ss)
  have "fst (pass1_one op k t0 a check s (m, reap)) = fst (pass1_one op k t0 a check' s (m, reap'))"
    by (simp add: pass1_one_def Let_def split_beta)
  then show ?case
    using Cons.IH by (cases "pass1_one op k t0 a check s (m, reap)"; cases "pass1_one op k t0 a check' s (m, reap')") simp
qed

lemma pass1_fold_view:
  "ear_view (session_of (fst (fold (pass1_one op k t0 a check) ss (m, reap))) w) = ear_view (session_of m w) \<and>
   room_alike (room_at m a) (room_at (fst (fold (pass1_one op k t0 a check) ss (m, reap))) a)"
proof (induction ss rule: rev_induct)
  case Nil
  then show ?case by (simp add: room_alike_refl)
next
  case (snoc s ss)
  obtain m1 r1 where 1: "fold (pass1_one op k t0 a check) ss (m, reap) = (m1, r1)" by fastforce
  with snoc have v: "ear_view (session_of m1 w) = ear_view (session_of m w)" "room_alike (room_at m a) (room_at m1 a)" by simp_all
  show ?case
    using v by (cases "w = s") (simp_all add: 1 pass1_one_state pass1_session_view room_alike_stats pos_observe_have_batch)
qed

subsection \<open>Pass 2, listener by listener\<close>

lemma spatial_pair_cong:
  assumes "room_alike r r'" "src_view src = src_view src'"
  shows "janus_slvoice_spatial_pair_locked sp r' s src' disp gain = janus_slvoice_spatial_pair_locked sp r s src disp gain"
proof -
  have "rm_spatial_audio r' = rm_spatial_audio r" "rm_tick_seq r' = rm_tick_seq r" "se_snap_valid src' = se_snap_valid src"
    "se_snap_sp src' = se_snap_sp src"
    using assms by (simp_all add: room_alike_def src_view_def)
  then show ?thesis unfolding janus_slvoice_spatial_pair_locked_def by (simp only:)
qed

lemma pass2_source_cong:
  assumes "room_alike r r'" "src_view src = src_view src'"
  shows "pass2_source sp r' rows i s cs j src' = pass2_source sp r rows i s cs j src"
proof -
  have "se_display src' = se_display src" using assms(2) by (simp add: src_view_def)
  then show ?thesis unfolding pass2_source_def spatial_pair_cong [OF assms] by (simp only:)
qed

lemma pass2_step_sel:
  "snd (pass2_step sp room rows i s srcs j st) = snd st @ [snd (pass2_source sp room rows i s (fst st) j (srcs ! j))]"
  by (simp add: pass2_step_def split_beta)

lemma pass2_matrix_cong:
  assumes "length srcs' = length srcs"
    and "\<And>j cs. j < length srcs \<Longrightarrow>
      pass2_source sp r' rows i s cs j (srcs' ! j) = pass2_source sp r rows i s cs j (srcs ! j)"
  shows "pass2_matrix sp r' rows i s srcs' = pass2_matrix sp r rows i s srcs"
  unfolding pass2_matrix_def assms(1) using assms(2) by (intro fold_cong) (auto simp: pass2_step_def)

lemma length_pass2_fold: "length (snd (fold (pass2_step sp room rows i s srcs) [0..<n] (cs, []))) = n"
  by (induction n) (simp_all add: pass2_step_sel)

lemma length_pass2_matrix: "length (snd (pass2_matrix sp room rows i s srcs)) = length srcs"
  by (simp add: pass2_matrix_def length_pass2_fold)

lemma pass2_matrix_nth:
  assumes "j < length srcs" and "\<And>cs. P (snd (pass2_source sp room rows i s cs j (srcs ! j)))"
  shows "P (snd (pass2_matrix sp room rows i s srcs) ! j)"
proof -
  have "j < n \<Longrightarrow> P (snd (fold (pass2_step sp room rows i s srcs) [0..<n] (cs, [])) ! j)" for n cs
  proof (induction n)
    case 0
    then show ?case by simp
  next
    case (Suc n)
    with assms(2) show ?case by (auto simp: pass2_step_sel nth_append length_pass2_fold less_Suc_eq)
  qed
  with assms(1) show ?thesis by (simp add: pass2_matrix_def)
qed

text \<open>Whom a listener does not hear, whatever the geometry: the rows (when they are enforced), its exclusions, the
  moderation mutes and its own mutes.\<close>

definition pair_silenced :: "slv_knobs \<Rightarrow> janus_slvoice_room \<Rightarrow> int \<Rightarrow> janus_slvoice_session \<Rightarrow> string option \<Rightarrow> bool" where
  "pair_silenced k room now s src_display \<longleftrightarrow>
     (janus_slvoice_vis_enforced k room \<and> \<not> janus_slvoice_vis_pair_visible_locked k room (se_display s) src_display now) \<or>
     (case src_display of
        None \<Rightarrow> False
      | Some d \<Rightarrow> d \<in> set (se_excluded s) \<or> d \<in> set (se_mod_muted s) \<or>
          (case peer_ctl_of (se_peer_ctl s) d of None \<Rightarrow> False | Some p \<Rightarrow> pc_muted p))"

text \<open>The rows as pass 2 gets them.\<close>

definition enforced_rows :: "slv_knobs \<Rightarrow> janus_slvoice_room \<Rightarrow> int \<Rightarrow> string option list \<Rightarrow> bool list option" where
  "enforced_rows k room now displays =
     (if janus_slvoice_vis_enforced k room then Some (map (\<lambda>d. janus_slvoice_vis_ok_locked k room d now) displays) else None)"

lemma pass2_source_silenced:
  assumes "pair_silenced k room now s (se_display src)" "i \<noteq> j" "i < length ds" "j < length ds"
    "ds ! i = se_display s" "ds ! j = se_display src"
  shows "pass2_source sp r (enforced_rows k room now ds) i s cs j src = (cs, True, 1, 1)"
  using assms
  by (cases "se_display src")
    (auto simp: pass2_source_def pair_silenced_def enforced_rows_def janus_slvoice_vis_pair_visible_locked_def Let_def
      slv_roster_excludes_def split: option.splits)

text \<open>One listener with everything it reads: two sets of sources that agree, apart from a silenced one, give the same.\<close>

lemma pass2_listener_cong:
  assumes "room_alike r r'" "length srcs' = length srcs" "length srcbuf = length srcs" "length audible = length srcs"
    "length srcbuf' = length srcs" "length audible' = length srcs"
    and rest: "\<And>j. j < length srcs \<Longrightarrow> j \<noteq> j0 \<Longrightarrow>
      src_view (srcs ! j) = src_view (srcs' ! j) \<and> srcbuf' ! j = srcbuf ! j \<and> audible' ! j = audible ! j"
    and quiet: "\<And>cs. pass2_source sp r rows i s cs j0 (srcs ! j0) = (cs, True, 1, 1)"
      "\<And>cs. pass2_source sp r' rows i s cs j0 (srcs' ! j0) = (cs, True, 1, 1)"
  shows "pass2_listener op sp r' rows srcbuf' audible' i s srcs' = pass2_listener op sp r rows srcbuf audible i s srcs"
proof -
  have same: "pass2_source sp r' rows i s cs j (srcs' ! j) = pass2_source sp r rows i s cs j (srcs ! j)" if "j < length srcs" for j cs
    using pass2_source_cong [OF assms(1), of "srcs ! j" "srcs' ! j"] rest [OF that] quiet by (cases "j = j0") simp_all
  have matrix: "pass2_matrix sp r' rows i s srcs' = pass2_matrix sp r rows i s srcs"
    by (rule pass2_matrix_cong [OF assms(2) same])
  obtain cs row where row: "pass2_matrix sp r rows i s srcs = (cs, row)" by fastforce
  have len: "length row = length srcs" using length_pass2_matrix [of sp r rows i s srcs] by (simp add: row)
  have muted: "fst (row ! j0)" if "j0 < length srcs"
    using pass2_matrix_nth [OF that, of fst sp r rows i s] quiet(1) by (simp add: row)
  have "mix_contributes (Some srcbuf') (Some audible') (Some (map fst row)) gL gR (int i) j =
      mix_contributes (Some srcbuf) (Some audible) (Some (map fst row)) gL gR (int i) j" if "j < length srcs" for j gL gR
    using rest [OF that] muted that by (cases "j = j0") (simp_all add: mix_contributes_def len)
  then have "slv_mix_nminus1_stereo n (Some srcbuf') (Some audible') (Some (map fst row)) gL gR (length srcs) (int i) =
      slv_mix_nminus1_stereo n (Some srcbuf) (Some audible) (Some (map fst row)) gL gR (length srcs) (int i)" for n gL gR
    by (intro mix_cong) auto
  then show ?thesis
    unfolding pass2_listener_def matrix row assms(2) prod.case by (simp only:)
qed

lemma encode_relay_view:
  "src_view (fst (janus_slvoice_encode_relay op frame n silence s)) = src_view s"
  by (auto simp: janus_slvoice_encode_relay_def Let_def src_view_def split: option.splits prod.splits)

lemma build_echo_view: "src_view (fst (janus_slvoice_build_echo s n)) = src_view s"
  by (auto simp: janus_slvoice_build_echo_def Let_def src_view_def split: prod.splits)

lemma pass2_listener_view:
  "src_view (fst (pass2_listener op sp room rows srcbuf audible i s srcs)) = src_view s"
proof -
  have "src_view (s\<lparr>se_cull_hyst := cs\<rparr>) = src_view s" "src_view (x\<lparr>se_last_mix_rms := a, se_last_mix_rms_l := b,
      se_last_mix_rms_r := c, se_frames_mixed := d\<rparr>) = src_view x" for cs x a b c d
    by (simp_all add: src_view_def)
  then show ?thesis
    using build_echo_view by (simp add: pass2_listener_def Let_def split_beta encode_relay_view)
qed

text \<open>What listener \<open>i\<close> of the tick gets from the state that pass 1 left.\<close>

definition pass2_of ::
  "slv_opus \<Rightarrow> slv_knobs \<Rightarrow> nat \<Rightarrow> bool list option \<Rightarrow> real list option list \<Rightarrow> bool list \<Rightarrow> nat list \<Rightarrow> slv_mixer \<Rightarrow> nat \<Rightarrow>
   janus_slvoice_session \<times> slv_rtp option"
where
  "pass2_of op k a rows srcbuf audible sess m i =
     pass2_listener op (kn_spatial k) (room_at m a) rows srcbuf audible i (session_of m (sess ! i)) (map (session_of m) sess)"

lemma pass2_one_state:
  "pass2_one op k a rows srcbuf audible sess i (m, out) =
     (upd_session (sess ! i) (\<lambda>_. fst (pass2_of op k a rows srcbuf audible sess m i)) m,
      out @ (case snd (pass2_of op k a rows srcbuf audible sess m i) of None \<Rightarrow> [] | Some p \<Rightarrow> [(sess ! i, p)]))"
  by (auto simp: pass2_one_def pass2_of_def split: prod.split option.split)

lemma pass2_listener_srcs:
  assumes "map src_view srcs = map src_view srcs'"
  shows "pass2_listener op sp r rows srcbuf audible i s srcs' = pass2_listener op sp r rows srcbuf audible i s srcs"
proof -
  have len: "length srcs' = length srcs" using assms by (metis length_map)
  have "pass2_source sp r rows i s cs j (srcs' ! j) = pass2_source sp r rows i s cs j (srcs ! j)" if "j < length srcs" for j cs
    using that assms len by (intro pass2_source_cong room_alike_refl) (metis nth_map)
  then have "pass2_matrix sp r rows i s srcs' = pass2_matrix sp r rows i s srcs" by (rule pass2_matrix_cong [OF len])
  then show ?thesis unfolding pass2_listener_def len by (simp only:)
qed

lemma pass2_fold:
  assumes "distinct sess" "distinct is" "set is \<subseteq> {0..<length sess}"
  shows "\<exists>m'. fold (pass2_one op k a rows srcbuf audible sess) is (m, out) =
      (m', out @ concat (map (\<lambda>i. case snd (pass2_of op k a rows srcbuf audible sess m i) of
             None \<Rightarrow> [] | Some p \<Rightarrow> [(sess ! i, p)]) is)) \<and>
    (\<forall>i \<in> set is. session_of m' (sess ! i) = fst (pass2_of op k a rows srcbuf audible sess m i)) \<and>
    (\<forall>s. s \<notin> (!) sess ` set is \<longrightarrow> session_of m' s = session_of m s)"
  using assms(2,3)
proof (induction "is" arbitrary: m out)
  case Nil
  then show ?case by simp
next
  case (Cons i "is")
  let ?P = "pass2_of op k a rows srcbuf audible sess"
  let ?m = "upd_session (sess ! i) (\<lambda>_. fst (?P m i)) m"
  have i: "i < length sess" using Cons.prems by simp
  have same: "?P ?m j = ?P m j" if "j \<in> set is" for j
  proof -
    have "j < length sess" "j \<noteq> i" using that Cons.prems by auto
    then have "sess ! j \<noteq> sess ! i" using i assms(1) by (simp add: nth_eq_iff_index_eq)
    moreover have "src_view (session_of ?m s) = src_view (session_of m s)" for s
      by (cases "s = sess ! i") (simp_all add: pass2_of_def pass2_listener_view upd_session_other)
    then have "map src_view (map (session_of ?m) sess) = map src_view (map (session_of m) sess)" by simp
    ultimately show ?thesis
      using pass2_listener_srcs [of "map (session_of m) sess" "map (session_of ?m) sess"]
      by (simp add: pass2_of_def upd_session_other)
  qed
  have "distinct is" "set is \<subseteq> {0..<length sess}" using Cons.prems by auto
  from Cons.IH [OF this, of ?m "out @ (case snd (?P m i) of None \<Rightarrow> [] | Some p \<Rightarrow> [(sess ! i, p)])"]
  obtain m' where
    f: "fold (pass2_one op k a rows srcbuf audible sess) is (?m, out @ (case snd (?P m i) of None \<Rightarrow> [] | Some p \<Rightarrow> [(sess ! i, p)])) =
      (m', (out @ (case snd (?P m i) of None \<Rightarrow> [] | Some p \<Rightarrow> [(sess ! i, p)])) @
        concat (map (\<lambda>i. case snd (?P ?m i) of None \<Rightarrow> [] | Some p \<Rightarrow> [(sess ! i, p)]) is))"
    and on: "\<forall>j \<in> set is. session_of m' (sess ! j) = fst (?P ?m j)"
    and off: "\<forall>s. s \<notin> (!) sess ` set is \<longrightarrow> session_of m' s = session_of ?m s" by blast
  have "sess ! i \<notin> (!) sess ` set is"
    using Cons.prems i assms(1) by (auto simp: nth_eq_iff_index_eq)
  then have "session_of m' (sess ! i) = fst (?P m i)" using off by simp
  moreover have "\<forall>j \<in> set is. session_of m' (sess ! j) = fst (?P m j)" using on same by simp
  moreover have "\<forall>s. s \<notin> (!) sess ` set (i # is) \<longrightarrow> session_of m' s = session_of m s"
    using off by (simp add: upd_session_other)
  moreover have "concat (map (\<lambda>i. case snd (?P ?m i) of None \<Rightarrow> [] | Some p \<Rightarrow> [(sess ! i, p)]) is) =
      concat (map (\<lambda>i. case snd (?P m i) of None \<Rightarrow> [] | Some p \<Rightarrow> [(sess ! i, p)]) is)"
    using same by (intro arg_cong [where f = concat] map_cong) auto
  ultimately show ?case using f by (simp add: pass2_one_state)
qed

subsection \<open>The tick as its listeners see it\<close>

abbreviation srcbuf_of :: "nat list \<Rightarrow> slv_mixer \<Rightarrow> real list option list" where
  "srcbuf_of sess m \<equiv> map (\<lambda>s. if jb_alloc (se_jb (session_of m s)) then Some (se_decbuf (session_of m s)) else None) sess"

abbreviation audible_of :: "nat list \<Rightarrow> slv_mixer \<Rightarrow> bool list" where
  "audible_of sess m \<equiv> map (\<lambda>s. se_dec_samples (session_of m s) > 0) sess"

abbreviation displays_of :: "nat list \<Rightarrow> slv_mixer \<Rightarrow> string option list" where
  "displays_of sess m \<equiv> map (\<lambda>s. se_display (session_of m s)) sess"

lemma filter_concat_index:
  assumes "\<And>j x. x \<in> set (g j) \<Longrightarrow> fst x = h j" "\<And>j. j \<in> set js \<Longrightarrow> h j = h i \<Longrightarrow> j = i" "distinct js" "i \<in> set js"
  shows "filter (\<lambda>x. fst x = h i) (concat (map g js)) = g i"
proof -
  have off: "filter (\<lambda>x. fst x = h i) (g j) = []" if "j \<in> set js" "j \<noteq> i" for j
    using that assms(1,2) by (auto simp: filter_empty_conv)
  have on: "filter (\<lambda>x. fst x = h i) (g i) = g i" using assms(1) by (auto simp: filter_id_conv)
  have none: "filter (\<lambda>x. fst x = h i) (concat (map g ks)) = []" if "set ks \<subseteq> set js" "i \<notin> set ks" for ks
    using that
  proof (induction ks)
    case (Cons j ks)
    then have "j \<in> set js" "j \<noteq> i" by auto
    from off [OF this] Cons show ?case by simp
  qed simp
  obtain as bs where js: "js = as @ i # bs" using assms(4) by (meson split_list)
  have "filter (\<lambda>x. fst x = h i) (concat (map g as)) = []" "filter (\<lambda>x. fst x = h i) (concat (map g bs)) = []"
    using js assms(3) by (auto intro!: none)
  with on show ?thesis by (simp add: js)
qed

lemma enforced_rows_eq:
  "(if kn_fail_closed k then tick_rows k t0 sess m room else None) = enforced_rows k room t0 (displays_of sess m)"
  by (simp add: tick_rows_def enforced_rows_def janus_slvoice_vis_enforced_def comp_def)

lemma gauges_alike: "room_alike r (tick_gauges rows r)"
  by (auto simp: room_alike_def tick_gauges_def Let_def split: option.split)

lemma room_alike_trans: "room_alike a b \<Longrightarrow> room_alike b c \<Longrightarrow> room_alike a c"
  by (simp add: room_alike_def)

lemma room_alike_sym: "room_alike a b \<Longrightarrow> room_alike b a"
  by (simp add: room_alike_def)

text \<open>The state in which pass 2 starts.\<close>

definition pass2_start :: "slv_knobs \<Rightarrow> int \<Rightarrow> nat \<Rightarrow> nat list \<Rightarrow> slv_mixer \<Rightarrow> slv_mixer" where
  "pass2_start k t0 a sess m = upd_room a (tick_gauges (tick_rows k t0 sess m (room_at m a))) m"

lemma after_pass1_listener:
  assumes "distinct sess" "i < length sess" "tick_after_pass1 op k t0 a sess m = (m', out)"
  defines "P \<equiv> pass2_of op k a (enforced_rows k (room_at m a) t0 (displays_of sess m)) (srcbuf_of sess m) (audible_of sess m) sess
      (pass2_start k t0 a sess m) i"
  shows "session_of m' (sess ! i) = fst P"
    and "filter (\<lambda>x. fst x = sess ! i) out = (case snd P of None \<Rightarrow> [] | Some p \<Rightarrow> [(sess ! i, p)])"
proof -
  let ?P = "pass2_of op k a (enforced_rows k (room_at m a) t0 (displays_of sess m)) (srcbuf_of sess m) (audible_of sess m) sess
      (pass2_start k t0 a sess m)"
  let ?g = "\<lambda>i. case snd (?P i) of None \<Rightarrow> [] | Some p \<Rightarrow> [(sess ! i, p)]"
  from pass2_fold [OF assms(1), of "[0..<length sess]" op k a "enforced_rows k (room_at m a) t0 (displays_of sess m)"
      "srcbuf_of sess m" "audible_of sess m" "pass2_start k t0 a sess m" "[]"]
  have "out = concat (map ?g [0..<length sess])" "\<forall>i \<in> {0..<length sess}. session_of m' (sess ! i) = fst (?P i)"
    using assms(3) by (auto simp: tick_after_pass1_def Let_def enforced_rows_eq pass2_start_def)
  moreover have "filter (\<lambda>x. fst x = sess ! i) (concat (map ?g [0..<length sess])) = ?g i"
    using assms(1,2) by (intro filter_concat_index [where h = "(!) sess"])
      (auto simp: nth_eq_iff_index_eq split: option.splits)
  ultimately show "session_of m' (sess ! i) = fst P"
    and "filter (\<lambda>x. fst x = sess ! i) out = (case snd P of None \<Rightarrow> [] | Some p \<Rightarrow> [(sess ! i, p)])"
    using assms(2) by (simp_all add: P_def)
qed

lemma vis_alike:
  assumes "room_alike r r'"
  shows "janus_slvoice_vis_ok_locked k r' d now = janus_slvoice_vis_ok_locked k r d now"
    and "janus_slvoice_vis_enforced k r' = janus_slvoice_vis_enforced k r"
    and "enforced_rows k r' now ds = enforced_rows k r now ds"
    and "pair_silenced k r' now s sd = pair_silenced k r now s sd"
proof -
  have e: "rm_vis_declared r' = rm_vis_declared r" "rm_vis_records r' = rm_vis_records r" "rm_vis_auth_epoch r' = rm_vis_auth_epoch r"
    using assms by (simp_all add: room_alike_def)
  have ok: "janus_slvoice_vis_ok_locked k r' d now = janus_slvoice_vis_ok_locked k r d now" for d
    unfolding janus_slvoice_vis_ok_locked_def janus_slvoice_vis_row_locked_def e by (rule refl)
  have en: "janus_slvoice_vis_enforced k r' = janus_slvoice_vis_enforced k r"
    unfolding janus_slvoice_vis_enforced_def e by (rule refl)
  show "janus_slvoice_vis_ok_locked k r' d now = janus_slvoice_vis_ok_locked k r d now" by (rule ok)
  show "janus_slvoice_vis_enforced k r' = janus_slvoice_vis_enforced k r" by (rule en)
  show "enforced_rows k r' now ds = enforced_rows k r now ds" by (simp add: enforced_rows_def ok en)
  show "pair_silenced k r' now s sd = pair_silenced k r now s sd"
    unfolding pair_silenced_def janus_slvoice_vis_pair_visible_locked_def ok en by (rule refl)
qed

lemma pair_silenced_view: "ear_view s' = ear_view s \<Longrightarrow> pair_silenced k r now s' sd = pair_silenced k r now s sd"
  by (cases sd) (simp_all add: ear_view_def pair_silenced_def)

text \<open>Two states that pass 1 left, alike but for a source the listener does not hear.\<close>

lemma after_pass1_noninterference:
  assumes "alike (sess ! j) a m m'" "distinct sess" "i < length sess" "j < length sess" "i \<noteq> j"
    and "pair_silenced k (room_at m a) t0 (session_of m (sess ! i)) (se_display (session_of m (sess ! j)))"
    and "tick_after_pass1 op k t0 a sess m = (m1, out1)" "tick_after_pass1 op k t0 a sess m' = (m2, out2)"
  shows "session_of m2 (sess ! i) = session_of m1 (sess ! i) \<and>
    filter (\<lambda>x. fst x = sess ! i) out2 = filter (\<lambda>x. fst x = sess ! i) out1"
proof -
  let ?n = "pass2_start k t0 a sess m" and ?n' = "pass2_start k t0 a sess m'"
  have ne: "sess ! i \<noteq> sess ! j" using assms(2-5) by (simp add: nth_eq_iff_index_eq)
  have other: "session_of m' s = session_of m s" if "s \<noteq> sess ! j" for s using assms(1) that by (simp add: alike_def)
  have r: "room_alike (room_at m a) (room_at m' a)" using assms(1) by (simp add: alike_def)
  have rn: "room_alike (room_at ?n a) (room_at ?n' a)"
    using r gauges_alike by (simp add: pass2_start_def) (meson room_alike_sym room_alike_trans)
  have disp: "displays_of sess m' = displays_of sess m"
    using assms(1) other by (intro map_cong refl) (metis alike_def)
  have rows: "enforced_rows k (room_at m' a) t0 (displays_of sess m') = enforced_rows k (room_at m a) t0 (displays_of sess m)"
    unfolding disp by (rule vis_alike(3) [OF r])
  have quiet: "pass2_source sp q (enforced_rows k (room_at m a) t0 (displays_of sess m)) i (session_of m (sess ! i)) cs j src = (cs, True, 1, 1)"
    if "se_display src = se_display (session_of m (sess ! j))" for sp q cs src
    using assms(3-6) that by (intro pass2_source_silenced) auto
  have view: "src_view (session_of ?n (sess ! l)) = src_view (session_of ?n' (sess ! l)) \<and>
      srcbuf_of sess m' ! l = srcbuf_of sess m ! l \<and> audible_of sess m' ! l = audible_of sess m ! l"
    if "l < length sess" "l \<noteq> j" for l
  proof -
    have "sess ! l \<noteq> sess ! j" using that assms(2,4) by (simp add: nth_eq_iff_index_eq)
    from other [OF this] that show ?thesis by (simp add: pass2_start_def)
  qed
  have start: "session_of ?n = session_of m" "session_of ?n' = session_of m'" by (simp_all add: pass2_start_def)
  have session: "session_of ?n' (sess ! i) = session_of ?n (sess ! i)" using other [OF ne] by (simp add: start)
  have "pass2_of op k a (enforced_rows k (room_at m' a) t0 (displays_of sess m')) (srcbuf_of sess m') (audible_of sess m') sess ?n' i =
      pass2_of op k a (enforced_rows k (room_at m a) t0 (displays_of sess m)) (srcbuf_of sess m) (audible_of sess m) sess ?n i"
    unfolding pass2_of_def rows session
  proof (rule pass2_listener_cong [OF rn, where ?j0.0 = j])
    show "src_view (map (session_of ?n) sess ! l) = src_view (map (session_of ?n') sess ! l) \<and>
        srcbuf_of sess m' ! l = srcbuf_of sess m ! l \<and> audible_of sess m' ! l = audible_of sess m ! l"
      if "l < length (map (session_of ?n) sess)" "l \<noteq> j" for l
    proof -
      have "l < length sess" using that(1) by simp
      with view [OF this that(2)] show ?thesis by (simp only: length_map nth_map)
    qed
    show "pass2_source (kn_spatial k) (room_at ?n a) (enforced_rows k (room_at m a) t0 (displays_of sess m)) i
        (session_of ?n (sess ! i)) cs j (map (session_of ?n) sess ! j) = (cs, True, 1, 1)" for cs
      unfolding start(1) using assms(4) by (simp add: start quiet)
    show "pass2_source (kn_spatial k) (room_at ?n' a) (enforced_rows k (room_at m a) t0 (displays_of sess m)) i
        (session_of ?n (sess ! i)) cs j (map (session_of ?n') sess ! j) = (cs, True, 1, 1)" for cs
      using assms(1,4) by (simp add: start quiet alike_def)
  qed simp_all
  then show ?thesis
    using after_pass1_listener [OF assms(2,3,7)] after_pass1_listener [OF assms(2,3,8)] by simp
qed

subsection \<open>Whom a listener does not hear has no influence on what it is sent\<close>

lemma tick_structure:
  assumes "room_tick_locked op k t0 a m = (m', out, reap)"
  defines "m0 \<equiv> upd_room a room_tick_begin m"
  shows "\<exists>check. tick_after_pass1 op k t0 a (tick_sessions m a)
      (fst (fold (pass1_one op k t0 a check) (tick_sessions m a) (m0, []))) = (m', out)"
proof -
  have s: "tick_sessions m0 a = tick_sessions m a"
    by (simp add: m0_def tick_sessions_def room_tick_begin_def Let_def)
  let ?c = "kn_join_media_timeout_s k > 0 \<and> rm_tick_seq (room_at m0 a) mod (1000 div SLV_TICK_MS) = 0"
  obtain p r where p: "fold (pass1_one op k t0 a ?c) (tick_sessions m a) (m0, []) = (p, r)" by fastforce
  obtain m1 o1 where "tick_after_pass1 op k t0 a (tick_sessions m a) p = (m1, o1)" by fastforce
  with assms(1) p s have "tick_after_pass1 op k t0 a (tick_sessions m a) p = (m', out)"
    by (simp add: room_tick_locked_def m0_def Let_def tick_pass1_def)
  with p show ?thesis by (intro exI [of _ ?c]) simp
qed

lemma tick_begin_pair: "pair_silenced k (room_tick_begin r) now s sd = pair_silenced k r now s sd"
proof -
  have "rm_vis_declared (room_tick_begin r) = rm_vis_declared r" "rm_vis_records (room_tick_begin r) = rm_vis_records r"
    "rm_vis_auth_epoch (room_tick_begin r) = rm_vis_auth_epoch r"
    by (simp_all add: room_tick_begin_def Let_def)
  then show ?thesis
    unfolding pair_silenced_def janus_slvoice_vis_pair_visible_locked_def janus_slvoice_vis_ok_locked_def
      janus_slvoice_vis_row_locked_def janus_slvoice_vis_enforced_def by (simp only:)
qed

text \<open>
  Isolation. When a listener must not hear a source, because fail-closed visibility is enforced and one of the two does
  not stand in row 4, or the source is excluded for the listener, moderation-muted for it or muted by it, then nothing
  of that source's state (its packets, decoder, buffers, geometry, settings: everything but the display it is known by)
  has any influence on what a tick sends to the listener or on the listener's own state.
\<close>

theorem tick_silenced_source:
  assumes "distinct (tick_sessions m a)" and "si \<in> set (tick_sessions m a)" and "sj \<in> set (tick_sessions m a)" and "si \<noteq> sj"
    and "pair_silenced k (room_at m a) t0 (session_of m si) (se_display (session_of m sj))"
    and "se_display (f (session_of m sj)) = se_display (session_of m sj)"
  shows "case (room_tick_locked op k t0 a m, room_tick_locked op k t0 a (upd_session sj f m)) of
      ((m1, out1, _), (m2, out2, _)) \<Rightarrow>
        session_of m2 si = session_of m1 si \<and> filter (\<lambda>x. fst x = si) out2 = filter (\<lambda>x. fst x = si) out1"
proof -
  obtain m1 out1 r1 where 1: "room_tick_locked op k t0 a m = (m1, out1, r1)" by (metis prod_cases3)
  obtain m2 out2 r2 where 2: "room_tick_locked op k t0 a (upd_session sj f m) = (m2, out2, r2)" by (metis prod_cases3)
  let ?sess = "tick_sessions m a"
  have same: "tick_sessions (upd_session sj f m) a = ?sess" by (simp add: tick_sessions_def)
  obtain i j where i: "i < length ?sess" "?sess ! i = si" and j: "j < length ?sess" "?sess ! j = sj"
    using assms(2,3) by (metis in_set_conv_nth)
  let ?m0 = "upd_room a room_tick_begin m" and ?n0 = "upd_room a room_tick_begin (upd_session sj f m)"
  obtain c1 where c1: "tick_after_pass1 op k t0 a ?sess (fst (fold (pass1_one op k t0 a c1) ?sess (?m0, []))) = (m1, out1)"
    using tick_structure [OF 1] by blast
  obtain c2 where c2: "tick_after_pass1 op k t0 a ?sess (fst (fold (pass1_one op k t0 a c2) ?sess (?n0, []))) = (m2, out2)"
    using tick_structure [OF 2] unfolding same by blast
  have "alike sj a ?m0 ?n0" using assms(6) by (simp add: alike_def room_alike_refl upd_session_other)
  then have al: "alike sj a (fst (fold (pass1_one op k t0 a c1) ?sess (?m0, []))) (fst (fold (pass1_one op k t0 a c2) ?sess (?n0, [])))"
    using pass1_fold_alike pass1_check by metis
  let ?p = "fst (fold (pass1_one op k t0 a c1) ?sess (?m0, []))"
  note view = pass1_fold_view [of op k t0 a c1 ?sess ?m0 "[]"]
  have "pair_silenced k (room_at ?p a) t0 (session_of ?p si) (se_display (session_of ?p sj))"
  proof -
    have "se_display (session_of ?p sj) = se_display (session_of m sj)" using view [of sj] by (simp add: ear_view_def)
    moreover have "ear_view (session_of ?p si) = ear_view (session_of m si)" using view [of si] by simp
    moreover have "room_alike (room_at ?m0 a) (room_at ?p a)" using view by blast
    moreover have "room_at ?m0 a = room_tick_begin (room_at m a)" by simp
    ultimately show ?thesis
      using assms(5) vis_alike(4) [of "room_at ?m0 a" "room_at ?p a"] pair_silenced_view tick_begin_pair by metis
  qed
  then have quiet: "pair_silenced k (room_at ?p a) t0 (session_of ?p (?sess ! i)) (se_display (session_of ?p (?sess ! j)))"
    by (simp only: i(2) j(2))
  have ij: "i \<noteq> j" using assms(4) i(2) j(2) by blast
  from al have "alike (?sess ! j) a ?p (fst (fold (pass1_one op k t0 a c2) ?sess (?n0, [])))" by (simp only: j(2))
  from after_pass1_noninterference [OF this assms(1) i(1) j(1) ij quiet c1 c2]
  show ?thesis by (simp only: 1 2 prod.case i(2))
qed

text \<open>A codec that decodes silence and encodes three bytes, and two participants, of whom the first must not hear the
  second.\<close>

definition opus_sample :: slv_opus where
  "opus_sample = \<lparr>op_decode = (\<lambda>calls pl cap. (min cap 960, replicate 1920 0)), op_last_duration = (\<lambda>calls. Some 960),
     op_encode = (\<lambda>calls frame. (3, ''abc''))\<rparr>"

definition tick_sample :: slv_mixer where
  "tick_sample = slv_mixer_init\<lparr>
     mx_heap := (\<lambda>a. janus_slvoice_room_zero\<lparr>rm_participants := [(70, 4), (80, 5)], rm_vis_declared := True\<rparr>),
     mx_sessions := (\<lambda>s. janus_slvoice_session_zero\<lparr>se_display := (if s = 4 then Some ''a'' else Some ''b''),
       se_excluded := [''b'']\<rparr>)\<rparr>"

lemma tick_sample_sessions: "tick_sessions tick_sample 3 = [4, 5]"
  by (simp add: tick_sessions_def tick_sample_def SLV_MAX_MIX_def)

lemma tick_sample_sel:
  "se_display (session_of tick_sample s) = (if s = 4 then Some ''a'' else Some ''b'')"
  "se_excluded (session_of tick_sample s) = [''b'']" "\<not> se_echo_active (session_of tick_sample s)"
  "rm_vis_declared (room_at tick_sample a)" "rm_vis_records (room_at tick_sample a) = []"
  by (simp_all add: tick_sample_def janus_slvoice_session_zero_def janus_slvoice_room_zero_def)

theorem tick_silenced_source_witness:
  "case (room_tick_locked opus_sample auth_knobs_sample 9 3 tick_sample,
         room_tick_locked opus_sample auth_knobs_sample 9 3 (upd_session 5 (\<lambda>x. x\<lparr>se_last_rtp_us := 8, se_media_ready := True\<rparr>) tick_sample)) of
     ((m1, out1, _), (m2, out2, _)) \<Rightarrow>
        session_of m2 4 = session_of m1 4 \<and> filter (\<lambda>x. fst x = 4) out2 = filter (\<lambda>x. fst x = 4) out1"
  by (rule tick_silenced_source) (simp_all add: tick_sample_sessions pair_silenced_def tick_sample_sel)

subsection \<open>A listener that is not armed\<close>

lemma pass2_listener_silent:
  assumes "\<And>j cs. j < length srcs \<Longrightarrow> j \<noteq> i \<Longrightarrow> pass2_source sp r rows i s cs j (srcs ! j) = (cs, True, 1, 1)"
    and "\<not> se_echo_active s"
  shows "snd (pass2_listener op sp r rows srcbuf audible i s srcs) = None"
proof -
  obtain cs row where row: "pass2_matrix sp r rows i s srcs = (cs, row)" by fastforce
  have len: "length row = length srcs" using length_pass2_matrix [of sp r rows i s srcs] by (simp add: row)
  have "fst (row ! j)" if "j < length srcs" "j \<noteq> i" for j
    using pass2_matrix_nth [OF that(1), of fst sp r rows i s] assms(1) [OF that] by (simp add: row)
  then have "mix_contributes (Some srcbuf) (Some audible) (Some (map fst row)) gL gR (int i) j = None"
    if "j < length srcs" for j gL gR
    using that by (simp add: mix_contributes_def len)
  then have "snd (slv_mix_nminus1_stereo n (Some srcbuf) (Some audible) (Some (map fst row)) gL gR (length srcs) (int i)) = 0"
    for n gL gR
    by (simp add: mix_nminus1_alt filter_empty_conv)
  then obtain frame where
    mix: "slv_mix_nminus1_stereo SLV_FRAME_TOTAL (Some srcbuf) (Some audible) (Some (map fst row)) (Some (map (fst \<circ> snd) row))
      (Some (map (snd \<circ> snd) row)) (length srcs) (int i) = (frame, 0)"
    by (metis prod.collapse)
  have quiet: "snd (janus_slvoice_encode_relay op frame n True x) = None" for frame n x
    by (simp add: janus_slvoice_encode_relay_def Let_def)
  have echo: "\<not> se_echo_active (s\<lparr>se_cull_hyst := cs\<rparr>)" using assms(2) by simp
  show ?thesis
    unfolding pass2_listener_def row mix prod.case Let_def if_not_P [OF echo]
    by (simp add: quiet slv_mix_encode_skip_def)
qed



end
