(* ===== verification/Dots.thy ===== *)
theory Dots
  imports Tick
begin

text \<open>
  The sender thread of \<^verbatim>\<open>src/src/janus_slvoice.c\<close> for one room: the power and voice-activity batch of a room, its
  copy for each listener, the notices of changed visibility, and the sending. Its once-a-second sweep of empty
  rooms is in the theory \<^verbatim>\<open>Lifecycle\<close>; the packet rates it refreshes are in \<^verbatim>\<open>Meters\<close>.
\<close>

subsection \<open>A listener's copy of the batch\<close>

definition janus_slvoice_cull_latched_locked :: "janus_slvoice_room \<Rightarrow> slv_cull_hyst \<Rightarrow> bool" where
  "janus_slvoice_cull_latched_locked room slot \<longleftrightarrow> ch_culled slot \<and> ch_seen_tick slot = rm_tick_seq room"

text \<open>\<open>dark\<close> is None when the shared dark entry could not be built.\<close>

definition janus_slvoice_dot_darken :: "json option \<Rightarrow> string \<Rightarrow> json \<Rightarrow> json" where
  "janus_slvoice_dot_darken dark display filt =
     (if json_object_get (Some filt) display = None then filt
      else case dark of Some d \<Rightarrow> json_object_set filt display d | None \<Rightarrow> json_object_del filt display)"

definition drop_dot :: "string \<Rightarrow> json \<Rightarrow> json" where
  "drop_dot d filt = json_object_del filt d"

definition dot_batch_needed :: "janus_slvoice_room \<Rightarrow> janus_slvoice_session \<Rightarrow> bool \<Rightarrow> string list option \<Rightarrow> bool" where
  "dot_batch_needed room L listener_ok hidden \<longleftrightarrow>
     (\<not> listener_ok \<or> (case hidden of None \<Rightarrow> False | Some hs \<Rightarrow> length hs > 0) \<or>
      length (se_excluded L) > 0 \<or> length (se_mod_muted L) > 0 \<or>
      list_ex pc_muted (se_peer_ctl L) \<or> list_ex (janus_slvoice_cull_latched_locked room) (se_cull_hyst L))"

definition janus_slvoice_dot_batch_for_listener_locked ::
  "janus_slvoice_room \<Rightarrow> janus_slvoice_session \<Rightarrow> json \<Rightarrow> json option \<Rightarrow> bool \<Rightarrow> string list option \<Rightarrow> json option"
where
  "janus_slvoice_dot_batch_for_listener_locked room L batch dark listener_ok hidden =
     (if \<not> dot_batch_needed room L listener_ok hidden then None
      else
        let filt = fold (janus_slvoice_dot_darken dark) (se_mod_muted L) batch;
            filt = fold (\<lambda>p f. if pc_muted p then janus_slvoice_dot_darken dark (pc_uuid p) f else f) (se_peer_ctl L) filt;
            filt = fold (\<lambda>c f. if janus_slvoice_cull_latched_locked room c then janus_slvoice_dot_darken dark (ch_uuid c) f else f)
                     (se_cull_hyst L) filt;
            filt = fold drop_dot (se_excluded L) filt
        in Some (if \<not> listener_ok then
                   fold (\<lambda>d f. if se_display L \<noteq> Some d then drop_dot d f else f) (map fst (json_members (Some filt))) filt
                 else case hidden of
                   None \<Rightarrow> filt
                 | Some hs \<Rightarrow> fold (\<lambda>d f. if se_display L \<noteq> Some d then drop_dot d f else f) hs filt))"

subsection \<open>The batch of a room\<close>

definition dot_entry :: "int \<Rightarrow> bool \<Rightarrow> json" where
  "dot_entry p v = JObject [(''p'', JInt p), (''v'', JBool v)]"

text \<open>One participant: \<open>up\<close> maps a display to whether the handle that holds its entry is live.\<close>

definition dot_merge :: "janus_slvoice_session \<Rightarrow> json \<times> (string \<times> bool) list \<Rightarrow> json \<times> (string \<times> bool) list" where
  "dot_merge x = (\<lambda>(batch, up).
     case se_display x of
       None \<Rightarrow> (batch, up)
     | Some d \<Rightarrow>
        (case json_object_get (Some batch) d of
           None \<Rightarrow> (json_object_set batch d (dot_entry (se_power_p x) (se_vad x)), AList.update d (se_webrtc_up x) up)
         | Some prev \<Rightarrow>
            let wup = (map_of up d = Some True) in
            if se_webrtc_up x \<and> \<not> wup then
              (json_object_set batch d (dot_entry (se_power_p x) (se_vad x)), AList.update d True up)
            else if se_webrtc_up x = wup then
              let prev = (if se_power_p x > json_integer_value (json_object_get (Some prev) ''p'')
                          then json_object_set prev ''p'' (JInt (se_power_p x)) else prev);
                  prev = (if se_vad x then json_object_set prev ''v'' (JBool True) else prev)
              in (json_object_set batch d prev, up)
            else (batch, up)))"

definition dot_batch :: "janus_slvoice_session list \<Rightarrow> json" where
  "dot_batch xs = fst (fold dot_merge xs (JObject [], []))"

subsection \<open>Changes of visibility\<close>

definition vis_standing :: "slv_knobs \<Rightarrow> int \<Rightarrow> nat \<Rightarrow> slv_mixer \<Rightarrow> nat \<Rightarrow> bool" where
  "vis_standing k now a m s = janus_slvoice_vis_ok_locked k (room_at m a) (se_display (session_of m s)) now"

text \<open>The notice for a pair, listener \<open>p\<close> and source \<open>q\<close>, with their standings before and after.\<close>

definition transition_to ::
  "(json \<Rightarrow> string option) \<Rightarrow> (nat \<Rightarrow> bool) \<Rightarrow> (nat \<Rightarrow> bool) \<Rightarrow> nat \<Rightarrow> nat \<Rightarrow> slv_mixer \<Rightarrow> slv_mixer"
where
  "transition_to dumps was is p q m =
     (case (se_display (session_of m p), se_display (session_of m q)) of
        (Some dp, Some dq) \<Rightarrow>
          if p = q \<or> dp = dq then m
          else
            let before = (was p \<and> was q); after = (is p \<and> is q)
            in if before \<noteq> after \<and> \<not> slv_roster_excludes (se_excluded (session_of m p)) (Some dq)
               then janus_slvoice_relay_presence_one dumps p dq after m else m
      | _ \<Rightarrow> m)"

definition janus_slvoice_vis_transitions_locked ::
  "(json \<Rightarrow> string option) \<Rightarrow> slv_knobs \<Rightarrow> int \<Rightarrow> nat \<Rightarrow> slv_mixer \<Rightarrow> slv_mixer \<times> string list"
where
  "janus_slvoice_vis_transitions_locked dumps k now a m =
     (let ps = members (room_at m a);
          is = vis_standing k now a m;
          was = (\<lambda>s. se_vis_ok_last (session_of m s));
          hidden = gset_of (concat (map (\<lambda>s. if is s then [] else (case se_display (session_of m s) of None \<Rightarrow> [] | Some d \<Rightarrow> [d])) ps));
          m' = (if list_ex (\<lambda>s. is s \<noteq> was s) ps
                then fold (\<lambda>s m. upd_session s (\<lambda>x. x\<lparr>se_vis_ok_last := is s\<rparr>) m) ps
                       (fold (\<lambda>p m. fold (transition_to dumps was is p) ps m) ps m)
                else m)
      in (m', hidden))"

subsection \<open>Sending\<close>

definition send_text :: "(json \<Rightarrow> string option) \<Rightarrow> nat \<Rightarrow> json \<Rightarrow> slv_mixer \<Rightarrow> slv_mixer" where
  "send_text dumps s obj m =
     (case dumps obj of
        Some text \<Rightarrow> if length text < 65536 then m\<lparr>mx_outbox := mx_outbox m @ [(s, obj)]\<rparr> else m
      | None \<Rightarrow> m)"

definition dot_send ::
  "(json \<Rightarrow> string option) \<Rightarrow> slv_knobs \<Rightarrow> int \<Rightarrow> nat \<Rightarrow> json \<Rightarrow> string list option \<Rightarrow> nat \<Rightarrow> slv_mixer \<Rightarrow> slv_mixer"
where
  "dot_send dumps k now a batch hidden s m =
     (let x = session_of m s; room = room_at m a in
      if \<not> se_dc_open x then m
      else
        let ok = (\<not> janus_slvoice_vis_enforced k room \<or> janus_slvoice_vis_ok_locked k room (se_display x) now)
        in case janus_slvoice_dot_batch_for_listener_locked room x batch (Some (dot_entry 0 False)) ok hidden of
             None \<Rightarrow> send_text dumps s batch m
           | Some filt \<Rightarrow> send_text dumps s filt m)"

text \<open>One room of the sender's round. A room that is destroyed or empty is skipped.\<close>

definition sender_room :: "(json \<Rightarrow> string option) \<Rightarrow> slv_knobs \<Rightarrow> int \<Rightarrow> nat \<Rightarrow> slv_mixer \<Rightarrow> slv_mixer" where
  "sender_room dumps k now a m =
     (if rm_destroyed (room_at m a) \<or> rm_participants (room_at m a) = [] then m
      else
        let ps = members (room_at m a);
            batch = dot_batch (map (session_of m) ps);
            (m, hidden) = (if janus_slvoice_vis_enforced k (room_at m a)
              then (case janus_slvoice_vis_transitions_locked dumps k now a m of (m, hs) \<Rightarrow> (m, Some hs)) else (m, None))
        in fold (dot_send dumps k now a batch hidden) ps m)"

subsection \<open>The batch shows the live handle of every display\<close>

text \<open>What the batch is meant to say of a display, whatever the order of the participants: of the live handles, or of all
  when none is live, the highest level and whether any of them speaks.\<close>

definition dot_spec :: "janus_slvoice_session list \<Rightarrow> string \<Rightarrow> json option" where
  "dot_spec xs d =
     (let ys = filter (\<lambda>x. se_display x = Some d) xs;
          live = filter se_webrtc_up ys;
          zs = (if live = [] then ys else live)
      in if ys = [] then None else Some (dot_entry (Max (se_power_p ` set zs)) (list_ex se_vad zs)))"

lemma dot_entry_get: "json_integer_value (json_object_get (Some (dot_entry p v)) ''p'') = p"
  by (simp add: dot_entry_def)

lemma dot_entry_set: "json_object_set (dot_entry p v) ''p'' (JInt q) = dot_entry q v"
  "json_object_set (dot_entry p v) ''v'' (JBool w) = dot_entry p w"
  by (simp_all add: dot_entry_def)

lemma dot_spec_snoc_other: "se_display x \<noteq> Some d \<Longrightarrow> dot_spec (xs @ [x]) d = dot_spec xs d"
  by (simp add: dot_spec_def)

lemma Max_snoc: "xs \<noteq> [] \<Longrightarrow> Max (f ` set (xs @ [x])) = (if (f x :: int) > Max (f ` set xs) then f x else Max (f ` set xs))"
proof -
  assume "xs \<noteq> []"
  then have m: "Max (f ` set (xs @ [x])) = max (f x) (Max (f ` set xs))" by simp
  show ?thesis unfolding m max_def by (metis not_le)
qed

lemma dot_merge_step:
  assumes "se_display x = Some d" "map_of ms d = Some (dot_entry q v)" "map_of up d = Some w"
  shows "\<exists>ms' up'. dot_merge x (JObject ms, up) = (JObject ms', up') \<and>
    map_of ms' = (map_of ms)(d \<mapsto> (if se_webrtc_up x \<and> \<not> w then dot_entry (se_power_p x) (se_vad x)
      else if se_webrtc_up x = w then dot_entry (if se_power_p x > q then se_power_p x else q) (v \<or> se_vad x)
      else dot_entry q v)) \<and>
    map_of up' = (map_of up)(d \<mapsto> w \<or> se_webrtc_up x)"
proof -
  have keep: "(map_of ms)(d \<mapsto> dot_entry q v) = map_of ms" "(map_of up)(d \<mapsto> w) = map_of up"
    using assms(2,3) by (simp_all add: fun_upd_idem_iff)
  show ?thesis
    using assms keep
    by (cases w; cases "se_webrtc_up x") (auto simp: dot_merge_def Let_def dot_entry_get dot_entry_set update_conv')
qed

lemma dot_spec_snoc:
  assumes "se_display x = Some d" "filter (\<lambda>x. se_display x = Some d) xs \<noteq> []"
    "live = filter se_webrtc_up (filter (\<lambda>x. se_display x = Some d) xs)"
    "zs = (if live = [] then filter (\<lambda>x. se_display x = Some d) xs else live)"
  shows "dot_spec (xs @ [x]) d = Some
    (if se_webrtc_up x \<and> live = [] then dot_entry (se_power_p x) (se_vad x)
     else if se_webrtc_up x = (live \<noteq> []) then
       dot_entry (if se_power_p x > Max (se_power_p ` set zs) then se_power_p x else Max (se_power_p ` set zs)) (list_ex se_vad zs \<or> se_vad x)
     else dot_entry (Max (se_power_p ` set zs)) (list_ex se_vad zs))"
proof -
  let ?ys = "filter (\<lambda>x. se_display x = Some d) xs"
  have ys: "?ys \<noteq> []" by (rule assms(2))
  have M: "Max (insert (se_power_p x) (se_power_p ` set l)) =
      (if se_power_p x > Max (se_power_p ` set l) then se_power_p x else Max (se_power_p ` set l))"
    if "l \<noteq> []" for l :: "janus_slvoice_session list" using Max_snoc [OF that, of se_power_p x] by simp
  have spec: "dot_spec (xs @ [x]) d =
      (let live' = live @ (if se_webrtc_up x then [x] else []); zs' = (if live' = [] then ?ys @ [x] else live')
       in Some (dot_entry (Max (se_power_p ` set zs')) (list_ex se_vad zs')))"
    unfolding dot_spec_def Let_def filter_append assms(3)
    apply (simp only: filter.simps assms(1) if_True)
    apply (cases "se_webrtc_up x")
    apply simp
    apply simp
    done
  have img: "se_power_p ` set (l @ [x]) = insert (se_power_p x) (se_power_p ` set l)"
    "list_ex se_vad (l @ [x]) = (list_ex se_vad l \<or> se_vad x)" for l by auto
  consider "se_webrtc_up x" "live = []" | "se_webrtc_up x" "live \<noteq> []" | "\<not> se_webrtc_up x" "live = []"
    | "\<not> se_webrtc_up x" "live \<noteq> []" by blast
  then show ?thesis
  proof cases
    case 1
    then show ?thesis unfolding spec Let_def by simp
  next
    case 2
    then have "zs = live" using assms(4) by simp
    with 2 show ?thesis unfolding spec Let_def by (simp add: img M del: Max_insert set_append list_ex_append)
  next
    case 3
    then have "zs = ?ys" using assms(4) by simp
    with 3 show ?thesis unfolding spec Let_def
      by (simp add: img M [OF ys] del: Max_insert set_append list_ex_append set_filter)
  next
    case 4
    then have "zs = live" using assms(4) by simp
    with 4 show ?thesis unfolding spec Let_def by simp
  qed
qed

lemma dot_merge_fold:
  "\<exists>ms up. fold dot_merge xs (JObject [], []) = (JObject ms, up) \<and>
     (\<forall>d. map_of ms d = dot_spec xs d \<and>
        map_of up d = (let ys = filter (\<lambda>x. se_display x = Some d) xs in
                       if ys = [] then None else Some (filter se_webrtc_up ys \<noteq> [])))"
proof (induction xs rule: rev_induct)
  case Nil
  then show ?case by (simp add: dot_spec_def)
next
  case (snoc x xs)
  then obtain ms up where f: "fold dot_merge xs (JObject [], []) = (JObject ms, up)"
    and ms: "\<And>d. map_of ms d = dot_spec xs d"
    and up: "\<And>d. map_of up d = (let ys = filter (\<lambda>x. se_display x = Some d) xs in
                       if ys = [] then None else Some (filter se_webrtc_up ys \<noteq> []))" by blast
  show ?case
  proof (cases "se_display x")
    case None
    then have "dot_merge x (JObject ms, up) = (JObject ms, up)" by (simp add: dot_merge_def)
    with f ms up None show ?thesis by (simp add: dot_spec_snoc_other Let_def)
  next
    case (Some d)
    let ?ys = "filter (\<lambda>x. se_display x = Some d) xs"
    have other: "dot_spec (xs @ [x]) e = dot_spec xs e" if "e \<noteq> d" for e
      using that Some by (intro dot_spec_snoc_other) simp
    show ?thesis
    proof (cases "?ys = []")
      case True
      then have "map_of ms d = None" using ms [of d] by (simp add: dot_spec_def)
      then have m: "dot_merge x (JObject ms, up) =
          (JObject (AList.update d (dot_entry (se_power_p x) (se_vad x)) ms), AList.update d (se_webrtc_up x) up)"
        using Some by (simp add: dot_merge_def)
      have "dot_spec (xs @ [x]) d = Some (dot_entry (se_power_p x) (se_vad x))"
        using True Some by (simp add: dot_spec_def Let_def)
      then have "map_of (AList.update d (dot_entry (se_power_p x) (se_vad x)) ms) e = dot_spec (xs @ [x]) e" for e
        using ms [of e] other [of e] by (cases "e = d") (simp_all add: update_conv')
      moreover have "map_of (AList.update d (se_webrtc_up x) up) e = (let ys = filter (\<lambda>x. se_display x = Some e) (xs @ [x]) in
                       if ys = [] then None else Some (filter se_webrtc_up ys \<noteq> []))" for e
        using up [of e] Some True by (auto simp: update_conv' Let_def filter_empty_conv)
      ultimately show ?thesis using f m by auto
    next
      case False
      let ?live = "filter se_webrtc_up ?ys"
      let ?zs = "if ?live = [] then ?ys else ?live"
      have "map_of ms d = Some (dot_entry (Max (se_power_p ` set ?zs)) (list_ex se_vad ?zs))"
        using ms [of d] False by (simp only: dot_spec_def Let_def if_False)
      moreover have "map_of up d = Some (?live \<noteq> [])" using up [of d] False by (simp only: Let_def if_False)
      ultimately obtain ms' up' where
        m: "dot_merge x (JObject ms, up) = (JObject ms', up')"
        and ms': "map_of ms' = (map_of ms)(d \<mapsto> (if se_webrtc_up x \<and> \<not> ?live \<noteq> [] then dot_entry (se_power_p x) (se_vad x)
          else if se_webrtc_up x = (?live \<noteq> []) then dot_entry (if se_power_p x > Max (se_power_p ` set ?zs) then se_power_p x
             else Max (se_power_p ` set ?zs)) (list_ex se_vad ?zs \<or> se_vad x)
          else dot_entry (Max (se_power_p ` set ?zs)) (list_ex se_vad ?zs)))"
        and up': "map_of up' = (map_of up)(d \<mapsto> ?live \<noteq> [] \<or> se_webrtc_up x)"
        using dot_merge_step [OF Some, of ms _ _ up "?live \<noteq> []"] by blast
      have "map_of ms' d = dot_spec (xs @ [x]) d"
        unfolding dot_spec_snoc [OF Some False refl refl] ms' by (simp only: fun_upd_same not_not)
      then have "map_of ms' e = dot_spec (xs @ [x]) e" for e
        using other [of e] ms [of e] by (cases "e = d") (simp_all add: ms')
      moreover have "map_of up' e = (let ys = filter (\<lambda>x. se_display x = Some e) (xs @ [x]) in
                       if ys = [] then None else Some (filter se_webrtc_up ys \<noteq> []))" for e
        using up [of e] Some by (auto simp: up' Let_def)
      ultimately show ?thesis using f m by auto
    qed
  qed
qed

text \<open>
  The dot batch. Whatever the order of a room's participants, the entry of a display shows, of its live handles, or of
  all its handles when none is live, the highest level and whether any of them speaks; a display without a participant
  has no entry. A dead handle of an avatar never hides its live one.
\<close>

theorem dot_batch_exact:
  "json_object_get (Some (dot_batch xs)) d = dot_spec xs d"
  using dot_merge_fold [of xs] by (auto simp: dot_batch_def)

subsection \<open>A listener is shown what it hears\<close>

text \<open>The object sent to a listener: the copy made for it, or the batch itself when it needs none.\<close>

definition dot_view ::
  "janus_slvoice_room \<Rightarrow> janus_slvoice_session \<Rightarrow> json \<Rightarrow> bool \<Rightarrow> string list option \<Rightarrow> json"
where
  "dot_view room L batch ok hidden =
     (case janus_slvoice_dot_batch_for_listener_locked room L batch (Some (dot_entry 0 False)) ok hidden of
        None \<Rightarrow> batch | Some filt \<Rightarrow> filt)"

text \<open>The displays a listener gets no audio from by its own state, and those its copy leaves out.\<close>

definition dot_unheard :: "janus_slvoice_room \<Rightarrow> janus_slvoice_session \<Rightarrow> string \<Rightarrow> bool" where
  "dot_unheard room L d \<longleftrightarrow> d \<in> set (se_mod_muted L) \<or> (\<exists>p\<in>set (se_peer_ctl L). pc_muted p \<and> pc_uuid p = d) \<or>
     (\<exists>c\<in>set (se_cull_hyst L). janus_slvoice_cull_latched_locked room c \<and> ch_uuid c = d)"

definition dot_omitted :: "janus_slvoice_session \<Rightarrow> bool \<Rightarrow> string list option \<Rightarrow> string \<Rightarrow> bool" where
  "dot_omitted L ok hidden d \<longleftrightarrow> d \<in> set (se_excluded L) \<or>
     (se_display L \<noteq> Some d \<and> (\<not> ok \<or> (case hidden of None \<Rightarrow> False | Some hs \<Rightarrow> d \<in> set hs)))"

lemma darken_get:
  "json_object_get (Some (janus_slvoice_dot_darken (Some D) e f)) d =
     (if d = e \<and> json_object_get (Some f) d \<noteq> None then Some D else json_object_get (Some f) d)"
  by (cases f) (auto simp: janus_slvoice_dot_darken_def update_conv')

lemma fold_darken_get:
  "json_object_get (Some (fold (\<lambda>x f. if P x then janus_slvoice_dot_darken (Some D) (u x) f else f) xs f)) d =
     (if (\<exists>x\<in>set xs. P x \<and> u x = d) \<and> json_object_get (Some f) d \<noteq> None then Some D else json_object_get (Some f) d)"
proof (induction xs arbitrary: f)
  case (Cons x xs)
  then show ?case using darken_get [of D "u x" f d] by auto
qed simp

lemma fold_drop_get:
  "json_object_get (Some (fold (\<lambda>x f. if P x then drop_dot x f else f) xs f)) d =
     (if d \<in> set xs \<and> P d then None else json_object_get (Some f) d)"
proof (induction xs arbitrary: f)
  case (Cons x xs)
  have "json_object_get (Some (drop_dot x f)) d = (if d = x then None else json_object_get (Some f) d)"
    by (cases f) (simp_all add: drop_dot_def delete_conv')
  with Cons show ?case by auto
qed simp

lemma get_not_member: "d \<notin> set (map fst (json_members (Some f))) \<Longrightarrow> json_object_get (Some f) d = None"
  by (cases f) (simp_all add: map_of_eq_None_iff)

lemma dot_not_needed:
  assumes "\<not> dot_batch_needed room L ok hidden"
  shows "\<not> dot_unheard room L d" "\<not> dot_omitted L ok hidden d"
  using assms
  by (auto simp: dot_batch_needed_def dot_unheard_def dot_omitted_def list_ex_iff split: option.splits)

lemma dot_view_get:
  "json_object_get (Some (dot_view room L batch ok hidden)) d =
     (if dot_omitted L ok hidden d then None
      else if dot_unheard room L d \<and> json_object_get (Some batch) d \<noteq> None then Some (dot_entry 0 False)
      else json_object_get (Some batch) d)"
proof (cases "dot_batch_needed room L ok hidden")
  case False
  then show ?thesis using dot_not_needed [OF False, of d]
    by (simp add: dot_view_def janus_slvoice_dot_batch_for_listener_locked_def)
next
  case True
  let ?D = "dot_entry 0 False"
  let ?f1 = "fold (janus_slvoice_dot_darken (Some ?D)) (se_mod_muted L) batch"
  let ?f2 = "fold (\<lambda>p f. if pc_muted p then janus_slvoice_dot_darken (Some ?D) (pc_uuid p) f else f) (se_peer_ctl L) ?f1"
  let ?f3 = "fold (\<lambda>c f. if janus_slvoice_cull_latched_locked room c then janus_slvoice_dot_darken (Some ?D) (ch_uuid c) f else f)
    (se_cull_hyst L) ?f2"
  let ?f4 = "fold drop_dot (se_excluded L) ?f3"
  have f1: "json_object_get (Some ?f1) d = (if d \<in> set (se_mod_muted L) \<and> json_object_get (Some batch) d \<noteq> None then Some ?D
      else json_object_get (Some batch) d)"
    using fold_darken_get [of "\<lambda>_. True" ?D "\<lambda>x. x" "se_mod_muted L" batch d] by (simp cong: if_cong)
  have f4: "json_object_get (Some ?f4) d = (if d \<in> set (se_excluded L) then None else json_object_get (Some ?f3) d)"
    using fold_drop_get [of "\<lambda>_. True" "se_excluded L" ?f3 d] by (simp cong: if_cong)
  have f3: "json_object_get (Some ?f3) d = (if dot_unheard room L d \<and> json_object_get (Some batch) d \<noteq> None then Some ?D
      else json_object_get (Some batch) d)"
    unfolding fold_darken_get f1 dot_unheard_def by auto
  have own: "json_object_get (Some (fold (\<lambda>x f. if se_display L \<noteq> Some x then drop_dot x f else f)
      (map fst (json_members (Some ?f4))) ?f4)) d = (if se_display L \<noteq> Some d then None else json_object_get (Some ?f4) d)"
    unfolding fold_drop_get using get_not_member [of d ?f4] by (auto simp del: set_map)
  have body: "janus_slvoice_dot_batch_for_listener_locked room L batch (Some ?D) ok hidden =
      Some (if \<not> ok then fold (\<lambda>d f. if se_display L \<noteq> Some d then drop_dot d f else f) (map fst (json_members (Some ?f4))) ?f4
            else case hidden of None \<Rightarrow> ?f4
              | Some hs \<Rightarrow> fold (\<lambda>d f. if se_display L \<noteq> Some d then drop_dot d f else f) hs ?f4)"
    using True unfolding janus_slvoice_dot_batch_for_listener_locked_def Let_def by (simp only: if_False not_True_eq_False)
  show ?thesis
  proof (cases ok)
    case False
    then have v: "dot_view room L batch ok hidden =
        fold (\<lambda>d f. if se_display L \<noteq> Some d then drop_dot d f else f) (map fst (json_members (Some ?f4))) ?f4"
      unfolding dot_view_def body by (simp only: option.case if_True not_False_eq_True)
    show ?thesis unfolding v own f4 f3 using False by (simp add: dot_omitted_def)
  next
    case ok: True
    show ?thesis
    proof (cases hidden)
      case None
      with ok have v: "dot_view room L batch ok hidden = ?f4"
        unfolding dot_view_def body by (simp only: option.case if_False not_True_eq_False)
      show ?thesis unfolding v f4 f3 using ok None by (simp add: dot_omitted_def)
    next
      case (Some hs)
      with ok have v: "dot_view room L batch ok hidden = fold (\<lambda>d f. if se_display L \<noteq> Some d then drop_dot d f else f) hs ?f4"
        unfolding dot_view_def body by (simp only: option.case if_False not_True_eq_False)
      show ?thesis unfolding v fold_drop_get f4 f3 using ok Some by (auto simp: dot_omitted_def)
    qed
  qed
qed

text \<open>
  What a listener is shown of the room. Of every display the object sent to a listener holds nothing when the display is
  excluded for it or, unless it is its own, hidden from it by fail-closed visibility; the dark entry when the display is
  moderation-muted for it, muted by it, or was culled by the last tick; and otherwise exactly the room's entry: the live
  handles' highest level and voice activity.
\<close>

theorem dot_listener_exact:
  "json_object_get (Some (dot_view room L (dot_batch xs) ok hidden)) d =
     (if dot_omitted L ok hidden d then None
      else if dot_unheard room L d then map_option (\<lambda>_. dot_entry 0 False) (dot_spec xs d)
      else dot_spec xs d)"
proof -
  have "json_object_get (Some (dot_batch xs)) d = dot_spec xs d"
    using dot_merge_fold [of xs] by (auto simp: dot_batch_def)
  then show ?thesis unfolding dot_view_get by (cases "dot_spec xs d") simp_all
qed

subsection \<open>A source a listener must not hear is never shown to it\<close>

definition dot_fields :: "janus_slvoice_session \<Rightarrow> string option \<times> string list \<times> string list \<times> slv_peer_ctl list \<times> slv_cull_hyst list \<times> bool"
where
  "dot_fields x = (se_display x, se_excluded x, se_mod_muted x, se_peer_ctl x, se_cull_hyst x, se_dc_open x)"

text \<open>A step that changes nothing a batch depends on and sends only messages that satisfy \<open>P\<close>.\<close>

definition sends_only :: "(nat \<times> json \<Rightarrow> bool) \<Rightarrow> slv_mixer \<Rightarrow> slv_mixer \<Rightarrow> bool" where
  "sends_only P m m' \<longleftrightarrow> mx_heap m' = mx_heap m \<and> (\<forall>s. dot_fields (session_of m' s) = dot_fields (session_of m s)) \<and>
     (\<exists>ext. mx_outbox m' = mx_outbox m @ ext \<and> list_all P ext)"

definition dot_unlit :: "nat \<Rightarrow> string \<Rightarrow> nat \<times> json \<Rightarrow> bool" where
  "dot_unlit s d e \<longleftrightarrow> (fst e = s \<longrightarrow>
     json_integer_value (json_object_get (json_object_get (Some (snd e)) d) ''p'') = 0 \<and>
     \<not> json_is_true (json_object_get (json_object_get (Some (snd e)) d) ''v''))"

lemma sends_only_refl [simp]: "sends_only P m m"
  by (simp add: sends_only_def)

lemma sends_only_trans: "sends_only P m m' \<Longrightarrow> sends_only P m' m'' \<Longrightarrow> sends_only P m m''"
  unfolding sends_only_def by (metis append.assoc list_all_append)

lemma fold_sends_only:
  assumes "\<And>x m'. x \<in> set xs \<Longrightarrow> sends_only P m m' \<Longrightarrow> sends_only P m' (f x m')"
  shows "sends_only P m (fold f xs m)"
proof -
  have "sends_only P m m0 \<Longrightarrow> sends_only P m (fold f xs m0)" for m0
    using assms
  proof (induction xs arbitrary: m0)
    case (Cons x xs)
    then have "sends_only P m (f x m0)" using sends_only_trans by (metis list.set_intros(1))
    with Cons show ?case by simp
  qed simp
  then show ?thesis by simp
qed

lemma send_text_only: "P (s, obj) \<Longrightarrow> sends_only P m (send_text dumps s obj m)"
  by (auto simp: send_text_def sends_only_def split: option.split)

lemma sess_core_dot_fields: "sess_core x = sess_core y \<Longrightarrow> dot_fields x = dot_fields y"
  by (drule arg_cong [of _ _ dot_fields]) (simp add: sess_core_def dot_fields_def)

lemma transition_to_only: "sends_only (dot_unlit s d) m (transition_to dumps was is p q m)"
proof -
  have "dot_unlit s d (p, presence_entry who join)" for who join
    by (auto simp: dot_unlit_def presence_entry_def)
  then have "sends_only (dot_unlit s d) m (janus_slvoice_relay_presence_one dumps p who join m)" for who join
    using relay_presence_one(1) [of m dumps p who join] relay_presence_one(2) [of dumps p who join m]
    by (auto simp: sends_only_def relayed_def dest: sess_core_dot_fields)
  then show ?thesis by (auto simp: transition_to_def Let_def split: option.split)
qed

lemma set_hidden:
  "set (gset_of (concat (map (\<lambda>s. if ok s then [] else (case dsp s of None \<Rightarrow> [] | Some d \<Rightarrow> [d])) ps))) =
     {e. \<exists>q \<in> set ps. \<not> ok q \<and> dsp q = Some e}"
  by (auto split: option.splits if_splits)

lemma vis_transitions_only:
  assumes "janus_slvoice_vis_transitions_locked dumps k now a m = (m', hs)"
  shows "sends_only (dot_unlit s d) m m'"
    "set hs = {e. \<exists>q \<in> set (members (room_at m a)). \<not> vis_standing k now a m q \<and> se_display (session_of m q) = Some e}"
proof -
  let ?tr = "\<lambda>was ok ps. fold (\<lambda>p m. fold (transition_to dumps was ok p) ps m) ps m"
  have tr: "sends_only (dot_unlit s d) m (?tr was ok ps)" for was ok ps
    by (rule fold_sends_only, rule fold_sends_only, rule transition_to_only)
  have upd: "sends_only (dot_unlit s d) m1 (fold (\<lambda>q m. upd_session q (\<lambda>x. x\<lparr>se_vis_ok_last := ok q\<rparr>) m) ps m1)" for ok ps m1
    by (rule fold_sends_only) (simp add: sends_only_def upd_session_def dot_fields_def)
  have "m' = m \<or> (\<exists>ok was ps. m' = fold (\<lambda>q m. upd_session q (\<lambda>x. x\<lparr>se_vis_ok_last := ok q\<rparr>) m) ps (?tr was ok ps))"
    using arg_cong [OF assms, of fst] by (simp only: janus_slvoice_vis_transitions_locked_def Let_def fst_conv split: if_splits) blast+
  then show "sends_only (dot_unlit s d) m m'" using sends_only_trans [OF tr upd] by auto
  have hs: "hs = gset_of (concat (map (\<lambda>s. if vis_standing k now a m s then [] else
      (case se_display (session_of m s) of None \<Rightarrow> [] | Some d \<Rightarrow> [d])) (members (room_at m a))))"
    using arg_cong [OF assms, of snd] by (simp only: janus_slvoice_vis_transitions_locked_def Let_def snd_conv)
  show "set hs = {e. \<exists>q \<in> set (members (room_at m a)). \<not> vis_standing k now a m q \<and> se_display (session_of m q) = Some e}"
    unfolding hs set_hidden by simp
qed

lemma dot_view_cong:
  "dot_fields x = dot_fields y \<Longrightarrow> dot_view room x batch ok hidden = dot_view room y batch ok hidden"
  by (simp add: dot_fields_def)
    (simp only: dot_view_def janus_slvoice_dot_batch_for_listener_locked_def dot_batch_needed_def)

lemma dot_send_view:
  "dot_send dumps k now a batch hidden s m =
     (if se_dc_open (session_of m s) then
        send_text dumps s (dot_view (room_at m a) (session_of m s) batch
          (\<not> janus_slvoice_vis_enforced k (room_at m a) \<or>
            janus_slvoice_vis_ok_locked k (room_at m a) (se_display (session_of m s)) now) hidden) m
      else m)"
  by (simp add: dot_send_def dot_view_def Let_def split: option.split)

text \<open>What a listener must not hear is dark in, or absent from, the object made for it.\<close>

lemma pair_silenced_unlit:
  assumes "pair_silenced k room now x (Some d)" and "se_display x \<noteq> Some d"
    and "ok = (\<not> janus_slvoice_vis_enforced k room \<or> janus_slvoice_vis_ok_locked k room (se_display x) now)"
    and "janus_slvoice_vis_enforced k room \<Longrightarrow> \<exists>hs. hidden = Some hs \<and>
      (d \<in> set hs \<or> janus_slvoice_vis_ok_locked k room (Some d) now \<or> dot_spec xs d = None)"
  shows "dot_unlit s d (s, dot_view room x (dot_batch xs) ok hidden)"
proof -
  have get: "json_object_get (Some (dot_batch xs)) d = dot_spec xs d"
    using dot_merge_fold [of xs] by (auto simp: dot_batch_def)
  have "dot_omitted x ok hidden d \<or> dot_unheard room x d \<or> dot_spec xs d = None"
  proof (cases "janus_slvoice_vis_enforced k room \<and> \<not> janus_slvoice_vis_pair_visible_locked k room (se_display x) (Some d) now")
    case True
    then show ?thesis using assms(2-4)
      by (auto simp: dot_omitted_def janus_slvoice_vis_pair_visible_locked_def)
  next
    case False
    then have "d \<in> set (se_excluded x) \<or> d \<in> set (se_mod_muted x) \<or> (\<exists>p\<in>set (se_peer_ctl x). pc_muted p \<and> pc_uuid p = d)"
      using assms(1) by (auto simp: pair_silenced_def peer_ctl_of_def find_Some_iff split: option.splits)
    then show ?thesis by (auto simp: dot_omitted_def dot_unheard_def)
  qed
  then have "json_object_get (Some (dot_view room x (dot_batch xs) ok hidden)) d \<in> {None, Some (dot_entry 0 False)}"
    unfolding dot_view_get get by auto
  then show ?thesis by (auto simp: dot_unlit_def dot_entry_def)
qed



end
