(* ===== verification/Lifecycle.thy ===== *)
theory Lifecycle
  imports Dots
begin

text \<open>
  The life of rooms and memberships in \<^verbatim>\<open>src/src/janus_slvoice.c\<close>: creating and destroying rooms, leaving by every
  path, the sweep of empty rooms, the reaping of participants without media, the session callbacks of Janus, and the
  data channel's callbacks. One reading of the clock stands for the readings of one operation, \<open>dumps\<close> for
  \<^verbatim>\<open>json_dumps\<close> and \<open>loadb\<close> for \<^verbatim>\<open>json_loadb\<close>. A room keeps its address after its destruction, so a late holder
  still sees the flag; reference counts are not represented. Events for Janus' event handlers are not modelled.
\<close>

subsection \<open>Text of numbers\<close>

fun dec_text :: "nat \<Rightarrow> string" where
  "dec_text n = (if n < 10 then [char_of (48 + n)] else dec_text (n div 10) @ [char_of (48 + n mod 10)])"

declare dec_text.simps [simp del]

subsection \<open>Creating a room\<close>

text \<open>\<open>ok\<close>: does the tick thread start?\<close>

definition janus_slvoice_room_start :: "bool \<Rightarrow> janus_slvoice_room \<Rightarrow> janus_slvoice_room \<times> bool" where
  "janus_slvoice_room_start ok r =
     (if rm_tick_running r then (r, True) else if ok then (r\<lparr>rm_tick_running := True\<rparr>, True) else (r, False))"

definition janus_slvoice_room_stop :: "janus_slvoice_room \<Rightarrow> janus_slvoice_room" where
  "janus_slvoice_room_stop r = r\<lparr>rm_tick_running := False\<rparr>"

record slv_room_args =
  ra_id :: nat
  ra_desc :: "string option"
  ra_private :: bool
  ra_rate :: nat
  ra_spatial :: bool
  ra_permanent :: bool
  ra_vis_authority :: bool
  ra_sim_created :: bool

definition janus_slvoice_room_create :: "bool \<Rightarrow> int \<Rightarrow> slv_room_args \<Rightarrow> slv_mixer \<Rightarrow> slv_mixer \<times> nat option" where
  "janus_slvoice_room_create ok now ra m =
     (let a = mx_next_room m;
          r = janus_slvoice_room_zero\<lparr>rm_room_id := ra_id ra,
                rm_description := (case ra_desc ra of Some d \<Rightarrow> d | None \<Rightarrow> ''Region '' @ dec_text (ra_id ra)),
                rm_is_private := ra_private ra, rm_sampling_rate := (if ra_rate ra \<noteq> 0 then ra_rate ra else 48000),
                rm_spatial_audio := ra_spatial ra, rm_permanent := ra_permanent ra,
                rm_vis_declared := ra_vis_authority ra, rm_sim_created := ra_sim_created ra,
                rm_empty_since := (if \<not> ra_permanent ra then now else 0)\<rparr>
      in case janus_slvoice_room_start ok r of
           (r, started) \<Rightarrow>
             if \<not> started then (m, None)
             else (m\<lparr>mx_heap := (mx_heap m)(a := r), mx_next_room := a + 1\<rparr>, Some a))"

subsection \<open>Leaving a room\<close>

definition janus_slvoice_reset_room_state_locked :: "janus_slvoice_session \<Rightarrow> janus_slvoice_session" where
  "janus_slvoice_reset_room_state_locked s =
     s\<lparr>se_excluded := [], se_mod_muted := [], se_cull_hyst := [], se_snap_sp := slv_vec3_zero, se_snap_lp := slv_vec3_zero,
       se_snap_lh := slv_quat_identity, se_snap_valid := False, se_pos := slv_pos_part_stats_zero,
       se_last_data := (se_last_data s)\<lparr>sl_sp := slv_vec3_zero, sl_sh := slv_quat_zero, sl_lp := slv_vec3_zero,
         sl_lh := slv_quat_zero\<rparr>,
       se_last_data_fields := se_last_data_fields s AND NOT
         (SLV_FIELD_J OR SLV_FIELD_L OR SLV_FIELD_SP OR SLV_FIELD_SH OR SLV_FIELD_LP OR SLV_FIELD_LH),
       se_last_msg_fields := 0, se_backlog_confirmed := False\<rparr>"

definition leave_remove :: "int \<Rightarrow> nat \<Rightarrow> janus_slvoice_room \<Rightarrow> janus_slvoice_room" where
  "leave_remove now uid r =
     (let r = r\<lparr>rm_participants := AList.delete uid (rm_participants r)\<rparr>
      in if \<not> rm_permanent r \<and> rm_participants r = [] then r\<lparr>rm_empty_since := now\<rparr> else r)"

definition janus_slvoice_leave_room :: "(json \<Rightarrow> string option) \<Rightarrow> slv_knobs \<Rightarrow> int \<Rightarrow> nat \<Rightarrow> slv_mixer \<Rightarrow> slv_mixer" where
  "janus_slvoice_leave_room dumps k now s m =
     (case se_room (session_of m s) of
        None \<Rightarrow> m
      | Some a \<Rightarrow>
         (let uid = se_user_id (session_of m s);
              who = se_display (session_of m s);
              m = upd_session s (\<lambda>x. x\<lparr>se_room := None\<rparr>) m;
              m = (case who of None \<Rightarrow> m | Some w \<Rightarrow> janus_slvoice_push_presence dumps k now a w False m);
              m = upd_session s (\<lambda>x. x\<lparr>se_backlog_confirmed := False\<rparr>) m;
              m = upd_room a (leave_remove now uid) m
          in upd_session s janus_slvoice_reset_room_state_locked m))"

text \<open>The one teardown of a room. Its members are evicted without a notice.\<close>

definition evict :: "nat \<Rightarrow> nat \<Rightarrow> slv_mixer \<Rightarrow> slv_mixer" where
  "evict a p m =
     (if se_room (session_of m p) = Some a
      then upd_session p (\<lambda>x. janus_slvoice_reset_room_state_locked (x\<lparr>se_room := None\<rparr>)) m else m)"

definition janus_slvoice_room_teardown_locked :: "nat \<Rightarrow> slv_mixer \<Rightarrow> slv_mixer" where
  "janus_slvoice_room_teardown_locked a m =
     (let id = rm_room_id (room_at m a);
          m = upd_room a (\<lambda>r. janus_slvoice_room_stop (r\<lparr>rm_destroyed := True\<rparr>)) m;
          m = fold (evict a) (members (room_at m a)) m;
          m = upd_room a (\<lambda>r. r\<lparr>rm_participants := [], rm_vis_deferred := slv_deferred_free_all (rm_vis_deferred r)\<rparr>) m
      in m\<lparr>mx_rooms := AList.delete id (mx_rooms m)\<rparr>)"

subsection \<open>The grace of an empty room\<close>

definition room_expired :: "slv_knobs \<Rightarrow> int \<Rightarrow> janus_slvoice_room \<Rightarrow> bool" where
  "room_expired k now r \<longleftrightarrow> \<not> rm_permanent r \<and> \<not> rm_destroyed r \<and> rm_empty_since r \<noteq> 0 \<and> rm_participants r = [] \<and>
     now - rm_empty_since r \<ge> int (kn_empty_room_grace_s k) * G_USEC_PER_SEC"

definition sweep_mark :: "slv_knobs \<Rightarrow> int \<Rightarrow> nat \<Rightarrow> slv_mixer \<times> nat list \<Rightarrow> slv_mixer \<times> nat list" where
  "sweep_mark k now a = (\<lambda>(m, expired).
     if room_expired k now (room_at m a) then (upd_room a (\<lambda>r. r\<lparr>rm_destroyed := True\<rparr>) m, a # expired) else (m, expired))"

definition janus_slvoice_sweep_empty_rooms_locked :: "slv_knobs \<Rightarrow> int \<Rightarrow> slv_mixer \<Rightarrow> slv_mixer \<times> nat" where
  "janus_slvoice_sweep_empty_rooms_locked k now m =
     (if kn_empty_room_grace_s k = 0 then (m, 0)
      else case fold (sweep_mark k now) (map snd (mx_rooms m)) (m, []) of
        (m, expired) \<Rightarrow> (fold janus_slvoice_room_teardown_locked expired m, length expired))"

definition janus_slvoice_room_rearm_grace_locked :: "int \<Rightarrow> janus_slvoice_room \<Rightarrow> janus_slvoice_room" where
  "janus_slvoice_room_rearm_grace_locked now r =
     (if rm_permanent r then r
      else if rm_empty_since r \<noteq> 0 \<and> rm_participants r = [] then r\<lparr>rm_empty_since := now\<rparr> else r)"

subsection \<open>Sessions\<close>

definition janus_slvoice_create_session :: "int \<Rightarrow> nat \<Rightarrow> slv_mixer \<Rightarrow> slv_mixer" where
  "janus_slvoice_create_session now s m =
     (let m = upd_session s (\<lambda>_. janus_slvoice_session_zero\<lparr>se_opus_pt := -1, se_created_ts := now\<rparr>) m
      in m\<lparr>mx_live := mx_live m @ [s]\<rparr>)"

definition janus_slvoice_destroy_session :: "(json \<Rightarrow> string option) \<Rightarrow> slv_knobs \<Rightarrow> int \<Rightarrow> nat \<Rightarrow> slv_mixer \<Rightarrow> slv_mixer" where
  "janus_slvoice_destroy_session dumps k now s m =
     (let m = janus_slvoice_leave_room dumps k now s m;
          m = upd_session s janus_slvoice_media_free_locked m;
          m = m\<lparr>mx_live := filter (\<lambda>x. x \<noteq> s) (mx_live m)\<rparr>
      in upd_session s (\<lambda>x. x\<lparr>se_destroyed := True\<rparr>) m)"

definition media_gone_session :: "janus_slvoice_session \<Rightarrow> janus_slvoice_session" where
  "media_gone_session x =
     (let x = janus_slvoice_media_free_locked (janus_slvoice_echo_stop_locked x)
      in x\<lparr>se_jb := (se_jb x)\<lparr>jb_next := 0, jb_newest := 0, jb_first_seq := 0\<rparr>, se_last_rtp_us := 0\<rparr>)"

definition janus_slvoice_media_gone :: "(json \<Rightarrow> string option) \<Rightarrow> slv_knobs \<Rightarrow> int \<Rightarrow> nat \<Rightarrow> slv_mixer \<Rightarrow> slv_mixer" where
  "janus_slvoice_media_gone dumps k now s m =
     (let m = upd_session s (\<lambda>x. x\<lparr>se_webrtc_up := False, se_dc_open := False, se_backlog_confirmed := False\<rparr>) m;
          m = janus_slvoice_leave_room dumps k now s m
      in upd_session s media_gone_session m)"

definition janus_slvoice_hangup_media :: "(json \<Rightarrow> string option) \<Rightarrow> slv_knobs \<Rightarrow> int \<Rightarrow> nat \<Rightarrow> slv_mixer \<Rightarrow> slv_mixer" where
  "janus_slvoice_hangup_media dumps k now s m = janus_slvoice_media_gone dumps k now s m"

text \<open>Reaping re-checks what the tick saw, then leaves as a hangup does.\<close>

definition janus_slvoice_reap_no_media ::
  "(json \<Rightarrow> string option) \<Rightarrow> slv_knobs \<Rightarrow> int \<Rightarrow> nat \<Rightarrow> nat \<times> int \<Rightarrow> slv_mixer \<Rightarrow> slv_mixer"
where
  "janus_slvoice_reap_no_media dumps k now a = (\<lambda>(s, join_ts) m.
     let x = session_of m s in
     if se_room x = Some a \<and> se_join_ts x = join_ts \<and> \<not> se_media_seen x \<and> \<not> se_destroyed x
     then janus_slvoice_media_gone dumps k now s (upd_session s (\<lambda>x. x\<lparr>se_join_ts := 0\<rparr>) m) else m)"

text \<open>The whole tick: \<open>t0\<close> is its time, \<open>now\<close> the time of the reaping.\<close>

definition janus_slvoice_room_tick ::
  "slv_opus \<Rightarrow> (json \<Rightarrow> string option) \<Rightarrow> slv_knobs \<Rightarrow> int \<Rightarrow> int \<Rightarrow> nat \<Rightarrow> slv_mixer \<Rightarrow> slv_mixer \<times> (nat \<times> slv_rtp) list"
where
  "janus_slvoice_room_tick op dumps k t0 now a m =
     (case room_tick_locked op k t0 a m of
        (m, out, reap) \<Rightarrow> (fold (janus_slvoice_reap_no_media dumps k now a) reap m, out))"

text \<open>A pass of the sender: once in ten passes the sweep, then the batch of every room.\<close>

definition SLV_POWER_TICK_MS :: nat where [slv_const]: "SLV_POWER_TICK_MS = 100"

definition sender_pass :: "(json \<Rightarrow> string option) \<Rightarrow> slv_knobs \<Rightarrow> int \<Rightarrow> nat \<times> slv_mixer \<Rightarrow> nat \<times> slv_mixer" where
  "sender_pass dumps k now = (\<lambda>(sweep_ticks, m).
     let (ticks, m) = (if sweep_ticks + 1 \<ge> 1000 div SLV_POWER_TICK_MS
           then (0, fst (janus_slvoice_sweep_empty_rooms_locked k now m)) else (sweep_ticks + 1, m))
     in (ticks, fold (sender_room dumps k now) (map snd (mx_rooms m)) m))"

subsection \<open>The data channel and the media callbacks\<close>

definition SLV_GAIN_FACTOR :: real where "SLV_GAIN_FACTOR = 220"
definition SLV_GAIN_MAX :: real where "SLV_GAIN_MAX = 4"

fun peer_ctl_index :: "slv_peer_ctl list \<Rightarrow> string \<Rightarrow> nat option" where
  "peer_ctl_index [] u = None"
| "peer_ctl_index (p # ps) u = (if pc_uuid p = u then Some 0 else map_option Suc (peer_ctl_index ps u))"

definition peer_ctl_adjust :: "slv_peer_adj \<Rightarrow> slv_peer_ctl \<Rightarrow> slv_peer_ctl" where
  "peer_ctl_adjust a dst =
     (let dst = (if pa_has_mute a then dst\<lparr>pc_muted := pa_muted a\<rparr> else dst)
      in if pa_has_gain a then
           (let g = pa_gain a / SLV_GAIN_FACTOR; g = (if g < 0 then 0 else if g > SLV_GAIN_MAX then SLV_GAIN_MAX else g)
            in dst\<lparr>pc_has_gain := True, pc_gain := g\<rparr>)
         else dst)"

text \<open>The entry of an adjustment, and the entries of a message: the table and the number of entries dropped.\<close>

definition peer_ctl_merge :: "slv_peer_adj \<Rightarrow> slv_peer_ctl list \<times> nat \<Rightarrow> slv_peer_ctl list \<times> nat" where
  "peer_ctl_merge a = (\<lambda>(pcs, drops).
     case peer_ctl_index pcs (pa_uuid a) of
       Some i \<Rightarrow> (pcs[i := peer_ctl_adjust a (pcs ! i)], drops)
     | None \<Rightarrow>
        if length pcs \<ge> SLV_MAX_PEER_ADJ then (pcs, drops + 1)
        else (pcs @ [peer_ctl_adjust a \<lparr>pc_uuid = slv_ucpy (pa_uuid a), pc_muted = False, pc_has_gain = False, pc_gain = 0\<rparr>], drops))"

definition janus_slvoice_apply_peer_ctl_locked :: "slv_sldata \<Rightarrow> janus_slvoice_session \<Rightarrow> janus_slvoice_session" where
  "janus_slvoice_apply_peer_ctl_locked d s =
     (case fold peer_ctl_merge (sl_peers d) (se_peer_ctl s, se_peer_ctl_full_drops s) of
        (pcs, drops) \<Rightarrow> s\<lparr>se_peer_ctl := pcs, se_peer_ctl_full_drops := drops\<rparr>)"

text \<open>What starting the echo may need: do the codecs' creations succeed, and the random numbers.\<close>

record slv_media_args =
  ma_dec_ok :: bool
  ma_enc_ok :: bool
  ma_seq :: u16
  ma_ts :: u32
  ma_ssrc :: u32

definition media_alloc_with :: "slv_media_args \<Rightarrow> janus_slvoice_session \<Rightarrow> janus_slvoice_session \<times> bool" where
  "media_alloc_with ma s = janus_slvoice_media_alloc_locked (ma_dec_ok ma) (ma_enc_ok ma) (ma_seq ma) (ma_ts ma) (ma_ssrc ma) s"

definition echo_start_with :: "slv_media_args \<Rightarrow> janus_slvoice_session \<Rightarrow> janus_slvoice_session" where
  "echo_start_with ma s = janus_slvoice_echo_start_locked (ma_dec_ok ma) (ma_enc_ok ma) (ma_seq ma) (ma_ts ma) (ma_ssrc ma) s"

definition janus_slvoice_setup_media :: "slv_knobs \<Rightarrow> slv_media_args \<Rightarrow> janus_slvoice_session \<Rightarrow> janus_slvoice_session" where
  "janus_slvoice_setup_media k ma s =
     (let s = s\<lparr>se_webrtc_up := True, se_media_seen := True\<rparr>
      in if kn_echo_autostart k then echo_start_with ma s else s)"

text \<open>The room of a session that is not being destroyed.\<close>

definition live_room :: "slv_mixer \<Rightarrow> nat \<Rightarrow> nat option" where
  "live_room m s = (case se_room (session_of m s) of None \<Rightarrow> None | Some a \<Rightarrow> if rm_destroyed (room_at m a) then None else Some a)"

definition data_store :: "slv_sldata_status \<Rightarrow> slv_sldata \<Rightarrow> janus_slvoice_session \<Rightarrow> janus_slvoice_session" where
  "data_store st d s =
     (let s = s\<lparr>se_data_msgs_received := se_data_msgs_received s + 1\<rparr>
      in if st = SLV_SLDATA_OK \<or> st = SLV_SLDATA_EMPTY then
           (case slv_sldata_merge (se_last_data s) (se_last_data_fields s) d of
              (ld, lf) \<Rightarrow>
                let s = s\<lparr>se_last_data := ld, se_last_data_fields := lf, se_last_msg_fields := sl_fields_seen d\<rparr>
                in if length (sl_peers d) > 0 then janus_slvoice_apply_peer_ctl_locked d s else s)
         else s)"

definition data_backlog :: "(json \<Rightarrow> string option) \<Rightarrow> slv_knobs \<Rightarrow> int \<Rightarrow> nat \<Rightarrow> slv_mixer \<Rightarrow> slv_mixer" where
  "data_backlog dumps k now s m =
     (let m = upd_session s (\<lambda>x. x\<lparr>se_backlog_confirmed := True\<rparr>) m
      in case live_room m s of
           None \<Rightarrow> m
         | Some a \<Rightarrow> upd_session s (\<lambda>x. x\<lparr>se_backlog_resent := se_backlog_resent x + 1\<rparr>)
                       (janus_slvoice_send_join_backlog_locked dumps k now s a m))"

definition janus_slvoice_incoming_data ::
  "(string \<Rightarrow> json option) \<Rightarrow> (json \<Rightarrow> string option) \<Rightarrow> slv_knobs \<Rightarrow> slv_media_args \<Rightarrow> int \<Rightarrow> nat \<Rightarrow> string \<Rightarrow> slv_mixer \<Rightarrow> slv_mixer"
where
  "janus_slvoice_incoming_data loadb dumps k ma now s buf m =
     (if se_destroyed (session_of m s) \<or> buf = [] then m
      else case slv_sldata_parse loadb (Some buf) of (st, d) \<Rightarrow>
        let m = upd_session s (data_store st d) m in
        if st = SLV_SLDATA_MALFORMED \<or> st = SLV_SLDATA_TOOBIG then m
        else
          let m = (if sl_fields_seen d AND SLV_FIELD_J \<noteq> 0 \<and> \<not> se_backlog_confirmed (session_of m s)
                   then data_backlog dumps k now s m else m)
          in if sl_fields_seen d AND SLV_FIELD_ECHO \<noteq> 0
             then upd_session s (if sl_echo d then echo_start_with ma else janus_slvoice_echo_stop_locked) m else m)"

text \<open>The channel becomes writable. In a room this is one critical section, the presence fence.\<close>

definition janus_slvoice_data_ready :: "(json \<Rightarrow> string option) \<Rightarrow> slv_knobs \<Rightarrow> int \<Rightarrow> nat \<Rightarrow> slv_mixer \<Rightarrow> slv_mixer" where
  "janus_slvoice_data_ready dumps k now s m =
     (if se_dc_open (session_of m s) then m
      else
        let room = live_room m s;
            m = upd_session s (\<lambda>x. x\<lparr>se_dc_open := True\<rparr>) m
        in case room of None \<Rightarrow> m | Some a \<Rightarrow> janus_slvoice_send_join_backlog_locked dumps k now s a m)"

subsection \<open>The two halves of a join\<close>

text \<open>
  The join arm of the request handler commits the membership in two critical sections: first the session, under its own
  mutex, then the room. \<open>None\<close>: the room has been destroyed in between, and the first half is undone.
\<close>

record slv_join_args =
  ja_user_id :: nat
  ja_display :: "string option"
  ja_recorder :: bool
  ja_media :: slv_media_args

definition join_session :: "int \<Rightarrow> nat \<Rightarrow> slv_join_args \<Rightarrow> janus_slvoice_session \<Rightarrow> janus_slvoice_session" where
  "join_session now a ja s =
     fst (media_alloc_with (ja_media ja)
       (s\<lparr>se_user_id := (if ja_user_id ja = 0 then 1 else ja_user_id ja), se_display := ja_display ja,
          se_recorder := ja_recorder ja, se_room := Some a, se_join_ts := now, se_media_seen := se_webrtc_up s\<rparr>))"

definition join_undo :: "nat \<Rightarrow> janus_slvoice_session \<Rightarrow> janus_slvoice_session" where
  "join_undo a s = janus_slvoice_media_free_locked (if se_room s = Some a then s\<lparr>se_room := None\<rparr> else s)"

text \<open>The key is the number the handler drew, which a hangup in between does not change.\<close>

definition join_room :: "slv_knobs \<Rightarrow> int \<Rightarrow> nat \<Rightarrow> nat \<Rightarrow> nat \<Rightarrow> slv_mixer \<Rightarrow> slv_mixer \<times> json option" where
  "join_room k now a s uid m =
     (if rm_destroyed (room_at m a) then (upd_session s (join_undo a) m, None)
      else
        let m = upd_room a (\<lambda>r. r\<lparr>rm_empty_since := 0, rm_participants := AList.update uid s (rm_participants r)\<rparr>) m
        in case janus_slvoice_join_commit_locked k now a s m of (m, roster) \<Rightarrow> (m, Some roster))"

end
