(* ===== verification/Membership.thy ===== *)
theory Membership
  imports Lifecycle
begin

text \<open>
  Who is in which room: the invariant that ties the participants of the rooms, the sessions' own view and the table of
  rooms, and that every operation of \<^verbatim>\<open>Lifecycle\<close>, the tick, the sender and the batches keep it. Most operations
  change no membership at all, the contract of the locale \<open>seat_keeping\<close>.
\<close>

subsection \<open>The invariant\<close>

text \<open>What a session must not carry outside a room, and what of a room decides about memberships.\<close>

definition luggage :: "janus_slvoice_session \<Rightarrow> string list \<times> string list \<times> slv_cull_hyst list \<times> bool \<times> slv_pos_part_stats" where
  "luggage x = (se_excluded x, se_mod_muted x, se_cull_hyst x, se_snap_valid x, se_pos x)"

definition no_luggage :: "string list \<times> string list \<times> slv_cull_hyst list \<times> bool \<times> slv_pos_part_stats" where
  "no_luggage = ([], [], [], False, slv_pos_part_stats_zero)"

definition seat :: "janus_slvoice_session \<Rightarrow> nat option \<times> nat" where
  "seat x = (se_room x, se_user_id x)"

definition roll :: "janus_slvoice_room \<Rightarrow> (nat \<times> nat) list \<times> nat \<times> bool \<times> int \<times> bool \<times> bool" where
  "roll r = (rm_participants r, room_seat r)"

lemma roll_sel:
  assumes "roll r = roll r'"
  shows "rm_participants r = rm_participants r'" "rm_room_id r = rm_room_id r'" "rm_permanent r = rm_permanent r'"
    "rm_empty_since r = rm_empty_since r'" "rm_destroyed r = rm_destroyed r'" "rm_tick_running r = rm_tick_running r'"
  using assms by (simp_all add: roll_def room_seat_def)

lemma seat_sel:
  assumes "seat x = seat y"
  shows "se_room x = se_room y" "se_user_id x = se_user_id y"
  using assms by (simp_all add: seat_def)

text \<open>The grace clock of a room runs exactly while it is empty, and never in a permanent room.\<close>

definition grace_ok :: "janus_slvoice_room \<Rightarrow> bool" where
  "grace_ok r \<longleftrightarrow> (if rm_permanent r then rm_empty_since r = 0 else (rm_empty_since r \<noteq> 0) = (rm_participants r = []))"

text \<open>A participant's entry names a session that is in this room under this number, and the other way round.\<close>

definition seats_ok :: "slv_mixer \<Rightarrow> bool" where
  "seats_ok m \<longleftrightarrow> (\<forall>a u s. (u, s) \<in> set (rm_participants (room_at m a)) \<longleftrightarrow> seat (session_of m s) = (Some a, u)) \<and>
     (\<forall>a. distinct (map fst (rm_participants (room_at m a))))"

text \<open>The table of rooms; the rooms of \<open>marked\<close> may already carry the flag of their destruction. The rooms of the table are
  those whose tick thread runs.\<close>

definition rooms_ok :: "nat set \<Rightarrow> slv_mixer \<Rightarrow> bool" where
  "rooms_ok marked m \<longleftrightarrow> distinct (map fst (mx_rooms m)) \<and> distinct (map snd (mx_rooms m)) \<and>
     (\<forall>i a. (i, a) \<in> set (mx_rooms m) \<longrightarrow> rm_room_id (room_at m a) = i \<and> a < mx_next_room m \<and> grace_ok (room_at m a) \<and>
        (rm_destroyed (room_at m a) \<longrightarrow> a \<in> marked)) \<and>
     (\<forall>a. rm_participants (room_at m a) \<noteq> [] \<longrightarrow> a \<in> snd ` set (mx_rooms m)) \<and>
     (\<forall>a. rm_tick_running (room_at m a) \<longleftrightarrow> a \<in> snd ` set (mx_rooms m))"

definition sessions_ok :: "slv_mixer \<Rightarrow> bool" where
  "sessions_ok m \<longleftrightarrow> (\<forall>s. if se_room (session_of m s) = None then luggage (session_of m s) = no_luggage else s \<in> set (mx_live m))"

definition capacity_ok :: "slv_knobs \<Rightarrow> slv_mixer \<Rightarrow> bool" where
  "capacity_ok k m \<longleftrightarrow> (\<forall>a. length (rm_participants (room_at m a)) \<le> kn_room_size k)"

definition marked_inv :: "slv_knobs \<Rightarrow> nat set \<Rightarrow> slv_mixer \<Rightarrow> bool" where
  "marked_inv k marked m \<longleftrightarrow> seats_ok m \<and> rooms_ok marked m \<and> sessions_ok m \<and> capacity_ok k m"

definition mixer_inv :: "slv_knobs \<Rightarrow> slv_mixer \<Rightarrow> bool" where
  "mixer_inv k m \<longleftrightarrow> marked_inv k {} m"

lemma mixer_inv_init: "mixer_inv k slv_mixer_init"
  by (simp add: mixer_inv_def marked_inv_def seats_ok_def rooms_ok_def sessions_ok_def capacity_ok_def slv_mixer_init_def
      janus_slvoice_room_zero_def janus_slvoice_session_zero_def seat_def luggage_def no_luggage_def)

lemma member_iff: "seats_ok m \<Longrightarrow> s \<in> set (members (room_at m a)) \<longleftrightarrow> se_room (session_of m s) = Some a"
  by (force simp: seats_ok_def seat_def)

lemma members_distinct: "seats_ok m \<Longrightarrow> distinct (members (room_at m a))"
proof -
  assume ok: "seats_ok m"
  then have "inj_on snd (set (rm_participants (room_at m a)))" by (force simp: inj_on_def seats_ok_def)
  moreover have "distinct (rm_participants (room_at m a))" using ok by (auto simp: seats_ok_def distinct_map)
  ultimately show ?thesis by (simp add: distinct_map)
qed

subsection \<open>Operations that change no membership\<close>

definition seated :: "slv_mixer \<Rightarrow> bool" where
  "seated m \<longleftrightarrow> (\<forall>a. \<forall>s\<in>set (members (room_at m a)). se_room (session_of m s) \<noteq> None)"

definition same_seats :: "slv_mixer \<Rightarrow> slv_mixer \<Rightarrow> bool" where
  "same_seats m m' \<longleftrightarrow> mx_rooms m' = mx_rooms m \<and> mx_next_room m' = mx_next_room m \<and> mx_live m' = mx_live m \<and>
     (\<forall>a. roll (room_at m' a) = roll (room_at m a)) \<and>
     (\<forall>s. seat (session_of m' s) = seat (session_of m s) \<and>
        (se_room (session_of m s) = None \<longrightarrow> luggage (session_of m' s) = luggage (session_of m s)))"

lemma same_seats_refl [simp]: "same_seats m m"
  by (simp add: same_seats_def)

lemma same_seats_trans: "same_seats m m' \<Longrightarrow> same_seats m' m'' \<Longrightarrow> same_seats m m''"
  unfolding same_seats_def by (metis seat_sel(1))

lemma same_seats_seated: "same_seats m m' \<Longrightarrow> seated m \<Longrightarrow> seated m'"
  unfolding same_seats_def seated_def by (metis roll_sel(1) seat_sel(1))

lemma marked_inv_seated: "marked_inv k d m \<Longrightarrow> seated m"
  by (auto simp: marked_inv_def seats_ok_def seated_def seat_def)

lemma same_seats_marked: "same_seats m m' \<Longrightarrow> marked_inv k d m \<Longrightarrow> marked_inv k d m'"
proof -
  assume a: "same_seats m m'" "marked_inv k d m"
  have p: "rm_participants (room_at m' b) = rm_participants (room_at m b)" "grace_ok (room_at m' b) = grace_ok (room_at m b)"
    "rm_room_id (room_at m' b) = rm_room_id (room_at m b)" "rm_destroyed (room_at m' b) = rm_destroyed (room_at m b)"
    "rm_tick_running (room_at m' b) = rm_tick_running (room_at m b)" for b
    using a(1) roll_sel [of "room_at m' b" "room_at m b"] by (simp_all add: same_seats_def grace_ok_def)
  have s: "seat (session_of m' s) = seat (session_of m s)" "se_room (session_of m' s) = se_room (session_of m s)" for s
    using a(1) seat_sel [of "session_of m' s" "session_of m s"] by (simp_all add: same_seats_def)
  have t: "mx_rooms m' = mx_rooms m" "mx_next_room m' = mx_next_room m" "mx_live m' = mx_live m"
    "\<And>s. se_room (session_of m s) = None \<Longrightarrow> luggage (session_of m' s) = luggage (session_of m s)"
    using a(1) by (simp_all add: same_seats_def)
  have "sessions_ok m'" using a(2) t(4) unfolding marked_inv_def sessions_ok_def s(2) t(3) by metis
  then show ?thesis
    using a(2) unfolding marked_inv_def seats_ok_def rooms_ok_def capacity_ok_def p s(1) t(1,2) by blast
qed

lemma same_seats_inv: "same_seats m m' \<Longrightarrow> mixer_inv k m \<Longrightarrow> mixer_inv k m'"
  unfolding mixer_inv_def by (rule same_seats_marked)

text \<open>The contract most operations share: seen from a state where the participants of every room are in a room, the
  step keeps all memberships and gives nothing to a session outside.\<close>

locale seat_keeping =
  fixes step :: "'x \<Rightarrow> slv_mixer \<Rightarrow> slv_mixer"
  assumes keeps: "seated m \<Longrightarrow> same_seats m (step x m)"
begin

lemma fold_keeps: "seated m \<Longrightarrow> same_seats m (fold step xs m)"
proof (induction xs arbitrary: m)
  case (Cons x xs)
  then have "same_seats m (step x m)" by (intro keeps)
  with Cons same_seats_seated show ?case by (auto intro: same_seats_trans)
qed simp

lemma fold_seated: "seated m \<Longrightarrow> seated (fold step xs m)"
  using fold_keeps same_seats_seated by blast

lemma step_inv: "mixer_inv k m \<Longrightarrow> mixer_inv k (step x m)"
  using keeps marked_inv_seated same_seats_inv unfolding mixer_inv_def by blast

end

lemma same_seats_upd_session:
  assumes "seat (f (session_of m s)) = seat (session_of m s)"
    and "se_room (session_of m s) = None \<Longrightarrow> luggage (f (session_of m s)) = luggage (session_of m s)"
  shows "same_seats m (upd_session s f m)"
  using assms by (simp add: same_seats_def upd_session_def)

lemma same_seats_upd_room:
  assumes "roll (f (room_at m a)) = roll (room_at m a)"
  shows "same_seats m (upd_room a f m)"
  using assms by (simp add: same_seats_def upd_room_def)

lemma relayed_same_seats:
  assumes "relayed m m'" shows "same_seats m m'"
proof -
  have core: "seat x = seat y" "luggage x = luggage y" if "sess_core x = sess_core y" for x y
    using arg_cong [OF that, of seat] arg_cong [OF that, of luggage]
    by (simp_all add: sess_core_def seat_def luggage_def)
  have "sess_core (session_of m' s) = sess_core (session_of m s)" for s using assms by (simp add: relayed_def)
  with core have "seat (session_of m' s) = seat (session_of m s)" "luggage (session_of m' s) = luggage (session_of m s)" for s
    by blast+
  moreover have "mx_heap m' = mx_heap m" "mx_rooms m' = mx_rooms m" "mx_live m' = mx_live m" "mx_next_room m' = mx_next_room m"
    using assms by (simp_all add: relayed_def)
  ultimately show ?thesis unfolding same_seats_def by simp
qed

lemma push_presence_keeps: "same_seats m (janus_slvoice_push_presence dumps k now a who join m)"
proof -
  let ?m = "if join then upd_room a (\<lambda>r. r\<lparr>rm_vis_joins_since_snapshot := rm_vis_joins_since_snapshot r + 1\<rparr>) m else m"
  have "same_seats ?m (fold (presence_to dumps k now a who join) ps ?m)" for ps
    by (intro relayed_same_seats relay_loop presence_to_step)
  moreover have "same_seats m (upd_room a (\<lambda>r. r\<lparr>rm_vis_joins_since_snapshot := rm_vis_joins_since_snapshot r + 1\<rparr>) m)"
    by (rule same_seats_upd_room) (simp add: roll_def room_seat_def)
  ultimately show ?thesis
    unfolding janus_slvoice_push_presence_def Let_def by (cases join) (auto intro: same_seats_trans)
qed

lemma backlog_relayed: "relayed m (janus_slvoice_send_join_backlog_locked dumps k now s a m)"
  unfolding janus_slvoice_send_join_backlog_locked_def
  by (rule relay_loop) (auto simp: backlog_to_def Let_def relay_json_fst split: option.split)

lemma outbox_same_seats: "same_seats m (m\<lparr>mx_outbox := out\<rparr>)"
  by (simp add: same_seats_def)

interpretation presence: seat_keeping "\<lambda>(a, who, join). janus_slvoice_push_presence dumps k now a who join" for dumps k now
  by unfold_locales (auto intro: push_presence_keeps)

interpretation transition: seat_keeping "transition_to dumps was ok p" for dumps was ok p
  by unfold_locales (auto simp: transition_to_def Let_def intro!: relayed_same_seats relay_presence_one(1) split: option.split)

interpretation transitions: seat_keeping "\<lambda>p m. fold (transition_to dumps was ok p) ps m" for dumps was ok ps
  by unfold_locales (rule transition.fold_keeps)

interpretation standing: seat_keeping "\<lambda>q. upd_session q (\<lambda>x. x\<lparr>se_vis_ok_last := ok q\<rparr>)" for ok
  by unfold_locales (simp add: same_seats_upd_session seat_def luggage_def)

lemma dot_send_keeps: "same_seats m (dot_send dumps k now a batch hidden s m)"
  unfolding dot_send_view send_text_def by (auto simp: outbox_same_seats split: option.split)

interpretation dots: seat_keeping "dot_send dumps k now a batch hidden" for dumps k now a batch hidden
  by unfold_locales (rule dot_send_keeps)

lemma vis_transitions_keep:
  assumes "seated m" shows "same_seats m (fst (janus_slvoice_vis_transitions_locked dumps k now a m))"
  using same_seats_trans [OF transitions.fold_keeps [OF assms] standing.fold_keeps [OF transitions.fold_seated [OF assms]]]
  by (simp add: janus_slvoice_vis_transitions_locked_def Let_def)

interpretation sender: seat_keeping "sender_room dumps k now" for dumps k now
proof unfold_locales
  fix m a assume m: "seated m"
  obtain n hs where n: "janus_slvoice_vis_transitions_locked dumps k now a m = (n, hs)" by fastforce
  have "same_seats m n" using vis_transitions_keep [OF m, of dumps k now a] by (simp add: n)
  then show "same_seats m (sender_room dumps k now a m)"
    using dots.fold_keeps same_seats_trans same_seats_seated [OF _ m] m
    by (simp add: sender_room_def Let_def n)
qed

subsection \<open>The tick changes no membership\<close>

definition desk :: "janus_slvoice_session \<Rightarrow> (nat option \<times> nat) \<times> int \<times> bool \<times> bool" where
  "desk x = (seat x, se_join_ts x, se_media_seen x, se_destroyed x)"

interpretation desk: decode_view desk
  by unfold_locales (simp_all add: desk_def seat_def)

lemma pass2_listener_desk: "desk (fst (pass2_listener op sp room rows srcbuf audible i s srcs)) = desk s"
proof -
  have "desk (fst (janus_slvoice_encode_relay op frame n silence x)) = desk x" for frame n silence x
    by (auto simp: janus_slvoice_encode_relay_def Let_def desk_def seat_def split: option.splits prod.splits)
  moreover have "desk (fst (janus_slvoice_build_echo x n)) = desk x" for x n
    by (auto simp: janus_slvoice_build_echo_def Let_def desk_def seat_def split: prod.splits)
  moreover have "desk (s\<lparr>se_cull_hyst := cs\<rparr>) = desk s" "desk (x\<lparr>se_last_mix_rms := a, se_last_mix_rms_l := b,
      se_last_mix_rms_r := c, se_frames_mixed := d\<rparr>) = desk x" for cs x a b c d
    by (simp_all add: desk_def seat_def)
  ultimately show ?thesis by (simp add: pass2_listener_def Let_def split_beta)
qed

text \<open>A step on the sessions of a list that keeps their desks, and on a room without touching its roll.\<close>

definition desks_kept :: "nat list \<Rightarrow> slv_mixer \<Rightarrow> slv_mixer \<Rightarrow> bool" where
  "desks_kept ss m m' \<longleftrightarrow> mx_rooms m' = mx_rooms m \<and> mx_next_room m' = mx_next_room m \<and> mx_live m' = mx_live m \<and>
     (\<forall>a. roll (room_at m' a) = roll (room_at m a)) \<and> (\<forall>s. desk (session_of m' s) = desk (session_of m s)) \<and>
     (\<forall>s. s \<notin> set ss \<longrightarrow> session_of m' s = session_of m s)"

lemma desks_kept_refl [simp]: "desks_kept ss m m"
  by (simp add: desks_kept_def)

lemma desks_kept_trans: "desks_kept ss m m' \<Longrightarrow> desks_kept ss m' m'' \<Longrightarrow> desks_kept ss m m''"
  by (simp add: desks_kept_def)

lemma fold_desks_kept:
  assumes "\<And>x st. x \<in> set xs \<Longrightarrow> desks_kept ss (fst st) (fst (f x st))"
  shows "desks_kept ss (fst st) (fst (fold f xs st))"
  using assms
proof (induction xs arbitrary: st)
  case (Cons x xs)
  then have "desks_kept ss (fst st) (fst (f x st))" "desks_kept ss (fst (f x st)) (fst (fold f xs (f x st)))" by auto
  then show ?case by (simp add: desks_kept_trans)
qed simp

lemma desks_kept_upd_session:
  "s \<in> set ss \<Longrightarrow> desk (f (session_of m s)) = desk (session_of m s) \<Longrightarrow> desks_kept ss m (upd_session s f m)"
  by (auto simp: desks_kept_def upd_session_def)

lemma desks_kept_upd_room: "roll (f (room_at m a)) = roll (room_at m a) \<Longrightarrow> desks_kept ss m (upd_room a f m)"
  by (simp add: desks_kept_def upd_room_def)

lemma pass1_one_desks: "s \<in> set ss \<Longrightarrow> desks_kept ss (fst st) (fst (pass1_one op k t0 a check s st))"
proof -
  assume s: "s \<in> set ss"
  obtain m reap where st: "st = (m, reap)" by fastforce
  obtain x rs where x: "janus_slvoice_pos_observe_locked (room_at m a)
      (janus_slvoice_snapshot_geometry_locked (kn_spatial k) (janus_slvoice_tick_decode_locked op t0 (session_of m s))) t0 = (x, rs)"
    by fastforce
  have "x = pass1_session op k t0 (room_at m a) (session_of m s)" by (simp add: pass1_session_def x)
  then have "desks_kept ss m (upd_session s (\<lambda>_. x) m)"
    using s desk.pass1_session_view by (intro desks_kept_upd_session) simp_all
  moreover have "desks_kept ss n (upd_room a (\<lambda>r. r\<lparr>rm_pos_stats := rs\<rparr>) n)" for n
    by (rule desks_kept_upd_room) (simp add: roll_def room_seat_def)
  ultimately show ?thesis
    using desks_kept_trans by (simp add: st pass1_one_def Let_def x)
qed

lemma tick_desks:
  assumes "room_tick_locked op k t0 a m = (m', out, reap)"
  shows "desks_kept (tick_sessions m a) m m'"
proof -
  let ?ss = "tick_sessions m a" and ?m0 = "upd_room a room_tick_begin m"
  obtain check where t: "tick_after_pass1 op k t0 a ?ss (fst (fold (pass1_one op k t0 a check) ?ss (?m0, []))) = (m', out)"
    using tick_structure [OF assms] by blast
  let ?p = "fst (fold (pass1_one op k t0 a check) ?ss (?m0, []))"
  have 1: "desks_kept ?ss m ?m0"
    by (rule desks_kept_upd_room) (simp add: room_tick_begin_def Let_def roll_def room_seat_def)
  have 2: "desks_kept ?ss ?m0 ?p"
    using fold_desks_kept [of ?ss ?ss "pass1_one op k t0 a check" "(?m0, [])"] pass1_one_desks by simp
  let ?q = "upd_room a (tick_gauges (tick_rows k t0 ?ss ?p (room_at ?p a))) ?p"
  have 3: "desks_kept ?ss ?p ?q"
    by (rule desks_kept_upd_room) (simp add: tick_gauges_def Let_def roll_def room_seat_def split: option.split)
  have step: "desks_kept ?ss (fst st) (fst (pass2_one op k a rows srcbuf audible ?ss i st))"
    if "i \<in> set [0..<length ?ss]" for i st rows srcbuf audible
  proof -
    obtain n o' where st: "st = (n, o')" by fastforce
    show ?thesis
      unfolding st pass2_one_state fst_conv using that
      by (intro desks_kept_upd_session) (simp_all add: pass2_of_def pass2_listener_desk)
  qed
  have "desks_kept ?ss (fst st) (fst (fold (pass2_one op k a rows srcbuf audible ?ss) [0..<length ?ss] st))"
    for rows srcbuf audible st by (rule fold_desks_kept) (rule step)
  from this [of "(?q, [])"]
  have p2: "desks_kept ?ss ?q (fst (fold (pass2_one op k a rows srcbuf audible ?ss) [0..<length ?ss] (?q, [])))"
    for rows srcbuf audible by simp
  obtain rows srcbuf audible where "fold (pass2_one op k a rows srcbuf audible ?ss) [0..<length ?ss] (?q, []) = (m', out)"
    using t unfolding tick_after_pass1_def Let_def by blast
  then have 4: "desks_kept ?ss ?q m'" using p2 [of rows srcbuf audible] by (simp only: fst_conv)
  show ?thesis by (intro desks_kept_trans [OF desks_kept_trans [OF desks_kept_trans [OF 1 2] 3] 4])
qed

lemma desks_same_seats:
  assumes "desks_kept ss m m'" "\<And>s. s \<in> set ss \<Longrightarrow> se_room (session_of m s) \<noteq> None"
  shows "same_seats m m'"
  using assms unfolding desks_kept_def same_seats_def desk_def by (metis prod.inject)

lemma tick_locked_keeps:
  assumes "seated m" "room_tick_locked op k t0 a m = (m', out, reap)"
  shows "same_seats m m'"
proof (rule desks_same_seats [OF tick_desks [OF assms(2)]])
  fix s assume "s \<in> set (tick_sessions m a)"
  then have "s \<in> set (members (room_at m a))" unfolding tick_sessions_def by (rule in_set_takeD)
  then show "se_room (session_of m s) \<noteq> None" using assms(1) unfolding seated_def by blast
qed

subsection \<open>Leaving\<close>

lemma reset_sel:
  "seat (janus_slvoice_reset_room_state_locked x) = seat x" "luggage (janus_slvoice_reset_room_state_locked x) = no_luggage"
  by (simp_all add: janus_slvoice_reset_room_state_locked_def seat_def luggage_def no_luggage_def)

text \<open>A step by which session \<open>s\<close> gets up from its seat in room \<open>a\<close>.\<close>

definition gets_up :: "int \<Rightarrow> nat \<Rightarrow> nat \<Rightarrow> slv_mixer \<Rightarrow> slv_mixer \<Rightarrow> bool" where
  "gets_up now a s m m' \<longleftrightarrow> mx_rooms m' = mx_rooms m \<and> mx_next_room m' = mx_next_room m \<and> mx_live m' = mx_live m \<and>
     (\<forall>b. b \<noteq> a \<longrightarrow> roll (room_at m' b) = roll (room_at m b)) \<and>
     roll (room_at m' a) = roll (leave_remove now (se_user_id (session_of m s)) (room_at m a)) \<and>
     seat (session_of m' s) = (None, se_user_id (session_of m s)) \<and> luggage (session_of m' s) = no_luggage \<and>
     (\<forall>w. w \<noteq> s \<longrightarrow> seat (session_of m' w) = seat (session_of m w) \<and>
        (se_room (session_of m w) = None \<longrightarrow> luggage (session_of m' w) = luggage (session_of m w)))"

lemma roll_leave_remove: "roll r = roll r' \<Longrightarrow> roll (leave_remove now u r) = roll (leave_remove now u r')"
  by (simp add: leave_remove_def Let_def roll_def room_seat_def)

lemma gets_up_from:
  assumes "se_room (session_of m s) = Some a" "same_seats (upd_session s (\<lambda>x. x\<lparr>se_room := None\<rparr>) m) n"
  shows "gets_up now a s m (upd_session s janus_slvoice_reset_room_state_locked
    (upd_room a (leave_remove now (se_user_id (session_of m s))) n))"
proof -
  have r: "roll (leave_remove now (se_user_id (session_of m s)) (room_at n a)) =
      roll (leave_remove now (se_user_id (session_of m s)) (room_at m a))"
    by (rule roll_leave_remove) (use assms(2) in \<open>simp add: same_seats_def\<close>)
  have s: "seat (session_of n w) = (if w = s then (None, se_user_id (session_of m s)) else seat (session_of m w))" for w
    using assms(2) by (auto simp: same_seats_def upd_session_def seat_def split: if_splits)
  have w: "luggage (session_of n w) = luggage (session_of m w)" if "w \<noteq> s" "se_room (session_of m w) = None" for w
    using assms(2) that by (auto simp: same_seats_def upd_session_def split: if_splits)
  have t: "mx_rooms n = mx_rooms m" "mx_next_room n = mx_next_room m" "mx_live n = mx_live m"
    "\<And>b. roll (room_at n b) = roll (room_at m b)"
    using assms(2) by (simp_all add: same_seats_def)
  show ?thesis
    using r s w t by (simp add: gets_up_def reset_sel upd_session_def upd_room_def)
qed

lemma leave_gets_up:
  assumes "se_room (session_of m s) = Some a"
  shows "gets_up now a s m (janus_slvoice_leave_room dumps k now s m)"
proof -
  let ?uid = "se_user_id (session_of m s)"
  let ?m1 = "upd_session s (\<lambda>x. x\<lparr>se_room := None\<rparr>) m"
  let ?m2 = "case se_display (session_of m s) of None \<Rightarrow> ?m1 | Some w \<Rightarrow> janus_slvoice_push_presence dumps k now a w False ?m1"
  let ?m3 = "upd_session s (\<lambda>x. x\<lparr>se_backlog_confirmed := False\<rparr>) ?m2"
  let ?m4 = "upd_room a (leave_remove now ?uid) ?m3"
  have 12: "same_seats ?m1 ?m2" by (cases "se_display (session_of m s)") (simp_all add: push_presence_keeps)
  have "same_seats ?m2 ?m3" by (rule same_seats_upd_session) (simp_all add: seat_def luggage_def)
  with 12 have 13: "same_seats ?m1 ?m3" by (rule same_seats_trans)
  have l: "janus_slvoice_leave_room dumps k now s m = upd_session s janus_slvoice_reset_room_state_locked ?m4"
    by (simp add: janus_slvoice_leave_room_def assms Let_def)
  show ?thesis unfolding l by (rule gets_up_from [OF assms 13])
qed

lemma AList_delete_set: "set (AList.delete k xs) = {p \<in> set xs. fst p \<noteq> k}"
  by (auto simp: AList.delete_eq)

lemma distinct_AList_delete: "distinct (map fst xs) \<Longrightarrow> distinct (map fst (AList.delete k xs))"
  by (simp add: distinct_delete)

lemma leave_remove_sel:
  "rm_participants (leave_remove now u r) = AList.delete u (rm_participants r)"
  "rm_room_id (leave_remove now u r) = rm_room_id r" "rm_destroyed (leave_remove now u r) = rm_destroyed r"
  "rm_permanent (leave_remove now u r) = rm_permanent r" "rm_tick_running (leave_remove now u r) = rm_tick_running r"
  by (simp_all add: leave_remove_def Let_def)

lemma grace_leave_remove:
  assumes "grace_ok r" "now \<noteq> 0" "rm_participants r \<noteq> []"
  shows "grace_ok (leave_remove now u r)"
  using assms by (auto simp: grace_ok_def leave_remove_def Let_def split: if_splits)

lemma gets_up_inv:
  assumes "marked_inv k d m" "gets_up now a s m m'" "se_room (session_of m s) = Some a" "now \<noteq> 0"
  shows "marked_inv k d m'"
proof -
  let ?u = "se_user_id (session_of m s)"
  have inv: "seats_ok m" "rooms_ok d m" "sessions_ok m" "capacity_ok k m" using assms(1) by (simp_all add: marked_inv_def)
  have t: "mx_rooms m' = mx_rooms m" "mx_next_room m' = mx_next_room m" "mx_live m' = mx_live m"
    using assms(2) by (simp_all add: gets_up_def)
  have me: "seat (session_of m s) = (Some a, ?u)" using assms(3) by (simp add: seat_def)
  then have mem: "(?u, s) \<in> set (rm_participants (room_at m a))" using inv(1) by (simp add: seats_ok_def)
  have dist: "distinct (map fst (rm_participants (room_at m b)))" for b using inv(1) by (simp add: seats_ok_def)
  have rl: "roll (room_at m' b) = roll (if b = a then leave_remove now ?u (room_at m a) else room_at m b)" for b
    using assms(2) by (simp add: gets_up_def)
  have parts: "rm_participants (room_at m' b) =
      (if b = a then AList.delete ?u (rm_participants (room_at m a)) else rm_participants (room_at m b))" for b
    using roll_sel(1) [OF rl [of b]] by (simp add: leave_remove_sel)
  have seats: "seat (session_of m' w) = (if w = s then (None, ?u) else seat (session_of m w))" for w
    using assms(2) by (simp add: gets_up_def)
  have s1: "seats_ok m'"
    unfolding seats_ok_def
  proof (intro conjI allI)
    fix b u w
    have old: "(u, w) \<in> set (rm_participants (room_at m b)) \<longleftrightarrow> seat (session_of m w) = (Some b, u)"
      using inv(1) by (simp add: seats_ok_def)
    have own: "w = s \<longleftrightarrow> u = ?u" if p: "(u, w) \<in> set (rm_participants (room_at m a))"
    proof
      assume "w = s"
      moreover have "seat (session_of m w) = (Some a, u)" using inv(1) p by (simp add: seats_ok_def)
      ultimately show "u = ?u" using me by simp
    next
      assume "u = ?u"
      then show "w = s" using eq_key_imp_eq_value [OF dist p] mem by blast
    qed
    show "(u, w) \<in> set (rm_participants (room_at m' b)) \<longleftrightarrow> seat (session_of m' w) = (Some b, u)"
      using old own me by (auto simp: parts seats AList_delete_set)
  next
    fix b show "distinct (map fst (rm_participants (room_at m' b)))"
      by (simp add: parts dist distinct_AList_delete)
  qed
  have rid: "rm_room_id (room_at m' b) = rm_room_id (room_at m b)" "rm_destroyed (room_at m' b) = rm_destroyed (room_at m b)"
    "rm_tick_running (room_at m' b) = rm_tick_running (room_at m b)" for b
    using roll_sel(2,5,6) [OF rl [of b]] by (simp_all add: leave_remove_sel)
  have grace: "grace_ok (room_at m' b)" if "grace_ok (room_at m b)" for b
  proof -
    have "rm_participants (room_at m a) \<noteq> []" using mem by auto
    then have "grace_ok (if b = a then leave_remove now ?u (room_at m a) else room_at m b)"
      using grace_leave_remove that assms(4) by (cases "b = a") simp_all
    then show ?thesis using roll_sel [OF rl [of b]] by (simp add: grace_ok_def)
  qed
  have "rm_participants (room_at m b) \<noteq> []" if "rm_participants (room_at m' b) \<noteq> []" for b
    using that mem by (auto simp: parts split: if_splits)
  then have r1: "rooms_ok d m'"
    using inv(2) grace unfolding rooms_ok_def t rid by blast
  have "sessions_ok m'"
    unfolding sessions_ok_def t
  proof
    fix w
    have "se_room (session_of m' w) = (if w = s then None else se_room (session_of m w))"
      using seats [of w] by (auto simp: seat_def split: if_splits)
    then show "if se_room (session_of m' w) = None then luggage (session_of m' w) = no_luggage else w \<in> set (mx_live m)"
      using inv(3) assms(2) by (cases "w = s") (auto simp: sessions_ok_def gets_up_def)
  qed
  moreover have "capacity_ok k m'"
  proof -
    have "length (AList.delete ?u (rm_participants (room_at m a))) \<le> kn_room_size k"
      by (rule le_trans [OF length_delete_le]) (use inv(4) in \<open>simp add: capacity_ok_def\<close>)
    then show ?thesis using inv(4) by (simp add: capacity_ok_def parts)
  qed
  ultimately show ?thesis using s1 r1 by (simp add: marked_inv_def)
qed

lemma leave_inv: "marked_inv k d m \<Longrightarrow> now \<noteq> 0 \<Longrightarrow> marked_inv k d (janus_slvoice_leave_room dumps k' now s m)"
  using gets_up_inv [OF _ leave_gets_up]
  by (cases "se_room (session_of m s)") (simp add: janus_slvoice_leave_room_def, blast)

text \<open>A session's own media, and the other ways out of a room.\<close>

lemma media_free_keeps: "same_seats m (upd_session s janus_slvoice_media_free_locked m)"
  by (rule same_seats_upd_session) (simp_all add: janus_slvoice_media_free_locked_def seat_def luggage_def)

lemma media_gone_session_keeps: "same_seats m (upd_session s media_gone_session m)"
  by (rule same_seats_upd_session)
    (simp_all add: media_gone_session_def janus_slvoice_media_free_locked_def janus_slvoice_echo_stop_locked_def
      Let_def seat_def luggage_def)

lemma marked_inv_destroyed_flag: "marked_inv k d m \<Longrightarrow> marked_inv k d (upd_session s (\<lambda>x. x\<lparr>se_destroyed := b\<rparr>) m)"
  by (erule same_seats_marked [rotated], rule same_seats_upd_session) (simp_all add: seat_def luggage_def)

lemma media_gone_inv:
  assumes "marked_inv k d m" "now \<noteq> 0"
  shows "marked_inv k d (janus_slvoice_media_gone dumps k' now s m)"
proof -
  have "same_seats m (upd_session s (\<lambda>x. x\<lparr>se_webrtc_up := False, se_dc_open := False, se_backlog_confirmed := False\<rparr>) m)"
    by (rule same_seats_upd_session) (simp_all add: seat_def luggage_def)
  then show ?thesis
    unfolding janus_slvoice_media_gone_def Let_def
    by (intro same_seats_marked [OF media_gone_session_keeps] leave_inv same_seats_marked [OF _ assms(1)] assms(2))
qed

lemma leave_out:
  "se_room (session_of (janus_slvoice_leave_room dumps k now s m) s) = None"
proof (cases "se_room (session_of m s)")
  case (Some a)
  from leave_gets_up [OF this, of now dumps k] show ?thesis by (simp add: gets_up_def seat_def)
qed (simp add: janus_slvoice_leave_room_def)

lemma drop_live_inv:
  assumes "marked_inv k d n" "se_room (session_of n s) = None"
  shows "marked_inv k d (n\<lparr>mx_live := filter (\<lambda>x. x \<noteq> s) (mx_live n)\<rparr>)"
proof -
  have "sessions_ok n" using assms(1) by (simp add: marked_inv_def)
  then have "sessions_ok (n\<lparr>mx_live := filter (\<lambda>x. x \<noteq> s) (mx_live n)\<rparr>)"
    using assms(2) by (auto simp: sessions_ok_def)
  then show ?thesis
    using assms(1) by (simp add: marked_inv_def seats_ok_def rooms_ok_def capacity_ok_def)
qed

lemma destroy_session_inv:
  assumes "marked_inv k d m" "now \<noteq> 0"
  shows "marked_inv k d (janus_slvoice_destroy_session dumps k' now s m)"
proof -
  let ?n = "upd_session s janus_slvoice_media_free_locked (janus_slvoice_leave_room dumps k' now s m)"
  have inv: "marked_inv k d ?n" using leave_inv [OF assms] media_free_keeps by (rule same_seats_marked [rotated])
  have "se_room (session_of ?n s) = None"
    by (simp add: janus_slvoice_media_free_locked_def leave_out)
  with inv have "marked_inv k d (?n\<lparr>mx_live := filter (\<lambda>x. x \<noteq> s) (mx_live ?n)\<rparr>)" by (rule drop_live_inv)
  then show ?thesis
    unfolding janus_slvoice_destroy_session_def Let_def by (rule marked_inv_destroyed_flag)
qed

lemma create_session_inv:
  assumes "marked_inv k d m" "s \<notin> set (mx_live m)"
  shows "marked_inv k d (janus_slvoice_create_session now s m)"
proof -
  have none: "se_room (session_of m s) = None"
    using assms by (auto simp: marked_inv_def sessions_ok_def split: if_splits)
  let ?x = "janus_slvoice_session_zero\<lparr>se_opus_pt := -1, se_created_ts := now\<rparr>"
  have no: "seat ?x = (None, 0)" "luggage ?x = no_luggage"
    by (simp_all add: seat_def luggage_def no_luggage_def janus_slvoice_session_zero_def)
  have s: "seat (session_of m s) \<noteq> (Some a, u)" for a u using none by (simp add: seat_def)
  have "se_room ?x = None" using no(1) by (simp add: seat_def)
  then show ?thesis
    using assms(1) no s
    by (auto simp: marked_inv_def seats_ok_def rooms_ok_def sessions_ok_def capacity_ok_def janus_slvoice_create_session_def
        upd_session_def split: if_splits)
qed

lemma reap_inv: "marked_inv k d m \<Longrightarrow> now \<noteq> 0 \<Longrightarrow> marked_inv k d (janus_slvoice_reap_no_media dumps k' now a e m)"
proof -
  assume m: "marked_inv k d m" and now: "now \<noteq> 0"
  have "same_seats m (upd_session s (\<lambda>x. x\<lparr>se_join_ts := 0\<rparr>) m)" for s
    by (rule same_seats_upd_session) (simp_all add: seat_def luggage_def)
  then have "marked_inv k d (upd_session s (\<lambda>x. x\<lparr>se_join_ts := 0\<rparr>) m)" for s using m by (rule same_seats_marked)
  then show ?thesis
    using m media_gone_inv [OF _ now] by (auto simp: janus_slvoice_reap_no_media_def Let_def split: prod.split)
qed

lemma reap_fold_inv: "marked_inv k d m \<Longrightarrow> now \<noteq> 0 \<Longrightarrow> marked_inv k d (fold (janus_slvoice_reap_no_media dumps k' now a) es m)"
  by (induction es arbitrary: m) (simp_all add: reap_inv)

lemma room_tick_inv:
  assumes "mixer_inv k m" "now \<noteq> 0"
  shows "mixer_inv k (fst (janus_slvoice_room_tick op dumps k' t0 now a m))"
proof -
  obtain n out reap where t: "room_tick_locked op k' t0 a m = (n, out, reap)" by (metis prod_cases3)
  have "marked_inv k {} n"
    using tick_locked_keeps [OF _ t] marked_inv_seated same_seats_marked assms(1) unfolding mixer_inv_def by blast
  from reap_fold_inv [OF this assms(2)] show ?thesis
    unfolding mixer_inv_def by (simp add: janus_slvoice_room_tick_def t)
qed

subsection \<open>Destroying rooms\<close>

lemma evict_fold:
  "session_of (fold (evict a) ps m) w =
     (if w \<in> set ps \<and> se_room (session_of m w) = Some a
      then janus_slvoice_reset_room_state_locked ((session_of m w)\<lparr>se_room := None\<rparr>) else session_of m w) \<and>
   mx_heap (fold (evict a) ps m) = mx_heap m \<and> mx_rooms (fold (evict a) ps m) = mx_rooms m \<and>
   mx_live (fold (evict a) ps m) = mx_live m \<and> mx_next_room (fold (evict a) ps m) = mx_next_room m"
proof (induction ps arbitrary: m)
  case (Cons p ps)
  have "se_room (janus_slvoice_reset_room_state_locked (x\<lparr>se_room := None\<rparr>)) = None" for x
    by (simp add: janus_slvoice_reset_room_state_locked_def)
  with Cons [of "evict a p m"] show ?case by (auto simp: evict_def upd_session_def)
qed simp

text \<open>What a teardown leaves.\<close>

lemma teardown_state:
  fixes m a
  defines "m' \<equiv> janus_slvoice_room_teardown_locked a m"
  shows "mx_rooms m' = AList.delete (rm_room_id (room_at m a)) (mx_rooms m)" "mx_live m' = mx_live m"
    "mx_next_room m' = mx_next_room m" "\<And>b. b \<noteq> a \<Longrightarrow> room_at m' b = room_at m b"
    "rm_participants (room_at m' a) = []"
    "session_of m' w = (if w \<in> set (members (room_at m a)) \<and> se_room (session_of m w) = Some a
      then janus_slvoice_reset_room_state_locked ((session_of m w)\<lparr>se_room := None\<rparr>) else session_of m w)"
    "\<not> rm_tick_running (room_at m' a)"
proof -
  define m1 where "m1 = upd_room a (\<lambda>r. janus_slvoice_room_stop (r\<lparr>rm_destroyed := True\<rparr>)) m"
  have ps: "members (room_at m1 a) = members (room_at m a)" by (simp add: m1_def janus_slvoice_room_stop_def)
  have s1: "mx_sessions m1 = mx_sessions m" "mx_rooms m1 = mx_rooms m" "mx_live m1 = mx_live m"
    "mx_next_room m1 = mx_next_room m" by (simp_all add: m1_def)
  have b: "room_at m1 b = room_at m b" if "b \<noteq> a" for b using that by (simp add: m1_def upd_room_def)
  have stopped: "\<not> rm_tick_running (room_at m1 a)" by (simp add: m1_def janus_slvoice_room_stop_def)
  define n where "n = fold (evict a) (members (room_at m a)) m1"
  note E = evict_fold [of a "members (room_at m a)" m1, folded n_def, unfolded s1]
  have eq: "m' = (upd_room a (\<lambda>r. r\<lparr>rm_participants := [], rm_vis_deferred := slv_deferred_free_all (rm_vis_deferred r)\<rparr>)
      n)\<lparr>mx_rooms := AList.delete (rm_room_id (room_at m a)) (mx_rooms m)\<rparr>"
    unfolding m'_def janus_slvoice_room_teardown_locked_def Let_def m1_def [symmetric] ps n_def [symmetric] using E by simp
  show "mx_rooms m' = AList.delete (rm_room_id (room_at m a)) (mx_rooms m)" "mx_live m' = mx_live m"
    "mx_next_room m' = mx_next_room m" "\<And>b. b \<noteq> a \<Longrightarrow> room_at m' b = room_at m b"
    "rm_participants (room_at m' a) = []"
    unfolding eq using E b by (simp_all add: upd_room_def)
  have "session_of m' w = session_of n w" by (simp add: eq)
  then show "session_of m' w = (if w \<in> set (members (room_at m a)) \<and> se_room (session_of m w) = Some a
      then janus_slvoice_reset_room_state_locked ((session_of m w)\<lparr>se_room := None\<rparr>) else session_of m w)"
    using E by (simp only:)
  show "\<not> rm_tick_running (room_at m' a)" unfolding eq using E stopped by (simp add: upd_room_def)
qed

lemma teardown_inv:
  assumes "marked_inv k d m" "a \<in> snd ` set (mx_rooms m)"
  shows "marked_inv k (d - {a}) (janus_slvoice_room_teardown_locked a m)"
proof -
  let ?m = "janus_slvoice_room_teardown_locked a m"
  note T = teardown_state [where a = a and m = m]
  have inv: "seats_ok m" "rooms_ok d m" "sessions_ok m" "capacity_ok k m" using assms(1) by (simp_all add: marked_inv_def)
  have mem: "w \<in> set (members (room_at m a))" if "se_room (session_of m w) = Some a" for w
  proof -
    have "(se_user_id (session_of m w), w) \<in> set (rm_participants (room_at m a))"
      using inv(1) that by (simp add: seats_ok_def seat_def)
    then show ?thesis by force
  qed
  have sess: "session_of ?m w = (if se_room (session_of m w) = Some a
      then janus_slvoice_reset_room_state_locked ((session_of m w)\<lparr>se_room := None\<rparr>) else session_of m w)" for w
    using T(6) mem by auto
  have seat: "seat (session_of ?m w) = (if se_room (session_of m w) = Some a then (None, se_user_id (session_of m w))
      else seat (session_of m w))" for w
    using sess [of w] by (simp add: reset_sel) (simp add: seat_def)
  have parts: "rm_participants (room_at ?m b) = (if b = a then [] else rm_participants (room_at m b))" for b
    using T(4,5) by simp
  have "seats_ok ?m"
    using inv(1) unfolding seats_ok_def parts seat by (auto simp: seat_def split: if_splits)
  moreover have "rooms_ok (d - {a}) ?m"
  proof -
    have dist: "distinct (map fst (mx_rooms m))" "distinct (map snd (mx_rooms m))" using inv(2) by (simp_all add: rooms_ok_def)
    have id: "(rm_room_id (room_at m a), a) \<in> set (mx_rooms m)" using inv(2) assms(2) by (auto simp: rooms_ok_def)
    have set: "set (mx_rooms ?m) = {p \<in> set (mx_rooms m). snd p \<noteq> a}"
    proof -
      have "fst p \<noteq> rm_room_id (room_at m a) \<longleftrightarrow> snd p \<noteq> a" if "p \<in> set (mx_rooms m)" for p
        using inj_onD [OF conjunct2 [OF dist(1) [unfolded distinct_map]] _ that id]
          inj_onD [OF conjunct2 [OF dist(2) [unfolded distinct_map]] _ that id]
        by (metis fst_conv snd_conv)
      then show ?thesis unfolding T(1) AList_delete_set by blast
    qed
    have d: "distinct (map fst (mx_rooms ?m))" unfolding T(1) by (rule distinct_AList_delete [OF dist(1)])
    have "distinct (map snd (mx_rooms ?m))"
    proof -
      have "distinct (mx_rooms ?m)" using d by (simp add: distinct_map)
      moreover have "inj_on snd (set (mx_rooms ?m))" using dist(2) set by (auto simp: distinct_map inj_on_def)
      ultimately show ?thesis by (simp add: distinct_map)
    qed
    moreover have "rm_participants (room_at ?m b) \<noteq> [] \<Longrightarrow> b \<in> snd ` set (mx_rooms ?m)" for b
    proof -
      assume "rm_participants (room_at ?m b) \<noteq> []"
      then have "b \<noteq> a" "rm_participants (room_at m b) \<noteq> []" by (simp_all add: parts split: if_splits)
      then have "b \<noteq> a" "b \<in> snd ` set (mx_rooms m)" using inv(2) by (simp_all add: rooms_ok_def)
      then show ?thesis unfolding set by force
    qed
    moreover have "rm_room_id (room_at ?m b) = i \<and> b < mx_next_room ?m \<and> grace_ok (room_at ?m b) \<and>
        (rm_destroyed (room_at ?m b) \<longrightarrow> b \<in> d - {a})" if "(i, b) \<in> set (mx_rooms ?m)" for i b
    proof -
      have "b \<noteq> a" "(i, b) \<in> set (mx_rooms m)" using that unfolding set by simp_all
      then show ?thesis using inv(2) T(3,4) by (simp add: rooms_ok_def)
    qed
    moreover have "rm_tick_running (room_at ?m b) \<longleftrightarrow> b \<in> snd ` set (mx_rooms ?m)" for b
    proof -
      have "rm_tick_running (room_at ?m b) \<longleftrightarrow> b \<noteq> a \<and> b \<in> snd ` set (mx_rooms m)"
        using inv(2) T(4) [of b] T(7) by (cases "b = a") (simp_all add: rooms_ok_def)
      then show ?thesis unfolding set by force
    qed
    ultimately show ?thesis using d unfolding rooms_ok_def by blast
  qed
  moreover have "sessions_ok ?m"
    unfolding sessions_ok_def T(2)
  proof
    fix w
    have "se_room (janus_slvoice_reset_room_state_locked ((session_of m w)\<lparr>se_room := None\<rparr>)) = None"
      by (simp add: janus_slvoice_reset_room_state_locked_def)
    then show "if se_room (session_of ?m w) = None then luggage (session_of ?m w) = no_luggage else w \<in> set (mx_live m)"
      using inv(3) sess [of w] by (auto simp: sessions_ok_def reset_sel)
  qed
  moreover have "capacity_ok k ?m" using inv(4) by (simp add: capacity_ok_def parts)
  ultimately show ?thesis by (simp add: marked_inv_def)
qed

lemma mark_inv:
  assumes "marked_inv k d m"
  shows "marked_inv k (insert a d) (upd_room a (\<lambda>r. r\<lparr>rm_destroyed := True\<rparr>) m)"
proof -
  have "rm_participants (room_at (upd_room a (\<lambda>r. r\<lparr>rm_destroyed := True\<rparr>) m) b) = rm_participants (room_at m b)"
    "rm_room_id (room_at (upd_room a (\<lambda>r. r\<lparr>rm_destroyed := True\<rparr>) m) b) = rm_room_id (room_at m b)"
    "grace_ok (room_at (upd_room a (\<lambda>r. r\<lparr>rm_destroyed := True\<rparr>) m) b) = grace_ok (room_at m b)"
    "rm_destroyed (room_at (upd_room a (\<lambda>r. r\<lparr>rm_destroyed := True\<rparr>) m) b) = (b = a \<or> rm_destroyed (room_at m b))"
    "rm_tick_running (room_at (upd_room a (\<lambda>r. r\<lparr>rm_destroyed := True\<rparr>) m) b) = rm_tick_running (room_at m b)" for b
    by (simp_all add: upd_room_def grace_ok_def)
  with assms show ?thesis
    unfolding marked_inv_def seats_ok_def rooms_ok_def sessions_ok_def capacity_ok_def upd_room_sel by (simp only:) blast
qed

definition mark :: "nat \<Rightarrow> slv_mixer \<Rightarrow> slv_mixer" where
  "mark a = upd_room a (\<lambda>r. r\<lparr>rm_destroyed := True\<rparr>)"

lemma sweep_mark_fold:
  assumes "distinct as"
  shows "fold (sweep_mark k now) as (m, e) =
    (fold mark (filter (\<lambda>a. room_expired k now (room_at m a)) as) m, rev (filter (\<lambda>a. room_expired k now (room_at m a)) as) @ e)"
  using assms
proof (induction as arbitrary: m e)
  case (Cons a as)
  have "filter (\<lambda>b. room_expired k now (room_at (mark a m) b)) as = filter (\<lambda>b. room_expired k now (room_at m b)) as"
    using Cons.prems by (intro filter_cong) (auto simp: mark_def upd_room_def)
  with Cons show ?case by (simp add: sweep_mark_def mark_def)
qed simp

lemma mark_fold_sel: "mx_rooms (fold mark as m) = mx_rooms m \<and> mx_sessions (fold mark as m) = mx_sessions m \<and>
    mx_live (fold mark as m) = mx_live m \<and>
    room_at (fold mark as m) a = (if a \<in> set as then (room_at m a)\<lparr>rm_destroyed := True\<rparr> else room_at m a)"
  by (induction as arbitrary: m) (simp_all add: mark_def upd_room_def)

lemma mark_fold_inv: "marked_inv k d m \<Longrightarrow> marked_inv k (d \<union> set as) (fold mark as m)"
proof (induction as arbitrary: m d)
  case (Cons a as)
  from Cons.IH [OF mark_inv [OF Cons.prems(1), of a]] show ?case by (simp add: mark_def)
qed simp

text \<open>The sweep, as the teardown of the expired rooms.\<close>

definition expired_rooms :: "slv_knobs \<Rightarrow> int \<Rightarrow> slv_mixer \<Rightarrow> nat list" where
  "expired_rooms k now m = filter (\<lambda>a. room_expired k now (room_at m a)) (map snd (mx_rooms m))"

lemma sweep_eq:
  assumes "distinct (map snd (mx_rooms m))" "kn_empty_room_grace_s k \<noteq> 0"
  shows "janus_slvoice_sweep_empty_rooms_locked k now m =
    (fold janus_slvoice_room_teardown_locked (rev (expired_rooms k now m)) (fold mark (expired_rooms k now m) m),
     length (expired_rooms k now m))"
  using sweep_mark_fold [OF assms(1), of k now m "[]"] assms(2)
  by (simp add: janus_slvoice_sweep_empty_rooms_locked_def expired_rooms_def)

lemma teardown_fold_inv:
  assumes "marked_inv k (set as) m" "distinct as" "set as \<subseteq> snd ` set (mx_rooms m)"
  shows "marked_inv k {} (fold janus_slvoice_room_teardown_locked as m)"
  using assms
proof (induction as arbitrary: m)
  case (Cons a as)
  let ?m = "janus_slvoice_room_teardown_locked a m"
  have "marked_inv k (set as) ?m"
  proof -
    have "marked_inv k (set (a # as) - {a}) ?m" by (rule teardown_inv [OF Cons.prems(1)]) (use Cons.prems(3) in simp)
    then show ?thesis using Cons.prems(2) by (simp add: insert_Diff_if)
  qed
  moreover have "set as \<subseteq> snd ` set (mx_rooms ?m)"
  proof
    fix b assume b: "b \<in> set as"
    then obtain i where i: "(i, b) \<in> set (mx_rooms m)" using Cons.prems(3) by auto
    have r: "rooms_ok (set (a # as)) m" using Cons.prems(1) by (simp add: marked_inv_def)
    have "i \<noteq> rm_room_id (room_at m a)"
    proof
      assume "i = rm_room_id (room_at m a)"
      moreover obtain j where "(j, a) \<in> set (mx_rooms m)" using Cons.prems(3) by auto
      moreover from this have "j = rm_room_id (room_at m a)" using r unfolding rooms_ok_def by blast
      moreover have "distinct (map fst (mx_rooms m))" using r unfolding rooms_ok_def by blast
      ultimately have "b = a" using i eq_key_imp_eq_value by metis
      with b Cons.prems(2) show False by simp
    qed
    with i have "(i, b) \<in> set (mx_rooms ?m)" by (simp add: teardown_state(1) AList_delete_set)
    then show "b \<in> snd ` set (mx_rooms ?m)" by force
  qed
  ultimately show ?case using Cons.IH [of ?m] Cons.prems(2) by simp
qed simp

lemma sweep_inv:
  assumes "mixer_inv k m"
  shows "mixer_inv k (fst (janus_slvoice_sweep_empty_rooms_locked k' now m))"
proof (cases "kn_empty_room_grace_s k' = 0")
  case True
  then show ?thesis using assms by (simp add: janus_slvoice_sweep_empty_rooms_locked_def)
next
  case False
  let ?es = "expired_rooms k' now m"
  have dist: "distinct (map snd (mx_rooms m))" using assms by (simp add: mixer_inv_def marked_inv_def rooms_ok_def)
  then have "distinct (rev ?es)" by (simp add: expired_rooms_def)
  moreover have "set (rev ?es) \<subseteq> snd ` set (mx_rooms (fold mark ?es m))"
    by (auto simp: expired_rooms_def mark_fold_sel)
  moreover have "marked_inv k (set (rev ?es)) (fold mark ?es m)"
    using mark_fold_inv [of k "{}" m ?es] assms by (simp add: mixer_inv_def)
  ultimately show ?thesis
    using teardown_fold_inv [of k "rev ?es"] by (simp add: sweep_eq [OF dist False] mixer_inv_def)
qed

subsection \<open>Creating rooms, joining\<close>

lemma create_inv:
  assumes "mixer_inv k m" "janus_slvoice_room_create ok now ra m = (n, Some a)" "ra_id ra \<notin> fst ` set (mx_rooms m)" "now \<noteq> 0"
  shows "mixer_inv k (n\<lparr>mx_rooms := mx_rooms n @ [(ra_id ra, a)]\<rparr>)"
proof -
  obtain r where a: "a = mx_next_room m" and n: "n = m\<lparr>mx_heap := (mx_heap m)(a := r), mx_next_room := a + 1\<rparr>"
    and r: "rm_room_id r = ra_id ra" "rm_participants r = []" "\<not> rm_destroyed r" "grace_ok r" "rm_tick_running r"
    using assms(2,4) by (auto simp: janus_slvoice_room_create_def Let_def janus_slvoice_room_start_def grace_ok_def
        janus_slvoice_room_zero_def split: if_splits)
  have inv: "seats_ok m" "rooms_ok {} m" "sessions_ok m" "capacity_ok k m" using assms(1) by (simp_all add: mixer_inv_def marked_inv_def)
  have fresh: "a \<notin> snd ` set (mx_rooms m)" using inv(2) by (force simp: rooms_ok_def a)
  then have "rm_participants (room_at m a) = []" using inv(2) unfolding rooms_ok_def by blast
  then have parts: "rm_participants (room_at n b) = rm_participants (room_at m b)" for b by (simp add: n r)
  have sess: "mx_sessions n = mx_sessions m" "mx_live n = mx_live m" "mx_rooms n = mx_rooms m" by (simp_all add: n)
  have room: "room_at n b = (if b = a then r else room_at m b)" for b by (simp add: n)
  have "rooms_ok {} (n\<lparr>mx_rooms := mx_rooms n @ [(ra_id ra, a)]\<rparr>)"
  proof -
    have "rm_room_id (room_at n b) = i \<and> b < mx_next_room n \<and> grace_ok (room_at n b) \<and> \<not> rm_destroyed (room_at n b)"
      if "(i, b) \<in> set (mx_rooms m @ [(ra_id ra, a)])" for i b
    proof (cases "b = a")
      case True
      then have "i = ra_id ra" using that fresh by force
      then show ?thesis using True r by (simp add: n)
    next
      case False
      then have "(i, b) \<in> set (mx_rooms m)" using that by simp
      then show ?thesis using inv(2) False by (fastforce simp: rooms_ok_def n a)
    qed
    moreover have "b \<in> snd ` set (mx_rooms m @ [(ra_id ra, a)])" if "rm_participants (room_at m b) \<noteq> []" for b
      using that inv(2) by (simp add: rooms_ok_def)
    moreover have "distinct (map fst (mx_rooms m @ [(ra_id ra, a)]))" "distinct (map snd (mx_rooms m @ [(ra_id ra, a)]))"
      using inv(2) assms(3) fresh by (simp_all add: rooms_ok_def)
    moreover have "rm_tick_running (room_at n b) \<longleftrightarrow> b \<in> snd ` set (mx_rooms m @ [(ra_id ra, a)])" for b
      using inv(2) r(5) by (simp add: room rooms_ok_def)
    ultimately show ?thesis unfolding rooms_ok_def by (simp add: parts sess)
  qed
  then show ?thesis
    using inv by (simp add: mixer_inv_def marked_inv_def seats_ok_def sessions_ok_def capacity_ok_def parts sess)
qed

lemma rearm_inv:
  assumes "mixer_inv k m" "now \<noteq> 0"
  shows "mixer_inv k (upd_room a (janus_slvoice_room_rearm_grace_locked now) m)"
proof -
  let ?r = "janus_slvoice_room_rearm_grace_locked now (room_at m a)"
  have "rm_participants ?r = rm_participants (room_at m a)" "rm_room_id ?r = rm_room_id (room_at m a)"
    "rm_destroyed ?r = rm_destroyed (room_at m a)" "grace_ok (room_at m a) \<Longrightarrow> grace_ok ?r"
    "rm_tick_running ?r = rm_tick_running (room_at m a)"
    using assms(2) by (auto simp: janus_slvoice_room_rearm_grace_locked_def grace_ok_def split: if_splits)
  then have "rm_participants (room_at (upd_room a (janus_slvoice_room_rearm_grace_locked now) m) b) = rm_participants (room_at m b)"
    "rm_room_id (room_at (upd_room a (janus_slvoice_room_rearm_grace_locked now) m) b) = rm_room_id (room_at m b)"
    "rm_destroyed (room_at (upd_room a (janus_slvoice_room_rearm_grace_locked now) m) b) = rm_destroyed (room_at m b)"
    "grace_ok (room_at m b) \<Longrightarrow> grace_ok (room_at (upd_room a (janus_slvoice_room_rearm_grace_locked now) m) b)"
    "rm_tick_running (room_at (upd_room a (janus_slvoice_room_rearm_grace_locked now) m) b) = rm_tick_running (room_at m b)" for b
    by (cases "b = a"; simp add: upd_room_def)+
  with assms(1) show ?thesis
    unfolding mixer_inv_def marked_inv_def seats_ok_def rooms_ok_def sessions_ok_def capacity_ok_def upd_room_sel
    by (simp only:) blast
qed

lemma AList_update_new: "u \<notin> fst ` set xs \<Longrightarrow> AList.update u s xs = xs @ [(u, s)]"
  by (induction xs) auto

text \<open>Both halves of a join, with nothing in between.\<close>

definition join_uid :: "slv_join_args \<Rightarrow> nat" where
  "join_uid ja = (if ja_user_id ja = 0 then 1 else ja_user_id ja)"

definition join_both :: "slv_knobs \<Rightarrow> int \<Rightarrow> nat \<Rightarrow> nat \<Rightarrow> slv_join_args \<Rightarrow> slv_mixer \<Rightarrow> slv_mixer \<times> json option" where
  "join_both k now a s ja m = join_room k now a s (join_uid ja) (upd_session s (join_session now a ja) m)"

lemma media_alloc_sel:
  "seat (fst (media_alloc_with ma x)) = seat x" "luggage (fst (media_alloc_with ma x)) = luggage x"
  "se_display (fst (media_alloc_with ma x)) = se_display x"
  by (simp_all add: media_alloc_with_def janus_slvoice_media_alloc_locked_def janus_slvoice_media_free_locked_def
      seat_def luggage_def)

lemma join_session_sel:
  "seat (join_session now a ja x) = (Some a, join_uid ja)" "luggage (join_session now a ja x) = luggage x"
  by (simp_all add: join_session_def media_alloc_sel) (simp_all add: seat_def luggage_def join_uid_def)

lemma join_commit_keeps:
  assumes "se_room (session_of m s) \<noteq> None"
  shows "same_seats m (fst (janus_slvoice_join_commit_locked k now a s m))"
proof -
  have cols: "same_seats n (upd_session s (\<lambda>x. x\<lparr>se_excluded := e x, se_mod_muted := u x\<rparr>) n)"
    "same_seats n (upd_session s (\<lambda>x. x\<lparr>se_vis_ok_last := v x\<rparr>) n)"
    if "se_room (session_of n s) \<noteq> None" for n e u v
    using that by (intro same_seats_upd_session; simp add: seat_def luggage_def)+
  have room: "same_seats n (upd_room a (\<lambda>r. r\<lparr>rm_vis_deferred := g r\<rparr>) n)" for n g
    by (rule same_seats_upd_room) (simp add: roll_def room_seat_def)
  have still: "se_room (session_of n s) \<noteq> None" if "same_seats m n" for n
    using that assms seat_sel(1) by (metis same_seats_def)
  have rejoin: "same_seats m (fst (janus_slvoice_vis_rejoin_columns_locked k a s m))"
    unfolding janus_slvoice_vis_rejoin_columns_locked_def Let_def
    using same_seats_trans [OF cols(1) [OF assms] room] by (simp split: option.split)
  have replay: "same_seats n (janus_slvoice_room_replay_deferred_locked a s n)" if "same_seats m n" for n
    unfolding janus_slvoice_room_replay_deferred_locked_def Let_def
    using same_seats_trans [OF cols(1) [OF still [OF that]] room] by (simp split: option.split)
  obtain n took where n: "janus_slvoice_vis_rejoin_columns_locked k a s m = (n, took)" by fastforce
  then have mn: "same_seats m n" using rejoin by simp
  let ?n = "if \<not> took then janus_slvoice_room_replay_deferred_locked a s n else n"
  have m2: "same_seats m ?n" using mn replay [OF mn] by (auto intro: same_seats_trans)
  show ?thesis
    unfolding janus_slvoice_join_commit_locked_def Let_def n prod.case fst_conv
    by (rule same_seats_trans [OF m2 cols(2) [OF still [OF m2]]])
qed

lemma join_inv:
  assumes "mixer_inv k m" "se_room (session_of m s) = None" "s \<in> set (mx_live m)" "a \<in> snd ` set (mx_rooms m)"
    and "join_uid ja \<notin> fst ` set (rm_participants (room_at m a))" "length (rm_participants (room_at m a)) < kn_room_size k"
  shows "mixer_inv k (fst (join_both k' now a s ja m))"
proof -
  let ?u = "join_uid ja"
  let ?m1 = "upd_session s (join_session now a ja) m"
  let ?m2 = "upd_room a (\<lambda>r. r\<lparr>rm_empty_since := 0, rm_participants := AList.update ?u s (rm_participants r)\<rparr>) ?m1"
  have inv: "seats_ok m" "rooms_ok {} m" "sessions_ok m" "capacity_ok k m" using assms(1) by (simp_all add: mixer_inv_def marked_inv_def)
  have alive: "\<not> rm_destroyed (room_at m a)" using inv(2) assms(4) by (auto simp: rooms_ok_def)
  have parts: "rm_participants (room_at ?m2 b) =
      (if b = a then rm_participants (room_at m a) @ [(?u, s)] else rm_participants (room_at m b))" for b
    using assms(5) by (simp add: upd_room_def AList_update_new)
  have seat: "seat (session_of ?m2 w) = (if w = s then (Some a, ?u) else seat (session_of m w))" for w
    by (simp add: upd_session_def upd_room_def join_session_sel)
  have notin: "seat (session_of m s) \<noteq> (Some b, u)" for b u using assms(2) by (simp add: seat_def)
  have "seats_ok ?m2"
    unfolding seats_ok_def parts seat using inv(1) notin assms(5)
    by (auto simp: seats_ok_def)
  moreover have "rooms_ok {} ?m2"
  proof -
    have "rm_room_id (room_at ?m2 b) = rm_room_id (room_at m b)" "rm_destroyed (room_at ?m2 b) = rm_destroyed (room_at m b)"
      "grace_ok (room_at m b) \<Longrightarrow> grace_ok (room_at ?m2 b)" "rm_tick_running (room_at ?m2 b) = rm_tick_running (room_at m b)" for b
      using parts [of b] by (auto simp: upd_room_def grace_ok_def)
    moreover have "rm_participants (room_at ?m2 b) \<noteq> [] \<Longrightarrow> b \<in> snd ` set (mx_rooms m)" for b
      using parts [of b] inv(2) assms(4) by (auto simp: rooms_ok_def split: if_splits)
    ultimately show ?thesis using inv(2) unfolding rooms_ok_def upd_room_sel upd_session_sel by blast
  qed
  moreover have "sessions_ok ?m2"
  proof -
    have "se_room (join_session now a ja (session_of m s)) = Some a"
      using join_session_sel(1) [of now a ja "session_of m s"] by (simp add: seat_def)
    then show ?thesis using inv(3) assms(3) by (auto simp: sessions_ok_def upd_session_def upd_room_def)
  qed
  moreover have "capacity_ok k ?m2" using inv(4) assms(6) by (simp add: capacity_ok_def parts)
  ultimately have m2: "mixer_inv k ?m2" by (simp add: mixer_inv_def marked_inv_def)
  have "se_room (session_of ?m2 s) \<noteq> None" using seat [of s] by (simp add: seat_def)
  from same_seats_inv [OF join_commit_keeps [OF this] m2]
  show ?thesis using alive by (simp add: join_both_def join_room_def Let_def split_beta)
qed

subsection \<open>The callbacks of Janus\<close>

definition bag :: "janus_slvoice_session \<Rightarrow> (nat option \<times> nat) \<times> string list \<times> string list \<times> slv_cull_hyst list \<times> bool \<times> slv_pos_part_stats" where
  "bag x = (seat x, luggage x)"

lemma bag_upd: "(\<And>x. bag (f x) = bag x) \<Longrightarrow> same_seats m (upd_session s f m)"
  by (rule same_seats_upd_session) (simp_all add: bag_def)

lemma media_free_bag: "bag (janus_slvoice_media_free_locked x) = bag x"
  by (simp add: bag_def seat_def luggage_def janus_slvoice_media_free_locked_def)

lemma echo_bag: "bag (echo_start_with ma x) = bag x" "bag (janus_slvoice_echo_stop_locked x) = bag x"
proof -
  have "bag (fst (janus_slvoice_media_alloc_locked a b c d e y)) = bag y" for a b c d e y
    using media_free_bag by (simp add: janus_slvoice_media_alloc_locked_def) (simp add: bag_def seat_def luggage_def)
  moreover have "bag (y\<lparr>se_ring := r, se_ring_wpos := p, se_echo_active := b\<rparr>) = bag y" for y r p b
    by (simp add: bag_def seat_def luggage_def)
  ultimately show "bag (echo_start_with ma x) = bag x"
    by (simp add: echo_start_with_def janus_slvoice_echo_start_locked_def Let_def)
  show "bag (janus_slvoice_echo_stop_locked x) = bag x"
    by (simp add: janus_slvoice_echo_stop_locked_def bag_def seat_def luggage_def)
qed

lemma data_store_bag: "bag (data_store st d x) = bag x"
  by (simp add: data_store_def janus_slvoice_apply_peer_ctl_locked_def bag_def seat_def luggage_def Let_def split: prod.split)

lemma setup_media_bag: "bag (janus_slvoice_setup_media k ma x) = bag x"
proof -
  have "bag (x\<lparr>se_webrtc_up := b, se_media_seen := c\<rparr>) = bag x" for b c by (simp add: bag_def seat_def luggage_def)
  then show ?thesis by (simp add: janus_slvoice_setup_media_def Let_def echo_bag)
qed

lemma incoming_rtp_bag: "bag (janus_slvoice_incoming_rtp now seq payload x) = bag x"
  by (simp add: janus_slvoice_incoming_rtp_def janus_slvoice_jb_insert_def bag_def seat_def luggage_def Let_def)

lemma data_backlog_keeps: "same_seats m (data_backlog dumps k now s m)"
proof -
  have 1: "same_seats m (upd_session s (\<lambda>x. x\<lparr>se_backlog_confirmed := True\<rparr>) m)"
    and 2: "same_seats n (upd_session s (\<lambda>x. x\<lparr>se_backlog_resent := se_backlog_resent x + 1\<rparr>) n)" for n
    by (rule bag_upd; simp add: bag_def seat_def luggage_def)+
  show ?thesis
    unfolding data_backlog_def Let_def
    using 1 same_seats_trans [OF same_seats_trans [OF 1 relayed_same_seats [OF backlog_relayed]] 2]
    by (simp split: option.split)
qed

lemma incoming_data_keeps: "same_seats m (janus_slvoice_incoming_data loadb dumps k ma now s buf m)"
proof -
  obtain st d where p: "slv_sldata_parse loadb (Some buf) = (st, d)" by fastforce
  let ?m1 = "upd_session s (data_store st d) m"
  let ?m2 = "if sl_fields_seen d AND SLV_FIELD_J \<noteq> 0 \<and> \<not> se_backlog_confirmed (session_of ?m1 s)
    then data_backlog dumps k now s ?m1 else ?m1"
  have 1: "same_seats m ?m1" by (rule bag_upd) (rule data_store_bag)
  then have 2: "same_seats m ?m2" using data_backlog_keeps same_seats_trans by simp
  have "same_seats ?m2 (upd_session s (if sl_echo d then echo_start_with ma else janus_slvoice_echo_stop_locked) ?m2)"
    by (rule bag_upd) (simp add: echo_bag)
  with 1 2 have "same_seats m (upd_session s (if sl_echo d then echo_start_with ma else janus_slvoice_echo_stop_locked) ?m2)"
    by (blast intro: same_seats_trans)
  with 1 2 show ?thesis unfolding janus_slvoice_incoming_data_def p prod.case Let_def by (simp only: same_seats_refl split: if_split) blast
qed

lemma data_ready_keeps: "same_seats m (janus_slvoice_data_ready dumps k now s m)"
proof -
  have 1: "same_seats m (upd_session s (\<lambda>x. x\<lparr>se_dc_open := True\<rparr>) m)"
    by (rule bag_upd) (simp add: bag_def seat_def luggage_def)
  show ?thesis
    unfolding janus_slvoice_data_ready_def Let_def
    using 1 same_seats_trans [OF 1 relayed_same_seats [OF backlog_relayed]] by (simp split: option.split)
qed

interpretation rtp: seat_keeping "\<lambda>(s, now, seq, payload). upd_session s (janus_slvoice_incoming_rtp now seq payload)"
  by unfold_locales (auto intro: bag_upd incoming_rtp_bag)

interpretation data: seat_keeping "\<lambda>(s, now, ma, buf). janus_slvoice_incoming_data loadb dumps k ma now s buf" for loadb dumps k
  by unfold_locales (auto intro: incoming_data_keeps)

interpretation ready: seat_keeping "\<lambda>(s, now). janus_slvoice_data_ready dumps k now s" for dumps k
  by unfold_locales (auto intro: data_ready_keeps)

interpretation media_up: seat_keeping "\<lambda>(s, ma). upd_session s (janus_slvoice_setup_media k ma)" for k
  by unfold_locales (auto intro: bag_upd setup_media_bag)

end
