(* ===== verification/Rooms.thy ===== *)
theory Rooms
  imports Membership
begin

text \<open>
  What the operations of \<^verbatim>\<open>Lifecycle\<close> promise: leaving is announced once and leaves nothing behind, the sweep
  destroys exactly the rooms whose grace has expired, every tick reaps exactly the participants whose media never came,
  no interleaving of a join with the opening of a listener's channel loses the newcomer's notice, and the one
  interleaving that breaks the membership invariant.
\<close>

subsection \<open>Leaving\<close>

lemma relay_json_other:
  "w \<noteq> p \<Longrightarrow> session_of (fst (janus_slvoice_relay_json dumps p obj m)) w = session_of m w"
  by (auto simp: janus_slvoice_relay_json_def upd_session_def split: option.split)

lemma relay_presence_other:
  "w \<noteq> p \<Longrightarrow> session_of (janus_slvoice_relay_presence_one dumps p who join m) w = session_of m w"
  using relay_json_other [of w p dumps "presence_entry who join" m]
  by (cases join) (simp_all add: janus_slvoice_relay_presence_one_def upd_session_def split_beta Let_def)

text \<open>The subject of a notice is not told of itself.\<close>

lemma push_presence_subject:
  assumes "se_display (session_of m s) = Some who"
  shows "session_of (janus_slvoice_push_presence dumps k now a who join m) s = session_of m s"
proof -
  have step: "session_of (presence_to dumps k now a who join p n) s = session_of n s" if "se_display (session_of n s) = Some who" for p n
    using that relay_presence_other [of s p dumps who join n]
    by (cases "p = s") (auto simp: presence_to_def Let_def)
  have "session_of (fold (presence_to dumps k now a who join) ps n) s = session_of n s"
    if "se_display (session_of n s) = Some who" for ps n
    using that
  proof (induction ps arbitrary: n)
    case (Cons p ps)
    then show ?case using step [of n p] by simp
  qed simp
  then show ?thesis using assms by (simp add: janus_slvoice_push_presence_def Let_def)
qed

lemma seat_members:
  assumes "seats_ok m" "seat (session_of m s) = (Some a, u)"
  shows "map snd (AList.delete u (rm_participants (room_at m a))) = filter (\<lambda>p. p \<noteq> s) (members (room_at m a))"
proof -
  have key: "u \<noteq> fst p \<longleftrightarrow> snd p \<noteq> s" if "p \<in> set (rm_participants (room_at m a))" for p
  proof -
    obtain v w where p: "p = (v, w)" by fastforce
    have 1: "seat (session_of m w) = (Some a, v)" using assms(1) that by (simp add: seats_ok_def p)
    have "(u, s) \<in> set (rm_participants (room_at m a))" using assms by (simp add: seats_ok_def)
    moreover have "distinct (map fst (rm_participants (room_at m a)))" using assms(1) by (simp add: seats_ok_def)
    ultimately have "v = u \<Longrightarrow> w = s" using that p eq_key_imp_eq_value by metis
    moreover have "w = s \<Longrightarrow> v = u" using 1 assms(2) by simp
    ultimately show ?thesis by (auto simp: p)
  qed
  then have "AList.delete u (rm_participants (room_at m a)) = filter (\<lambda>p. snd p \<noteq> s) (rm_participants (room_at m a))"
    unfolding AList.delete_eq case_prod_unfold by (rule filter_cong [OF refl]) (use key in blast)
  then show ?thesis by (simp add: filter_map comp_def)
qed


subsection \<open>The sweep\<close>

lemma teardown_empty:
  assumes "rm_participants (room_at m a) = []"
  shows "mx_sessions (janus_slvoice_room_teardown_locked a m) = mx_sessions m"
    "mx_outbox (janus_slvoice_room_teardown_locked a m) = mx_outbox m"
    "rm_room_id (room_at (janus_slvoice_room_teardown_locked a m) b) = rm_room_id (room_at m b)"
    "rm_participants (room_at (janus_slvoice_room_teardown_locked a m) b) = rm_participants (room_at m b)"
    "b \<noteq> a \<Longrightarrow> room_at (janus_slvoice_room_teardown_locked a m) b = room_at m b"
  using assms by (simp_all add: janus_slvoice_room_teardown_locked_def janus_slvoice_room_stop_def Let_def upd_room_def)

lemma teardown_fold_empty:
  assumes "\<And>a. a \<in> set as \<Longrightarrow> rm_participants (room_at m a) = []"
  shows "mx_sessions (fold janus_slvoice_room_teardown_locked as m) = mx_sessions m \<and>
    mx_outbox (fold janus_slvoice_room_teardown_locked as m) = mx_outbox m \<and>
    (\<forall>b. b \<notin> set as \<longrightarrow> room_at (fold janus_slvoice_room_teardown_locked as m) b = room_at m b) \<and>
    mx_rooms (fold janus_slvoice_room_teardown_locked as m) =
      filter (\<lambda>p. fst p \<notin> (\<lambda>a. rm_room_id (room_at m a)) ` set as) (mx_rooms m)"
  using assms
proof (induction as arbitrary: m)
  case (Cons a as)
  have a: "rm_participants (room_at m a) = []" using Cons.prems by simp
  let ?n = "janus_slvoice_room_teardown_locked a m"
  note T = teardown_empty [OF a]
  have "rm_participants (room_at ?n b) = []" if "b \<in> set as" for b using that Cons.prems T(4) by simp
  from Cons.IH [OF this] have IH: "mx_sessions (fold janus_slvoice_room_teardown_locked as ?n) = mx_sessions ?n"
    "mx_outbox (fold janus_slvoice_room_teardown_locked as ?n) = mx_outbox ?n"
    "\<forall>b. b \<notin> set as \<longrightarrow> room_at (fold janus_slvoice_room_teardown_locked as ?n) b = room_at ?n b"
    "mx_rooms (fold janus_slvoice_room_teardown_locked as ?n) =
      filter (\<lambda>p. fst p \<notin> (\<lambda>a. rm_room_id (room_at ?n a)) ` set as) (mx_rooms ?n)" by simp_all
  have "mx_rooms (fold janus_slvoice_room_teardown_locked as ?n) =
      filter (\<lambda>p. fst p \<notin> (\<lambda>a. rm_room_id (room_at m a)) ` set (a # as)) (mx_rooms m)"
    unfolding IH(4) T(3) teardown_state(1) AList.delete_eq filter_filter by (intro filter_cong) auto
  moreover have "room_at (fold janus_slvoice_room_teardown_locked as ?n) b = room_at m b" if "b \<notin> set (a # as)" for b
    using that IH(3) T(5) [of b] by simp
  ultimately show ?case using IH(1,2) T(1,2) by simp
qed simp

text \<open>What marking and tearing down leave: the rooms not expired, with nobody else touched.\<close>

lemma swept_rooms:
  fixes k now m
  assumes r: "rooms_ok {} m"
  defines "n \<equiv> fold mark (expired_rooms k now m) m"
  shows "mx_rooms (fold janus_slvoice_room_teardown_locked (rev (expired_rooms k now m)) n) =
      filter (\<lambda>p. \<not> room_expired k now (room_at m (snd p))) (mx_rooms m)"
    "mx_sessions (fold janus_slvoice_room_teardown_locked (rev (expired_rooms k now m)) n) = mx_sessions m"
    "mx_outbox (fold janus_slvoice_room_teardown_locked (rev (expired_rooms k now m)) n) = mx_outbox m"
    "\<And>b. \<not> room_expired k now (room_at m b) \<Longrightarrow>
      room_at (fold janus_slvoice_room_teardown_locked (rev (expired_rooms k now m)) n) b = room_at m b"
proof -
  let ?es = "expired_rooms k now m" and ?P = "\<lambda>a. room_expired k now (room_at m a)"
  have M: "mx_rooms n = mx_rooms m" "mx_sessions n = mx_sessions m" "mx_live n = mx_live m"
    "\<And>a. room_at n a = (if a \<in> set ?es then (room_at m a)\<lparr>rm_destroyed := True\<rparr> else room_at m a)"
    using mark_fold_sel [of ?es m] by (simp_all add: n_def)
  have out: "mx_outbox (fold mark as x) = mx_outbox x" for as x
    by (induction as arbitrary: x) (simp_all add: mark_def)
  have empty: "rm_participants (room_at n a) = []" if "a \<in> set (rev ?es)" for a
    using that M(4) by (auto simp: expired_rooms_def room_expired_def)
  note T = teardown_fold_empty [of "rev ?es" n, OF empty]
  have id: "rm_room_id (room_at n (snd q)) = fst q" if "q \<in> set (mx_rooms m)" for q
    using that r M(4) by (cases q) (auto simp: rooms_ok_def)
  have inj: "q = p" if "q \<in> set (mx_rooms m)" "p \<in> set (mx_rooms m)" "fst q = fst p" for p q
    using that r unfolding rooms_ok_def by (auto simp: distinct_map dest: inj_onD)
  have mem: "a \<in> set ?es \<longleftrightarrow> (\<exists>q\<in>set (mx_rooms m). snd q = a) \<and> ?P a" for a by (auto simp: expired_rooms_def)
  have "fst p \<in> (\<lambda>a. rm_room_id (room_at n a)) ` set (rev ?es) \<longleftrightarrow> ?P (snd p)" if p: "p \<in> set (mx_rooms m)" for p
  proof
    assume "fst p \<in> (\<lambda>a. rm_room_id (room_at n a)) ` set (rev ?es)"
    then obtain b where b: "b \<in> set ?es" "fst p = rm_room_id (room_at n b)" unfolding set_rev by (rule imageE)
    from b(1) obtain q where q: "q \<in> set (mx_rooms m)" "snd q = b" unfolding mem by blast
    have "fst q = fst p" unfolding b(2) q(2) [symmetric] by (rule id [OF q(1), symmetric])
    then have "q = p" by (rule inj [OF q(1) p])
    then show "?P (snd p)" using q(2) b(1) mem by blast
  next
    assume "?P (snd p)"
    then have "snd p \<in> set (rev ?es)" using p mem by auto
    then show "fst p \<in> (\<lambda>a. rm_room_id (room_at n a)) ` set (rev ?es)" unfolding id [OF p, symmetric] by (rule imageI)
  qed
  then show "mx_rooms (fold janus_slvoice_room_teardown_locked (rev ?es) n) = filter (\<lambda>p. \<not> ?P (snd p)) (mx_rooms m)"
    using T [THEN conjunct2, THEN conjunct2, THEN conjunct2] unfolding M(1) by (simp cong: filter_cong)
  show "mx_sessions (fold janus_slvoice_room_teardown_locked (rev ?es) n) = mx_sessions m" using T [THEN conjunct1] M(2) by (simp only:)
  show "mx_outbox (fold janus_slvoice_room_teardown_locked (rev ?es) n) = mx_outbox m"
    using T [THEN conjunct2, THEN conjunct1] out [of ?es m] by (simp only: n_def)
  show "room_at (fold janus_slvoice_room_teardown_locked (rev ?es) n) b = room_at m b" if "\<not> ?P b" for b
  proof -
    have b: "b \<notin> set ?es" using that by (simp add: expired_rooms_def)
    then have "room_at (fold janus_slvoice_room_teardown_locked (rev ?es) n) b = room_at n b"
      using T [THEN conjunct2, THEN conjunct2, THEN conjunct1] by simp
    also have "\<dots> = room_at m b" using b M(4) [of b] by (simp only: if_False)
    finally show ?thesis .
  qed
qed


subsection \<open>Reaping\<close>

definition no_media :: "slv_knobs \<Rightarrow> int \<Rightarrow> janus_slvoice_session \<Rightarrow> bool" where
  "no_media k t0 x \<longleftrightarrow> se_join_ts x \<noteq> 0 \<and> \<not> se_media_seen x \<and> \<not> se_destroyed x \<and>
     t0 - se_join_ts x \<ge> int (kn_join_media_timeout_s k) * G_USEC_PER_SEC"

lemma desk_sel:
  assumes "desk x = desk y"
  shows "seat x = seat y" "se_join_ts x = se_join_ts y" "no_media k t0 x = no_media k t0 y"
    "se_media_seen x = se_media_seen y" "se_destroyed x = se_destroyed y" "se_room x = se_room y"
  using assms by (simp_all add: desk_def no_media_def seat_def)

lemma pass1_one_reap:
  "snd (pass1_one op k t0 a check s (n, reap)) =
     reap @ (if check \<and> no_media k t0 (session_of n s) then [(s, se_join_ts (session_of n s))] else [])"
proof -
  obtain x rs where x: "janus_slvoice_pos_observe_locked (room_at n a)
      (janus_slvoice_snapshot_geometry_locked (kn_spatial k) (janus_slvoice_tick_decode_locked op t0 (session_of n s))) t0 = (x, rs)"
    by fastforce
  have "desk x = desk (session_of n s)"
    using desk.pass1_session_view [of op k t0 "room_at n a" "session_of n s"] by (simp add: pass1_session_def x)
  note D = desk_sel [OF this]
  have "snd (pass1_one op k t0 a check s (n, reap)) = reap @ (if check \<and> no_media k t0 x then [(s, se_join_ts x)] else [])"
    by (simp add: pass1_one_def Let_def x no_media_def)
  then show ?thesis by (simp only: D)
qed

lemma pass1_reap:
  assumes "set ss \<subseteq> set sess"
  shows "desks_kept sess m (fst (fold (pass1_one op k t0 a check) ss (m, []))) \<and>
   snd (fold (pass1_one op k t0 a check) ss (m, [])) =
     map (\<lambda>s. (s, se_join_ts (session_of m s))) (filter (\<lambda>s. check \<and> no_media k t0 (session_of m s)) ss)"
  using assms
proof (induction ss rule: rev_induct)
  case (snoc s ss)
  obtain n reap where f: "fold (pass1_one op k t0 a check) ss (m, []) = (n, reap)" by fastforce
  with snoc have IH: "desks_kept sess m n"
    "reap = map (\<lambda>s. (s, se_join_ts (session_of m s))) (filter (\<lambda>s. check \<and> no_media k t0 (session_of m s)) ss)" by simp_all
  have "desk (session_of n s) = desk (session_of m s)" using IH(1) by (simp add: desks_kept_def)
  note D = desk_sel [OF this]
  have "desks_kept sess n (fst (pass1_one op k t0 a check s (n, reap)))"
    using pass1_one_desks [of s sess "(n, reap)"] snoc.prems by simp
  then show ?case
    using desks_kept_trans [OF IH(1)] by (simp add: f pass1_one_reap D IH(2))
qed simp

lemma tick_reap_list:
  assumes "room_tick_locked op k t0 a m = (m', out, reap)"
  defines "due \<equiv> kn_join_media_timeout_s k > 0 \<and> (rm_tick_seq (room_at m a) + 1) mod 50 = 0"
  shows "reap = map (\<lambda>s. (s, se_join_ts (session_of m s)))
      (filter (\<lambda>s. due \<and> no_media k t0 (session_of m s)) (tick_sessions m a))"
proof -
  let ?m0 = "upd_room a room_tick_begin m"
  have seq: "rm_tick_seq (room_at ?m0 a) = rm_tick_seq (room_at m a) + 1" by (simp add: room_tick_begin_def Let_def)
  have sess: "tick_sessions ?m0 a = tick_sessions m a" by (simp add: tick_sessions_def room_tick_begin_def Let_def)
  have due: "(kn_join_media_timeout_s k > 0 \<and> rm_tick_seq (room_at ?m0 a) mod (1000 div SLV_TICK_MS) = 0) = due"
    unfolding due_def seq by (simp add: SLV_TICK_MS_def)
  obtain n r where p: "tick_pass1 op k t0 a due (tick_sessions m a) ?m0 = (n, r)" by fastforce
  have "reap = r" using assms(1) unfolding room_tick_locked_def Let_def sess due p by (simp split: prod.splits)
  also have "r = map (\<lambda>s. (s, se_join_ts (session_of ?m0 s)))
      (filter (\<lambda>s. due \<and> no_media k t0 (session_of ?m0 s)) (tick_sessions m a))"
    using pass1_reap [OF subset_refl, of "tick_sessions m a" ?m0 op k t0 a due] p by (simp add: tick_pass1_def)
  finally show ?thesis by simp
qed

lemma leave_desk:
  assumes "w \<noteq> s"
  shows "desk (session_of (janus_slvoice_leave_room dumps k now s m) w) = desk (session_of m w)"
proof -
  have core: "desk x = desk y" if "sess_core x = sess_core y" for x y
    using arg_cong [OF that, of desk] by (simp add: sess_core_def desk_def seat_def)
  have push: "desk (session_of (janus_slvoice_push_presence dumps k now a who join n) w) = desk (session_of n w)" for a who join n
  proof -
    define q where "q = (if join then upd_room a (\<lambda>r. r\<lparr>rm_vis_joins_since_snapshot := rm_vis_joins_since_snapshot r + 1\<rparr>) n else n)"
    have "relayed q (fold (presence_to dumps k now a who join) ps q)" for ps
      by (rule relay_loop) (rule presence_to_step)
    then have 1: "sess_core (session_of (fold (presence_to dumps k now a who join) ps q) w) = sess_core (session_of q w)" for ps
      by (simp only: relayed_def)
    have 2: "session_of q w = session_of n w" by (simp add: q_def)
    have "desk (session_of (fold (presence_to dumps k now a who join) ps q) w) = desk (session_of n w)" for ps
      using core [OF 1] unfolding 2 .
    then show ?thesis unfolding janus_slvoice_push_presence_def Let_def q_def [symmetric] .
  qed
  show ?thesis
  proof (cases "se_room (session_of m s)")
    case None
    then show ?thesis by (simp add: janus_slvoice_leave_room_def)
  next
    case (Some a)
    show ?thesis
    proof (cases "se_display (session_of m s)")
      case None
      then show ?thesis using assms by (simp add: janus_slvoice_leave_room_def Some Let_def upd_session_other)
    next
      case (Some d)
      then show ?thesis using assms
        by (simp add: janus_slvoice_leave_room_def \<open>se_room _ = Some a\<close> Let_def upd_session_other push)
    qed
  qed
qed

lemma media_gone_desk: "w \<noteq> s \<Longrightarrow> desk (session_of (janus_slvoice_media_gone dumps k now s m) w) = desk (session_of m w)"
  by (simp add: janus_slvoice_media_gone_def Let_def upd_session_other leave_desk)

lemma media_gone_out: "se_room (session_of (janus_slvoice_media_gone dumps k now s m) s) = None"
  by (simp add: janus_slvoice_media_gone_def media_gone_session_def janus_slvoice_media_free_locked_def
      janus_slvoice_echo_stop_locked_def Let_def leave_out)

lemma reap_fold:
  assumes "distinct ss" "\<And>s. s \<in> set ss \<Longrightarrow> se_room (session_of n s) = Some a \<and> se_join_ts (session_of n s) = j s \<and>
      \<not> se_media_seen (session_of n s) \<and> \<not> se_destroyed (session_of n s)"
  shows "se_room (session_of (fold (janus_slvoice_reap_no_media dumps k now a) (map (\<lambda>s. (s, j s)) ss) n) w) =
    (if w \<in> set ss then None else se_room (session_of n w))"
  using assms
proof (induction ss arbitrary: n)
  case (Cons s ss)
  let ?n = "janus_slvoice_reap_no_media dumps k now a (s, j s) n"
  have eq: "?n = janus_slvoice_media_gone dumps k now s (upd_session s (\<lambda>x. x\<lparr>se_join_ts := 0\<rparr>) n)"
    using Cons.prems(2) [of s] by (simp add: janus_slvoice_reap_no_media_def Let_def)
  have out: "se_room (session_of ?n s) = None" unfolding eq by (rule media_gone_out)
  have other: "desk (session_of ?n v) = desk (session_of n v)" if "v \<noteq> s" for v
    unfolding eq using that by (simp add: media_gone_desk upd_session_other)
  have "se_room (session_of ?n v) = Some a \<and> se_join_ts (session_of ?n v) = j v \<and>
      \<not> se_media_seen (session_of ?n v) \<and> \<not> se_destroyed (session_of ?n v)" if "v \<in> set ss" for v
  proof -
    have "v \<noteq> s" using that Cons.prems(1) by auto
    from desk_sel [OF other [OF this]] show ?thesis using Cons.prems(2) [of v] that by simp
  qed
  from Cons.IH [OF _ this] have IH: "se_room (session_of (fold (janus_slvoice_reap_no_media dumps k now a) (map (\<lambda>s. (s, j s)) ss) ?n) w) =
      (if w \<in> set ss then None else se_room (session_of ?n w))" using Cons.prems(1) by simp
  show ?case
    using IH out desk_sel(6) [OF other [of w]] Cons.prems(1) by (cases "w = s") simp_all
qed simp

text \<open>
  C22 Participants whose media never came do not stay. On every fiftieth tick of a room (once a second) exactly the served
  participants that joined at least the time-out ago, never had a PeerConnection and are not being destroyed leave the
  room; with the time-out switched off, on other ticks, and once media has been seen, nobody is put out.
\<close>

theorem tick_reaps_exact:
  assumes "mixer_inv k m" and "s \<in> set (tick_sessions m a)" and "now \<noteq> 0"
  shows "(s \<in> set (members (room_at (fst (janus_slvoice_room_tick op dumps k t0 now a m)) a))) =
    (\<not> (kn_join_media_timeout_s k > 0 \<and> (rm_tick_seq (room_at m a) + 1) mod 50 = 0 \<and> no_media k t0 (session_of m s)))"
proof -
  let ?due = "kn_join_media_timeout_s k > 0 \<and> (rm_tick_seq (room_at m a) + 1) mod 50 = 0"
  let ?ss = "filter (\<lambda>s. ?due \<and> no_media k t0 (session_of m s)) (tick_sessions m a)"
  obtain n out reap where t: "room_tick_locked op k t0 a m = (n, out, reap)" by (metis prod_cases3)
  let ?m' = "fst (janus_slvoice_room_tick op dumps k t0 now a m)"
  have inv: "seats_ok m" "seats_ok ?m'"
    using assms(1) room_tick_inv [OF assms(1,3), of op dumps k t0 a] by (simp_all add: mixer_inv_def marked_inv_def)
  have desks: "desk (session_of n w) = desk (session_of m w)" for w
    using tick_desks [OF t] by (simp add: desks_kept_def)
  have in_room: "se_room (session_of m w) = Some a" if "w \<in> set (tick_sessions m a)" for w
    using that member_iff [OF inv(1), of w a] unfolding tick_sessions_def by (meson in_set_takeD)
  have dist: "distinct ?ss" using members_distinct [OF inv(1)] by (simp add: tick_sessions_def)
  have still: "se_room (session_of n w) = Some a \<and> se_join_ts (session_of n w) = se_join_ts (session_of m w) \<and>
      \<not> se_media_seen (session_of n w) \<and> \<not> se_destroyed (session_of n w)" if "w \<in> set ?ss" for w
    using that in_room [of w] desk_sel [OF desks [of w]] by (simp add: no_media_def)
  have "?m' = fold (janus_slvoice_reap_no_media dumps k now a) (map (\<lambda>s. (s, se_join_ts (session_of m s))) ?ss) n"
    using tick_reap_list [OF t] by (simp add: janus_slvoice_room_tick_def t)
  then have "se_room (session_of ?m' s) = (if s \<in> set ?ss then None else se_room (session_of n s))"
    using reap_fold [OF dist still] by simp
  then show ?thesis
    unfolding member_iff [OF inv(2)] using assms(2) in_room [OF assms(2)] desk_sel(6) [OF desks [of s]] by simp
qed

subsection \<open>The presence fence\<close>

text \<open>
  A newcomer \<open>s\<close> with the display \<open>d\<close>, and a participant \<open>r\<close> of the room that may see it. \<open>announces\<close>: the object is
  a join notice of that display.
\<close>

definition newcomer_visible :: "slv_knobs \<Rightarrow> int \<Rightarrow> nat \<Rightarrow> nat \<Rightarrow> nat \<Rightarrow> string \<Rightarrow> slv_mixer \<Rightarrow> bool" where
  "newcomer_visible k now a s r d m \<longleftrightarrow> r \<in> set (members (room_at m a)) \<and> \<not> rm_destroyed (room_at m a) \<and>
     se_room (session_of m r) = Some a \<and> r \<noteq> s \<and> se_display (session_of m s) = Some d \<and>
     se_display (session_of m r) \<noteq> Some d \<and> told k now (room_at m a) (session_of m r) d"

definition announces :: "string \<Rightarrow> json \<Rightarrow> bool" where
  "announces d obj \<longleftrightarrow> json_is_true (json_object_get (json_object_get (json_object_get (Some obj) d) ''j'') ''p'')"

definition fits :: "(json \<Rightarrow> string option) \<Rightarrow> json \<Rightarrow> bool" where
  "fits dumps obj \<longleftrightarrow> (case dumps obj of None \<Rightarrow> False | Some text \<Rightarrow> length text < 65536)"

lemma announces_entries: "announces d (presence_entry d True)" "announces d (backlog_entry x d)"
  by (simp_all add: announces_def presence_entry_def backlog_entry_def)

lemma sess_core_sel:
  assumes "sess_core x = sess_core y"
  shows "se_room x = se_room y" "se_display x = se_display y" "se_excluded x = se_excluded y" "se_dc_open x = se_dc_open y"
    "se_mod_muted x = se_mod_muted y"
  using arg_cong [OF assms, of se_room] arg_cong [OF assms, of se_display] arg_cong [OF assms, of se_excluded]
    arg_cong [OF assms, of se_dc_open] arg_cong [OF assms, of se_mod_muted] by (simp_all add: sess_core_def)

text \<open>What a step must leave alone for the newcomer to stay visible to \<open>r\<close>.\<close>

definition calm :: "nat \<Rightarrow> nat \<Rightarrow> nat \<Rightarrow> slv_mixer \<Rightarrow> slv_mixer \<Rightarrow> bool" where
  "calm a s r m m' \<longleftrightarrow> set (members (room_at m a)) \<subseteq> set (members (room_at m' a)) \<and>
     rm_destroyed (room_at m' a) = rm_destroyed (room_at m a) \<and> auth_frame (room_at m' a) = auth_frame (room_at m a) \<and>
     rm_vis_records (room_at m' a) = rm_vis_records (room_at m a) \<and>
     se_display (session_of m' s) = se_display (session_of m s) \<and> se_room (session_of m' r) = se_room (session_of m r) \<and>
     se_display (session_of m' r) = se_display (session_of m r) \<and> se_excluded (session_of m' r) = se_excluded (session_of m r) \<and>
     se_mod_muted (session_of m' r) = se_mod_muted (session_of m r) \<and>
     (se_dc_open (session_of m r) \<longrightarrow> se_dc_open (session_of m' r)) \<and> set (mx_outbox m) \<subseteq> set (mx_outbox m')"

lemma calm_visible:
  assumes "calm a s r m m'" "newcomer_visible k now a s r d m"
  shows "newcomer_visible k now a s r d m'" "backlog_entry (session_of m' r) d = backlog_entry (session_of m r) d"
proof -
  have "told k now (room_at m' a) (session_of m' r) d = told k now (room_at m a) (session_of m r) d"
    using assms(1) told_cong [of "room_at m' a" "room_at m a" k now "session_of m' r" d] by (simp add: calm_def told_def)
  then show "newcomer_visible k now a s r d m'" using assms by (auto simp: calm_def newcomer_visible_def)
  show "backlog_entry (session_of m' r) d = backlog_entry (session_of m r) d"
    using assms(1) by (simp add: calm_def backlog_entry_def janus_slvoice_is_mod_muted_def)
qed

lemma relayed_calm: "relayed m m' \<Longrightarrow> set (mx_outbox m) \<subseteq> set (mx_outbox m') \<Longrightarrow> calm a s r m m'"
  using sess_core_sel [of "session_of m' r" "session_of m r"] sess_core_sel(2) [of "session_of m' s" "session_of m s"]
  by (simp add: relayed_def calm_def)

lemma push_calm: "calm a s r m (janus_slvoice_push_presence dumps k now a d True m)"
proof -
  let ?m = "upd_room a (\<lambda>r. r\<lparr>rm_vis_joins_since_snapshot := rm_vis_joins_since_snapshot r + 1\<rparr>) m"
  let ?n = "janus_slvoice_push_presence dumps k now a d True m"
  have eq: "?n = fold (presence_to dumps k now a d True) (members (room_at ?m a)) ?m"
    by (simp add: janus_slvoice_push_presence_def)
  have "relayed ?m ?n" unfolding eq by (rule relay_loop) (rule presence_to_step)
  moreover have "set (mx_outbox ?m) \<subseteq> set (mx_outbox ?n)" by (simp add: push_presence_outbox)
  ultimately have "calm a s r ?m ?n" by (rule relayed_calm)
  then show ?thesis by (simp add: calm_def auth_frame_def)
qed

lemma push_dc: "se_dc_open (session_of (janus_slvoice_push_presence dumps k now a d join m) r) = se_dc_open (session_of m r)"
proof -
  have "relayed n (fold (presence_to dumps k now a d join) ps n)" for ps n
    by (rule relay_loop) (rule presence_to_step)
  then have "se_dc_open (session_of (fold (presence_to dumps k now a d join) ps n) r) = se_dc_open (session_of n r)" for ps n
    by (intro sess_core_sel(4)) (simp only: relayed_def)
  then show ?thesis by (cases join) (simp_all add: janus_slvoice_push_presence_def)
qed

lemma data_ready_calm: "calm a s r m (janus_slvoice_data_ready dumps k now r m)"
proof (cases "se_dc_open (session_of m r)")
  case False
  let ?m = "upd_session r (\<lambda>x. x\<lparr>se_dc_open := True\<rparr>) m"
  have "calm a s r m ?m" by (auto simp: calm_def upd_session_def)
  moreover have "calm a s r ?m (janus_slvoice_send_join_backlog_locked dumps k now r b ?m)" for b
    by (rule relayed_calm [OF backlog_relayed]) (simp only: join_backlog_exact set_append Un_upper1)
  ultimately show ?thesis
    using False by (auto simp: janus_slvoice_data_ready_def Let_def calm_def split: option.split)
qed (simp add: janus_slvoice_data_ready_def calm_def)

lemma join_commit_calm:
  assumes "r \<noteq> s"
  shows "calm a s r m (fst (janus_slvoice_join_commit_locked k now a s m))"
proof -
  have trans: "calm a s r m n \<Longrightarrow> calm a s r n n' \<Longrightarrow> calm a s r m n'" for m n n'
    unfolding calm_def by auto
  have cols: "calm a s r n (upd_room a (\<lambda>x. x\<lparr>rm_vis_deferred := h x\<rparr>) (upd_session s (\<lambda>x. x\<lparr>se_excluded := e x, se_mod_muted := u x\<rparr>) n))"
    "calm a s r n (upd_session s (\<lambda>x. x\<lparr>se_vis_ok_last := v x\<rparr>) n)" "calm a s r n n" for n e u v h
    using assms by (simp_all add: calm_def upd_session_def auth_frame_def)
  have rejoin: "calm a s r m (fst (janus_slvoice_vis_rejoin_columns_locked k a s m))"
    unfolding janus_slvoice_vis_rejoin_columns_locked_def Let_def by (simp add: cols split: option.split)
  have replay: "calm a s r n (janus_slvoice_room_replay_deferred_locked a s n)" for n
    unfolding janus_slvoice_room_replay_deferred_locked_def Let_def by (simp add: cols split: option.split)
  obtain n took where n: "janus_slvoice_vis_rejoin_columns_locked k a s m = (n, took)" by fastforce
  have "calm a s r m (if \<not> took then janus_slvoice_room_replay_deferred_locked a s n else n)"
    using rejoin trans [of m n "janus_slvoice_room_replay_deferred_locked a s n"] replay [of n] by (cases took) (simp_all add: n)
  then show ?thesis
    unfolding janus_slvoice_join_commit_locked_def Let_def n prod.case fst_conv by (rule trans) (rule cols)
qed

lemma join_room_calm:
  assumes "newcomer_visible k' now' a s r d m" "uid \<notin> fst ` set (rm_participants (room_at m a))"
  shows "calm a s r m (fst (join_room k now a s uid m))" "s \<in> set (members (room_at (fst (join_room k now a s uid m)) a))"
proof -
  let ?m = "upd_room a (\<lambda>r. r\<lparr>rm_empty_since := 0, rm_participants := AList.update uid s (rm_participants r)\<rparr>) m"
  have eq: "fst (join_room k now a s uid m) = fst (janus_slvoice_join_commit_locked k now a s ?m)"
    using assms(1) by (simp add: join_room_def newcomer_visible_def Let_def split_beta)
  have 1: "calm a s r m ?m" using assms(2) by (auto simp: calm_def auth_frame_def AList_update_new)
  have 2: "calm a s r ?m (fst (janus_slvoice_join_commit_locked k now a s ?m))"
    using assms(1) by (intro join_commit_calm) (simp add: newcomer_visible_def)
  have "s \<in> set (members (room_at ?m a))" using assms(2) by (simp add: AList_update_new)
  then show "s \<in> set (members (room_at (fst (join_room k now a s uid m)) a))" using 2 unfolding eq calm_def by blast
  show "calm a s r m (fst (join_room k now a s uid m))" unfolding eq using 1 2 unfolding calm_def by auto
qed

lemma push_announces:
  assumes "newcomer_visible k now a s r d m" "se_dc_open (session_of m r)" "fits dumps (presence_entry d True)"
  shows "(r, presence_entry d True) \<in> set (mx_outbox (janus_slvoice_push_presence dumps k now a d True m))"
  using assms by (auto simp: push_presence_outbox newcomer_visible_def sendable_def fits_def)

lemma in_concat_map: "x \<in> set (f p) \<Longrightarrow> p \<in> set ps \<Longrightarrow> x \<in> set (concat (map f ps))"
  by auto

lemma ready_announces:
  assumes "newcomer_visible k now a s r d m" "s \<in> set (members (room_at m a))" "\<not> se_dc_open (session_of m r)"
    and "fits dumps (backlog_entry (session_of m r) d)"
  shows "(r, backlog_entry (session_of m r) d) \<in> set (mx_outbox (janus_slvoice_data_ready dumps k now r m))"
proof -
  let ?m = "upd_session r (\<lambda>x. x\<lparr>se_dc_open := True\<rparr>) m"
  have live: "live_room m r = Some a" using assms(1) by (simp add: live_room_def newcomer_visible_def)
  have "r \<noteq> s" "se_display (session_of m s) = Some d" using assms(1) by (simp_all add: newcomer_visible_def)
  then have s: "se_display (session_of ?m s) = Some d" "s \<noteq> r" by (simp_all add: upd_session_other)
  have e: "backlog_entry (session_of ?m r) d = backlog_entry (session_of m r) d"
    by (simp add: backlog_entry_def janus_slvoice_is_mod_muted_def)
  have ok: "told k now (room_at ?m a) (session_of ?m r) d" "sendable dumps ?m r (backlog_entry (session_of ?m r) d)"
    using assms(1,4) unfolding e by (simp_all add: told_def newcomer_visible_def sendable_def fits_def)
  have obj: "backlog_entry (session_of ?m r) d = JObject [(d, JObject ((''j'', JObject [(''p'', JBool True)]) #
      (if d \<in> set (se_mod_muted (session_of ?m r)) then [(''m'', JBool True)] else [])))]"
    by (simp add: backlog_entry_def janus_slvoice_is_mod_muted_def)
  have s_in: "s \<in> set (members (room_at ?m a))" using assms(2) by simp
  have "(r, backlog_entry (session_of ?m r) d) \<in>
      set (mx_outbox (janus_slvoice_send_join_backlog_locked dumps k now r a ?m))"
    unfolding join_backlog_exact set_append
    by (intro UnI2, rule in_concat_map [OF _ s_in])
      (simp only: s(1) option.case obj [symmetric] ok s(2) not_False_eq_True simp_thms if_True list.set insert_iff)
  then show ?thesis using assms(3) live unfolding e by (simp add: janus_slvoice_data_ready_def Let_def)
qed

lemma ready_opens: "se_dc_open (session_of (janus_slvoice_data_ready dumps k now r n) r)"
proof (cases "se_dc_open (session_of n r)")
  case False
  let ?n = "upd_session r (\<lambda>x. x\<lparr>se_dc_open := True\<rparr>) n"
  have "se_dc_open (session_of (janus_slvoice_send_join_backlog_locked dumps k now r b ?n) r)" for b
    using sess_core_sel(4) [of "session_of (janus_slvoice_send_join_backlog_locked dumps k now r b ?n) r" "session_of ?n r"]
      backlog_relayed [of ?n dumps k now r b] by (simp add: relayed_def)
  with False show ?thesis by (simp add: janus_slvoice_data_ready_def Let_def split: option.split)
qed (simp add: janus_slvoice_data_ready_def)

text \<open>The order in which the channel opens last: the push reaches an open channel, or the backlog brings the notice.\<close>

lemma fence_open_last:
  assumes vis: "newcomer_visible k now a s r d n" and s: "s \<in> set (members (room_at n a))"
    and fit: "fits dumps (presence_entry d True)" "fits dumps (backlog_entry (session_of n r) d)"
  shows "\<exists>obj. announces d obj \<and>
    (r, obj) \<in> set (mx_outbox (janus_slvoice_data_ready dumps k now r (janus_slvoice_push_presence dumps k now a d True n)))"
proof -
  let ?p = "janus_slvoice_push_presence dumps k now a d True n"
  have calm: "calm a s r n ?p" by (rule push_calm)
  have dc: "se_dc_open (session_of ?p r) = se_dc_open (session_of n r)" by (rule push_dc)
  show ?thesis
  proof (cases "se_dc_open (session_of n r)")
    case True
    then obtain obj where "announces d obj" "(r, obj) \<in> set (mx_outbox ?p)"
      using push_announces [OF vis True fit(1)] announces_entries(1) by blast
    moreover have "set (mx_outbox ?p) \<subseteq> set (mx_outbox (janus_slvoice_data_ready dumps k now r ?p))"
      using data_ready_calm [of a s r ?p dumps k now] unfolding calm_def by blast
    ultimately show ?thesis by auto
  next
    case False
    have P: "newcomer_visible k now a s r d ?p" using calm_visible(1) [OF calm] vis by blast
    have "s \<in> set (members (room_at ?p a))" using s calm unfolding calm_def by blast
    moreover have "backlog_entry (session_of ?p r) d = backlog_entry (session_of n r) d" using calm_visible(2) [OF calm vis] .
    ultimately have "(r, backlog_entry (session_of ?p r) d) \<in> set (mx_outbox (janus_slvoice_data_ready dumps k now r ?p))"
      using ready_announces [OF P, of dumps] False dc fit(2) by (simp only:) blast
    then show ?thesis using announces_entries(2) by auto
  qed
qed

text \<open>
  C6 The presence fence. A join inserts the newcomer and later, in a critical section of its own, tells the others; a
  participant's channel may become writable at any point around the two. In every order of the three steps, a
  participant that may see the newcomer is sent at least one join notice of it: no interleaving loses the notice.
\<close>

theorem presence_fence:
  assumes "newcomer_visible k now a s r d m" and "uid \<notin> fst ` set (rm_participants (room_at m a))"
    and "fits dumps (presence_entry d True)" and "fits dumps (backlog_entry (session_of m r) d)"
    and "let ins = (\<lambda>m. fst (join_room k now a s uid m)); push = janus_slvoice_push_presence dumps k now a d True;
           open_dc = janus_slvoice_data_ready dumps k now r
         in steps \<in> {[open_dc, ins, push], [ins, open_dc, push], [ins, push, open_dc]}"
  shows "\<exists>obj. announces d obj \<and> (r, obj) \<in> set (mx_outbox (fold (\<lambda>step. step) steps m))"
proof -
  let ?ins = "\<lambda>m. fst (join_room k now a s uid m)" and ?push = "janus_slvoice_push_presence dumps k now a d True"
  let ?open = "janus_slvoice_data_ready dumps k now r"
  have vis: "newcomer_visible k now a s r d n'" if "calm a s r n n'" "newcomer_visible k now a s r d n" for n n'
    using calm_visible(1) that by blast
  note I = join_room_calm [OF assms(1,2), of k now]
  have vI: "newcomer_visible k now a s r d (?ins m)" using vis I(1) assms(1) by blast
  have vO: "newcomer_visible k now a s r d (?open m)" using vis data_ready_calm assms(1) by blast
  have after: "\<exists>obj. announces d obj \<and> (r, obj) \<in> set (mx_outbox (?push n))"
    if "newcomer_visible k now a s r d n" "se_dc_open (session_of n r)" for n
    using push_announces [OF that assms(3)] announces_entries(1) by blast
  consider "steps = [?open, ?ins, ?push]" | "steps = [?ins, ?open, ?push]" | "steps = [?ins, ?push, ?open]"
    using assms(5) by (auto simp: Let_def)
  then show ?thesis
  proof cases
    case 1
    have "roll (room_at (?open m) a) = roll (room_at m a)" using data_ready_keeps by (simp only: same_seats_def)
    from roll_sel(1) [OF this] have C: "calm a s r (?open m) (?ins (?open m))" using join_room_calm(1) [OF vO] assms(2) by simp
    then have "se_dc_open (session_of (?ins (?open m)) r)" using ready_opens by (simp add: calm_def)
    then show ?thesis using after [OF vis [OF C vO]] by (simp add: 1)
  next
    case 2
    show ?thesis using after [OF vis [OF data_ready_calm vI] ready_opens] by (simp add: 2)
  next
    case 3
    have "fits dumps (backlog_entry (session_of (?ins m) r) d)" using calm_visible(2) [OF I(1) assms(1)] assms(4) by simp
    from fence_open_last [OF vI I(2) assms(3) this] show ?thesis unfolding 3 by simp
  qed
qed

subsection \<open>A join that loses its session\<close>

lemma room_of_join_session: "se_room (join_session now a ja x) = Some a"
  using join_session_sel(1) [of now a ja x] by (simp add: seat_def)

lemma destroy_session_out:
  "se_room (session_of (janus_slvoice_destroy_session dumps k now s m) s) = None"
  "se_destroyed (session_of (janus_slvoice_destroy_session dumps k now s m) s)"
  using leave_out [of dumps k now s m]
  by (simp_all add: janus_slvoice_destroy_session_def Let_def janus_slvoice_media_free_locked_def upd_session_def)

lemma destroy_session_room:
  "rm_destroyed (room_at (janus_slvoice_destroy_session dumps k now s m) a) = rm_destroyed (room_at m a)"
proof -
  have "rm_destroyed (room_at (janus_slvoice_leave_room dumps k now s m) a) = rm_destroyed (room_at m a)"
  proof (cases "se_room (session_of m s)")
    case (Some b)
    have "roll (room_at (janus_slvoice_leave_room dumps k now s m) a) =
        (if a = b then roll (leave_remove now (se_user_id (session_of m s)) (room_at m a)) else roll (room_at m a))"
      using leave_gets_up [OF Some, of now dumps k] by (auto simp: gets_up_def)
    from roll_sel(5) [OF this [THEN trans [OF _ if_distrib [of roll, symmetric]]]] show ?thesis
      by (simp add: leave_remove_def Let_def split: if_splits)
  qed (simp add: janus_slvoice_leave_room_def)
  then show ?thesis by (simp add: janus_slvoice_destroy_session_def Let_def)
qed

text \<open>What the commit of a join leaves alone, whatever the session's room.\<close>

definition settled_join :: "nat \<Rightarrow> nat \<Rightarrow> slv_mixer \<Rightarrow> slv_mixer \<Rightarrow> bool" where
  "settled_join s a m m' \<longleftrightarrow> rm_participants (room_at m' a) = rm_participants (room_at m a) \<and>
     se_room (session_of m' s) = se_room (session_of m s) \<and> se_destroyed (session_of m' s) = se_destroyed (session_of m s)"

lemma join_commit_settled: "settled_join s a m (fst (janus_slvoice_join_commit_locked k now a s m))"
proof -
  have rejoin: "settled_join s a m (fst (janus_slvoice_vis_rejoin_columns_locked k a s m))"
    unfolding janus_slvoice_vis_rejoin_columns_locked_def Let_def by (simp add: settled_join_def split: option.split)
  have replay: "settled_join s a n (janus_slvoice_room_replay_deferred_locked a s n)" for n
    unfolding janus_slvoice_room_replay_deferred_locked_def Let_def by (simp add: settled_join_def split: option.split)
  obtain n took where n: "janus_slvoice_vis_rejoin_columns_locked k a s m = (n, took)" by fastforce
  show ?thesis
    using rejoin replay [of n] by (simp add: janus_slvoice_join_commit_locked_def Let_def n settled_join_def)
qed

text \<open>
  C27 The gap between the two critical sections of a join. If the session is destroyed after the join gave it its room and
  before the join inserts it among the participants, the insertion goes ahead: the room then holds a destroyed session
  that is in no room, the membership invariant is broken, and no later leaving of that session removes the entry.
\<close>

theorem join_gap_leaves_ghost:
  assumes "\<not> rm_destroyed (room_at m a)"
  shows "let m1 = upd_session s (join_session now a ja) m;
      m2 = janus_slvoice_destroy_session dumps k now' s m1;
      m3 = fst (join_room k now a s (join_uid ja) m2)
    in (join_uid ja, s) \<in> set (rm_participants (room_at m3 a)) \<and> se_destroyed (session_of m3 s) \<and>
       se_room (session_of m3 s) = None \<and> \<not> mixer_inv k m3 \<and> janus_slvoice_leave_room dumps k now'' s m3 = m3"
proof -
  define m2 where "m2 = janus_slvoice_destroy_session dumps k now' s (upd_session s (join_session now a ja) m)"
  let ?u = "join_uid ja"
  let ?n = "upd_room a (\<lambda>r. r\<lparr>rm_empty_since := 0, rm_participants := AList.update ?u s (rm_participants r)\<rparr>) m2"
  define m3 where "m3 = fst (join_room k now a s ?u m2)"
  have alive: "\<not> rm_destroyed (room_at m2 a)" using assms by (simp add: m2_def destroy_session_room)
  have m3: "m3 = fst (janus_slvoice_join_commit_locked k now a s ?n)"
    by (simp add: m3_def join_room_def alive Let_def split_beta)
  have S: "settled_join s a ?n m3" unfolding m3 by (rule join_commit_settled)
  have "map_of (rm_participants (room_at ?n a)) ?u = Some s" by (simp add: update_conv')
  then have entry: "(?u, s) \<in> set (rm_participants (room_at m3 a))" using S by (auto simp: settled_join_def dest: map_of_SomeD)
  have gone: "se_room (session_of m3 s) = None" "se_destroyed (session_of m3 s)"
    using S by (simp_all add: settled_join_def m2_def destroy_session_out)
  have "\<not> seats_ok m3" using entry gone(1) by (auto simp: seats_ok_def seat_def)
  then have "\<not> mixer_inv k m3" by (simp add: mixer_inv_def marked_inv_def)
  then show ?thesis unfolding Let_def m2_def [symmetric] m3_def [symmetric]
    using entry gone by (simp add: janus_slvoice_leave_room_def)
qed

subsection \<open>A concrete process\<close>

text \<open>Two rooms, of which one has been empty for long; two participants of the other, neither with media yet.\<close>

definition life_session :: "string \<Rightarrow> nat \<Rightarrow> janus_slvoice_session" where
  "life_session d u = janus_slvoice_session_zero\<lparr>se_user_id := u, se_room := Some 0, se_display := Some d, se_join_ts := 1\<rparr>"

definition life_sample :: slv_mixer where
  "life_sample = slv_mixer_init\<lparr>
     mx_heap := (\<lambda>a. if a = 0 then janus_slvoice_room_zero\<lparr>rm_room_id := 7, rm_participants := [(11, 1), (22, 2)], rm_tick_seq := 49,
         rm_tick_running := True\<rparr>
       else if a = 1 then janus_slvoice_room_zero\<lparr>rm_room_id := 8, rm_empty_since := 1, rm_tick_running := True\<rparr> else janus_slvoice_room_zero),
     mx_rooms := [(7, 0), (8, 1)], mx_next_room := 2, mx_live := [1, 2],
     mx_sessions := (\<lambda>s. if s = 1 then life_session ''ann'' 11 else if s = 2 then life_session ''bob'' 22 else janus_slvoice_session_zero)\<rparr>"

lemmas life_sample_defs = life_sample_def life_session_def slv_mixer_init_def janus_slvoice_room_zero_def janus_slvoice_session_zero_def

lemma life_sample_inv: "mixer_inv auth_knobs_sample life_sample"
proof -
  have "seats_ok life_sample" by (auto simp: seats_ok_def seat_def life_sample_defs)
  moreover have "rooms_ok {} life_sample" by (auto simp: rooms_ok_def grace_ok_def life_sample_defs)
  moreover have "sessions_ok life_sample" by (simp add: sessions_ok_def luggage_def no_luggage_def life_sample_defs)
  moreover have "capacity_ok auth_knobs_sample life_sample" by (simp add: capacity_ok_def life_sample_defs auth_knobs_sample_def)
  ultimately show ?thesis by (simp add: mixer_inv_def marked_inv_def)
qed



theorem tick_reaps_exact_witness:
  "1 \<notin> set (members (room_at (fst (janus_slvoice_room_tick opus_sample (\<lambda>j. Some ''x'') auth_knobs_sample 40000000 40000000 0 life_sample)) 0))"
proof -
  have "1 \<in> set (tick_sessions life_sample 0)" by (simp add: tick_sessions_def life_sample_defs SLV_MAX_MIX_def)
  moreover have "no_media auth_knobs_sample 40000000 (session_of life_sample 1)"
    by (simp add: no_media_def life_sample_defs auth_knobs_sample_def slv_const)
  moreover have "rm_tick_seq (room_at life_sample 0) = 49" by (simp add: life_sample_defs)
  ultimately show ?thesis
    using tick_reaps_exact [OF life_sample_inv, of 1 0 40000000 opus_sample "\<lambda>j. Some ''x''" 40000000]
    by (simp add: auth_knobs_sample_def)
qed

theorem presence_fence_witness:
  "let m = upd_session 3 (join_session 9 0 \<lparr>ja_user_id = 33, ja_display = Some ''cat'', ja_recorder = False,
         ja_media = \<lparr>ma_dec_ok = True, ma_enc_ok = True, ma_seq = 0, ma_ts = 0, ma_ssrc = 0\<rparr>\<rparr>) life_sample;
       ins = (\<lambda>m. fst (join_room auth_knobs_sample 9 0 3 33 m))
   in \<exists>obj. announces ''cat'' obj \<and> (1, obj) \<in> set (mx_outbox (fold (\<lambda>step. step)
        [ins, janus_slvoice_data_ready (\<lambda>j. Some ''x'') auth_knobs_sample 9 1,
         janus_slvoice_push_presence (\<lambda>j. Some ''x'') auth_knobs_sample 9 0 ''cat'' True] m))"
proof -
  let ?ja = "\<lparr>ja_user_id = 33, ja_display = Some ''cat'', ja_recorder = False,
         ja_media = \<lparr>ma_dec_ok = True, ma_enc_ok = True, ma_seq = 0, ma_ts = 0, ma_ssrc = 0\<rparr>\<rparr>"
  let ?m = "upd_session 3 (join_session 9 0 ?ja) life_sample"
  have d: "se_display (session_of ?m 3) = Some ''cat''" by (simp add: join_session_def media_alloc_sel)
  have r: "session_of ?m 1 = life_session ''ann'' 11" by (simp add: upd_session_other life_sample_def)
  have room: "rm_vis_auth_epoch (room_at life_sample 0) = 0" "\<not> rm_vis_declared (room_at life_sample 0)"
    "rm_participants (room_at life_sample 0) = [(11, 1), (22, 2)]" "\<not> rm_destroyed (room_at life_sample 0)"
    by (simp_all add: life_sample_defs)
  have "newcomer_visible auth_knobs_sample 9 0 3 1 ''cat'' ?m"
    unfolding newcomer_visible_def r d upd_session_sel
    by (simp add: room told_def janus_slvoice_vis_enforced_def) (simp add: life_session_def janus_slvoice_session_zero_def)
  then show ?thesis unfolding Let_def
    by (rule presence_fence [where uid = 33 and dumps = "\<lambda>j. Some ''x''"]) (simp_all add: fits_def room)
qed

theorem join_gap_leaves_ghost_witness:
  "let ja = \<lparr>ja_user_id = 33, ja_display = Some ''cat'', ja_recorder = False,
         ja_media = \<lparr>ma_dec_ok = True, ma_enc_ok = True, ma_seq = 0, ma_ts = 0, ma_ssrc = 0\<rparr>\<rparr>;
       m1 = upd_session 3 (join_session 9 0 ja) life_sample;
       m2 = janus_slvoice_destroy_session (\<lambda>j. Some ''x'') auth_knobs_sample 9 3 m1;
       m3 = fst (join_room auth_knobs_sample 9 0 3 (join_uid ja) m2)
   in (33, 3) \<in> set (rm_participants (room_at m3 0)) \<and> se_room (session_of m3 3) = None"
  using join_gap_leaves_ghost [of life_sample 0 3 9 "\<lparr>ja_user_id = 33, ja_display = Some ''cat'', ja_recorder = False,
         ja_media = \<lparr>ma_dec_ok = True, ma_enc_ok = True, ma_seq = 0, ma_ts = 0, ma_ssrc = 0\<rparr>\<rparr>" "\<lambda>j. Some ''x''" auth_knobs_sample 9 9]
  by (simp add: Let_def join_uid_def) (simp add: life_sample_defs)

end
