(* ===== verification/Startup.thy ===== *)
theory Startup
  imports Membership
begin

text \<open>
  The start of the process: \<^verbatim>\<open>src/src/roomsize.h\<close> and, in \<^verbatim>\<open>src/src/janus_slvoice.c\<close>, the settings read from the
  environment and the configuration file (\<^verbatim>\<open>janus_slvoice_vis_load_knobs\<close>, \<^verbatim>\<open>janus_slvoice_joincap_load_knobs\<close>,
  \<^verbatim>\<open>janus_slvoice_init\<close>), the static rooms, and the end, \<^verbatim>\<open>janus_slvoice_teardown\<close>. An environment variable is a
  text or absent; the parsed configuration is the parameter \<open>slv_config\<close>.
\<close>

subsection \<open>Numbers in texts\<close>

text \<open>\<^verbatim>\<open>g_ascii_strtoull\<close>, base 10: the value and where the conversion ended, None when there is no digit.\<close>

definition g_ascii_strtoull :: "string \<Rightarrow> nat \<times> string option" where
  "g_ascii_strtoull s =
     (let t = dropWhile c_isspace s;
          neg = (t \<noteq> [] \<and> hd t = CHR ''-'');
          u = (if t \<noteq> [] \<and> hd t \<in> {CHR ''-'', CHR ''+''} then tl t else t);
          ds = takeWhile c_isdigit u;
          v = nat (dec_value ds)
      in if ds = [] then (0, None)
         else (if v \<ge> 2 ^ 64 then 2 ^ 64 - 1 else if neg then (2 ^ 64 - v) mod 2 ^ 64 else v, Some (dropWhile c_isdigit u)))"

lemma c_code_digit: "d < 10 \<Longrightarrow> c_code (char_of (48 + d)) = 48 + d"
  by (simp add: c_code_def)

lemma digit_char:
  assumes "d < (10::nat)"
  shows "c_isdigit (char_of (48 + d))" "\<not> c_isspace (char_of (48 + d))" "char_of (48 + d) \<noteq> CHR ''-''" "char_of (48 + d) \<noteq> CHR ''+''"
proof -
  have "d \<in> {0, 1, 2, 3, 4, 5, 6, 7, 8, 9}" using assms by auto
  then show "c_isdigit (char_of (48 + d))" "\<not> c_isspace (char_of (48 + d))" "char_of (48 + d) \<noteq> CHR ''-''" "char_of (48 + d) \<noteq> CHR ''+''"
    by (auto simp: c_isdigit_def c_isspace_def c_code_def char_of_def bit_0)
qed

lemma dec_text_digits: "dec_text n \<noteq> [] \<and> (\<forall>c\<in>set (dec_text n). c_isdigit c \<and> \<not> c_isspace c \<and> c \<noteq> CHR ''-'' \<and> c \<noteq> CHR ''+'')"
proof (induction n rule: dec_text.induct)
  case (1 n)
  show ?case
  proof (cases "n < 10")
    case True
    then show ?thesis using digit_char [of n] by (simp add: dec_text.simps [of n])
  next
    case False
    have "n mod 10 < 10" by simp
    from 1 [OF False] digit_char [OF this] False show ?thesis by (simp add: dec_text.simps [of n])
  qed
qed

lemma dec_value_text: "dec_value (dec_text n) = int n"
proof (induction n rule: dec_text.induct)
  case (1 n)
  have "n mod 10 < 10" by simp
  note c = c_code_digit [OF this]
  show ?case
  proof (cases "n < 10")
    case True
    then show ?thesis using c_code_digit [OF True] by (simp add: dec_text.simps [of n] dec_value_def)
  next
    case False
    have "dec_value (dec_text n) = dec_value (dec_text (n div 10)) * 10 + int (n mod 10)"
      using False c by (simp add: dec_text.simps [of n] dec_value_def)
    moreover have "int (n div 10) * 10 + int (n mod 10) = int n" by presburger
    ultimately show ?thesis using 1 [OF False] by (simp only:)
  qed
qed

lemma take_digits:
  assumes "\<forall>c\<in>set ds. c_isdigit c \<and> \<not> c_isspace c \<and> c \<noteq> CHR ''-'' \<and> c \<noteq> CHR ''+''" "ds \<noteq> []"
  shows "dropWhile c_isspace ds = ds" "hd ds \<noteq> CHR ''-''" "hd ds \<noteq> CHR ''+''" "takeWhile c_isdigit ds = ds" "dropWhile c_isdigit ds = []"
  using assms by (cases ds; auto simp: takeWhile_eq_all_conv)+

lemma strtol_dec_text: "strtol (dec_text n) = (if int n > LONG_MAX then (LONG_MAX, [], True) else (int n, [], False))"
proof -
  note D = take_digits [OF dec_text_digits [THEN conjunct2] dec_text_digits [THEN conjunct1], of n]
  show ?thesis using dec_text_digits [of n] by (simp add: strtol_def Let_def D dec_value_text LONG_MIN_def)
qed

lemma strtoull_dec_text: "g_ascii_strtoull (dec_text n) = (if n \<ge> 2 ^ 64 then 2 ^ 64 - 1 else n, Some [])"
proof -
  note D = take_digits [OF dec_text_digits [THEN conjunct2] dec_text_digits [THEN conjunct1], of n]
  show ?thesis using dec_text_digits [of n] by (simp add: g_ascii_strtoull_def Let_def D dec_value_text)
qed

subsection \<open>The room size\<close>

definition SLV_ROOM_SIZE_MIN :: int where [slv_const]: "SLV_ROOM_SIZE_MIN = 2"
definition SLV_ROOM_SIZE_DEFAULT :: int where [slv_const]: "SLV_ROOM_SIZE_DEFAULT = 50"

datatype slv_room_size_verdict = SLV_ROOM_SIZE_UNSET | SLV_ROOM_SIZE_OK | SLV_ROOM_SIZE_INVALID

definition slv_room_size_parse :: "string option \<Rightarrow> int \<Rightarrow> slv_room_size_verdict \<times> int" where
  "slv_room_size_parse text cap =
     (let out = (if SLV_ROOM_SIZE_DEFAULT > cap then cap else SLV_ROOM_SIZE_DEFAULT) in
      case text of
        None \<Rightarrow> (SLV_ROOM_SIZE_UNSET, out)
      | Some t \<Rightarrow>
          if t = [] then (SLV_ROOM_SIZE_UNSET, out)
          else case strtol t of (v, rest, er) \<Rightarrow>
            if er \<or> rest \<noteq> [] \<or> v < SLV_ROOM_SIZE_MIN \<or> v > cap then (SLV_ROOM_SIZE_INVALID, out)
            else (SLV_ROOM_SIZE_OK, v))"

lemma room_size_bounds:
  assumes "2 \<le> cap"
  shows "2 \<le> snd (slv_room_size_parse text cap)" "snd (slv_room_size_parse text cap) \<le> cap"
  using assms by (auto simp: slv_room_size_parse_def Let_def slv_const split: option.split prod.split)

text \<open>
  The room size: the text of a number is used exactly when the number is between 2 and the compiled maximum, and any other
  number is refused in favour of the default, however large it is.
\<close>

theorem room_size_text:
  "slv_room_size_parse (Some (dec_text n)) (int SLV_MAX_MIX) =
     (if 2 \<le> n \<and> n \<le> 110 then (SLV_ROOM_SIZE_OK, int n) else (SLV_ROOM_SIZE_INVALID, 50))"
  using dec_text_digits [of n] by (simp add: slv_room_size_parse_def strtol_dec_text slv_const LONG_MAX_def)

subsection \<open>Seconds, echo and the visibility settings\<close>

text \<open>The two time-outs of \<^verbatim>\<open>janus_slvoice_init\<close>, read by the same code.\<close>

definition slv_env_seconds :: "string option \<Rightarrow> nat \<Rightarrow> nat" where
  "slv_env_seconds env dflt =
     (case env of
        None \<Rightarrow> dflt
      | Some t \<Rightarrow>
          if t = [] then dflt
          else case strtol t of (v, rest, er) \<Rightarrow> if rest = [] \<and> v \<ge> 0 \<and> v \<le> 86400 then nat v else dflt)"

definition echo_autostart_from :: "string option \<Rightarrow> string option \<Rightarrow> bool" where
  "echo_autostart_from cfg env =
     (let echo = (case cfg of None \<Rightarrow> False | Some ea \<Rightarrow> strcaseeq ea ''true'' \<or> strcaseeq ea ''yes'')
      in case env of
           None \<Rightarrow> echo
         | Some e \<Rightarrow>
             if strcaseeq e ''true'' \<or> strcaseeq e ''1'' \<or> strcaseeq e ''yes'' then True
             else if strcaseeq e ''false'' \<or> strcaseeq e ''0'' \<or> strcaseeq e ''no'' then False
             else echo)"

record slv_vis_knobs =
  vk_fail_closed :: bool
  vk_stale_ms :: nat
  vk_mixer_instance :: string

definition janus_slvoice_vis_load_knobs :: "string option \<Rightarrow> string option \<Rightarrow> u64 \<Rightarrow> slv_vis_knobs" where
  "janus_slvoice_vis_load_knobs fc_env st_env random =
     \<lparr>vk_fail_closed = snd (slv_vis_fail_closed_from_env fc_env), vk_stale_ms = snd (slv_vis_stale_ms_from_env st_env),
      vk_mixer_instance = slv_vis_format_epoch random\<rparr>"

subsection \<open>The static rooms\<close>

record slv_cfg_category =
  cc_name :: "string option"
  cc_room :: "string option"
  cc_description :: "string option"
  cc_sampling_rate :: "string option"
  cc_is_private :: "string option"
  cc_spatial_audio :: "string option"

definition rooms_insert :: "nat \<Rightarrow> nat \<Rightarrow> slv_mixer \<Rightarrow> slv_mixer" where
  "rooms_insert i a m = m\<lparr>mx_rooms := mx_rooms m @ [(i, a)]\<rparr>"

text \<open>One category of the file; \<open>ok\<close>: does the tick thread of that room start?\<close>

definition load_static_room :: "(nat \<Rightarrow> bool) \<Rightarrow> int \<Rightarrow> slv_cfg_category \<Rightarrow> slv_mixer \<Rightarrow> slv_mixer" where
  "load_static_room ok now c m =
     (case (cc_name c, cc_room c) of
        (Some name, Some room_s) \<Rightarrow>
          let room_id = fst (g_ascii_strtoull room_s) in
          if strcaseeq name ''general'' \<or> room_id = 0 then m
          else
            let rate = (case cc_sampling_rate c of None \<Rightarrow> 48000 | Some r \<Rightarrow> fst (g_ascii_strtoull r) mod 2 ^ 32);
                is_private = (case cc_is_private c of None \<Rightarrow> False | Some p \<Rightarrow> strcaseeq p ''true'' \<or> strcaseeq p ''yes'')
            in if map_of (mx_rooms m) room_id = None then
                 (case janus_slvoice_room_create (ok room_id) now
                     \<lparr>ra_id = room_id, ra_desc = cc_description c, ra_private = is_private, ra_rate = rate,
                      ra_spatial = janus_slvoice_spatial_from_cfg (cc_spatial_audio c), ra_permanent = True,
                      ra_vis_authority = False, ra_sim_created = False\<rparr> m of
                   (m, None) \<Rightarrow> m
                 | (m, Some a) \<Rightarrow> rooms_insert room_id a m)
               else m
      | _ \<Rightarrow> m)"

definition janus_slvoice_load_static_rooms :: "(nat \<Rightarrow> bool) \<Rightarrow> int \<Rightarrow> slv_cfg_category list \<Rightarrow> slv_mixer \<Rightarrow> slv_mixer" where
  "janus_slvoice_load_static_rooms ok now cats m = fold (load_static_room ok now) cats m"

subsection \<open>The start and the end\<close>

record slv_config =
  cf_categories :: "slv_cfg_category list"
  cf_echo_autostart :: "string option"
  cf_spatial :: "slv_cfg_double \<times> slv_cfg_double \<times> slv_cfg_double \<times> slv_cfg_double \<times> slv_cfg_double"

record slv_env =
  ev_echo_autostart :: "string option"
  ev_empty_room_grace_s :: "string option"
  ev_join_media_timeout_s :: "string option"
  ev_room_size :: "string option"
  ev_vis_fail_closed :: "string option"
  ev_vis_stale_ms :: "string option"
  ev_join_cap_required :: "string option"
  ev_join_cap_secret :: "string option"

text \<open>\<^verbatim>\<open>janus_slvoice_init\<close> up to the threads: the settings and the process it starts with.\<close>

definition janus_slvoice_init :: "(nat \<Rightarrow> bool) \<Rightarrow> int \<Rightarrow> u64 \<Rightarrow> slv_env \<Rightarrow> slv_config \<Rightarrow> slv_knobs \<times> slv_mixer" where
  "janus_slvoice_init ok now random env cfg =
     (let m = janus_slvoice_load_static_rooms ok now (cf_categories cfg) slv_mixer_init;
          vk = janus_slvoice_vis_load_knobs (ev_vis_fail_closed env) (ev_vis_stale_ms env) random;
          jg = janus_slvoice_joincap_load_knobs (snd (slv_vis_fail_closed_from_env (ev_join_cap_required env))) (ev_join_cap_secret env)
      in (\<lparr>kn_fail_closed = vk_fail_closed vk, kn_stale_ms = vk_stale_ms vk, kn_mixer_instance = vk_mixer_instance vk,
            kn_room_size = nat (snd (slv_room_size_parse (ev_room_size env) (int SLV_MAX_MIX))),
            kn_empty_room_grace_s = slv_env_seconds (ev_empty_room_grace_s env) SLV_EMPTY_ROOM_GRACE_S,
            kn_join_media_timeout_s = slv_env_seconds (ev_join_media_timeout_s env) SLV_JOIN_MEDIA_TIMEOUT_S,
            kn_echo_autostart = echo_autostart_from (cf_echo_autostart cfg) (ev_echo_autostart env),
            kn_join_cap_required = jg_required jg, kn_join_cap_key = jg_key jg,
            kn_spatial = spatial_settings (cf_spatial cfg)\<rparr>, m))"

definition janus_slvoice_teardown :: "slv_mixer \<Rightarrow> slv_mixer" where
  "janus_slvoice_teardown m =
     (let m = m\<lparr>mx_live := []\<rparr>;
          m = fold (\<lambda>a. upd_room a (\<lambda>r. janus_slvoice_room_stop (r\<lparr>rm_destroyed := True\<rparr>))) (map snd (mx_rooms m)) m
      in m\<lparr>mx_rooms := []\<rparr>)"

subsection \<open>What the process starts with\<close>

lemma env_seconds_bound: "dflt \<le> 86400 \<Longrightarrow> slv_env_seconds env dflt \<le> 86400"
  by (auto simp: slv_env_seconds_def split: option.split prod.split)

lemma stale_ms_bounds: "7250 \<le> snd (slv_vis_stale_ms_from_env v) \<and> snd (slv_vis_stale_ms_from_env v) \<le> 600000"
  using stale_window_bounds [of v] unfolding stale_min_value by (simp add: slv_const)

lemma static_rooms_inv: "mixer_inv k m \<Longrightarrow> now \<noteq> 0 \<Longrightarrow> mixer_inv k (janus_slvoice_load_static_rooms ok now cats m)"
proof -
  have one: "mixer_inv k (load_static_room ok now c m)" if "mixer_inv k m" "now \<noteq> 0" for c m
  proof (cases "cc_name c = None \<or> cc_room c = None")
    case True
    then show ?thesis using that(1) by (auto simp: load_static_room_def split: option.split)
  next
    case False
    then obtain name room_s where c: "cc_name c = Some name" "cc_room c = Some room_s" by auto
    define i where "i = fst (g_ascii_strtoull room_s)"
    define ra where "ra = \<lparr>ra_id = i, ra_desc = cc_description c,
      ra_private = (case cc_is_private c of None \<Rightarrow> False | Some p \<Rightarrow> strcaseeq p ''true'' \<or> strcaseeq p ''yes''),
      ra_rate = (case cc_sampling_rate c of None \<Rightarrow> 48000 | Some r \<Rightarrow> fst (g_ascii_strtoull r) mod 2 ^ 32),
      ra_spatial = janus_slvoice_spatial_from_cfg (cc_spatial_audio c), ra_permanent = True,
      ra_vis_authority = False, ra_sim_created = False\<rparr>"
    have ra: "ra_id ra = i" "load_static_room ok now c m =
        (if strcaseeq name ''general'' \<or> i = 0 then m
         else if map_of (mx_rooms m) i = None then
           (case janus_slvoice_room_create (ok i) now ra m of (n, None) \<Rightarrow> n | (n, Some a) \<Rightarrow> rooms_insert i a n)
         else m)"
      unfolding load_static_room_def c option.case prod.case Let_def i_def ra_def by simp_all
    obtain n res where n: "janus_slvoice_room_create (ok i) now ra m = (n, res)" by fastforce
    show ?thesis
    proof (cases res)
      case None
      then have "n = m" using n by (auto simp: janus_slvoice_room_create_def Let_def split: prod.splits if_splits)
      then show ?thesis using that(1) by (simp add: ra(2) n None)
    next
      case (Some a)
      have "mixer_inv k (rooms_insert i a n)" if "map_of (mx_rooms m) i = None"
        using create_inv [OF \<open>mixer_inv k m\<close> n [unfolded Some] _ \<open>now \<noteq> 0\<close>] that
        by (simp add: map_of_eq_None_iff ra(1) rooms_insert_def)
      then show ?thesis using that(1) by (simp add: ra(2) n Some)
    qed
  qed
  show "mixer_inv k m \<Longrightarrow> now \<noteq> 0 \<Longrightarrow> mixer_inv k (janus_slvoice_load_static_rooms ok now cats m)"
    unfolding janus_slvoice_load_static_rooms_def by (induction cats arbitrary: m) (simp_all add: one)
qed

lemma init_room_size: "2 \<le> kn_room_size (fst (janus_slvoice_init ok now random env cfg)) \<and>
  kn_room_size (fst (janus_slvoice_init ok now random env cfg)) \<le> SLV_MAX_MIX"
proof -
  let ?rs = "snd (slv_room_size_parse (ev_room_size env) (int SLV_MAX_MIX))"
  have "2 \<le> ?rs" "?rs \<le> 110" using room_size_bounds [of "int SLV_MAX_MIX" "ev_room_size env"] by (simp_all add: SLV_MAX_MIX_def)
  then have "2 \<le> nat ?rs" "nat ?rs \<le> SLV_MAX_MIX" by (simp_all add: SLV_MAX_MIX_def)
  then show ?thesis by (simp add: janus_slvoice_init_def Let_def)
qed

text \<open>
  Whatever the environment and the configuration hold, the process starts with usable settings: a room admits between 2
  and 110 participants, a time-out is at most a day, the staleness window lies between the minimum the heartbeat needs
  and ten minutes, the distances are ordered and positive, the capability is required only when there is a key, and the
  instance name has sixteen digits.
\<close>

theorem startup_settings:
  "case fst (janus_slvoice_init ok now random env cfg) of k \<Rightarrow>
     2 \<le> kn_room_size k \<and> kn_room_size k \<le> SLV_MAX_MIX \<and>
     kn_empty_room_grace_s k \<le> 86400 \<and> kn_join_media_timeout_s k \<le> 86400 \<and>
     7250 \<le> kn_stale_ms k \<and> kn_stale_ms k \<le> SLV_VIS_STALE_MS_MAX \<and> spatial_ok (kn_spatial k) \<and>
     (case kn_join_cap_key k of None \<Rightarrow> \<not> kn_join_cap_required k | Some key \<Rightarrow> key \<noteq> []) \<and>
     length (kn_mixer_instance k) = 16"
proof -
  have "slv_env_seconds e SLV_EMPTY_ROOM_GRACE_S \<le> 86400" "slv_env_seconds e SLV_JOIN_MEDIA_TIMEOUT_S \<le> 86400" for e
    by (simp_all add: env_seconds_bound slv_const)
  moreover have "length (slv_vis_format_epoch random) = 16" by simp
  ultimately show ?thesis
    using init_room_size [of ok now random env cfg] stale_ms_bounds [of "ev_vis_stale_ms env"] spatial_settings_ok [of "cf_spatial cfg"]
    by (simp add: janus_slvoice_init_def Let_def janus_slvoice_vis_load_knobs_def SLV_VIS_STALE_MS_MAX_def
        janus_slvoice_joincap_load_knobs_def split: option.split)
qed

lemma init_inv:
  assumes "now \<noteq> 0" "janus_slvoice_init ok now random env cfg = (k, m)"
  shows "mixer_inv k m"
  using static_rooms_inv [OF mixer_inv_init assms(1)] assms(2) by (auto simp: janus_slvoice_init_def Let_def)

end
