(* ===== verification/Admin.thy ===== *)
theory Admin
  imports Startup
begin

text \<open>
  The messages of the simulators, in \<^verbatim>\<open>src/src/janus_slvoice.c\<close>: \<^verbatim>\<open>janus_slvoice_handle_admin_message\<close> with the visibility
  batch, the heartbeat (\<^verbatim>\<open>janus_slvoice_handle_heartbeat\<close>) and the positions (\<^verbatim>\<open>janus_slvoice_handle_peer_pos\<close>), and
  the replies they build. The library functions and the memory are the parameter \<open>slv_admin_env\<close>.
\<close>

record slv_admin_env =
  ae_loadb :: "string \<Rightarrow> json option"
  ae_dumps :: "json \<Rightarrow> string option"
  ae_vis_mem :: slv_vis_mem
  ae_pos_mem :: bool
  ae_store_mem :: bool

subsection \<open>Replies\<close>

definition janus_slvoice_vis_reply_common :: "slv_knobs \<Rightarrow> json \<Rightarrow> json" where
  "janus_slvoice_vis_reply_common k response =
     json_object_sets [(''vis_protocol'', JInt SLV_VIS_PROTOCOL), (''mixer_instance'', JString (kn_mixer_instance k))] response"

definition janus_slvoice_vis_reply_room_locked ::
  "janus_slvoice_room option \<Rightarrow> string \<Rightarrow> string list \<Rightarrow> string list \<Rightarrow> json \<Rightarrow> json"
where
  "janus_slvoice_vis_reply_room_locked room status stale unarmed obj =
     json_object_sets
       [(''status'', JString status),
        (''authority_epoch'', JString (slv_vis_format_epoch (case room of None \<Rightarrow> 0 | Some r \<Rightarrow> rm_vis_auth_epoch r))),
        (''policy_generation'', JInt (case room of None \<Rightarrow> 0 | Some r \<Rightarrow> int (unat (rm_vis_policy_gen r)))),
        (''unarmed_listeners'', JArray (map JString unarmed)), (''stale_listeners'', JArray (map JString stale))] obj"

definition error_reply :: "slv_knobs \<Rightarrow> string \<Rightarrow> (string \<times> json) list \<Rightarrow> json" where
  "error_reply k reason extra =
     janus_slvoice_vis_reply_common k
       (json_object_sets ((''slvoice'', JString ''error'') # (''reason'', JString reason) # extra) (JObject []))"

subsection \<open>The heartbeat\<close>

text \<open>The staleness window an interval needs.\<close>

definition heartbeat_needs_ms :: "int \<Rightarrow> u64" where
  "heartbeat_needs_ms interval =
     (if interval > int SLV_VIS_STALE_MS_MAX then - 1 else slv_vis_stale_min_ms (of_int interval))"

text \<open>One member of \<^verbatim>\<open>rooms\<close>, and the reply's object of the rooms so far.\<close>

definition heartbeat_member ::
  "slv_knobs \<Rightarrow> u64 \<Rightarrow> bool \<Rightarrow> bool \<Rightarrow> int \<Rightarrow> string \<times> json \<Rightarrow> slv_mixer \<times> json \<Rightarrow> slv_mixer \<times> json"
where
  "heartbeat_member k epoch feed_stale stopping now = (\<lambda>(rkey, rval) (m, rooms_out).
     case g_ascii_strtoull rkey of (rid, end_ptr) \<Rightarrow>
       if end_ptr \<noteq> Some [] \<or> rid = 0 then (m, rooms_out)
       else case janus_slvoice_room_ref_by_id m rid of
           None \<Rightarrow> (m, json_object_set rooms_out rkey
                     (janus_slvoice_vis_reply_room_locked None ''unknown_room'' [] [] (JObject [])))
         | Some a \<Rightarrow>
             (case heartbeat_room k epoch feed_stale stopping now rval (room_at m a) of
                (room, status, stale, unarmed) \<Rightarrow>
                  (upd_room a (\<lambda>_. room) m, json_object_set rooms_out rkey
                     (janus_slvoice_vis_reply_room_locked (Some room) status stale unarmed (JObject [])))))"

definition janus_slvoice_handle_heartbeat :: "slv_knobs \<Rightarrow> int \<Rightarrow> json option \<Rightarrow> slv_mixer \<Rightarrow> slv_mixer \<times> json" where
  "janus_slvoice_handle_heartbeat k now message m =
     (let jepoch = json_object_get message ''room_epoch'';
          jinterval = json_object_get message ''interval_ms'';
          jrooms = json_object_get message ''rooms'';
          jfeed_age = json_object_get message ''feed_age_ms'';
          epoch = (if json_is_string jepoch then slv_vis_parse_epoch (json_string_value jepoch) else None)
      in if epoch = None \<or> \<not> json_is_integer jinterval \<or> json_integer_value jinterval < 1 \<or>
            (jrooms \<noteq> None \<and> \<not> json_is_object jrooms)
         then (m, error_reply k ''malformed'' [])
         else if unat (heartbeat_needs_ms (json_integer_value jinterval)) > kn_stale_ms k
         then (m, error_reply k ''interval_too_long'' [(''stale_ms'', JInt (int (kn_stale_ms k)))])
         else
           let feed_age_ms = (if json_is_integer jfeed_age then json_integer_value jfeed_age else -1);
               feed_stale = (\<not> slv_vis_feed_live (json_is_integer jfeed_age) feed_age_ms (of_nat (kn_stale_ms k)));
               jstate = json_object_get message ''state'';
               stopping = (json_string_value jstate = Some ''stopping'');
               (m, rooms_out) = fold (heartbeat_member k (the epoch) feed_stale stopping now) (json_members jrooms) (m, JObject [])
           in (m, json_object_sets [(''rooms'', rooms_out)]
                (janus_slvoice_vis_reply_common k (json_object_sets [(''slvoice'', JString ''heartbeat'')] (JObject [])))))"

subsection \<open>Positions\<close>

text \<open>The room's part of a well-formed request: None when it was accepted, or the refusal, with what was stored and dropped.\<close>

definition peer_pos_room ::
  "slv_knobs \<Rightarrow> int \<Rightarrow> slv_posbatch \<Rightarrow> janus_slvoice_room \<Rightarrow> janus_slvoice_room \<times> string option \<times> nat \<times> nat"
where
  "peer_pos_room k now pb room =
     (let rs = rm_pos_stats room; epoch = (if pb_has_epoch pb then pb_room_epoch pb else 0) in
      if pb_has_epoch pb \<and> rm_vis_auth_epoch room \<noteq> 0 \<and> pb_room_epoch pb < rm_vis_auth_epoch room \<and>
         \<not> slv_vis_authority_stale (rm_vis_auth_last_us room) now (janus_slvoice_vis_stale_us k)
      then (room\<lparr>rm_pos_stats := rs\<lparr>pr_rejected_stale_epoch := pr_rejected_stale_epoch rs + 1\<rparr>\<rparr>, Some ''stale_epoch'', 0, 0)
      else if pr_have_batch rs \<and> epoch = pr_epoch rs \<and> pb_seq pb \<le> pr_last_seq rs
      then (room\<lparr>rm_pos_stats := rs\<lparr>pr_rejected_stale_seq := pr_rejected_stale_seq rs + 1\<rparr>\<rparr>, Some ''stale_seq'', 0, 0)
      else
        let store = (if pr_have_batch rs \<and> epoch \<noteq> pr_epoch rs then slv_pos_store_clear else rm_pos_store room);
            (store, stored, dropped) = slv_pos_store_apply store pb now
        in (room\<lparr>rm_pos_store := store,
              rm_pos_stats := rs\<lparr>pr_have_batch := True, pr_epoch := epoch, pr_last_seq := pb_seq pb, pr_last_us := now,
                pr_batches := pr_batches rs + 1,
                pr_full_batches := (if pb_full pb then pr_full_batches rs + 1 else pr_full_batches rs),
                pr_enforce_requests := (if pb_enforce_requested pb then pr_enforce_requests rs + 1 else pr_enforce_requests rs),
                pr_entries_applied := pr_entries_applied rs + stored,
                pr_entries_skipped := pr_entries_skipped rs + pb_n_skipped pb,
                pr_entries_dropped_full := pr_entries_dropped_full rs + dropped\<rparr>\<rparr>, None, stored, dropped))"

definition janus_slvoice_handle_peer_pos ::
  "slv_admin_env \<Rightarrow> slv_knobs \<Rightarrow> int \<Rightarrow> json \<Rightarrow> slv_mixer \<Rightarrow> slv_mixer \<times> json"
where
  "janus_slvoice_handle_peer_pos ae k now message m =
     (case slv_posbatch_parse (ae_loadb ae) (ae_pos_mem ae) (ae_dumps ae message) of
        (SLV_POS_OK, pb) \<Rightarrow>
          (case janus_slvoice_room_ref_by_id m (u64_of_json_int (pb_room pb)) of
             None \<Rightarrow> (m\<lparr>mx_pos_unknown_room_total := mx_pos_unknown_room_total m + 1\<rparr>, error_reply k ''unknown_room'' [])
           | Some a \<Rightarrow>
               (case peer_pos_room k now pb (room_at m a) of
                  (room, Some refusal, _, _) \<Rightarrow> (upd_room a (\<lambda>_. room) m, error_reply k refusal [])
                | (room, None, stored, dropped) \<Rightarrow>
                    (upd_room a (\<lambda>_. room) m, janus_slvoice_vis_reply_common k
                       (json_object_sets
                          [(''slvoice'', JString ''applied''), (''op'', JString ''pos''), (''room'', JInt (pb_room pb)),
                           (''seq'', JInt (pb_seq pb)), (''full'', JBool (pb_full pb)), (''entries'', JInt (int stored)),
                           (''skipped'', JInt (int (pb_n_skipped pb))), (''dropped'', JInt (int dropped)),
                           (''pos_mode'', JString ''observe'')] (JObject [])))))
      | (st, _) \<Rightarrow>
          (if st = SLV_POS_TOOBIG then m\<lparr>mx_pos_toobig_total := mx_pos_toobig_total m + 1\<rparr>
           else m\<lparr>mx_pos_malformed_total := mx_pos_malformed_total m + 1\<rparr>,
           error_reply k (slv_pos_status_str st) []))"

subsection \<open>The visibility batch\<close>

text \<open>A batch that named a room: the authority's check, both channels unless it refused, and the reply.\<close>

definition batch_reply_channels :: "slv_visbatch \<Rightarrow> nat \<Rightarrow> (string \<times> json) list" where
  "batch_reply_channels vb deferred =
     [(''slvoice'', JString ''applied''), (''op'', JString (slv_vis_op_str (vb_op vb))), (''room'', JInt (vb_room vb)),
      (''entries'', JInt (int (length (vb_entries vb)))), (''mute_entries'', JInt (int (length (vb_mute_entries vb)))),
      (''skipped'', JInt (int (vb_n_skipped vb))), (''deferred_listeners'', JInt (int deferred))]"

definition batch_room ::
  "slv_admin_env \<Rightarrow> slv_knobs \<Rightarrow> int \<Rightarrow> slv_visbatch \<Rightarrow> nat \<Rightarrow> slv_mixer \<Rightarrow> slv_mixer \<times> json"
where
  "batch_room ae k now vb a m =
     (case janus_slvoice_vis_batch_authority_locked k vb now (room_at m a) of
        (room, vo) \<Rightarrow>
          let m = upd_room a (\<lambda>_. room) m;
              (m, response) =
                (if vo_refused vo then
                   (m, json_object_sets [(''slvoice'', JString ''error''),
                          (''reason'', JString (if vo_verdict vo = SLV_VIS_EPOCH_STALE then ''stale_epoch'' else ''stale_generation''))]
                        (JObject []))
                 else case apply_channels (ae_dumps ae) (ae_store_mem ae) k now a vb (vo_skip vo) m of
                   (m, deferred) \<Rightarrow> (m, json_object_sets (batch_reply_channels vb deferred) (JObject [])));
              response =
                (if vb_has_epoch vb then
                   let response = janus_slvoice_vis_reply_room_locked (Some (room_at m a))
                         (if vo_verdict vo = SLV_VIS_EPOCH_STALE then ''stale_epoch''
                          else if rm_vis_declared (room_at m a) then ''ok'' else ''undeclared_room'')
                         (vo_stale vo) (vo_unarmed vo) response
                   in if vo_stale_generation vo then json_object_set response ''stale_generation'' (JBool True) else response
                 else response)
          in (m, janus_slvoice_vis_reply_common k response))"

definition handle_batch :: "slv_admin_env \<Rightarrow> slv_knobs \<Rightarrow> int \<Rightarrow> json \<Rightarrow> slv_mixer \<Rightarrow> slv_mixer \<times> json" where
  "handle_batch ae k now message m =
     (case slv_visbatch_parse (ae_loadb ae) (ae_vis_mem ae) (ae_dumps ae message) of
        (SLV_VISBATCH_OK, vb) \<Rightarrow>
          (case janus_slvoice_room_ref_by_id m (u64_of_json_int (vb_room vb)) of
             None \<Rightarrow> (m, error_reply k ''unknown_room'' (if vb_has_epoch vb then [(''status'', JString ''unknown_room'')] else []))
           | Some a \<Rightarrow> batch_room ae k now vb a m)
      | (SLV_VISBATCH_EMPTY, vb) \<Rightarrow>
          (m, janus_slvoice_vis_reply_common k
             (json_object_sets [(''slvoice'', JString ''empty''), (''skipped'', JInt (int (vb_n_skipped vb)))] (JObject [])))
      | (st, vb) \<Rightarrow> (m, error_reply k (if st = SLV_VISBATCH_TOOBIG then ''too_big'' else ''malformed'') []))"

definition janus_slvoice_handle_admin_message ::
  "slv_admin_env \<Rightarrow> slv_knobs \<Rightarrow> int \<Rightarrow> json option \<Rightarrow> slv_mixer \<Rightarrow> slv_mixer \<times> json"
where
  "janus_slvoice_handle_admin_message ae k now message m =
     (let request_text = (if json_is_object message then json_string_value (json_object_get message ''request'') else None) in
      if request_text = Some ''peer_ctl_heartbeat'' then janus_slvoice_handle_heartbeat k now message m
      else if request_text = Some ''peer_pos'' then janus_slvoice_handle_peer_pos ae k now (the message) m
      else if request_text = Some ''peer_ctl_batch'' then handle_batch ae k now (the message) m
      else (m, json_object_sets [(''slvoice'', JString ''error''), (''reason'', JString ''unknown_request'')] (JObject [])))"

subsection \<open>Memberships are not touched\<close>

text \<open>What the authority of a room does not touch.\<close>

definition aside :: "janus_slvoice_room \<Rightarrow> ((nat \<times> nat) list \<times> nat \<times> bool \<times> int \<times> bool \<times> bool) \<times> slv_deferred_store \<times> slv_pos_store" where
  "aside r = (roll r, rm_vis_deferred r, rm_pos_store r)"

lemma aside_sel: "aside r = aside r' \<Longrightarrow> roll r = roll r'"
  by (simp add: aside_def)

lemma aside_records: "aside (r\<lparr>rm_vis_records := f\<rparr>) = aside r" "aside (r\<lparr>rm_vis_records_full := n\<rparr>) = aside r"
  by (simp_all add: aside_def roll_def room_seat_def)

lemma adopt_aside: "aside (snd (janus_slvoice_vis_adopt_locked k e now r)) = aside r"
  by (simp add: janus_slvoice_vis_adopt_locked_def Let_def aside_def roll_def room_seat_def)

lemma batch_listener_aside: "aside (fst (vis_batch_listener en vb gen now l (r, out))) = aside r"
  by (simp add: vis_batch_listener_def Let_def aside_records split: option.split)

lemma batch_fold_aside: "aside (fst (fold (vis_batch_listener en vb gen now) ls (r, out))) = aside r"
proof (induction ls arbitrary: r out)
  case (Cons l ls)
  obtain r1 o1 where s: "vis_batch_listener en vb gen now l (r, out) = (r1, o1)" by fastforce
  then show ?case using Cons.IH [of r1 o1] batch_listener_aside [of en vb gen now l r out] by simp
qed simp

lemma batch_authority_aside: "aside (fst (janus_slvoice_vis_batch_authority_locked k vb now r)) = aside r"
proof -
  obtain v r1 where a: "janus_slvoice_vis_adopt_locked k (vb_room_epoch vb) now r = (v, r1)" by fastforce
  have r1: "aside r1 = aside r" using adopt_aside [of k "vb_room_epoch vb" now r] by (simp add: a)
  have u: "aside (x\<lparr>rm_vis_policy_gen := g\<rparr>) = aside x" "aside (x\<lparr>rm_vis_stale_generation_rejects := n\<rparr>) = aside x" for x g n
    by (simp_all add: aside_def roll_def room_seat_def)
  show ?thesis by (simp add: janus_slvoice_vis_batch_authority_locked_def Let_def a batch_fold_aside u r1)
qed

lemma heartbeat_listener_aside: "aside (fst (vis_heartbeat_listener now lg (r, st, un))) = aside r"
  by (cases lg) (simp add: vis_heartbeat_listener_def aside_records split: option.split)

lemma heartbeat_fold_aside: "aside (fst (fold (vis_heartbeat_listener now) lgs (r, st, un))) = aside r"
proof (induction lgs arbitrary: r st un)
  case (Cons lg lgs)
  obtain r1 s1 u1 where s: "vis_heartbeat_listener now lg (r, st, un) = (r1, s1, u1)" by (metis prod_cases3)
  then show ?case using Cons.IH [of r1 s1 u1] heartbeat_listener_aside [of now lg r st un] by simp
qed simp

lemma heartbeat_room_aside: "aside (fst (heartbeat_room k e fs stopping now rval r)) = aside r"
proof -
  obtain v r1 where a: "janus_slvoice_vis_adopt_locked k e now r = (v, r1)" by fastforce
  have r1: "aside r1 = aside r" using adopt_aside [of k e now r] by (simp add: a)
  have u: "aside (x\<lparr>rm_vis_heartbeats := n\<rparr>) = aside x" "aside (x\<lparr>rm_vis_heartbeats_outdated := n\<rparr>) = aside x"
    "aside (x\<lparr>rm_vis_heartbeats_feed_stale := n\<rparr>) = aside x" "aside (vis_authority_stopping x) = aside x" for x n
    by (simp_all add: aside_def roll_def room_seat_def vis_authority_stopping_def)
  have l: "aside (fst (janus_slvoice_vis_heartbeat_listeners_locked js now x)) = aside x" for js x
    using heartbeat_fold_aside [of now "json_members js" x "[]" "[]"]
    by (simp add: janus_slvoice_vis_heartbeat_listeners_locked_def split_beta aside_records)
  show ?thesis unfolding heartbeat_room_def a Let_def prod.case
    by (simp only: split_beta if_distrib [of fst] if_distrib [of aside] fst_conv u l r1 if_cancel)
qed

lemma peer_pos_room_roll: "roll (fst (peer_pos_room k now pb r)) = roll r"
  by (simp add: peer_pos_room_def Let_def roll_def room_seat_def split_beta)

lemma upd_room_keeps: "roll r = roll (room_at m a) \<Longrightarrow> same_seats m (upd_room a (\<lambda>_. r) m)"
  by (rule same_seats_upd_room) simp

text \<open>Loops over the participants of a room, and over the entries of a batch.\<close>

lemma fold_members_keep:
  assumes "\<And>p m. se_room (session_of m p) \<noteq> None \<Longrightarrow> same_seats m (f p m)"
    and "\<And>p. p \<in> set ps \<Longrightarrow> se_room (session_of m p) \<noteq> None"
  shows "same_seats m (fold f ps m)"
  using assms(2)
proof (induction ps arbitrary: m)
  case (Cons p ps)
  have 1: "same_seats m (f p m)" using Cons.prems by (intro assms(1)) simp
  have "se_room (session_of (f p m) q) \<noteq> None" if "q \<in> set ps" for q
  proof -
    have "seat (session_of (f p m) q) = seat (session_of m q)" using 1 by (simp only: same_seats_def)
    from seat_sel(1) [OF this] show ?thesis using Cons.prems that by simp
  qed
  from Cons.IH [OF this] show ?case using same_seats_trans [OF 1] by simp
qed simp

lemma fold_entries_keep:
  assumes "\<And>e m n. seated m \<Longrightarrow> same_seats m (fst (f e (m, n)))" and "seated m"
  shows "same_seats m (fst (fold f es (m, n)))"
  using assms(2)
proof (induction es arbitrary: m n)
  case (Cons e es)
  obtain m1 n1 where s: "f e (m, n) = (m1, n1)" by fastforce
  have 1: "same_seats m m1" using assms(1) [OF Cons.prems, of e n] by (simp add: s)
  show ?case using Cons.IH [OF same_seats_seated [OF 1 Cons.prems], of n1] same_seats_trans [OF 1] by (simp add: s)
qed simp

lemma column_keeps:
  assumes "se_room (session_of m p) \<noteq> None" and "\<And>x. seat (f x) = seat x" and "\<And>m. relayed m (g m)"
  shows "same_seats m (g (upd_session p f m))"
  using same_seats_upd_session [of f m p] relayed_same_seats [OF assms(3)] assms(1,2) same_seats_trans by blast

lemma visbatch_session_keeps:
  "se_room (session_of m p) \<noteq> None \<Longrightarrow> same_seats m (visbatch_session dumps k now a op present e p m)"
  using column_keeps [of m p _ "relay_transitions dumps k now a p _"] relay_transitions_relayed
  by (simp add: visbatch_session_def split_beta Let_def seat_def)

lemma mutebatch_session_keeps:
  "se_room (session_of m p) \<noteq> None \<Longrightarrow> same_seats m (mutebatch_session dumps k now a op e p m)"
  using column_keeps [of m p _ "relay_mutes dumps k now a p _"] relay_mutes_relayed
  by (simp add: mutebatch_session_def split_beta Let_def seat_def)

lemma if_keeps: "same_seats m x \<Longrightarrow> same_seats m y \<Longrightarrow> same_seats m (if b then x else y)"
  by simp

lemma visbatch_entry_keeps: "seated m \<Longrightarrow> same_seats m (fst (visbatch_entry dumps mem k now a op present skip e (m, n)))"
proof -
  assume s: "seated m"
  have 1: "same_seats m (fold (visbatch_session dumps k now a op present e) (members (room_at m a)) m)"
    using s by (intro fold_members_keep visbatch_session_keeps) (auto simp: seated_def)
  have 2: "same_seats x (upd_room a (\<lambda>r. r\<lparr>rm_vis_dropped_listener_entries := f r, rm_vis_deferred := g r\<rparr>) x)" for x f g
    by (rule same_seats_upd_room) (simp add: roll_def room_seat_def)
  show ?thesis
    unfolding visbatch_entry_def Let_def prod.case
    by (simp only: if_distrib [of fst] fst_conv) (intro if_keeps same_seats_refl 1 same_seats_trans [OF 1 2])
qed

lemma mutebatch_entry_keeps: "seated m \<Longrightarrow> same_seats m (fst (mutebatch_entry dumps mem k now a op skip e (m, n)))"
proof -
  assume s: "seated m"
  have 1: "same_seats m (fold (mutebatch_session dumps k now a op e) (members (room_at m a)) m)"
    using s by (intro fold_members_keep mutebatch_session_keeps) (auto simp: seated_def)
  have 2: "same_seats x (upd_room a (\<lambda>r. r\<lparr>rm_vis_deferred := g r\<rparr>) x)" for x g
    by (rule same_seats_upd_room) (simp add: roll_def room_seat_def)
  show ?thesis
    unfolding mutebatch_entry_def Let_def prod.case
    by (simp only: if_distrib [of fst] fst_conv) (intro if_keeps same_seats_refl 1 same_seats_trans [OF 1 2])
qed

lemma channels_keep:
  assumes "seated m"
  shows "same_seats m (fst (apply_channels dumps mem k now a vb skip m))"
proof -
  have 1: "same_seats m (fst (janus_slvoice_apply_visbatch_locked dumps mem k now a vb skip m))"
  proof -
    obtain n d where f: "fold (visbatch_entry dumps mem k now a (vb_op vb) (room_displays m a) skip) (vb_entries vb) (m, 0) = (n, d)"
      by fastforce
    have "same_seats m (fst (fold (visbatch_entry dumps mem k now a (vb_op vb) (room_displays m a) skip) (vb_entries vb) (m, 0)))"
      by (rule fold_entries_keep [OF visbatch_entry_keeps assms])
    then have "same_seats m n" unfolding f by simp
    moreover have "same_seats n (upd_room a (\<lambda>r. r\<lparr>rm_vis_epoch := f1 r, rm_vis_last_ts := f2, rm_vis_last_mode := f3,
        rm_vis_last_batch_dropped_listeners := f4, rm_vis_joins_since_snapshot := f5 r\<rparr>) n)" for f1 f2 f3 f4 f5
      by (rule same_seats_upd_room) (simp add: roll_def room_seat_def)
    ultimately show ?thesis
      unfolding janus_slvoice_apply_visbatch_locked_def Let_def f prod.case fst_conv by (rule same_seats_trans)
  qed
  have 2: "same_seats n (fst (janus_slvoice_apply_mutebatch_locked dumps mem k now a vb skip n))" if "seated n" for n
    unfolding janus_slvoice_apply_mutebatch_locked_def by (rule fold_entries_keep [OF mutebatch_entry_keeps that])
  define n where "n = (if length (vb_entries vb) > 0 then fst (janus_slvoice_apply_visbatch_locked dumps mem k now a vb skip m) else m)"
  have n: "same_seats m n" using 1 by (simp add: n_def)
  have "fst (apply_channels dumps mem k now a vb skip m) =
      (if length (vb_mute_entries vb) > 0 then fst (janus_slvoice_apply_mutebatch_locked dumps mem k now a vb skip n) else n)"
    by (simp add: apply_channels_def n_def split_beta)
  then show ?thesis using same_seats_trans [OF n 2 [OF same_seats_seated [OF n assms]]] n by simp
qed

lemma batch_room_keeps: "seated m \<Longrightarrow> same_seats m (fst (batch_room ae k now vb a m))"
proof -
  assume s: "seated m"
  obtain room vo where a: "janus_slvoice_vis_batch_authority_locked k vb now (room_at m a) = (room, vo)" by fastforce
  define n where "n = upd_room a (\<lambda>_. room) m"
  have n: "same_seats m n"
    unfolding n_def using aside_sel [OF batch_authority_aside [of k vb now "room_at m a"]] by (intro upd_room_keeps) (simp add: a)
  have "fst (batch_room ae k now vb a m) =
      (if vo_refused vo then n else fst (apply_channels (ae_dumps ae) (ae_store_mem ae) k now a vb (vo_skip vo) n))"
    unfolding batch_room_def a prod.case Let_def n_def [symmetric] by (simp add: split_beta)
  then show ?thesis using same_seats_trans [OF n channels_keep [OF same_seats_seated [OF n s]]] n by simp
qed

lemma heartbeat_members_keep:
  "same_seats m (fst (fold (heartbeat_member k e fs stopping now) ms (m, out)))"
proof (induction ms arbitrary: m out)
  case (Cons kv ms)
  obtain key rval where kv: "kv = (key, rval)" by fastforce
  obtain m1 out1 where s: "heartbeat_member k e fs stopping now kv (m, out) = (m1, out1)" by fastforce
  have room: "same_seats m (upd_room a (\<lambda>_. fst (heartbeat_room k e fs stopping now rval (room_at m a))) m)" for a
    by (rule upd_room_keeps) (rule aside_sel [OF heartbeat_room_aside])
  have "same_seats m m1"
    using s room unfolding kv heartbeat_member_def prod.case
    by (auto simp: split_beta split: if_splits option.splits)
  then show ?case using Cons.IH [of m1 out1] same_seats_trans by (simp add: s)
qed simp

lemma admin_keeps: "seated m \<Longrightarrow> same_seats m (fst (janus_slvoice_handle_admin_message ae k now msg m))"
proof -
  assume s: "seated m"
  have totals: "same_seats m (m\<lparr>mx_pos_unknown_room_total := n\<rparr>)" "same_seats m (m\<lparr>mx_pos_toobig_total := n\<rparr>)"
    "same_seats m (m\<lparr>mx_pos_malformed_total := n\<rparr>)" for n by (simp_all add: same_seats_def)
  have hb: "same_seats m (fst (janus_slvoice_handle_heartbeat k now j m))" for j
    using heartbeat_members_keep unfolding janus_slvoice_handle_heartbeat_def Let_def by (simp add: split_beta)
  have pos: "same_seats m (fst (janus_slvoice_handle_peer_pos ae k now j m))" for j
  proof -
    have room: "same_seats m (upd_room a (\<lambda>_. fst (peer_pos_room k now pb (room_at m a))) m)" for a pb
      by (rule upd_room_keeps) (rule peer_pos_room_roll)
    show ?thesis
      unfolding janus_slvoice_handle_peer_pos_def
      using totals room by (auto simp: split_beta split: slv_pos_status.split option.split)
  qed
  have batch: "same_seats m (fst (handle_batch ae k now j m))" for j
    unfolding handle_batch_def using batch_room_keeps [OF s] by (auto simp: split_beta split: slv_visbatch_status.split option.split)
  show ?thesis unfolding janus_slvoice_handle_admin_message_def Let_def using hb pos batch by simp
qed

interpretation admin: seat_keeping "\<lambda>(now, msg) m. fst (janus_slvoice_handle_admin_message ae k now msg m)" for ae k
  by unfold_locales (auto intro: admin_keeps)

subsection \<open>What the messages can and cannot do\<close>

text \<open>A room without its positions.\<close>

definition without_positions :: "janus_slvoice_room \<Rightarrow> janus_slvoice_room" where
  "without_positions r = r\<lparr>rm_pos_store := slv_pos_store_clear, rm_pos_stats := slv_pos_room_stats_zero\<rparr>"

lemma peer_pos_room_positions: "without_positions (fst (peer_pos_room k now pb r)) = without_positions r"
  by (simp add: peer_pos_room_def Let_def without_positions_def split_beta)


text \<open>
  The positions of one simulator instance are taken in order and once: after an accepted request, every request of the same
  instance with the same or a lower sequence number is refused at any later time, and refusing it leaves the stored
  positions alone.
\<close>

theorem peer_pos_no_replay:
  assumes "peer_pos_room k now pb room = (room', None, stored, dropped)"
    and "pb_has_epoch late = pb_has_epoch pb" and "pb_room_epoch late = pb_room_epoch pb" and "pb_seq late \<le> pb_seq pb"
  shows "case peer_pos_room k now' late room' of (room'', refusal, n, d) \<Rightarrow>
    refusal \<noteq> None \<and> n = 0 \<and> d = 0 \<and> rm_pos_store room'' = rm_pos_store room'"
proof -
  have "pr_have_batch (rm_pos_stats room')" "pr_epoch (rm_pos_stats room') = (if pb_has_epoch pb then pb_room_epoch pb else 0)"
    "pr_last_seq (rm_pos_stats room') = pb_seq pb"
    using assms(1) by (auto simp: peer_pos_room_def Let_def split: if_splits prod.splits)
  then show ?thesis using assms(2-4) by (simp add: peer_pos_room_def Let_def)
qed

theorem peer_pos_no_replay_witness:
  "case peer_pos_room auth_knobs_sample 5 posbatch_sample janus_slvoice_room_zero of (room', refusal, stored, dropped) \<Rightarrow>
     refusal = None \<and> fst (snd (peer_pos_room auth_knobs_sample 6 posbatch_sample room')) \<noteq> None"
proof -
  obtain st n d where a: "slv_pos_store_apply slv_pos_store_clear posbatch_sample 5 = (st, n, d)" by (metis prod_cases3)
  obtain room' where r: "peer_pos_room auth_knobs_sample 5 posbatch_sample janus_slvoice_room_zero = (room', None, n, d)"
    using a by (simp add: peer_pos_room_def Let_def janus_slvoice_room_zero_def slv_pos_room_stats_zero_def)
  show ?thesis using peer_pos_no_replay [OF r refl refl order_refl, of 6] by (simp add: r split_beta)
qed

text \<open>What a refusal must not touch: who hears, sees and is told of whom.\<close>

definition unheard :: "slv_mixer \<Rightarrow> slv_mixer \<Rightarrow> bool" where
  "unheard m m' \<longleftrightarrow> mx_sessions m' = mx_sessions m \<and> mx_outbox m' = mx_outbox m \<and> mx_rooms m' = mx_rooms m \<and>
     (\<forall>b. roll (room_at m' b) = roll (room_at m b) \<and> rm_vis_deferred (room_at m' b) = rm_vis_deferred (room_at m b) \<and>
        rm_pos_store (room_at m' b) = rm_pos_store (room_at m b))"

lemma get_set:
  "json_is_object (Some j) \<Longrightarrow> json_is_object (Some (json_object_set j k v)) \<and>
     json_object_get (Some (json_object_set j k v)) k' = (if k' = k then Some v else json_object_get (Some j) k')"
  by (auto simp: json_is_object_iff update_conv')

lemma get_sets:
  "json_is_object (Some j) \<Longrightarrow> json_is_object (Some (json_object_sets kvs j)) \<and>
     json_object_get (Some (json_object_sets kvs j)) k =
       (case map_of (rev kvs) k of None \<Rightarrow> json_object_get (Some j) k | Some v \<Rightarrow> Some v)"
proof (induction kvs arbitrary: j)
  case (Cons kv kvs)
  obtain k0 v0 where kv: "kv = (k0, v0)" by fastforce
  have 1: "json_object_sets (kv # kvs) j = json_object_sets kvs (json_object_set j k0 v0)" by (simp add: json_object_sets_def kv)
  show ?case
    unfolding 1 using Cons.IH [of "json_object_set j k0 v0"] get_set [OF Cons.prems, of k0 v0] by (auto simp: kv map_add_def split: option.split)
qed (simp add: json_object_sets_def)

text \<open>The kind of a reply is what its first member says.\<close>

lemma kind_sets:
  "json_object_get (Some (json_object_sets ((''slvoice'', JString s) # kvs) (JObject []))) ''slvoice'' =
     (case map_of (rev kvs) ''slvoice'' of None \<Rightarrow> Some (JString s) | Some v \<Rightarrow> Some v)"
  "json_is_object (Some (json_object_sets kvs (JObject [])))"
  using get_sets [of "JObject []"] by (simp_all add: map_add_def split: option.split)

lemma kind_common:
  "json_is_object (Some j) \<Longrightarrow> json_object_get (Some (janus_slvoice_vis_reply_common k j)) ''slvoice'' = json_object_get (Some j) ''slvoice'' \<and>
     json_is_object (Some (janus_slvoice_vis_reply_common k j))"
  using get_sets [of j] by (simp add: janus_slvoice_vis_reply_common_def)

lemma kind_room:
  "json_is_object (Some j) \<Longrightarrow>
     json_object_get (Some (janus_slvoice_vis_reply_room_locked r st s u j)) ''slvoice'' = json_object_get (Some j) ''slvoice'' \<and>
     json_is_object (Some (janus_slvoice_vis_reply_room_locked r st s u j))"
  using get_sets [of j] by (simp add: janus_slvoice_vis_reply_room_locked_def)

lemma batch_room_refusal:
  assumes "batch_room ae k now vb a m = (m', reply)" and "json_object_get (Some reply) ''slvoice'' = Some (JString ''error'')"
  shows "unheard m m'"
proof -
  obtain room vo where a: "janus_slvoice_vis_batch_authority_locked k vb now (room_at m a) = (room, vo)" by fastforce
  have room: "aside room = aside (room_at m a)" using batch_authority_aside [of k vb now "room_at m a"] by (simp add: a)
  have "vo_refused vo"
  proof (rule ccontr)
    assume n: "\<not> vo_refused vo"
    obtain n d where c: "apply_channels (ae_dumps ae) (ae_store_mem ae) k now a vb (vo_skip vo) (upd_room a (\<lambda>_. room) m) = (n, d)"
      by fastforce
    let ?r0 = "json_object_sets (batch_reply_channels vb d) (JObject [])"
    have k0: "json_object_get (Some ?r0) ''slvoice'' = Some (JString ''applied'')" "json_is_object (Some ?r0)"
      using kind_sets by (simp_all add: batch_reply_channels_def)
    have "json_object_get (Some reply) ''slvoice'' = Some (JString ''applied'')"
      using assms(1) k0 n get_set kind_common kind_room [OF k0(2)]
      by (auto simp: batch_room_def a c Let_def split: if_splits)
    then show False using assms(2) by simp
  qed
  then have "m' = upd_room a (\<lambda>_. room) m" using assms(1) by (simp add: batch_room_def a Let_def)
  then show ?thesis using room by (simp add: unheard_def upd_room_def aside_def)
qed



end
