(* ===== verification/Handler.thy ===== *)
theory Handler
  imports Admin
begin

text \<open>
  The requests of the room API, in \<^verbatim>\<open>src/src/janus_slvoice.c\<close>: the thread \<^verbatim>\<open>janus_slvoice_handler\<close> with one definition per
  request, the negotiation of a JSEP offer (\<^verbatim>\<open>janus_slvoice_negotiate\<close>) and the replies. Janus' SDP utilities, the
  random numbers, the clocks and the memory are the parameter \<open>slv_handler_env\<close>; the rest of the model's parameters are
  those of the components called. One request is one step here; what may happen between the two halves of a
  join is the subject of \<^verbatim>\<open>Rooms\<close>.
\<close>

subsection \<open>Negotiation\<close>

datatype sdp_mtype = JANUS_SDP_AUDIO | JANUS_SDP_APPLICATION | JANUS_SDP_OTHER

text \<open>What the answer to one m-line says: the options given to \<^verbatim>\<open>janus_sdp_generate_answer_mline\<close>.\<close>

record sdp_answer_options =
  ao_mline :: sdp_mtype
  ao_codec :: "string option"
  ao_sendrecv :: bool
  ao_extmaps :: "string list"

text \<open>The SDP utilities of the Janus core, over its own type of descriptions and of m-lines.\<close>

record ('sdp, 'ml) sdp_lib =
  sd_parse :: "string \<Rightarrow> string + 'sdp"
  sd_opus_pt :: "'sdp \<Rightarrow> int"
  sd_mlines :: "'sdp \<Rightarrow> (sdp_mtype \<times> 'ml) list"
  sd_mline_find :: "'sdp \<Rightarrow> sdp_mtype \<Rightarrow> 'ml option"
  sd_generate_answer :: "'sdp \<Rightarrow> 'sdp"
  sd_answer_mline :: "'sdp \<Rightarrow> 'sdp \<Rightarrow> 'ml \<Rightarrow> sdp_answer_options \<Rightarrow> 'sdp"
  sd_add_attribute :: "'sdp \<Rightarrow> sdp_mtype \<Rightarrow> string \<Rightarrow> string \<Rightarrow> 'sdp"
  sd_port :: "'ml \<Rightarrow> int"
  sd_write :: "'sdp \<Rightarrow> string option"

definition JANUS_RTP_EXTMAP_MID :: string where "JANUS_RTP_EXTMAP_MID = ''urn:ietf:params:rtp-hdrext:sdes:mid''"
definition JANUS_RTP_EXTMAP_AUDIO_LEVEL :: string where "JANUS_RTP_EXTMAP_AUDIO_LEVEL = ''urn:ietf:params:rtp-hdrext:ssrc-audio-level''"

text \<open>The text of an error, cut to the buffer of 512 bytes.\<close>

definition slv_cause :: "string \<Rightarrow> string" where
  "slv_cause text = take 511 text"

definition squote :: "string \<Rightarrow> string" where
  "squote text = CHR 0x27 # text @ [CHR 0x27]"

definition int_text :: "int \<Rightarrow> string" where
  "int_text i = (if i < 0 then ''-'' @ dec_text (nat (- i)) else dec_text (nat i))"

definition answer_mline :: "('sdp, 'ml) sdp_lib \<Rightarrow> 'sdp \<Rightarrow> sdp_mtype \<times> 'ml \<Rightarrow> 'sdp \<Rightarrow> 'sdp" where
  "answer_mline sd offer = (\<lambda>(ty, ml) answer.
     case ty of
       JANUS_SDP_AUDIO \<Rightarrow> sd_answer_mline sd offer answer ml
         \<lparr>ao_mline = JANUS_SDP_AUDIO, ao_codec = Some ''opus'', ao_sendrecv = True,
          ao_extmaps = [JANUS_RTP_EXTMAP_MID, JANUS_RTP_EXTMAP_AUDIO_LEVEL]\<rparr>
     | JANUS_SDP_APPLICATION \<Rightarrow> sd_answer_mline sd offer answer ml
         \<lparr>ao_mline = JANUS_SDP_APPLICATION, ao_codec = None, ao_sendrecv = False, ao_extmaps = [JANUS_RTP_EXTMAP_MID]\<rparr>
     | JANUS_SDP_OTHER \<Rightarrow> answer)"

text \<open>The negotiation: the cause of a refusal, or the answer; the session keeps what was negotiated.\<close>

definition janus_slvoice_negotiate ::
  "('sdp, 'ml) sdp_lib \<Rightarrow> json option \<Rightarrow> janus_slvoice_session \<Rightarrow> janus_slvoice_session \<times> (string + string)"
where
  "janus_slvoice_negotiate sd jsep s =
     (case (json_string_value (json_object_get jsep ''type''), json_string_value (json_object_get jsep ''sdp'')) of
        (Some sdp_type, Some sdp_str) \<Rightarrow>
          if \<not> strcaseeq sdp_type ''offer'' then (s, Inl ''Expected a JSEP offer'')
          else (case sd_parse sd sdp_str of
             Inl err \<Rightarrow> (s, Inl (slv_cause (''Could not parse offer SDP: '' @ slv_cause err)))
           | Inr offer \<Rightarrow>
               let opus_pt = sd_opus_pt sd offer in
               if opus_pt \<le> 0 then (s, Inl ''Offer does not include Opus'')
               else
                 let has_dc = (sd_mline_find sd offer JANUS_SDP_APPLICATION \<noteq> None);
                     answer = fold (answer_mline sd offer) (sd_mlines sd offer) (sd_generate_answer sd offer);
                     answer = (if sd_mline_find sd answer JANUS_SDP_AUDIO \<noteq> None then
                         (let answer = sd_add_attribute sd answer JANUS_SDP_AUDIO ''fmtp'' (int_text opus_pt @
                                '' minptime=10;useinbandfec=1;stereo=1;sprop-stereo=1;maxplaybackrate=48000'' @ [CHR 0x0D, CHR 0x0A]);
                              answer = sd_add_attribute sd answer JANUS_SDP_AUDIO ''ptime'' ''20''
                          in sd_add_attribute sd answer JANUS_SDP_AUDIO ''maxptime'' ''20'')
                       else answer);
                     dc_answered = (case sd_mline_find sd answer JANUS_SDP_APPLICATION of None \<Rightarrow> False | Some ml \<Rightarrow> sd_port sd ml > 0)
                 in case sd_write sd answer of
                      None \<Rightarrow> (s, Inl ''Failed to write answer SDP'')
                    | Some new_sdp \<Rightarrow>
                        (s\<lparr>se_opus_pt := opus_pt, se_has_datachannel := has_dc, se_dc_answered := dc_answered\<rparr>, Inr new_sdp))
      | _ \<Rightarrow> (s, Inl ''Expected a JSEP offer''))"

subsection \<open>What a request ends with\<close>

text \<open>An error with its code and cause, or an event, the answer to push with it and the newcomer to announce after it.\<close>

datatype slv_outcome =
    Slv_error int string
  | Slv_event json "json option" "(nat \<times> string) option"

record ('sdp, 'ml) slv_handler_env =
  he_sdp :: "('sdp, 'ml) sdp_lib"
  he_dumps :: "json \<Rightarrow> string option"
  he_hmac :: "string \<Rightarrow> string \<Rightarrow> string option"
  he_memeq :: "string \<Rightarrow> string \<Rightarrow> bool"
  he_random_room :: nat
  he_random_user :: nat
  he_tick_ok :: bool
  he_media :: slv_media_args
  he_now :: int
  he_now_s :: int

record slv_message =
  ms_session :: nat
  ms_root :: "json option"
  ms_jsep :: "json option"

definition no_such_room :: "nat \<Rightarrow> slv_outcome" where
  "no_such_room room_id = Slv_error JANUS_SLVOICE_ERROR_NO_SUCH_ROOM (slv_cause (''No such room ('' @ dec_text room_id @ '')''))"

definition missing_room :: slv_outcome where
  "missing_room = Slv_error JANUS_SLVOICE_ERROR_MISSING_ELEMENT (''Missing/!integer '' @ squote ''room'')"

definition jsep_answer_of :: "string \<Rightarrow> json" where
  "jsep_answer_of sdp = JObject [(''type'', JString ''answer''), (''sdp'', JString sdp)]"

subsection \<open>create and destroy\<close>

definition create_args :: "('sdp, 'ml) slv_handler_env \<Rightarrow> json option \<Rightarrow> slv_room_args" where
  "create_args he body =
     (let room_j = json_object_get body ''room'';
          room_id = (if json_is_integer room_j then u64_of_json_int (json_integer_value room_j) else 0);
          rate_j = json_object_get body ''sampling_rate''
      in \<lparr>ra_id = (if room_id = 0 then he_random_room he else room_id),
          ra_desc = json_string_value (json_object_get body ''description''),
          ra_private = json_is_true (json_object_get body ''is_private''),
          ra_rate = (if json_is_integer rate_j then nat (json_integer_value rate_j mod 2 ^ 32) else 48000),
          ra_spatial = janus_slvoice_spatial_from_json (json_object_get body ''spatial_audio''),
          ra_permanent = json_is_true (json_object_get body ''permanent''),
          ra_vis_authority = json_is_true (json_object_get body ''vis_authority''),
          ra_sim_created = json_is_true (json_object_get body ''sim_created'')\<rparr>)"

definition handle_create :: "('sdp, 'ml) slv_handler_env \<Rightarrow> json option \<Rightarrow> slv_mixer \<Rightarrow> slv_mixer \<times> slv_outcome" where
  "handle_create he body m =
     (let ra = create_args he body; room_id = ra_id ra in
      case map_of (mx_rooms m) room_id of
        Some a \<Rightarrow>
          (upd_room a (janus_slvoice_room_rearm_grace_locked (he_now he)) m,
           Slv_error JANUS_SLVOICE_ERROR_ROOM_EXISTS (slv_cause (''Room '' @ dec_text room_id @ '' already exists'')))
      | None \<Rightarrow>
          (case janus_slvoice_room_create (he_tick_ok he) (he_now he) ra m of
             (m, None) \<Rightarrow>
               (m, Slv_error JANUS_SLVOICE_ERROR_UNKNOWN
                  (slv_cause (''Room '' @ dec_text room_id @ '' could not be created (tick thread failed to start)'')))
           | (m, Some a) \<Rightarrow>
               (rooms_insert room_id a m,
                Slv_event (JObject [(''audiobridge'', JString ''created''), (''room'', JInt (json_int_of_u64 room_id)),
                  (''permanent'', JBool (ra_permanent ra))]) None None)))"

definition handle_destroy :: "json option \<Rightarrow> slv_mixer \<Rightarrow> slv_mixer \<times> slv_outcome" where
  "handle_destroy body m =
     (let room_j = json_object_get body ''room'' in
      if \<not> json_is_integer room_j then (m, missing_room)
      else
        let room_id = u64_of_json_int (json_integer_value room_j) in
        case map_of (mx_rooms m) room_id of
          None \<Rightarrow> (m, no_such_room room_id)
        | Some a \<Rightarrow>
            (janus_slvoice_room_teardown_locked a m,
             Slv_event (JObject [(''audiobridge'', JString ''destroyed''), (''room'', JInt (json_int_of_u64 room_id))]) None None))"

subsection \<open>join\<close>

text \<open>
  The capability of a join, before anything else is done: the verdict is noted on the session whatever it is, and refuses
  the join when the room is gated and the capability required. The reason of a refusal is what is returned.
\<close>

definition join_capability ::
  "('sdp, 'ml) slv_handler_env \<Rightarrow> slv_knobs \<Rightarrow> json option \<Rightarrow> nat \<Rightarrow> nat \<Rightarrow> nat \<Rightarrow> slv_mixer \<Rightarrow> slv_mixer \<times> string option"
where
  "join_capability he k body room_id a s m =
     (let join_cap = json_string_value (json_object_get body ''join_cap'');
          display = json_string_value (json_object_get body ''display'');
          cap_session = json_string_value (json_object_get body ''session_id'');
          room = room_at m a;
          cap_gated = (rm_vis_declared room \<or> rm_sim_created room);
          (cap_v, js) = janus_slvoice_joincap_verify (he_hmac he) (he_memeq he) (kn_join_cap_key k) join_cap display cap_session
            (json_int_of_u64 room_id) (rm_vis_auth_epoch room) (rm_vis_policy_gen room) cap_gated (he_now_s he) (mx_joincap m);
          m = m\<lparr>mx_joincap := js\<rparr>;
          m = upd_session s (\<lambda>x. x\<lparr>se_cap_present := (join_cap \<noteq> None \<and> join_cap \<noteq> Some []),
                se_cap_verdict := Some (slv_joincap_reason cap_v)\<rparr>) m
      in if cap_v \<noteq> SLV_JOINCAP_OK \<and> kn_join_cap_required k \<and> cap_gated
         then (m\<lparr>mx_join_cap_enforced := mx_join_cap_enforced m + 1\<rparr>, Some (slv_joincap_reason cap_v))
         else (m, None))"

text \<open>The rest of the join, once admitted.\<close>

definition join_admitted ::
  "('sdp, 'ml) slv_handler_env \<Rightarrow> slv_knobs \<Rightarrow> slv_message \<Rightarrow> nat \<Rightarrow> nat \<Rightarrow> slv_mixer \<Rightarrow> slv_mixer \<times> slv_outcome"
where
  "join_admitted he k msg room_id a m =
     (let s = ms_session msg; body = ms_root msg;
          display = json_string_value (json_object_get body ''display'');
          room_pop = length (rm_participants (room_at m a)) in
      if room_pop \<ge> kn_room_size k then
        (m, Slv_error JANUS_SLVOICE_ERROR_ROOM_FULL (slv_cause (''Room '' @ dec_text room_id @ '' is at capacity ('' @
              dec_text room_pop @ ''/'' @ dec_text (kn_room_size k) @ '')'')))
      else case janus_slvoice_negotiate (he_sdp he) (ms_jsep msg) (session_of m s) of
          (x, Inl cause) \<Rightarrow> (upd_session s (\<lambda>_. x) m, Slv_error JANUS_SLVOICE_ERROR_INVALID_SDP cause)
        | (x, Inr answer_sdp) \<Rightarrow>
            let m = upd_session s (\<lambda>_. x) m;
                ja = \<lparr>ja_user_id = he_random_user he, ja_display = display,
                      ja_recorder = json_is_true (json_object_get body ''recorder''), ja_media = he_media he\<rparr>
            in case join_both k (he_now he) a s ja m of
                 (m, None) \<Rightarrow> (m, no_such_room room_id)
               | (m, Some roster) \<Rightarrow>
                   (m, Slv_event (JObject [(''audiobridge'', JString ''joined''), (''room'', JInt (json_int_of_u64 room_id)),
                         (''id'', JInt (json_int_of_u64 (join_uid ja))), (''participants'', roster)])
                       (Some (jsep_answer_of answer_sdp)) (map_option (Pair a) display)))"

text \<open>The reason of a refusal for the capability is returned beside the outcome.\<close>

definition handle_join ::
  "('sdp, 'ml) slv_handler_env \<Rightarrow> slv_knobs \<Rightarrow> slv_message \<Rightarrow> slv_mixer \<Rightarrow> slv_mixer \<times> slv_outcome \<times> string option"
where
  "handle_join he k msg m =
     (let s = ms_session msg; body = ms_root msg; room_j = json_object_get body ''room'' in
      if \<not> json_is_integer room_j then (m, missing_room, None)
      else
        let room_id = u64_of_json_int (json_integer_value room_j) in
        if se_room (session_of m s) \<noteq> None then (m, Slv_error JANUS_SLVOICE_ERROR_ALREADY_JOINED ''Already joined a room'', None)
        else case janus_slvoice_room_ref_by_id m room_id of
            None \<Rightarrow> (m, no_such_room room_id, None)
          | Some a \<Rightarrow>
              if ms_jsep msg = None then (m, Slv_error JANUS_SLVOICE_ERROR_INVALID_SDP ''join requires a JSEP offer'', None)
              else case join_capability he k body room_id a s m of
                  (m, Some reason) \<Rightarrow>
                    (m, Slv_error JANUS_SLVOICE_ERROR_JOIN_CAP (slv_cause (''Join capability refused ('' @ reason @ '')'')), Some reason)
                | (m, None) \<Rightarrow> (case join_admitted he k msg room_id a m of (m, out) \<Rightarrow> (m, out, None)))"

subsection \<open>configure, leave, list and listparticipants\<close>

definition handle_configure ::
  "('sdp, 'ml) slv_handler_env \<Rightarrow> slv_message \<Rightarrow> slv_mixer \<Rightarrow> slv_mixer \<times> slv_outcome"
where
  "handle_configure he msg m =
     (let ok = JObject [(''audiobridge'', JString ''event''), (''result'', JString ''ok'')] in
      if ms_jsep msg = None then (m, Slv_event ok None None)
      else case janus_slvoice_negotiate (he_sdp he) (ms_jsep msg) (session_of m (ms_session msg)) of
          (x, Inl cause) \<Rightarrow> (upd_session (ms_session msg) (\<lambda>_. x) m, Slv_error JANUS_SLVOICE_ERROR_INVALID_SDP cause)
        | (x, Inr answer_sdp) \<Rightarrow> (upd_session (ms_session msg) (\<lambda>_. x) m, Slv_event ok (Some (jsep_answer_of answer_sdp)) None))"

definition handle_leave ::
  "('sdp, 'ml) slv_handler_env \<Rightarrow> slv_knobs \<Rightarrow> nat \<Rightarrow> slv_mixer \<Rightarrow> slv_mixer \<times> slv_outcome"
where
  "handle_leave he k s m =
     (case se_room (session_of m s) of
        None \<Rightarrow> (m, Slv_error JANUS_SLVOICE_ERROR_NOT_JOINED ''Not in a room'')
      | Some a \<Rightarrow>
          let room_id = rm_room_id (room_at m a);
              user_id = se_user_id (session_of m s);
              m = janus_slvoice_leave_room (he_dumps he) k (he_now he) s m
          in (upd_session s janus_slvoice_media_free_locked m,
              Slv_event (JObject [(''audiobridge'', JString ''left''), (''room'', JInt (json_int_of_u64 room_id)),
                (''id'', JInt (json_int_of_u64 user_id))]) None None))"

definition list_row :: "janus_slvoice_room \<Rightarrow> json" where
  "list_row room =
     JObject [(''room'', JInt (json_int_of_u64 (rm_room_id room))), (''description'', JString (rm_description room)),
       (''sampling_rate'', JInt (int (rm_sampling_rate room))), (''spatial_audio'', JBool (rm_spatial_audio room)),
       (''num_participants'', JInt (int (length (rm_participants room))))]"

definition handle_list :: "slv_mixer \<Rightarrow> slv_outcome" where
  "handle_list m =
     Slv_event (JObject [(''audiobridge'', JString ''success''),
       (''list'', JArray (map list_row (filter (\<lambda>r. \<not> rm_destroyed r \<and> \<not> rm_is_private r)
          (map (\<lambda>p. room_at m (snd p)) (mx_rooms m)))))]) None None"

definition handle_listparticipants :: "json option \<Rightarrow> slv_mixer \<Rightarrow> slv_outcome" where
  "handle_listparticipants body m =
     (let room_j = json_object_get body ''room'' in
      if \<not> json_is_integer room_j then missing_room
      else
        let room_id = u64_of_json_int (json_integer_value room_j) in
        case janus_slvoice_room_ref_by_id m room_id of
          None \<Rightarrow> no_such_room room_id
        | Some a \<Rightarrow>
            Slv_event (JObject [(''audiobridge'', JString ''participants''), (''room'', JInt (json_int_of_u64 room_id)),
              (''participants'', JArray (map (\<lambda>p. janus_slvoice_participant_summary (session_of m p)) (members (room_at m a))))])
              None None)"

subsection \<open>The entry\<close>

text \<open>
  What Janus calls with a message: it is refused, or queued for the thread. \<open>up\<close>: is the plugin neither starting nor
  stopping?
\<close>

definition janus_slvoice_handle_message ::
  "bool \<Rightarrow> nat \<Rightarrow> json option \<Rightarrow> json option \<Rightarrow> slv_mixer \<Rightarrow> string + slv_message"
where
  "janus_slvoice_handle_message up s message jsep m =
     (if \<not> up then Inl ''Shutting down''
      else if s \<notin> set (mx_live m) \<or> se_destroyed (session_of m s) then Inl ''No session associated with this handle''
      else if \<not> json_is_object message then Inl ''Invalid message (not an object)''
      else Inr \<lparr>ms_session = s, ms_root = message, ms_jsep = jsep\<rparr>)"

subsection \<open>The thread\<close>

text \<open>
  One request: the outcome, and the reason if it was a refusal for the capability. \<open>respond\<close> builds what is pushed;
  \<open>error_reason\<close> is the thread's variable, which lives across requests.
\<close>

definition handle_request ::
  "('sdp, 'ml) slv_handler_env \<Rightarrow> slv_knobs \<Rightarrow> slv_message \<Rightarrow> slv_mixer \<Rightarrow> slv_mixer \<times> slv_outcome \<times> string option"
where
  "handle_request he k msg m =
     (case json_string_value (json_object_get (ms_root msg) ''request'') of
        None \<Rightarrow> (m, Slv_error JANUS_SLVOICE_ERROR_MISSING_ELEMENT (''Missing/!string '' @ squote ''request''), None)
      | Some request_text \<Rightarrow>
          if strcaseeq request_text ''create'' then (case handle_create he (ms_root msg) m of (m, out) \<Rightarrow> (m, out, None))
          else if strcaseeq request_text ''destroy'' then (case handle_destroy (ms_root msg) m of (m, out) \<Rightarrow> (m, out, None))
          else if strcaseeq request_text ''join'' then handle_join he k msg m
          else if strcaseeq request_text ''configure'' then (case handle_configure he msg m of (m, out) \<Rightarrow> (m, out, None))
          else if strcaseeq request_text ''leave'' then (case handle_leave he k (ms_session msg) m of (m, out) \<Rightarrow> (m, out, None))
          else if strcaseeq request_text ''list'' then (m, handle_list m, None)
          else if strcaseeq request_text ''listparticipants'' then (m, handle_listparticipants (ms_root msg) m, None)
          else (m, Slv_error JANUS_SLVOICE_ERROR_INVALID_REQUEST (slv_cause (''Unknown request '' @ squote request_text)), None))"

fun respond :: "string option \<Rightarrow> slv_outcome \<Rightarrow> json \<times> json option" where
  "respond error_reason (Slv_error code cause) =
     (JObject ([(''audiobridge'', JString ''event''), (''error_code'', JInt code), (''error'', JString cause)] @
        (case error_reason of None \<Rightarrow> [] | Some r \<Rightarrow> [(''reason'', JString r)])), None)"
| "respond error_reason (Slv_event event jsep presence) = (event, jsep)"

fun announce_join :: "(json \<Rightarrow> string option) \<Rightarrow> slv_knobs \<Rightarrow> int \<Rightarrow> slv_outcome \<Rightarrow> slv_mixer \<Rightarrow> slv_mixer" where
  "announce_join dumps k now (Slv_event event jsep (Some (a, who))) m = janus_slvoice_push_presence dumps k now a who True m"
| "announce_join dumps k now out m = m"

text \<open>One turn of the thread, and a whole queue; each message comes with the environment it meets.\<close>

definition handler_turn ::
  "slv_knobs \<Rightarrow> ('sdp, 'ml) slv_handler_env \<times> slv_message \<Rightarrow> string option \<times> slv_mixer \<Rightarrow>
   (string option \<times> slv_mixer) \<times> (json \<times> json option) option"
where
  "handler_turn k = (\<lambda>(he, msg) (error_reason, m).
     if se_destroyed (session_of m (ms_session msg)) then ((error_reason, m), None)
     else case handle_request he k msg m of
       (m, out, reason) \<Rightarrow>
         let error_reason = (case reason of None \<Rightarrow> error_reason | Some r \<Rightarrow> Some r)
         in ((error_reason, announce_join (he_dumps he) k (he_now he) out m), Some (respond error_reason out)))"

fun janus_slvoice_handler ::
  "slv_knobs \<Rightarrow> (('sdp, 'ml) slv_handler_env \<times> slv_message) list \<Rightarrow> string option \<times> slv_mixer \<Rightarrow>
   (string option \<times> slv_mixer) \<times> (json \<times> json option) option list"
where
  "janus_slvoice_handler k [] st = (st, [])"
| "janus_slvoice_handler k (q # queue) st =
     (case handler_turn k q st of
        (st, reply) \<Rightarrow> (case janus_slvoice_handler k queue st of (st, replies) \<Rightarrow> (st, reply # replies)))"

end
