(* ===== verification/Requests.thy ===== *)
theory Requests
  imports Handler
begin

text \<open>
  What the request handler promises: the shape of its replies, that an error leaves no trace, what creating a room and
  joining it do, that every request keeps the membership invariant, and how long a refusal's reason lives.
\<close>

subsection \<open>Replies\<close>

definition error_codes :: "int list" where
  "error_codes = [JANUS_SLVOICE_ERROR_INVALID_REQUEST, JANUS_SLVOICE_ERROR_MISSING_ELEMENT, JANUS_SLVOICE_ERROR_NO_SUCH_ROOM,
     JANUS_SLVOICE_ERROR_ROOM_EXISTS, JANUS_SLVOICE_ERROR_NOT_JOINED, JANUS_SLVOICE_ERROR_ALREADY_JOINED,
     JANUS_SLVOICE_ERROR_INVALID_SDP, JANUS_SLVOICE_ERROR_ROOM_FULL, JANUS_SLVOICE_ERROR_JOIN_CAP, JANUS_SLVOICE_ERROR_UNKNOWN]"

text \<open>An event names what happened and carries no error; an error has a documented code and a cause.\<close>

fun outcome_ok :: "slv_outcome \<Rightarrow> bool" where
  "outcome_ok (Slv_error code cause) = (code \<in> set error_codes)"
| "outcome_ok (Slv_event event jsep presence) =
     (json_is_string (json_object_get (Some event) ''audiobridge'') \<and> json_object_get (Some event) ''error_code'' = None \<and>
      (case jsep of None \<Rightarrow> True | Some j \<Rightarrow> json_object_get (Some j) ''type'' = Some (JString ''answer'') \<and>
         json_is_string (json_object_get (Some j) ''sdp'')))"

lemmas code_defs = error_codes_def missing_room_def no_such_room_def

lemma create_ok: "outcome_ok (snd (handle_create he body m))"
  by (auto simp: handle_create_def Let_def code_defs split: option.split prod.split)

lemma destroy_ok: "outcome_ok (snd (handle_destroy body m))"
  by (auto simp: handle_destroy_def Let_def code_defs split: option.split)

lemma admitted_ok: "outcome_ok (snd (join_admitted he k msg room_id a m))"
  by (auto simp: join_admitted_def Let_def code_defs jsep_answer_of_def split: option.split prod.split sum.split)

lemma join_ok: "outcome_ok (fst (snd (handle_join he k msg m)))"
  using admitted_ok by (auto simp: handle_join_def Let_def code_defs split_beta split: option.split)

lemma configure_ok: "outcome_ok (snd (handle_configure he msg m))"
  by (auto simp: handle_configure_def Let_def code_defs jsep_answer_of_def split: prod.split sum.split)

lemma leave_ok: "outcome_ok (snd (handle_leave he k s m))"
  by (auto simp: handle_leave_def Let_def code_defs split: option.split)

lemma list_ok: "outcome_ok (handle_list m)" "outcome_ok (handle_listparticipants body m)"
  by (auto simp: handle_list_def handle_listparticipants_def Let_def code_defs split: option.split)

lemma request_ok: "outcome_ok (fst (snd (handle_request he k msg m)))"
  using create_ok [of he "ms_root msg" m] destroy_ok [of "ms_root msg" m] join_ok [of he k msg m] configure_ok [of he msg m]
    leave_ok [of he k "ms_session msg" m] list_ok(1) [of m] list_ok(2) [of "ms_root msg" m]
  by (auto simp: handle_request_def code_defs split_beta split: option.split)

definition reply_ok :: "json \<times> json option \<Rightarrow> bool" where
  "reply_ok = (\<lambda>(reply, jsep).
     json_is_string (json_object_get (Some reply) ''audiobridge'') \<and>
     (case json_object_get (Some reply) ''error_code'' of
        None \<Rightarrow> True
      | Some c \<Rightarrow> c \<in> JInt ` set error_codes \<and> json_is_string (json_object_get (Some reply) ''error'') \<and> jsep = None))"

lemma respond_ok: "outcome_ok out \<Longrightarrow> reply_ok (respond reason out)"
  by (cases out) (auto simp: reply_ok_def split: option.split)


subsection \<open>Errors leave no trace\<close>

text \<open>What a failed request may change of a session: what its last attempt to join carried.\<close>

definition without_attempt :: "janus_slvoice_session \<Rightarrow> janus_slvoice_session" where
  "without_attempt x = x\<lparr>se_cap_present := False, se_cap_verdict := None\<rparr>"

definition no_trace :: "slv_mixer \<Rightarrow> slv_mixer \<Rightarrow> bool" where
  "no_trace m m' \<longleftrightarrow> mx_rooms m' = mx_rooms m \<and> mx_live m' = mx_live m \<and> mx_outbox m' = mx_outbox m \<and>
     (\<forall>s. without_attempt (session_of m' s) = without_attempt (session_of m s)) \<and>
     (\<forall>a. (room_at m' a)\<lparr>rm_empty_since := 0\<rparr> = (room_at m a)\<lparr>rm_empty_since := 0\<rparr>)"

lemma no_trace_refl [simp]: "no_trace m m"
  by (simp add: no_trace_def)

lemma negotiate_error: "janus_slvoice_negotiate sd jsep x = (y, Inl cause) \<Longrightarrow> y = x"
  by (auto simp: janus_slvoice_negotiate_def Let_def split: option.splits sum.splits if_splits)

lemma upd_session_id: "upd_session s (\<lambda>_. session_of m s) m = m"
  by (simp add: upd_session_def)

lemma capability_no_trace:
  assumes "join_capability he k body room_id a s m = (m', r)"
  shows "no_trace m m'"
proof -
  obtain v js where v: "janus_slvoice_joincap_verify (he_hmac he) (he_memeq he) (kn_join_cap_key k)
      (json_string_value (json_object_get body ''join_cap'')) (json_string_value (json_object_get body ''display''))
      (json_string_value (json_object_get body ''session_id'')) (json_int_of_u64 room_id) (rm_vis_auth_epoch (room_at m a))
      (rm_vis_policy_gen (room_at m a)) (rm_vis_declared (room_at m a) \<or> rm_sim_created (room_at m a)) (he_now_s he) (mx_joincap m) = (v, js)"
    by fastforce
  have "no_trace m (upd_session s (\<lambda>x. x\<lparr>se_cap_present := p, se_cap_verdict := c\<rparr>) (m\<lparr>mx_joincap := js\<rparr>))"
    "no_trace m ((upd_session s (\<lambda>x. x\<lparr>se_cap_present := p, se_cap_verdict := c\<rparr>) (m\<lparr>mx_joincap := js\<rparr>))\<lparr>mx_join_cap_enforced := n\<rparr>)" for p c n
    by (simp_all add: no_trace_def upd_session_def without_attempt_def)
  with assms show ?thesis by (auto simp: join_capability_def Let_def v split: if_splits)
qed

lemma join_both_alive: "\<not> rm_destroyed (room_at m a) \<Longrightarrow> \<exists>n r. join_both k now a s ja m = (n, Some r)"
  by (simp add: join_both_def join_room_def Let_def split_beta)

lemma upd_session_room [simp]: "room_at (upd_session s f m) a = room_at m a"
  by (simp add: upd_session_def)

lemma admitted_error:
  assumes "join_admitted he k msg room_id a m = (m', Slv_error code cause)" "\<not> rm_destroyed (room_at m a)"
  shows "m' = m"
proof (cases "length (rm_participants (room_at m a)) \<ge> kn_room_size k")
  case True
  with assms(1) show ?thesis by (simp add: join_admitted_def Let_def)
next
  case False
  obtain x res where n: "janus_slvoice_negotiate (he_sdp he) (ms_jsep msg) (session_of m (ms_session msg)) = (x, res)" by fastforce
  show ?thesis
  proof (cases res)
    case (Inl c)
    from negotiate_error [OF n [unfolded Inl]] have "upd_session (ms_session msg) (\<lambda>_. x) m = m" by (simp add: upd_session_id)
    with assms(1) False show ?thesis by (simp add: join_admitted_def Let_def n Inl)
  next
    case (Inr sdp)
    define m1 where "m1 = upd_session (ms_session msg) (\<lambda>_. x) m"
    define ja where "ja = \<lparr>ja_user_id = he_random_user he, ja_display = json_string_value (json_object_get (ms_root msg) ''display''),
      ja_recorder = json_is_true (json_object_get (ms_root msg) ''recorder''), ja_media = he_media he\<rparr>"
    have "\<not> rm_destroyed (room_at m1 a)" using assms(2) by (simp add: m1_def)
    from join_both_alive [OF this] obtain n r where j: "join_both k (he_now he) a (ms_session msg) ja m1 = (n, Some r)" by blast
    from assms(1) False show ?thesis
      by (simp add: join_admitted_def Let_def n Inr j m1_def [symmetric] ja_def [symmetric])
  qed
qed

lemma ref_by_id: "janus_slvoice_room_ref_by_id m i = Some a \<Longrightarrow> \<not> rm_destroyed (room_at m a) \<and> map_of (mx_rooms m) i = Some a"
  by (auto simp: janus_slvoice_room_ref_by_id_def split: option.splits if_splits)

lemma join_error:
  assumes "handle_join he k msg m = (m', Slv_error code cause, r)"
  shows "no_trace m m'"
proof -
  have step: "no_trace m m'"
    if a: "janus_slvoice_room_ref_by_id m i = Some a" and c: "join_capability he k body i a s m = (n, None)"
      and e: "join_admitted he k msg i a n = (m', Slv_error code cause)" for i a n body s
  proof -
    have nt: "no_trace m n" by (rule capability_no_trace [OF c])
    then have "(room_at n a)\<lparr>rm_empty_since := 0\<rparr> = (room_at m a)\<lparr>rm_empty_since := 0\<rparr>" by (simp add: no_trace_def)
    from arg_cong [OF this, of rm_destroyed] have "\<not> rm_destroyed (room_at n a)" using ref_by_id [OF a] by simp
    from admitted_error [OF e this] nt show ?thesis by simp
  qed
  show ?thesis
    using assms step capability_no_trace unfolding handle_join_def Let_def
    by (fastforce split: if_splits option.splits prod.splits)
qed

lemma create_error:
  assumes "handle_create he body m = (m', Slv_error code cause)"
  shows "no_trace m m'"
proof -
  have rearm: "no_trace m (upd_room a (janus_slvoice_room_rearm_grace_locked now) m)" for a now
    by (simp add: no_trace_def upd_room_def janus_slvoice_room_rearm_grace_locked_def)
  show ?thesis
    using assms rearm by (auto simp: handle_create_def Let_def janus_slvoice_room_create_def split: option.splits prod.splits if_splits)
qed


subsection \<open>Every request keeps the memberships\<close>

lemma negotiate_seat:
  "seat (fst (janus_slvoice_negotiate sd jsep x)) = seat x \<and> luggage (fst (janus_slvoice_negotiate sd jsep x)) = luggage x"
  by (simp add: janus_slvoice_negotiate_def Let_def seat_def luggage_def split: option.split sum.split)

lemma negotiate_keeps:
  assumes "janus_slvoice_negotiate sd jsep (session_of m s) = (x, res)"
  shows "same_seats m (upd_session s (\<lambda>_. x) m)"
  using negotiate_seat [of sd jsep "session_of m s"] by (intro same_seats_upd_session) (simp_all add: assms)

lemma same_seats_counters:
  "same_seats m (m\<lparr>mx_joincap := js\<rparr>)" "same_seats m (m\<lparr>mx_join_cap_enforced := n\<rparr>)"
  by (simp_all add: same_seats_def)

lemma capability_keeps:
  assumes "join_capability he k body room_id a s m = (m', r)"
  shows "same_seats m m'"
proof -
  obtain v js where v: "janus_slvoice_joincap_verify (he_hmac he) (he_memeq he) (kn_join_cap_key k)
      (json_string_value (json_object_get body ''join_cap'')) (json_string_value (json_object_get body ''display''))
      (json_string_value (json_object_get body ''session_id'')) (json_int_of_u64 room_id) (rm_vis_auth_epoch (room_at m a))
      (rm_vis_policy_gen (room_at m a)) (rm_vis_declared (room_at m a) \<or> rm_sim_created (room_at m a)) (he_now_s he) (mx_joincap m) = (v, js)"
    by fastforce
  have u: "same_seats m (upd_session s (\<lambda>x. x\<lparr>se_cap_present := p, se_cap_verdict := c\<rparr>) (m\<lparr>mx_joincap := js\<rparr>))" for p c
    by (rule same_seats_trans [OF same_seats_counters(1) same_seats_upd_session]) (simp_all add: seat_def luggage_def)
  show ?thesis
    using assms u same_seats_trans [OF u same_seats_counters(2)]
    by (auto simp: join_capability_def Let_def v split: if_splits)
qed

text \<open>The environment a request meets: the clock has started, and the number drawn is not taken in the room asked for.\<close>

definition request_room :: "slv_message \<Rightarrow> nat" where
  "request_room msg = u64_of_json_int (json_integer_value (json_object_get (ms_root msg) ''room''))"

definition fresh_number :: "nat \<Rightarrow> slv_message \<Rightarrow> slv_mixer \<Rightarrow> bool" where
  "fresh_number n msg m \<longleftrightarrow>
     (case map_of (mx_rooms m) (request_room msg) of
        None \<Rightarrow> True
      | Some a \<Rightarrow> (if n = 0 then 1 else n) \<notin> fst ` set (rm_participants (room_at m a)))"

lemma same_seats_sel:
  assumes "same_seats m m'"
  shows "mx_rooms m' = mx_rooms m" "mx_live m' = mx_live m" "rm_participants (room_at m' a) = rm_participants (room_at m a)"
    "se_room (session_of m' s) = se_room (session_of m s)" "rm_destroyed (room_at m' a) = rm_destroyed (room_at m a)"
    "rm_room_id (room_at m' a) = rm_room_id (room_at m a)" "rm_empty_since (room_at m' a) = rm_empty_since (room_at m a)"
  using assms roll_sel [of "room_at m' a" "room_at m a"] seat_sel(1) [of "session_of m' s" "session_of m s"]
  by (auto simp: same_seats_def)

lemma map_of_live_room: "map_of (mx_rooms m) i = Some a \<Longrightarrow> a \<in> snd ` set (mx_rooms m)"
  by (force dest: map_of_SomeD)

lemma admitted_inv:
  assumes "mixer_inv k m" "se_room (session_of m (ms_session msg)) = None" "ms_session msg \<in> set (mx_live m)"
    and "map_of (mx_rooms m) i = Some a" "(if he_random_user he = 0 then 1 else he_random_user he) \<notin> fst ` set (rm_participants (room_at m a))"
  shows "mixer_inv k (fst (join_admitted he k msg i a m))"
proof (cases "length (rm_participants (room_at m a)) \<ge> kn_room_size k")
  case True
  with assms(1) show ?thesis by (simp add: join_admitted_def Let_def)
next
  case False
  obtain x res where n: "janus_slvoice_negotiate (he_sdp he) (ms_jsep msg) (session_of m (ms_session msg)) = (x, res)" by fastforce
  define m1 where "m1 = upd_session (ms_session msg) (\<lambda>_. x) m"
  define ja where "ja = \<lparr>ja_user_id = he_random_user he, ja_display = json_string_value (json_object_get (ms_root msg) ''display''),
    ja_recorder = json_is_true (json_object_get (ms_root msg) ''recorder''), ja_media = he_media he\<rparr>"
  have keep: "same_seats m m1" unfolding m1_def by (rule negotiate_keeps [OF n])
  note sel = same_seats_sel [OF keep]
  have inv: "mixer_inv k m1" by (rule same_seats_inv [OF keep assms(1)])
  have "join_uid ja \<notin> fst ` set (rm_participants (room_at m1 a))"
    using assms(5) by (simp add: sel ja_def join_uid_def split: if_splits)
  with inv have "mixer_inv k (fst (join_both k (he_now he) a (ms_session msg) ja m1))"
    using assms(2,3) map_of_live_room [OF assms(4)] False by (intro join_inv) (simp_all add: sel)
  moreover obtain n r where "join_both k (he_now he) a (ms_session msg) ja m1 = (n, r)" by fastforce
  ultimately show ?thesis
    using False inv
    by (simp add: join_admitted_def Let_def n m1_def [symmetric] ja_def [symmetric] split: sum.split option.split)
qed

lemma join_request_inv:
  assumes "mixer_inv k m" "ms_session msg \<in> set (mx_live m)" "fresh_number (he_random_user he) msg m"
  shows "mixer_inv k (fst (handle_join he k msg m))"
proof -
  have "mixer_inv k (fst (join_admitted he k msg (request_room msg) a n))"
    if "janus_slvoice_room_ref_by_id m (request_room msg) = Some a" "se_room (session_of m (ms_session msg)) = None"
      and n: "join_capability he k (ms_root msg) (request_room msg) a (ms_session msg) m = (n, None)" for a n
  proof -
    have keep: "same_seats m n" by (rule capability_keeps [OF n])
    note sel = same_seats_sel [OF keep]
    have a: "map_of (mx_rooms m) (request_room msg) = Some a" using ref_by_id [OF that(1)] by simp
    show ?thesis
      using assms(2,3) that(2) a
      by (intro admitted_inv same_seats_inv [OF keep assms(1)]) (simp_all add: sel fresh_number_def split: if_splits)
  qed
  moreover have "mixer_inv k n"
    if "join_capability he k (ms_root msg) (request_room msg) a (ms_session msg) m = (n, Some r)" for a n r
    by (rule same_seats_inv [OF capability_keeps [OF that] assms(1)])
  ultimately show ?thesis
    using assms(1)
    by (auto simp: handle_join_def Let_def request_room_def [symmetric] split: option.split prod.split) (metis fst_conv)+
qed

lemma create_request_inv:
  assumes "mixer_inv k m" "he_now he \<noteq> 0"
  shows "mixer_inv k (fst (handle_create he body m))"
proof (cases "map_of (mx_rooms m) (ra_id (create_args he body))")
  case (Some a)
  then show ?thesis using rearm_inv [OF assms] by (simp add: handle_create_def Let_def)
next
  case None
  obtain n res where n: "janus_slvoice_room_create (he_tick_ok he) (he_now he) (create_args he body) m = (n, res)" by fastforce
  show ?thesis
  proof (cases res)
    case None': None
    then have "n = m" using n by (auto simp: janus_slvoice_room_create_def Let_def split: prod.splits if_splits)
    then show ?thesis using assms(1) by (simp add: handle_create_def Let_def None n None')
  next
    case (Some a)
    show ?thesis using create_inv [OF assms(1) n [unfolded Some] _ assms(2)] None
      by (simp add: handle_create_def Let_def None n Some rooms_insert_def map_of_eq_None_iff [symmetric])
  qed
qed

lemma destroy_request_inv: "mixer_inv k m \<Longrightarrow> mixer_inv k (fst (handle_destroy body m))"
  using teardown_inv [of k "{}" m] map_of_live_room [of m]
  by (auto simp: handle_destroy_def Let_def mixer_inv_def split: option.split)

lemma configure_inv: "mixer_inv k m \<Longrightarrow> mixer_inv k (fst (handle_configure he msg m))"
  using same_seats_inv [OF negotiate_keeps] by (fastforce simp: handle_configure_def Let_def split: prod.split sum.split)

lemma leave_request_inv: "mixer_inv k m \<Longrightarrow> he_now he \<noteq> 0 \<Longrightarrow> mixer_inv k (fst (handle_leave he k' s m))"
proof -
  assume "mixer_inv k m" "he_now he \<noteq> 0"
  then have "mixer_inv k (janus_slvoice_leave_room (he_dumps he) k' (he_now he) s m)"
    unfolding mixer_inv_def by (rule leave_inv)
  then show ?thesis
    using \<open>mixer_inv k m\<close> same_seats_inv [OF media_free_keeps] by (simp add: handle_leave_def Let_def split: option.split)
qed

lemma request_inv:
  assumes "mixer_inv k m" "ms_session msg \<in> set (mx_live m)" "he_now he \<noteq> 0" "fresh_number (he_random_user he) msg m"
  shows "mixer_inv k (fst (handle_request he k msg m))"
  by (simp add: handle_request_def split_beta assms(1) create_request_inv [OF assms(1,3)] destroy_request_inv [OF assms(1)]
      configure_inv [OF assms(1)] join_request_inv [OF assms(1,2,4)] leave_request_inv [OF assms(1,3)] split: option.split)

lemma announce_keeps: "same_seats m (announce_join dumps k now out m)"
  by (cases "(dumps, k, now, out, m)" rule: announce_join.cases) (simp_all add: push_presence_keeps)

lemma message_inv:
  assumes "mixer_inv k m" "he_now he \<noteq> 0" "fresh_number (he_random_user he) msg m"
    and "ms_session msg \<in> set (mx_live m) \<or> se_destroyed (session_of m (ms_session msg))"
  shows "mixer_inv k (snd (fst (handler_turn k (he, msg) (reason, m))))"
proof (cases "se_destroyed (session_of m (ms_session msg))")
  case False
  with assms(4) have "mixer_inv k (fst (handle_request he k msg m))" by (intro request_inv assms) simp
  from same_seats_inv [OF announce_keeps this] show ?thesis
    using False by (simp add: handler_turn_def split_beta Let_def)
qed (simp add: handler_turn_def assms(1))

subsection \<open>A room is created\<close>

lemma create_event:
  assumes "handle_create he body m = (n, Slv_event ev jsep pr)"
  obtains a n1 where "map_of (mx_rooms m) (ra_id (create_args he body)) = None"
    "janus_slvoice_room_create (he_tick_ok he) (he_now he) (create_args he body) m = (n1, Some a)"
    "n = rooms_insert (ra_id (create_args he body)) a n1" "jsep = None" "pr = None"
    "ev = JObject [(''audiobridge'', JString ''created''), (''room'', JInt (json_int_of_u64 (ra_id (create_args he body)))),
       (''permanent'', JBool (ra_permanent (create_args he body)))]"
  using assms by (auto simp: handle_create_def Let_def split: option.splits prod.splits)

lemma room_create_event:
  assumes "janus_slvoice_room_create ok now ra m = (n, Some a)"
  shows "a = mx_next_room m" "\<exists>r. n = m\<lparr>mx_heap := (mx_heap m)(a := r), mx_next_room := a + 1\<rparr> \<and> rm_room_id r = ra_id ra \<and>
    rm_participants r = [] \<and> \<not> rm_destroyed r \<and> rm_is_private r = ra_private ra \<and> rm_spatial_audio r = ra_spatial ra \<and>
    rm_permanent r = ra_permanent ra \<and> rm_tick_running r \<and> rm_vis_declared r = ra_vis_authority ra \<and>
    rm_sim_created r = ra_sim_created ra"
  using assms by (auto simp: janus_slvoice_room_create_def Let_def janus_slvoice_room_start_def janus_slvoice_room_zero_def
      split: if_splits)

lemma u64_range: "u64_of_json_int i < 2 ^ 64"
  by (simp add: u64_of_json_int_def nat_less_iff)

lemma create_id_range: "he_random_room he < 2 ^ 64 \<Longrightarrow> ra_id (create_args he body) < 2 ^ 64"
  using u64_range by (simp add: create_args_def Let_def)

lemma create_asked:
  "room = u64_of_json_int i \<Longrightarrow> room \<noteq> 0 \<Longrightarrow> json_object_get body ''room'' = Some (JInt i) \<Longrightarrow> ra_id (create_args he body) = room"
  by (simp add: create_args_def Let_def)

lemma delete_fresh: "i \<notin> fst ` set xs \<Longrightarrow> AList.delete i (xs @ [(i, a)]) = xs"
  by (induction xs) auto

lemma ref_inv: "mixer_inv k m \<Longrightarrow> janus_slvoice_room_ref_by_id m i = map_of (mx_rooms m) i"
  by (force simp: janus_slvoice_room_ref_by_id_def mixer_inv_def marked_inv_def rooms_ok_def dest: map_of_SomeD split: option.split)

text \<open>
  C25 The number a creation answers names the room created and no other: the number was free, naming it (as any
  64-bit JSON integer) finds the new, empty and running room with the properties asked for, every older room is found as
  before, and destroying it by that number gives back the table of rooms with all the older rooms and all the sessions
  as they were.
\<close>

theorem create_destroy_roundtrip:
  assumes "mixer_inv k m" "he_random_room he < 2 ^ 64" "handle_create he body m = (n, Slv_event ev jsep pr)"
    and "json_object_get (Some ev) ''room'' = Some number"
  shows "case handle_destroy (Some (JObject [(''room'', number)])) n of (m', out) \<Rightarrow>
    let id = u64_of_json_int (json_integer_value (Some number)) in
    map_of (mx_rooms m) id = None \<and>
    (case janus_slvoice_room_ref_by_id n id of
       None \<Rightarrow> False
     | Some a \<Rightarrow> a = mx_next_room m \<and> rm_participants (room_at n a) = [] \<and> rm_tick_running (room_at n a) \<and>
         rm_permanent (room_at n a) = json_is_true (json_object_get body ''permanent'') \<and>
         rm_is_private (room_at n a) = json_is_true (json_object_get body ''is_private'') \<and>
         rm_vis_declared (room_at n a) = json_is_true (json_object_get body ''vis_authority'') \<and>
         rm_sim_created (room_at n a) = json_is_true (json_object_get body ''sim_created'') \<and>
         (\<forall>b. b \<noteq> a \<longrightarrow> room_at n b = room_at m b \<and> room_at m' b = room_at m b)) \<and>
    (\<forall>i. i \<noteq> id \<longrightarrow> janus_slvoice_room_ref_by_id n i = janus_slvoice_room_ref_by_id m i) \<and>
    out = Slv_event (JObject [(''audiobridge'', JString ''destroyed''), (''room'', number)]) None None \<and>
    mx_rooms m' = mx_rooms m \<and> (\<forall>s. session_of m' s = session_of m s) \<and> mx_outbox n = mx_outbox m"
proof -
  let ?ra = "create_args he body"
  obtain a n1 where c: "map_of (mx_rooms m) (ra_id ?ra) = None"
      "janus_slvoice_room_create (he_tick_ok he) (he_now he) ?ra m = (n1, Some a)" "n = rooms_insert (ra_id ?ra) a n1"
    and ev: "ev = JObject [(''audiobridge'', JString ''created''), (''room'', JInt (json_int_of_u64 (ra_id ?ra))),
       (''permanent'', JBool (ra_permanent ?ra))]"
    using assms(3) by (rule create_event) blast
  obtain r where n1: "n1 = m\<lparr>mx_heap := (mx_heap m)(a := r), mx_next_room := a + 1\<rparr>" and a: "a = mx_next_room m"
    and r: "rm_room_id r = ra_id ?ra" "rm_participants r = []" "\<not> rm_destroyed r" "rm_is_private r = ra_private ?ra"
      "rm_permanent r = ra_permanent ?ra" "rm_tick_running r" "rm_vis_declared r = ra_vis_authority ?ra"
      "rm_sim_created r = ra_sim_created ?ra"
    using room_create_event [OF c(2)] by blast
  have id: "u64_of_json_int (json_int_of_u64 (ra_id ?ra)) = ra_id ?ra"
    by (rule u64_of_json_int_of_u64) (rule create_id_range [OF assms(2)])
  have num: "number = JInt (json_int_of_u64 (ra_id ?ra))" using assms(4) by (simp add: ev)
  have fresh: "ra_id ?ra \<notin> fst ` set (mx_rooms m)" using c(1) by (simp add: map_of_eq_None_iff)
  have n: "room_at n b = (if b = a then r else room_at m b)" "session_of n s = session_of m s" "mx_outbox n = mx_outbox m"
    "mx_rooms n = mx_rooms m @ [(ra_id ?ra, a)]" for b s
    by (simp_all add: c(3) n1 rooms_insert_def)
  have old: "room_at n b = room_at m b" if "(i, b) \<in> set (mx_rooms m)" for i b
    using that assms(1) by (auto simp: n a mixer_inv_def marked_inv_def rooms_ok_def)
  have find: "janus_slvoice_room_ref_by_id n (ra_id ?ra) = Some a"
    using c(1) r(3) by (simp add: janus_slvoice_room_ref_by_id_def n map_add_def)
  have others: "janus_slvoice_room_ref_by_id n i = janus_slvoice_room_ref_by_id m i" if "i \<noteq> ra_id ?ra" for i
    using that old map_of_SomeD [of "mx_rooms m" i]
    by (cases "map_of (mx_rooms m) i") (simp_all add: janus_slvoice_room_ref_by_id_def n(4) map_add_def)
  note T = teardown_state [where a = a and m = n]
  have tear: "mx_rooms (janus_slvoice_room_teardown_locked a n) = mx_rooms m"
    "room_at (janus_slvoice_room_teardown_locked a n) b = room_at m b"
    "session_of (janus_slvoice_room_teardown_locked a n) s = session_of m s" if "b \<noteq> a" for b s
    using T(4) [of b] T(6) [where w = s] that by (simp_all add: T(1) n r delete_fresh [OF fresh])
  have "map_of (mx_rooms n) (ra_id ?ra) = Some a" using c(1) by (simp add: n(4) map_add_def)
  then have d: "handle_destroy (Some (JObject [(''room'', number)])) n =
      (janus_slvoice_room_teardown_locked a n, Slv_event (JObject [(''audiobridge'', JString ''destroyed''), (''room'', number)]) None None)"
    by (simp add: handle_destroy_def Let_def num id)
  have props: "ra_private ?ra = json_is_true (json_object_get body ''is_private'')"
    "ra_permanent ?ra = json_is_true (json_object_get body ''permanent'')"
    "ra_vis_authority ?ra = json_is_true (json_object_get body ''vis_authority'')"
    "ra_sim_created ?ra = json_is_true (json_object_get body ''sim_created'')"
    by (simp_all add: create_args_def Let_def)
  have tear': "\<forall>b. b \<noteq> a \<longrightarrow> room_at n b = room_at m b \<and> room_at (janus_slvoice_room_teardown_locked a n) b = room_at m b"
    "\<forall>s. session_of (janus_slvoice_room_teardown_locked a n) s = session_of m s"
    using tear(2) tear(3) [of "Suc a"] by (simp_all add: n(1))
  have id': "u64_of_json_int (json_integer_value (Some number)) = ra_id ?ra" by (simp add: num id)
  show ?thesis
    unfolding d prod.case Let_def id' find option.case
    by (simp add: c(1) others tear' tear(1) [of "Suc a"] n(3) a [symmetric]) (simp add: n(1) r props)
qed

subsection \<open>The reason of a refusal\<close>

lemmas error_code_defs = JANUS_SLVOICE_ERROR_INVALID_REQUEST_def JANUS_SLVOICE_ERROR_MISSING_ELEMENT_def
  JANUS_SLVOICE_ERROR_NO_SUCH_ROOM_def JANUS_SLVOICE_ERROR_ROOM_EXISTS_def JANUS_SLVOICE_ERROR_NOT_JOINED_def
  JANUS_SLVOICE_ERROR_ALREADY_JOINED_def JANUS_SLVOICE_ERROR_INVALID_SDP_def JANUS_SLVOICE_ERROR_ROOM_FULL_def
  JANUS_SLVOICE_ERROR_JOIN_CAP_def JANUS_SLVOICE_ERROR_UNKNOWN_def

text \<open>Exactly the refusals for the capability come with a reason.\<close>

fun reason_fits :: "slv_outcome \<times> string option \<Rightarrow> bool" where
  "reason_fits (Slv_error code cause, reason) = ((code = JANUS_SLVOICE_ERROR_JOIN_CAP) = (reason \<noteq> None))"
| "reason_fits (Slv_event event jsep presence, reason) = (reason = None)"

lemmas fits_defs = error_code_defs missing_room_def no_such_room_def

lemma other_fits:
  "reason_fits (snd (handle_create he body m), None)" "reason_fits (snd (handle_destroy body m), None)"
  "reason_fits (snd (handle_configure he msg m), None)" "reason_fits (snd (handle_leave he k s m), None)"
  "reason_fits (handle_list m, None)" "reason_fits (handle_listparticipants body m, None)"
  "reason_fits (snd (join_admitted he k msg i a m), None)"
  by (auto simp: handle_create_def handle_destroy_def handle_configure_def handle_leave_def handle_list_def
      handle_listparticipants_def join_admitted_def Let_def fits_defs split: option.split prod.split sum.split)

lemma join_fits: "reason_fits (snd (handle_join he k msg m))"
  using other_fits(7) by (auto simp: handle_join_def Let_def fits_defs split_beta split: option.split)

lemma request_fits: "reason_fits (snd (handle_request he k msg m))"
  by (simp add: handle_request_def split_beta other_fits join_fits split: option.split) (simp add: fits_defs)

text \<open>
  What the replies of the thread say, in order: an event has no reason, a refusal for the capability its own, and every
  other error the one of the last refusal before it, whoever was refused.
\<close>

fun stale_reasons :: "string option \<Rightarrow> (json \<times> json option) option list \<Rightarrow> bool" where
  "stale_reasons lately [] = True"
| "stale_reasons lately (None # replies) = stale_reasons lately replies"
| "stale_reasons lately (Some (reply, jsep) # replies) =
     (case json_object_get (Some reply) ''error_code'' of
        None \<Rightarrow> stale_reasons lately replies
      | Some c \<Rightarrow>
          if c = JInt JANUS_SLVOICE_ERROR_JOIN_CAP
          then (case json_string_value (json_object_get (Some reply) ''reason'') of
                  None \<Rightarrow> False
                | Some r \<Rightarrow> stale_reasons (Some r) replies)
          else json_object_get (Some reply) ''reason'' = map_option JString lately \<and> stale_reasons lately replies)"

text \<open>
  C28 The reason of a refused capability outlives its request: for every queue of messages, of any sessions, each error
  that is not such a refusal is answered with the reason of the last refusal before it in the thread's life, and with
  none only as long as there was none. (The variable \<^verbatim>\<open>error_reason\<close> is set before the loop and never reset, where the
  comment beside it says that an error without a reason of its own has none.)
\<close>

theorem reason_outlives_request:
  "stale_reasons lately (snd (janus_slvoice_handler k queue (lately, m)))"
proof (induction queue arbitrary: lately m)
  case (Cons q queue)
  obtain he msg where q: "q = (he, msg)" by fastforce
  obtain m1 out reason where r: "handle_request he k msg m = (m1, out, reason)" by (metis prod_cases3)
  have f: "reason_fits (out, reason)" using request_fits [of he k msg m] by (simp add: r)
  have o: "outcome_ok out" using request_ok [of he k msg m] by (simp add: r)
  show ?case
  proof (cases "se_destroyed (session_of m (ms_session msg))")
    case True
    then show ?thesis using Cons.IH [of lately m] by (simp add: q handler_turn_def split_beta)
  next
    case False
    then show ?thesis
      using Cons.IH f o
      by (cases out; cases reason) (auto simp: q handler_turn_def r split_beta Let_def split: option.split)
  qed
qed simp

subsection \<open>A join that succeeds\<close>

lemma join_commit_display:
  "se_display (session_of (fst (janus_slvoice_join_commit_locked k now a s m)) w) = se_display (session_of m w)"
proof -
  have cols: "se_display (session_of (upd_room a g (upd_session s (\<lambda>x. x\<lparr>se_excluded := e x, se_mod_muted := u x\<rparr>) n)) w) = se_display (session_of n w)"
    "se_display (session_of (upd_session s (\<lambda>x. x\<lparr>se_excluded := e x, se_mod_muted := u x\<rparr>) n) w) = se_display (session_of n w)"
    "se_display (session_of (upd_session s (\<lambda>x. x\<lparr>se_vis_ok_last := v x\<rparr>) n) w) = se_display (session_of n w)" for n e u v g
    by (simp_all add: upd_session_def)
  have rejoin: "se_display (session_of (fst (janus_slvoice_vis_rejoin_columns_locked k a s m)) w) = se_display (session_of m w)"
    unfolding janus_slvoice_vis_rejoin_columns_locked_def Let_def by (simp add: cols split: option.split)
  have replay: "se_display (session_of (janus_slvoice_room_replay_deferred_locked a s n) w) = se_display (session_of n w)" for n
    unfolding janus_slvoice_room_replay_deferred_locked_def Let_def by (simp add: cols split: option.split)
  obtain n took where n: "janus_slvoice_vis_rejoin_columns_locked k a s m = (n, took)" by fastforce
  show ?thesis
    unfolding janus_slvoice_join_commit_locked_def Let_def n prod.case fst_conv cols(3)
    using rejoin replay by (simp add: n)
qed

lemma join_both_state:
  assumes "\<not> rm_destroyed (room_at m a)" "join_both k now a s ja m = (n, r)"
    and "join_uid ja \<notin> fst ` set (rm_participants (room_at m a))"
  shows "rm_participants (room_at n b) = rm_participants (room_at m b) @ (if b = a then [(join_uid ja, s)] else [])"
    "seat (session_of n w) = (if w = s then (Some a, join_uid ja) else seat (session_of m w))"
    "mx_rooms n = mx_rooms m" "rm_empty_since (room_at n a) = 0" "se_display (session_of n s) = ja_display ja"
proof -
  let ?m1 = "upd_session s (join_session now a ja) m"
  let ?m2 = "upd_room a (\<lambda>r. r\<lparr>rm_empty_since := 0, rm_participants := AList.update (join_uid ja) s (rm_participants r)\<rparr>) ?m1"
  have n: "n = fst (janus_slvoice_join_commit_locked k now a s ?m2)"
    using assms(1,2) by (auto simp: join_both_def join_room_def Let_def split: prod.splits)
  have parts: "rm_participants (room_at ?m2 b) = rm_participants (room_at m b) @ (if b = a then [(join_uid ja, s)] else [])" for b
    using assms(3) by (simp add: upd_room_def AList_update_new)
  have seat: "seat (session_of ?m2 w) = (if w = s then (Some a, join_uid ja) else seat (session_of m w))" for w
    by (simp add: upd_session_def upd_room_def join_session_sel)
  have "se_room (session_of ?m2 s) \<noteq> None" using seat [of s] by (simp add: seat_def)
  from join_commit_keeps [OF this] have keep: "same_seats ?m2 n" by (simp add: n)
  show "rm_participants (room_at n b) = rm_participants (room_at m b) @ (if b = a then [(join_uid ja, s)] else [])"
    using same_seats_sel(3) [OF keep] parts by (simp only:)
  show "seat (session_of n w) = (if w = s then (Some a, join_uid ja) else seat (session_of m w))"
    using keep seat by (simp only: same_seats_def)
  show "mx_rooms n = mx_rooms m" using same_seats_sel(1) [OF keep] by simp
  show "rm_empty_since (room_at n a) = 0" using same_seats_sel(7) [OF keep, of a] by (simp add: upd_room_def)
  have "se_display (session_of ?m2 s) = ja_display ja"
    by (simp add: upd_session_def join_session_def media_alloc_sel)
  then show "se_display (session_of n s) = ja_display ja" by (simp only: n join_commit_display)
qed

text \<open>The way a join succeeds: through the capability's gate and the negotiation to the commit.\<close>

definition message_join_args :: "('sdp, 'ml) slv_handler_env \<Rightarrow> slv_message \<Rightarrow> slv_join_args" where
  "message_join_args he msg = \<lparr>ja_user_id = he_random_user he, ja_display = json_string_value (json_object_get (ms_root msg) ''display''),
     ja_recorder = json_is_true (json_object_get (ms_root msg) ''recorder''), ja_media = he_media he\<rparr>"

lemma join_event:
  assumes "handle_join he k msg m = (m', Slv_event ev jsep pr, reason)"
  obtains a n x sdp roster where "janus_slvoice_room_ref_by_id m (request_room msg) = Some a"
    "se_room (session_of m (ms_session msg)) = None"
    "join_capability he k (ms_root msg) (request_room msg) a (ms_session msg) m = (n, None)"
    "length (rm_participants (room_at n a)) < kn_room_size k"
    "janus_slvoice_negotiate (he_sdp he) (ms_jsep msg) (session_of n (ms_session msg)) = (x, Inr sdp)"
    "join_both k (he_now he) a (ms_session msg) (message_join_args he msg) (upd_session (ms_session msg) (\<lambda>_. x) n) = (m', Some roster)"
    "ev = JObject [(''audiobridge'', JString ''joined''), (''room'', JInt (json_int_of_u64 (request_room msg))),
       (''id'', JInt (json_int_of_u64 (join_uid (message_join_args he msg)))), (''participants'', roster)]"
    "jsep = Some (jsep_answer_of sdp)" "pr = map_option (Pair a) (json_string_value (json_object_get (ms_root msg) ''display''))"
proof -
  have "\<exists>a n. janus_slvoice_room_ref_by_id m (request_room msg) = Some a \<and> se_room (session_of m (ms_session msg)) = None \<and>
      join_capability he k (ms_root msg) (request_room msg) a (ms_session msg) m = (n, None) \<and>
      join_admitted he k msg (request_room msg) a n = (m', Slv_event ev jsep pr)"
    using assms unfolding handle_join_def Let_def request_room_def [symmetric] missing_room_def no_such_room_def
    by (auto split: if_splits option.splits prod.splits)
  then obtain a n where a: "janus_slvoice_room_ref_by_id m (request_room msg) = Some a" "se_room (session_of m (ms_session msg)) = None"
      "join_capability he k (ms_root msg) (request_room msg) a (ms_session msg) m = (n, None)"
    and j: "join_admitted he k msg (request_room msg) a n = (m', Slv_event ev jsep pr)" by blast
  from j show thesis
    by (auto simp: join_admitted_def Let_def message_join_args_def [symmetric] no_such_room_def
        intro: that [OF a] split: if_splits prod.splits sum.splits option.splits)
qed

text \<open>
  C11 A join that is answered with "joined" has done exactly that: the session was in no room, it is now the last
  participant of the room it named, under the number answered and within the capacity; the room's grace clock is
  stopped; every other room and every other session's membership is unchanged; the answer comes with a session
  description, and with a name there is a newcomer to announce.
\<close>

theorem join_exact:
  assumes "mixer_inv k m" "ms_session msg \<in> set (mx_live m)" "fresh_number (he_random_user he) msg m"
    and "handle_join he k msg m = (m', Slv_event ev jsep pr, reason)"
  shows "case map_of (mx_rooms m) (request_room msg) of
      None \<Rightarrow> False
    | Some a \<Rightarrow>
        let s = ms_session msg; uid = (if he_random_user he = 0 then 1 else he_random_user he) in
        se_room (session_of m s) = None \<and> se_room (session_of m' s) = Some a \<and> se_user_id (session_of m' s) = uid \<and>
        rm_participants (room_at m' a) = rm_participants (room_at m a) @ [(uid, s)] \<and>
        length (rm_participants (room_at m' a)) \<le> kn_room_size k \<and> rm_empty_since (room_at m' a) = 0 \<and>
        mx_rooms m' = mx_rooms m \<and>
        (\<forall>b. b \<noteq> a \<longrightarrow> rm_participants (room_at m' b) = rm_participants (room_at m b)) \<and>
        (\<forall>w. w \<noteq> s \<longrightarrow> se_room (session_of m' w) = se_room (session_of m w)) \<and>
        json_object_get (Some ev) ''id'' = Some (JInt (json_int_of_u64 uid)) \<and>
        json_object_get (Some ev) ''room'' = Some (JInt (json_int_of_u64 (request_room msg))) \<and>
        json_is_string (json_object_get jsep ''sdp'') \<and>
        pr = map_option (Pair a) (json_string_value (json_object_get (ms_root msg) ''display''))"
proof -
  obtain a n x sdp roster where J: "janus_slvoice_room_ref_by_id m (request_room msg) = Some a"
      "se_room (session_of m (ms_session msg)) = None"
      "join_capability he k (ms_root msg) (request_room msg) a (ms_session msg) m = (n, None)"
      "length (rm_participants (room_at n a)) < kn_room_size k"
      "janus_slvoice_negotiate (he_sdp he) (ms_jsep msg) (session_of n (ms_session msg)) = (x, Inr sdp)"
      "join_both k (he_now he) a (ms_session msg) (message_join_args he msg) (upd_session (ms_session msg) (\<lambda>_. x) n) = (m', Some roster)"
    and ev: "ev = JObject [(''audiobridge'', JString ''joined''), (''room'', JInt (json_int_of_u64 (request_room msg))),
       (''id'', JInt (json_int_of_u64 (join_uid (message_join_args he msg)))), (''participants'', roster)]"
      "jsep = Some (jsep_answer_of sdp)" "pr = map_option (Pair a) (json_string_value (json_object_get (ms_root msg) ''display''))"
    using assms(4) by (rule join_event)
  define n1 where "n1 = upd_session (ms_session msg) (\<lambda>_. x) n"
  have keep: "same_seats m n1"
    unfolding n1_def by (rule same_seats_trans [OF capability_keeps [OF J(3)] negotiate_keeps [OF J(5)]])
  note sel = same_seats_sel [OF keep]
  have a: "map_of (mx_rooms m) (request_room msg) = Some a" "\<not> rm_destroyed (room_at m a)" using ref_by_id [OF J(1)] by simp_all
  have uid: "join_uid (message_join_args he msg) = (if he_random_user he = 0 then 1 else he_random_user he)"
    by (simp add: join_uid_def message_join_args_def)
  have fresh: "join_uid (message_join_args he msg) \<notin> fst ` set (rm_participants (room_at n1 a))"
    using assms(3) by (simp only: fresh_number_def a option.case uid sel not_False_eq_True)
  have "\<not> rm_destroyed (room_at n1 a)" using a(2) by (simp add: sel)
  note S = join_both_state [OF this J(6) [folded n1_def] fresh]
  have seat: "se_room (session_of m' w) = (if w = ms_session msg then Some a else se_room (session_of m w))"
    "se_user_id (session_of m' (ms_session msg)) = join_uid (message_join_args he msg)" for w
    using S(2) [of w] S(2) [of "ms_session msg"] sel(4) [of w] by (auto simp: seat_def split: if_splits)
  have len: "length (rm_participants (room_at m a)) < kn_room_size k"
    using J(4) same_seats_sel(3) [OF capability_keeps [OF J(3)], of a] by simp
  show ?thesis
    unfolding a option.case Let_def uid [symmetric]
    using len by (simp add: J(2) seat S(1,3,4) sel ev jsep_answer_of_def)
qed

text \<open>
  C4 Where capabilities are required, nobody joins a room the simulator owns without one: the join that succeeds carried
  a capability signed with the key over everything before its last dot, not outside its window and not of an older epoch
  than the room's, for this very room and for the session it names, and the name the participant is known by from then on is the
  agent the capability was issued to.
\<close>

theorem gated_join_bound:
  assumes "\<And>x y. length x = length y \<Longrightarrow> he_memeq he x y = (x = y)"
    and "kn_join_cap_required k" "kn_join_cap_key k = Some key"
    and "handle_join he k msg m = (m', Slv_event ev jsep pr, reason)"
    and "fresh_number (he_random_user he) msg m"
    and "map_of (mx_rooms m) (request_room msg) = Some a" "rm_vis_declared (room_at m a) \<or> rm_sim_created (room_at m a)"
  shows "\<exists>payload bytes sig mac c.
    json_string_value (json_object_get (ms_root msg) ''join_cap'') = Some (SLV_JOINCAP_PREFIX @ payload @ ''.'' @ sig) \<and>
    he_hmac he key (SLV_JOINCAP_PREFIX @ payload) = Some mac \<and> b64url_text sig mac \<and>
    b64url_text payload bytes \<and> joincap_fields bytes = Inr c \<and>
    se_display (session_of m' (ms_session msg)) = Some (jc_agent c) \<and>
    json_string_value (json_object_get (ms_root msg) ''session_id'') = Some (jc_session c) \<and>
    json_int_of_u64 (request_room msg) = jc_room c \<and>
    jc_iat c - SLV_JOINCAP_SKEW_S \<le> he_now_s he \<and> he_now_s he \<le> jc_exp c + SLV_JOINCAP_SKEW_S \<and>
    (jc_epoch c = 0 \<or> rm_vis_auth_epoch (room_at m a) \<le> jc_epoch c)"
proof -
  obtain b n x sdp roster where J: "janus_slvoice_room_ref_by_id m (request_room msg) = Some b"
      "join_capability he k (ms_root msg) (request_room msg) b (ms_session msg) m = (n, None)"
      "janus_slvoice_negotiate (he_sdp he) (ms_jsep msg) (session_of n (ms_session msg)) = (x, Inr sdp)"
      "join_both k (he_now he) b (ms_session msg) (message_join_args he msg) (upd_session (ms_session msg) (\<lambda>_. x) n) = (m', Some roster)"
    using assms(4) by (rule join_event)
  have b: "b = a" "\<not> rm_destroyed (room_at m a)" using ref_by_id [OF J(1)] assms(6) by auto
  define n1 where "n1 = upd_session (ms_session msg) (\<lambda>_. x) n"
  have keep: "same_seats m n1"
    unfolding n1_def by (rule same_seats_trans [OF capability_keeps [OF J(2)] negotiate_keeps [OF J(3)]])
  note sel = same_seats_sel [OF keep]
  have fresh: "join_uid (message_join_args he msg) \<notin> fst ` set (rm_participants (room_at n1 a))"
    using assms(5) by (simp only: fresh_number_def assms(6) option.case sel not_False_eq_True join_uid_def message_join_args_def slv_join_args.simps)
  have "\<not> rm_destroyed (room_at n1 a)" using b(2) by (simp add: sel)
  from join_both_state(5) [OF this J(4) [folded n1_def, unfolded b] fresh]
  have name: "se_display (session_of m' (ms_session msg)) = json_string_value (json_object_get (ms_root msg) ''display'')"
    by (simp add: message_join_args_def)
  define att where "att = \<lparr>ja_cap = json_string_value (json_object_get (ms_root msg) ''join_cap''),
    ja_display = json_string_value (json_object_get (ms_root msg) ''display''),
    ja_session = json_string_value (json_object_get (ms_root msg) ''session_id''), ja_room = json_int_of_u64 (request_room msg),
    ja_epoch = rm_vis_auth_epoch (room_at m a), ja_gen = rm_vis_policy_gen (room_at m a), ja_declared = True, ja_now = he_now_s he\<rparr>"
  have "fst (gate_step (he_hmac he) (he_memeq he) key att (mx_joincap m)) = SLV_JOINCAP_OK"
    using J(2) assms(2,3,7)
    by (auto simp: join_capability_def Let_def gate_step_def att_def b split: if_splits prod.splits)
  from admits_bound [where hmac = "he_hmac he" and memeq = "he_memeq he", OF assms(1) this] show ?thesis
    unfolding att_def join_attempt.simps name by simp
qed

subsection \<open>The properties at a concrete room\<close>

definition sdp_sample :: "(string, unit) sdp_lib" where
  "sdp_sample = \<lparr>sd_parse = Inr, sd_opus_pt = (\<lambda>_. 111), sd_mlines = (\<lambda>_. [(JANUS_SDP_AUDIO, ())]),
     sd_mline_find = (\<lambda>_ ty. if ty = JANUS_SDP_AUDIO then Some () else None), sd_generate_answer = id,
     sd_answer_mline = (\<lambda>offer answer ml options. answer), sd_add_attribute = (\<lambda>answer ty name text. answer @ name),
     sd_port = (\<lambda>_. 9), sd_write = Some\<rparr>"

definition handler_sample :: "(string, unit) slv_handler_env" where
  "handler_sample = \<lparr>he_sdp = sdp_sample, he_dumps = (\<lambda>j. Some ''x''), he_hmac = sample_hmac, he_memeq = (=),
     he_random_room = 5, he_random_user = 33, he_tick_ok = True,
     he_media = \<lparr>ma_dec_ok = True, ma_enc_ok = True, ma_seq = 1, ma_ts = 2, ma_ssrc = 3\<rparr>, he_now = 9, he_now_s = 1\<rparr>"

text \<open>A session asks for the room 1, which a simulator owns, with the capability of \<^verbatim>\<open>Joincap\<close>.\<close>

definition gate_knobs_sample :: slv_knobs where
  "gate_knobs_sample = auth_knobs_sample\<lparr>kn_join_cap_required := True, kn_join_cap_key := Some ''k''\<rparr>"

definition gate_mixer_sample :: slv_mixer where
  "gate_mixer_sample = slv_mixer_init\<lparr>mx_heap := (\<lambda>a. janus_slvoice_room_zero)(0 :=
       janus_slvoice_room_zero\<lparr>rm_room_id := 1, rm_sim_created := True, rm_empty_since := 1, rm_tick_running := True\<rparr>),
     mx_rooms := [(1, 0)], mx_next_room := 1, mx_live := [3]\<rparr>"

definition join_sample :: "string \<Rightarrow> slv_message" where
  "join_sample cap = \<lparr>ms_session = 3,
     ms_root = Some (JObject [(''request'', JString ''join''), (''room'', JInt 1), (''display'', JString ''a''),
       (''session_id'', JString ''s''), (''join_cap'', JString cap)]),
     ms_jsep = Some (JObject [(''type'', JString ''offer''), (''sdp'', JString ''v'')])\<rparr>"

lemmas gate_sample_defs = gate_mixer_sample_def slv_mixer_init_def janus_slvoice_room_zero_def janus_slvoice_session_zero_def

lemma gate_mixer_sample_inv: "mixer_inv gate_knobs_sample gate_mixer_sample"
proof -
  have "seats_ok gate_mixer_sample" by (auto simp: seats_ok_def seat_def gate_sample_defs)
  moreover have "rooms_ok {} gate_mixer_sample" by (auto simp: rooms_ok_def grace_ok_def gate_sample_defs)
  moreover have "sessions_ok gate_mixer_sample" by (simp add: sessions_ok_def luggage_def no_luggage_def gate_sample_defs)
  moreover have "capacity_ok gate_knobs_sample gate_mixer_sample" by (simp add: capacity_ok_def gate_sample_defs)
  ultimately show ?thesis by (simp add: mixer_inv_def marked_inv_def)
qed

lemma gate_sample_room:
  "request_room (join_sample cap) = 1" "janus_slvoice_room_ref_by_id gate_mixer_sample 1 = Some 0"
  "se_room (session_of gate_mixer_sample s) = None" "mx_live gate_mixer_sample = [3]" "map_of (mx_rooms gate_mixer_sample) 1 = Some 0"
  "rm_participants (room_at gate_mixer_sample a) = []" "\<not> rm_destroyed (room_at gate_mixer_sample a)"
  "\<not> rm_vis_declared (room_at gate_mixer_sample a)" "rm_sim_created (room_at gate_mixer_sample 0)"
  "rm_vis_auth_epoch (room_at gate_mixer_sample 0) = 0" "rm_vis_policy_gen (room_at gate_mixer_sample 0) = 0"
  "mx_joincap gate_mixer_sample = joincap_state_init" "fresh_number 33 (join_sample cap) gate_mixer_sample"
  by (simp_all add: gate_sample_defs request_room_def join_sample_def u64_of_json_int_def fresh_number_def
      janus_slvoice_room_ref_by_id_def)

lemma join_sample_sel:
  "ms_session (join_sample cap) = 3" "ms_jsep (join_sample cap) \<noteq> None"
  "json_is_integer (json_object_get (ms_root (join_sample cap)) ''room'')"
  "json_string_value (json_object_get (ms_root (join_sample cap)) ''request'') = Some ''join''"
  "he_random_user handler_sample = 33" "\<And>x y. he_memeq handler_sample x y = (x = y)" "he_random_room handler_sample < 2 ^ 64"
  by (simp_all add: join_sample_def handler_sample_def)

lemma gate_sample_admits:
  "\<exists>n. join_capability handler_sample gate_knobs_sample (ms_root (join_sample sample_cap)) 1 0 3 gate_mixer_sample = (n, None)"
proof -
  have "fst (gate_step sample_hmac (=) ''k'' (sample_attempt 1) joincap_state_init) = SLV_JOINCAP_OK"
    using sample_admitted [of 1] by (simp add: split_beta)
  then show ?thesis
    by (simp add: join_capability_def Let_def split_beta gate_step_def sample_attempt_def join_sample_def handler_sample_def
        gate_knobs_sample_def gate_sample_room json_int_of_u64_def)
qed

lemma sample_negotiates:
  "\<exists>x sdp. janus_slvoice_negotiate sdp_sample (ms_jsep (join_sample cap)) y = (x, Inr sdp)"
  by (simp add: janus_slvoice_negotiate_def sdp_sample_def join_sample_def Let_def strcaseeq_def answer_mline_def)

lemma gate_sample_joined:
  "\<exists>m' ev jsep pr. handle_join handler_sample gate_knobs_sample (join_sample sample_cap) gate_mixer_sample =
     (m', Slv_event ev jsep pr, None)"
proof -
  obtain n where n: "join_capability handler_sample gate_knobs_sample (ms_root (join_sample sample_cap)) 1 0 3 gate_mixer_sample = (n, None)"
    using gate_sample_admits by blast
  note sel = same_seats_sel [OF capability_keeps [OF n]]
  obtain x sdp where x: "janus_slvoice_negotiate (he_sdp handler_sample) (ms_jsep (join_sample sample_cap)) (session_of n 3) = (x, Inr sdp)"
    using sample_negotiates by (simp add: handler_sample_def) blast
  have "\<not> rm_destroyed (room_at (upd_session 3 (\<lambda>_. x) n) 0)" by (simp add: sel gate_sample_room)
  from join_both_alive [OF this] obtain m' r where j: "join_both gate_knobs_sample (he_now handler_sample) 0 3
      (message_join_args handler_sample (join_sample sample_cap)) (upd_session 3 (\<lambda>_. x) n) = (m', Some r)" by blast
  note s = join_sample_sel(1-3) [where cap = sample_cap]
  have cap: "length (rm_participants (room_at n 0)) < kn_room_size gate_knobs_sample"
    by (simp add: sel gate_sample_room gate_knobs_sample_def auth_knobs_sample_def)
  have a: "\<exists>ev jsep pr. join_admitted handler_sample gate_knobs_sample (join_sample sample_cap) 1 0 n = (m', Slv_event ev jsep pr)"
    using cap by (simp add: join_admitted_def Let_def s x message_join_args_def [symmetric] j del: One_nat_def)
  then show ?thesis
    using s(2,3) by (auto simp: handle_join_def Let_def request_room_def [symmetric] gate_sample_room s(1) n simp del: One_nat_def)
qed

theorem join_exact_witness:
  "case handle_join handler_sample gate_knobs_sample (join_sample sample_cap) gate_mixer_sample of (m', out, reason) \<Rightarrow>
     rm_participants (room_at m' 0) = [(33, 3)]"
proof -
  obtain m' ev jsep pr where j: "handle_join handler_sample gate_knobs_sample (join_sample sample_cap) gate_mixer_sample =
     (m', Slv_event ev jsep pr, None)" using gate_sample_joined by blast
  from join_exact [OF gate_mixer_sample_inv _ _ j] show ?thesis
    by (simp add: j gate_sample_room Let_def join_sample_sel del: One_nat_def)
qed

theorem gated_join_bound_witness:
  "case handle_join handler_sample gate_knobs_sample (join_sample sample_cap) gate_mixer_sample of (m', out, reason) \<Rightarrow>
     \<exists>c :: slv_joincap. se_display (session_of m' 3) = Some (jc_agent c) \<and> jc_room c = 1"
proof -
  obtain m' ev jsep pr where j: "handle_join handler_sample gate_knobs_sample (join_sample sample_cap) gate_mixer_sample =
     (m', Slv_event ev jsep pr, None)" using gate_sample_joined by blast
  have k: "kn_join_cap_required gate_knobs_sample" "kn_join_cap_key gate_knobs_sample = Some ''k''"
    by (simp_all add: gate_knobs_sample_def)
  have f: "fresh_number (he_random_user handler_sample) (join_sample sample_cap) gate_mixer_sample"
    and r: "map_of (mx_rooms gate_mixer_sample) (request_room (join_sample sample_cap)) = Some 0"
    and o: "rm_vis_declared (room_at gate_mixer_sample 0) \<or> rm_sim_created (room_at gate_mixer_sample 0)"
    by (simp_all add: gate_sample_room join_sample_sel del: One_nat_def)
  from gated_join_bound [OF join_sample_sel(6) k j f r o, unfolded gate_sample_room(1) join_sample_sel(1)]
  have "\<exists>c :: slv_joincap. se_display (session_of m' 3) = Some (jc_agent c) \<and> json_int_of_u64 1 = jc_room c" by blast
  then show ?thesis by (auto simp: j json_int_of_u64_def)
qed


theorem create_destroy_roundtrip_witness:
  "case handle_create handler_sample (Some (JObject [(''room'', JInt (-7))])) gate_mixer_sample of (n, out) \<Rightarrow>
     mx_rooms (fst (handle_destroy (Some (JObject [(''room'', JInt (-7))])) n)) = [(1, 0)]"
proof -
  have id: "ra_id (create_args handler_sample (Some (JObject [(''room'', JInt (-7))]))) = 2 ^ 64 - 7"
    by (simp add: create_args_def Let_def u64_of_json_int_def)
  have "\<exists>n ev. handle_create handler_sample (Some (JObject [(''room'', JInt (-7))])) gate_mixer_sample = (n, Slv_event ev None None) \<and>
      json_object_get (Some ev) ''room'' = Some (JInt (-7))"
    unfolding handle_create_def Let_def id
    by (simp add: janus_slvoice_room_create_def Let_def janus_slvoice_room_start_def handler_sample_def gate_sample_defs json_int_of_u64_def)
  then obtain n ev where n: "handle_create handler_sample (Some (JObject [(''room'', JInt (-7))])) gate_mixer_sample = (n, Slv_event ev None None)"
      "json_object_get (Some ev) ''room'' = Some (JInt (-7))" by blast
  from create_destroy_roundtrip [OF gate_mixer_sample_inv join_sample_sel(7) n] show ?thesis
    by (simp add: n Let_def split_beta) (simp add: gate_sample_defs)
qed

end
