(* ===== verification/Redact.thy ===== *)
theory Redact
  imports CLib
begin

text \<open>
  \<^verbatim>\<open>src/src/sdp_redact.h\<close>: the copy of an SDP that may be logged. The values of the ICE credentials and of the DTLS
  fingerprint are replaced; every other byte stays.
\<close>

subsection \<open>The code\<close>

definition SLV_SDP_REDACTED :: string where "SLV_SDP_REDACTED = ''<redacted>''"

definition sdp_eol :: "char \<Rightarrow> bool" where
  "sdp_eol c \<longleftrightarrow> c = CHR 0x0D \<or> c = CHR 0x0A"

definition sdp_prefixes :: "string list" where
  "sdp_prefixes = [''a=ice-ufrag:'', ''a=ice-pwd:'', ''a=fingerprint:'']"

text \<open>\<^verbatim>\<open>strncmp(p, prefix, strlen(prefix)) == 0\<close>\<close>

definition starts_with :: "string \<Rightarrow> string \<Rightarrow> bool" where
  "starts_with prefix p \<longleftrightarrow> take (length prefix) p = prefix"

text \<open>How much of the line is kept before the mark, 0 when it is not a credential.\<close>

definition sdp_keep :: "string \<Rightarrow> nat" where
  "sdp_keep p =
     (if starts_with (sdp_prefixes ! 0) p then length (sdp_prefixes ! 0)
      else if starts_with (sdp_prefixes ! 1) p then length (sdp_prefixes ! 1)
      else if starts_with (sdp_prefixes ! 2) p then
        (let len = length (sdp_prefixes ! 2);
             hash = takeWhile (\<lambda>c. c \<noteq> CHR '' '' \<and> \<not> sdp_eol c) (drop len p);
             q = drop (len + length hash) p
         in if q \<noteq> [] \<and> hd q = CHR '' '' then len + length hash + 1 else len)
      else 0)"

lemma shorter_line: "p \<noteq> [] \<Longrightarrow> length (dropWhile sdp_eol (dropWhile (\<lambda>c. \<not> sdp_eol c) p)) < length p"
  by (cases p) (auto intro: le_imp_less_Suc order_trans [OF length_dropWhile_le] length_dropWhile_le)

text \<open>The loop over the lines: the bytes counted and, when \<open>out\<close> is given, the bytes written.\<close>

function slv_sdp_redact_into :: "string \<Rightarrow> bool \<Rightarrow> nat \<times> string" where
  "slv_sdp_redact_into p out =
     (if p = [] then (0, [])
      else
        let keep = sdp_keep p;
            line = takeWhile (\<lambda>c. \<not> sdp_eol c) p;
            eol = dropWhile (\<lambda>c. \<not> sdp_eol c) p;
            (n, text) = (if keep > 0 then (keep + length SLV_SDP_REDACTED, if out then take keep p @ SLV_SDP_REDACTED else [])
                         else (length line, if out then line else []));
            brk = takeWhile sdp_eol eol;
            (n', text') = slv_sdp_redact_into (dropWhile sdp_eol eol) out
        in (n + length brk + n', text @ (if out then brk else []) @ text'))"
  by pat_completeness auto
termination by (relation "measure (\<lambda>(p, out). length p)") (auto dest: shorter_line)

declare slv_sdp_redact_into.simps [simp del]

text \<open>The copy; \<open>mem\<close>: is there memory? The buffer has one byte more than the count of the first pass.\<close>

definition slv_sdp_redact :: "bool \<Rightarrow> string option \<Rightarrow> string option" where
  "slv_sdp_redact mem sdp =
     (case sdp of None \<Rightarrow> None | Some p \<Rightarrow> if mem then Some (snd (slv_sdp_redact_into p True)) else None)"

subsection \<open>Line by line\<close>

definition sdp_line :: "string \<Rightarrow> string" where
  "sdp_line p = takeWhile (\<lambda>c. \<not> sdp_eol c) p"

definition redact_line :: "string \<Rightarrow> string" where
  "redact_line l = (if sdp_keep l > 0 then take (sdp_keep l) l @ SLV_SDP_REDACTED else l)"

abbreviation redacted :: "string \<Rightarrow> string" where
  "redacted p \<equiv> snd (slv_sdp_redact_into p True)"

lemma sdp_prefix_line: "\<forall>c\<in>set (sdp_prefixes ! 0) \<union> set (sdp_prefixes ! 1) \<union> set (sdp_prefixes ! 2). \<not> sdp_eol c"
  by (simp add: sdp_prefixes_def sdp_eol_def)

lemma starts_with_append: "starts_with q p \<Longrightarrow> starts_with q (p @ r)"
  by (auto simp: starts_with_def) (metis append_eq_conv_conj take_add take_all_iff nle_le append_take_drop_id)

lemma starts_with_line:
  assumes "\<forall>c\<in>set q. \<not> sdp_eol c"
  shows "starts_with q p = starts_with q (sdp_line p)"
proof
  assume "starts_with q p"
  then obtain r where p: "p = q @ r" unfolding starts_with_def by (metis append_take_drop_id)
  have "sdp_line p = q @ sdp_line r" using assms by (simp add: p sdp_line_def takeWhile_append2)
  then show "starts_with q (sdp_line p)" by (simp add: starts_with_def)
next
  assume "starts_with q (sdp_line p)"
  then have "starts_with q (sdp_line p @ dropWhile (\<lambda>c. \<not> sdp_eol c) p)" by (rule starts_with_append)
  then show "starts_with q p" by (simp add: sdp_line_def)
qed

lemma line_split: "\<exists>r. p = sdp_line p @ r \<and> (r = [] \<or> sdp_eol (hd r))"
proof -
  let ?r = "dropWhile (\<lambda>c. \<not> sdp_eol c) p"
  have "p = sdp_line p @ ?r" "?r = [] \<or> sdp_eol (hd ?r)" using hd_dropWhile [of "\<lambda>c. \<not> sdp_eol c" p] by (auto simp: sdp_line_def)
  then show ?thesis by blast
qed

lemma sdp_keep_line: "sdp_keep p = sdp_keep (sdp_line p)"
proof -
  obtain r where p: "p = sdp_line p @ r" and r: "r = [] \<or> sdp_eol (hd r)" using line_split by blast
  let ?l = "sdp_line p" and ?len = "length (sdp_prefixes ! 2)" and ?P = "\<lambda>c. c \<noteq> CHR '' '' \<and> \<not> sdp_eol c"
  have s: "starts_with (sdp_prefixes ! i) p = starts_with (sdp_prefixes ! i) ?l" if "i < 3" for i
    using that sdp_prefix_line by (intro starts_with_line) (auto simp: less_Suc_eq numeral_3_eq_3 numeral_2_eq_2)
  have tw: "takeWhile ?P (xs @ r) = takeWhile ?P xs" for xs
    using r by (cases r) (simp_all add: takeWhile_tail)
  have sp: "(xs @ r \<noteq> [] \<and> hd (xs @ r) = CHR '' '') = (xs \<noteq> [] \<and> hd xs = CHR '' '')" for xs
    using r by (cases xs; cases r) (auto simp: sdp_eol_def)
  have hash: "takeWhile ?P (drop ?len p) = takeWhile ?P (drop ?len ?l) \<and>
      (drop (?len + length (takeWhile ?P (drop ?len ?l))) p \<noteq> [] \<and> hd (drop (?len + length (takeWhile ?P (drop ?len ?l))) p) = CHR '' '') =
      (drop (?len + length (takeWhile ?P (drop ?len ?l))) ?l \<noteq> [] \<and> hd (drop (?len + length (takeWhile ?P (drop ?len ?l))) ?l) = CHR '' '')"
    if "starts_with (sdp_prefixes ! 2) ?l"
  proof -
    have len: "?len \<le> length ?l" using that unfolding starts_with_def by (metis length_take min.cobounded1)
    then have d: "drop ?len p = drop ?len ?l @ r" by (subst p) simp
    let ?n = "length (takeWhile ?P (drop ?len ?l))"
    have "?len + ?n \<le> length ?l" using len length_takeWhile_le [of ?P "drop ?len ?l"] by simp
    then have "drop (?len + ?n) p = drop (?len + ?n) ?l @ r" by (subst p) simp
    then show ?thesis unfolding d by (simp only: tw sp simp_thms)
  qed
  show ?thesis
  proof (cases "starts_with (sdp_prefixes ! 2) ?l")
    case True
    note h = hash [OF True]
    show ?thesis unfolding sdp_keep_def Let_def using s [of 0] s [of 1] s [of 2] by (simp only: conjunct1 [OF h] conjunct2 [OF h])
  next
    case False
    then show ?thesis unfolding sdp_keep_def using s [of 0] s [of 1] s [of 2] by simp
  qed
qed

lemma sdp_keep_le: "sdp_keep l \<le> length l"
proof -
  have "starts_with q l \<Longrightarrow> length q \<le> length l" for q unfolding starts_with_def by (metis length_take min.cobounded1)
  moreover have "length h + 1 \<le> length m" if "h = takeWhile P m" "drop (length h) m \<noteq> []" for P and h m :: string
    using that by (simp add: not_le)
  ultimately show ?thesis unfolding sdp_keep_def Let_def by (auto simp flip: drop_drop)
qed

lemma redacted_step:
  "redacted p = (if p = [] then [] else redact_line (sdp_line p) @
     takeWhile sdp_eol (dropWhile (\<lambda>c. \<not> sdp_eol c) p) @ redacted (dropWhile sdp_eol (dropWhile (\<lambda>c. \<not> sdp_eol c) p)))"
proof -
  have "take (sdp_keep p) p = take (sdp_keep p) (sdp_line p)"
  proof -
    have "sdp_keep p \<le> length (sdp_line p)" using sdp_keep_le [of "sdp_line p"] sdp_keep_line [of p] by simp
    moreover obtain r where "p = sdp_line p @ r" using line_split by blast
    ultimately show ?thesis by (metis append_Nil2 diff_is_0_eq take_0 take_append)
  qed
  then show ?thesis
    using sdp_keep_line [of p] by (subst slv_sdp_redact_into.simps) (simp add: Let_def split_beta redact_line_def sdp_line_def)
qed

subsection \<open>What the copy shows\<close>

lemma dropWhile_all_append: "(\<forall>c\<in>set xs. P c) \<Longrightarrow> dropWhile P (xs @ ys) = dropWhile P ys"
  by (induction xs) auto

text \<open>The copies of two parts, cut between lines.\<close>

lemma redacted_append:
  assumes "A = [] \<or> sdp_eol (last A)" and "C = [] \<or> \<not> sdp_eol (hd C)"
  shows "redacted (A @ C) = redacted A @ redacted C"
  using assms(1)
proof (induction "length A" arbitrary: A rule: less_induct)
  case less
  show ?case
  proof (cases "A = []")
    case True
    then show ?thesis by (simp add: slv_sdp_redact_into.simps)
  next
    case False
    let ?d = "dropWhile (\<lambda>c. \<not> sdp_eol c) A"
    have ex: "\<exists>c\<in>set A. sdp_eol c" using less.prems False by (intro bexI [of _ "last A"]) auto
    then have line: "sdp_line (A @ C) = sdp_line A" "dropWhile (\<lambda>c. \<not> sdp_eol c) (A @ C) = ?d @ C"
      by (auto simp: sdp_line_def takeWhile_append1 dropWhile_append1)
    have d: "?d \<noteq> []" using ex by (simp add: dropWhile_eq_Nil_conv)
    have brk: "takeWhile sdp_eol (?d @ C) = takeWhile sdp_eol ?d" "dropWhile sdp_eol (?d @ C) = dropWhile sdp_eol ?d @ C"
      using assms(2) by (cases C; simp add: takeWhile_tail dropWhile_append3)+
    let ?B = "dropWhile sdp_eol ?d"
    have "last ?B = last A" if "?B \<noteq> []" using that d by (metis last_appendR takeWhile_dropWhile_id)
    then have B: "?B = [] \<or> sdp_eol (last ?B)" using less.prems False by metis
    from less.hyps [OF shorter_line [OF False] B] show ?thesis
      using False redacted_step [of "A @ C"] redacted_step [of A] unfolding line brk by simp
  qed
qed

lemma redacted_line:
  assumes "\<forall>c\<in>set l. \<not> sdp_eol c" and "B = [] \<or> sdp_eol (hd B)" and "l \<noteq> []"
  shows "redacted (l @ B) = redact_line l @ redacted B"
proof -
  have line: "sdp_line (l @ B) = l" "dropWhile (\<lambda>c. \<not> sdp_eol c) (l @ B) = B"
    using assms(1,2) by (cases B; simp add: sdp_line_def takeWhile_append2 dropWhile_all_append)+
  have "redacted B = takeWhile sdp_eol B @ redacted (dropWhile sdp_eol B)"
  proof (cases "B = []")
    case True
    then show ?thesis by (simp add: slv_sdp_redact_into.simps)
  next
    case False
    then have "sdp_eol (hd B)" using assms(2) by simp
    then have "sdp_line B = []" "dropWhile (\<lambda>c. \<not> sdp_eol c) B = B" using False by (cases B; simp add: sdp_line_def)+
    moreover have "sdp_keep [] = 0" using sdp_keep_le [of "[]"] by simp
    ultimately show ?thesis using False by (subst redacted_step) (simp add: redact_line_def)
  qed
  then show ?thesis using assms(3) redacted_step [of "l @ B"] unfolding line by simp
qed

lemma starts_with_literal:
  "starts_with (sdp_prefixes ! 0) (''a=ice-ufrag:'' @ s)" "length (sdp_prefixes ! 0) = 12"
  "\<not> starts_with (sdp_prefixes ! 0) (''a=ice-pwd:'' @ s)" "starts_with (sdp_prefixes ! 1) (''a=ice-pwd:'' @ s)"
  "\<not> starts_with (sdp_prefixes ! 0) (''a=fingerprint:'' @ s)" "\<not> starts_with (sdp_prefixes ! 1) (''a=fingerprint:'' @ s)"
  "starts_with (sdp_prefixes ! 2) (''a=fingerprint:'' @ s)" "length (sdp_prefixes ! 1) = 10" "length (sdp_prefixes ! 2) = 14"
  by (simp_all add: starts_with_def sdp_prefixes_def)

lemma redact_credential:
  "redact_line (''a=ice-ufrag:'' @ s) = ''a=ice-ufrag:'' @ SLV_SDP_REDACTED"
  "redact_line (''a=ice-pwd:'' @ s) = ''a=ice-pwd:'' @ SLV_SDP_REDACTED"
proof -
  have k: "sdp_keep (''a=ice-ufrag:'' @ s) = 12" "sdp_keep (''a=ice-pwd:'' @ s) = 10"
    unfolding sdp_keep_def by (simp_all only: starts_with_literal if_True if_False not_False_eq_True)
  show "redact_line (''a=ice-ufrag:'' @ s) = ''a=ice-ufrag:'' @ SLV_SDP_REDACTED" unfolding redact_line_def k by simp
  show "redact_line (''a=ice-pwd:'' @ s) = ''a=ice-pwd:'' @ SLV_SDP_REDACTED" unfolding redact_line_def k by simp
qed

lemma redact_fingerprint:
  assumes "\<forall>c\<in>set hash. c \<noteq> CHR '' '' \<and> \<not> sdp_eol c"
  shows "redact_line ((''a=fingerprint:'' @ hash @ '' '') @ s) = (''a=fingerprint:'' @ hash @ '' '') @ SLV_SDP_REDACTED"
proof -
  let ?P = "\<lambda>c. c \<noteq> CHR '' '' \<and> \<not> sdp_eol c" and ?l = "''a=fingerprint:'' @ hash @ CHR '' '' # s"
  have tw: "takeWhile ?P (hash @ CHR '' '' # s) = hash" using assms by (subst takeWhile_append2) simp_all
  have d: "drop 14 ?l = hash @ CHR '' '' # s" by simp
  have q: "drop (14 + length hash) ?l = CHR '' '' # s" unfolding drop_drop [symmetric] add.commute [of 14] d by simp
  have "sdp_keep ?l = 14 + length hash + 1"
    unfolding sdp_keep_def Let_def by (simp only: starts_with_literal if_True if_False not_False_eq_True d tw q) simp
  moreover have "take (14 + length hash + 1) ?l = ''a=fingerprint:'' @ hash @ '' ''"
  proof -
    have "length (''a=fingerprint:'' @ hash @ '' '') = 14 + length hash + 1" by simp
    moreover have "?l = (''a=fingerprint:'' @ hash @ '' '') @ s" by simp
    ultimately show ?thesis by (metis append_eq_conv_conj)
  qed
  ultimately show ?thesis unfolding redact_line_def by simp
qed

text \<open>
  C33 What may be logged of an SDP does not depend on its secrets: two session descriptions that differ only in the value of an
  ICE user fragment, an ICE password or a fingerprint (after its hash name), anywhere among the lines, have the same copy.
\<close>

theorem redact_hides_secrets:
  assumes "before = [] \<or> sdp_eol (last before)" and "after = [] \<or> sdp_eol (hd after)"
    and "attr \<in> {''a=ice-ufrag:'', ''a=ice-pwd:'', ''a=fingerprint:'' @ hash @ '' ''}"
    and "\<forall>c\<in>set hash. c \<noteq> CHR '' '' \<and> \<not> sdp_eol c" and "\<forall>c\<in>set (secret @ secret'). \<not> sdp_eol c"
  shows "slv_sdp_redact True (Some (before @ attr @ secret @ after)) = slv_sdp_redact True (Some (before @ attr @ secret' @ after))"
proof -
  have lit: "\<forall>c\<in>set ''a=ice-ufrag:''. \<not> sdp_eol c" "\<forall>c\<in>set ''a=ice-pwd:''. \<not> sdp_eol c"
    "\<forall>c\<in>set ''a=fingerprint:''. \<not> sdp_eol c" "\<forall>c\<in>set '' ''. \<not> sdp_eol c" by (simp_all add: sdp_eol_def)
  have ne: "attr \<noteq> []" using assms(3) by auto
  have h: "\<forall>c\<in>set hash. \<not> sdp_eol c" using assms(4) by blast
  have all: "\<forall>c\<in>set attr. \<not> sdp_eol c"
    using assms(3) lit h by (elim insertE emptyE) (simp_all only: set_append ball_Un)
  have hd_attr: "attr \<noteq> []" "\<not> sdp_eol (hd attr)" "\<forall>c\<in>set attr. \<not> sdp_eol c" using ne all by simp_all
  have line: "redact_line (attr @ s) = attr @ SLV_SDP_REDACTED" for s
    using assms(3) redact_credential [of s] redact_fingerprint [OF assms(4), of s] by (elim insertE emptyE) (simp_all only:)
  have one: "redacted (before @ attr @ s @ after) = redacted before @ attr @ SLV_SDP_REDACTED @ redacted after"
    if "\<forall>c\<in>set s. \<not> sdp_eol c" for s
  proof -
    have "redacted (before @ attr @ s @ after) = redacted before @ redacted ((attr @ s) @ after)"
      using redacted_append [OF assms(1), of "(attr @ s) @ after"] hd_attr by simp
    also have "redacted ((attr @ s) @ after) = redact_line (attr @ s) @ redacted after"
      using that hd_attr by (intro redacted_line [OF _ assms(2)]) auto
    finally show ?thesis by (simp add: line)
  qed
  show ?thesis using one [of secret] one [of secret'] assms(5) by (simp add: slv_sdp_redact_def)
qed

theorem redact_hides_secrets_witness:
  "slv_sdp_redact True (Some (''v=0'' @ [CHR 0x0A] @ ''a=ice-pwd:'' @ ''abc'' @ [CHR 0x0A])) =
   slv_sdp_redact True (Some (''v=0'' @ [CHR 0x0A] @ ''a=ice-pwd:'' @ ''xyz0'' @ [CHR 0x0A]))"
  using redact_hides_secrets [of "''v=0'' @ [CHR 0x0A]" "[CHR 0x0A]" "''a=ice-pwd:''" "''sha-256''" "''abc''" "''xyz0''"]
  by (simp add: sdp_eol_def)

text \<open>
  The two passes agree: the buffer sized by counting without writing holds exactly the bytes written and the terminator.
\<close>

theorem redact_buffer_exact:
  "fst (slv_sdp_redact_into p False) = length (snd (slv_sdp_redact_into p True)) \<and>
   fst (slv_sdp_redact_into p True) = fst (slv_sdp_redact_into p False)"
proof (induction "length p" arbitrary: p rule: less_induct)
  case less
  have keep: "min (length p) (sdp_keep p) = sdp_keep p" using sdp_keep_le [of p] by simp
  show ?case
  proof (cases "p = []")
    case True
    then show ?thesis by (simp add: slv_sdp_redact_into.simps)
  next
    case False
    from less.hyps [OF shorter_line [OF False]] show ?thesis
      using False by (simp add: slv_sdp_redact_into.simps [of p] Let_def split_beta keep)
  qed
qed

end
