(* ===== verification/System.thy ===== *)
theory System
  imports Rooms Requests Redact
begin

text \<open>
  The whole plugin as one transition system: the state of the process, every entry that changes it as one constructor
  of \<open>slv_op\<close>, and the states a run can reach from \<^verbatim>\<open>janus_slvoice_init\<close>. The entries are the callbacks of Janus
  (\<^verbatim>\<open>src/src/janus_slvoice.c\<close>, lines 1700-1760 and 4611-4882), the handler thread, the tick thread of a room and
  the sender thread. Each is one step, so what the theorems of this theory say holds of the interleavings of whole
  operations; \<^verbatim>\<open>Rooms\<close> opens the one operation, the join, that the code splits.
\<close>

subsection \<open>The state and the steps\<close>

record slv_process =
  sp_mixer :: slv_mixer
  sp_error_reason :: "string option"
  sp_sweep_ticks :: nat

text \<open>The libraries the process runs on.\<close>

record slv_world =
  wo_opus :: slv_opus
  wo_loadb :: "string \<Rightarrow> json option"
  wo_dumps :: "json \<Rightarrow> string option"
  wo_admin :: slv_admin_env

datatype ('sdp, 'ml) slv_op =
    Op_create_session nat
  | Op_destroy_session nat
  | Op_setup_media nat slv_media_args
  | Op_incoming_rtp nat u16 string
  | Op_incoming_data nat slv_media_args string
  | Op_data_ready nat
  | Op_hangup_media nat
  | Op_admin "json option"
  | Op_message "('sdp, 'ml) slv_handler_env" slv_message
  | Op_room_tick nat int
  | Op_sender

fun slv_apply :: "slv_world \<Rightarrow> slv_knobs \<Rightarrow> int \<Rightarrow> ('sdp, 'ml) slv_op \<Rightarrow> slv_process \<Rightarrow> slv_process" where
  "slv_apply w k now (Op_create_session s) p = p\<lparr>sp_mixer := janus_slvoice_create_session now s (sp_mixer p)\<rparr>"
| "slv_apply w k now (Op_destroy_session s) p = p\<lparr>sp_mixer := janus_slvoice_destroy_session (wo_dumps w) k now s (sp_mixer p)\<rparr>"
| "slv_apply w k now (Op_setup_media s ma) p = p\<lparr>sp_mixer := upd_session s (janus_slvoice_setup_media k ma) (sp_mixer p)\<rparr>"
| "slv_apply w k now (Op_incoming_rtp s seq payload) p =
     p\<lparr>sp_mixer := upd_session s (janus_slvoice_incoming_rtp now seq payload) (sp_mixer p)\<rparr>"
| "slv_apply w k now (Op_incoming_data s ma buf) p =
     p\<lparr>sp_mixer := janus_slvoice_incoming_data (wo_loadb w) (wo_dumps w) k ma now s buf (sp_mixer p)\<rparr>"
| "slv_apply w k now (Op_data_ready s) p = p\<lparr>sp_mixer := janus_slvoice_data_ready (wo_dumps w) k now s (sp_mixer p)\<rparr>"
| "slv_apply w k now (Op_hangup_media s) p = p\<lparr>sp_mixer := janus_slvoice_hangup_media (wo_dumps w) k now s (sp_mixer p)\<rparr>"
| "slv_apply w k now (Op_admin msg) p =
     p\<lparr>sp_mixer := fst (janus_slvoice_handle_admin_message (wo_admin w) k now msg (sp_mixer p))\<rparr>"
| "slv_apply w k now (Op_message he msg) p =
     (case fst (handler_turn k (he, msg) (sp_error_reason p, sp_mixer p)) of
        (reason, m) \<Rightarrow> p\<lparr>sp_mixer := m, sp_error_reason := reason\<rparr>)"
| "slv_apply w k now (Op_room_tick a t0) p =
     p\<lparr>sp_mixer := fst (janus_slvoice_room_tick (wo_opus w) (wo_dumps w) k t0 now a (sp_mixer p))\<rparr>"
| "slv_apply w k now Op_sender p =
     (case sender_pass (wo_dumps w) k now (sp_sweep_ticks p, sp_mixer p) of
        (ticks, m) \<Rightarrow> p\<lparr>sp_mixer := m, sp_sweep_ticks := ticks\<rparr>)"

text \<open>
  What Janus and the random numbers guarantee: a handle is created once while it is there, callbacks come for handles that
  are there, a queued message may outlive its session (which is then marked destroyed), and the 64-bit number drawn for a
  participant is not already one of its room's.
\<close>

fun slv_allowed :: "int \<Rightarrow> ('sdp, 'ml) slv_op \<Rightarrow> slv_process \<Rightarrow> bool" where
  "slv_allowed now (Op_create_session s) p = (s \<notin> set (mx_live (sp_mixer p)))"
| "slv_allowed now (Op_destroy_session s) p = (s \<in> set (mx_live (sp_mixer p)))"
| "slv_allowed now (Op_setup_media s ma) p = (s \<in> set (mx_live (sp_mixer p)))"
| "slv_allowed now (Op_incoming_rtp s seq payload) p = (s \<in> set (mx_live (sp_mixer p)))"
| "slv_allowed now (Op_incoming_data s ma buf) p = (s \<in> set (mx_live (sp_mixer p)))"
| "slv_allowed now (Op_data_ready s) p = (s \<in> set (mx_live (sp_mixer p)))"
| "slv_allowed now (Op_hangup_media s) p = (s \<in> set (mx_live (sp_mixer p)))"
| "slv_allowed now (Op_admin msg) p = True"
| "slv_allowed now (Op_message he msg) p =
     (he_now he = now \<and> fresh_number (he_random_user he) msg (sp_mixer p) \<and>
      (ms_session msg \<in> set (mx_live (sp_mixer p)) \<or> se_destroyed (session_of (sp_mixer p) (ms_session msg))))"
| "slv_allowed now (Op_room_tick a t0) p = True"
| "slv_allowed now Op_sender p = True"

text \<open>
  The runs of the process: the time of the last step, the operations so far, the settings they keep, and the states they
  reach. The monotonic clock is positive and does not run backwards.
\<close>

inductive slv_reach :: "slv_world \<Rightarrow> int \<Rightarrow> ('sdp, 'ml) slv_op list \<Rightarrow> slv_knobs \<Rightarrow> slv_process \<Rightarrow> bool" for w where
  start: "0 < now \<Longrightarrow> janus_slvoice_init ok now random env cfg = (k, m) \<Longrightarrow>
    slv_reach w now [] k \<lparr>sp_mixer = m, sp_error_reason = None, sp_sweep_ticks = 0\<rparr>"
| step: "slv_reach w t ops k p \<Longrightarrow> t \<le> now \<Longrightarrow> slv_allowed now op p \<Longrightarrow>
    slv_reach w now (ops @ [op]) k (slv_apply w k now op p)"

inductive_cases slv_reach_startE: "slv_reach w t [] k p"

lemma reach_time: "slv_reach w t ops k p \<Longrightarrow> 0 < t"
  by (induction rule: slv_reach.induct) simp_all

subsection \<open>Memberships in every reachable state\<close>

lemma sender_pass_inv: "mixer_inv k m \<Longrightarrow> mixer_inv k (snd (sender_pass dumps k' now (ticks, m)))"
proof -
  assume m: "mixer_inv k m"
  have all: "mixer_inv k (fold (sender_room dumps k' now) rs n)" if "mixer_inv k n" for rs n
    using that by (induction rs arbitrary: n) (simp_all add: sender.step_inv)
  show ?thesis using all [OF m] all [OF sweep_inv [OF m]] by (simp add: sender_pass_def Let_def split_beta)
qed

lemma apply_inv:
  assumes "mixer_inv k (sp_mixer p)" "0 < now" "slv_allowed now op p"
  shows "mixer_inv k (sp_mixer (slv_apply w k now op p))"
proof (cases op)
  case (Op_create_session s)
  then show ?thesis using assms create_session_inv by (simp add: mixer_inv_def)
next
  case (Op_destroy_session s)
  then show ?thesis using assms destroy_session_inv by (simp add: mixer_inv_def)
next
  case (Op_setup_media s ma)
  then show ?thesis using assms(1) media_up.step_inv [of k "sp_mixer p" k "(s, ma)"] by simp
next
  case (Op_incoming_rtp s seq payload)
  then show ?thesis using assms(1) rtp.step_inv [of k "sp_mixer p" "(s, now, seq, payload)"] by simp
next
  case (Op_incoming_data s ma buf)
  then show ?thesis using assms(1) data.step_inv [of k "sp_mixer p" _ _ _ "(s, now, ma, buf)"] by simp
next
  case (Op_data_ready s)
  then show ?thesis using assms(1) ready.step_inv [of k "sp_mixer p" _ _ "(s, now)"] by simp
next
  case (Op_hangup_media s)
  then show ?thesis using assms media_gone_inv by (simp add: mixer_inv_def janus_slvoice_hangup_media_def)
next
  case (Op_admin msg)
  then show ?thesis using assms(1) admin.step_inv [of k "sp_mixer p" _ _ "(now, msg)"] by simp
next
  case (Op_message he msg)
  then show ?thesis
    using message_inv [of k "sp_mixer p" he msg "sp_error_reason p"] assms by (simp add: split_beta)
next
  case (Op_room_tick a t0)
  then show ?thesis using assms(1,2) by (simp add: room_tick_inv)
next
  case Op_sender
  then show ?thesis using sender_pass_inv [OF assms(1)] by (simp add: split_beta)
qed

lemma reach_inv: "slv_reach w t ops k p \<Longrightarrow> mixer_inv k (sp_mixer p)"
proof (induction rule: slv_reach.induct)
  case (start now ok random env cfg k m)
  then show ?case using init_inv [of now ok random env cfg k m] by simp
next
  case (step t ops k p now op)
  moreover have "0 < now" using reach_time [OF step.hyps(1)] step.hyps(2) by simp
  ultimately show ?case by (intro apply_inv)
qed

lemma reach_room_size: "slv_reach w t ops k p \<Longrightarrow> 2 \<le> kn_room_size k \<and> kn_room_size k \<le> SLV_MAX_MIX"
proof (induction rule: slv_reach.induct)
  case (start now ok random env cfg k m)
  then show ?case using init_room_size [of ok now random env cfg] by simp
qed

lemma room_found:
  assumes "mixer_inv k m" "se_room (session_of m s) = Some a"
  shows "(se_user_id (session_of m s), s) \<in> set (rm_participants (room_at m a))"
    "janus_slvoice_room_ref_by_id m (rm_room_id (room_at m a)) = Some a"
proof -
  note I = assms(1) [unfolded mixer_inv_def marked_inv_def]
  show s: "(se_user_id (session_of m s), s) \<in> set (rm_participants (room_at m a))"
    using I assms(2) by (simp add: seats_ok_def seat_def)
  then have "rm_participants (room_at m a) \<noteq> []" by auto
  then obtain i where i: "(i, a) \<in> set (mx_rooms m)" using I by (auto simp: rooms_ok_def)
  then have "rm_room_id (room_at m a) = i" "distinct (map fst (mx_rooms m))" using I by (auto simp: rooms_ok_def)
  with i show "janus_slvoice_room_ref_by_id m (rm_room_id (room_at m a)) = Some a" by (simp add: ref_inv [OF assms(1)])
qed


subsection \<open>A run\<close>

lemma create_succeeds:
  assumes "map_of (mx_rooms m) (ra_id (create_args he body)) = None" "he_tick_ok he"
  shows "\<exists>r ev. handle_create he body m = (m\<lparr>mx_heap := (mx_heap m)(mx_next_room m := r), mx_next_room := mx_next_room m + 1,
      mx_rooms := mx_rooms m @ [(ra_id (create_args he body), mx_next_room m)]\<rparr>, Slv_event ev None None) \<and>
    rm_participants r = [] \<and> \<not> rm_destroyed r \<and> rm_vis_records r = [] \<and>
    auth_frame r = (0, 0, 0, ra_vis_authority (create_args he body))"
proof -
  obtain n a where n: "janus_slvoice_room_create (he_tick_ok he) (he_now he) (create_args he body) m = (n, Some a)"
    using assms(2) by (simp add: janus_slvoice_room_create_def Let_def janus_slvoice_room_start_def janus_slvoice_room_zero_def)
  then obtain r where "a = mx_next_room m" "n = m\<lparr>mx_heap := (mx_heap m)(a := r), mx_next_room := a + 1\<rparr>"
    "rm_participants r = []" "\<not> rm_destroyed r" "rm_vis_records r = []"
    "auth_frame r = (0, 0, 0, ra_vis_authority (create_args he body))"
    by (auto simp: janus_slvoice_room_create_def Let_def janus_slvoice_room_start_def janus_slvoice_room_zero_def auth_frame_def
        split: if_splits)
  with assms(1) n show ?thesis by (auto simp: handle_create_def Let_def rooms_insert_def)
qed

lemma join_succeeds:
  assumes "janus_slvoice_room_ref_by_id m (request_room msg) = Some a" "se_room (session_of m (ms_session msg)) = None"
    and "json_is_integer (json_object_get (ms_root msg) ''room'')" "ms_jsep msg \<noteq> None" "\<not> kn_join_cap_required k"
    and "length (rm_participants (room_at m a)) < kn_room_size k"
      "join_uid (message_join_args he msg) \<notin> fst ` set (rm_participants (room_at m a))"
    and "\<And>y. \<exists>x sdp. janus_slvoice_negotiate (he_sdp he) (ms_jsep msg) y = (x, Inr sdp)"
  shows "\<exists>m' ev jsep pr. handle_join he k msg m = (m', Slv_event ev jsep pr, None) \<and> se_room (session_of m' (ms_session msg)) = Some a \<and>
    se_display (session_of m' (ms_session msg)) = json_string_value (json_object_get (ms_root msg) ''display'') \<and> mx_rooms m' = mx_rooms m \<and>
    rm_participants (room_at m' a) = rm_participants (room_at m a) @ [(join_uid (message_join_args he msg), ms_session msg)]"
proof -
  let ?s = "ms_session msg"
  obtain n r where n: "join_capability he k (ms_root msg) (request_room msg) a ?s m = (n, r)" by fastforce
  then have r: "r = None" using assms(5) by (auto simp: join_capability_def Let_def split: prod.splits)
  obtain x sdp where x: "janus_slvoice_negotiate (he_sdp he) (ms_jsep msg) (session_of n ?s) = (x, Inr sdp)" using assms(8) by blast
  define n1 where "n1 = upd_session ?s (\<lambda>_. x) n"
  note sel = same_seats_sel [OF same_seats_trans [OF capability_keeps [OF n] negotiate_keeps [OF x]], folded n1_def]
  have d: "\<not> rm_destroyed (room_at n1 a)" using ref_by_id [OF assms(1)] by (simp add: sel)
  from join_both_alive [OF d] obtain m' ro where
    j: "join_both k (he_now he) a ?s (message_join_args he msg) n1 = (m', Some ro)" by blast
  note J = join_both_state [OF d j]
  have "se_room (session_of m' ?s) = Some a" "mx_rooms m' = mx_rooms m"
    "se_display (session_of m' ?s) = json_string_value (json_object_get (ms_root msg) ''display'')"
    "rm_participants (room_at m' a) = rm_participants (room_at m a) @ [(join_uid (message_join_args he msg), ?s)]"
    using J(1) [of a] J(2) [of ?s] J(3,5) assms(7) by (simp_all add: sel seat_def message_join_args_def)
  moreover have "length (rm_participants (room_at n a)) < kn_room_size k"
    using assms(6) same_seats_sel(3) [OF capability_keeps [OF n]] by simp
  then have "\<exists>ev jsep pr. join_admitted he k msg (request_room msg) a n = (m', Slv_event ev jsep pr)"
    by (simp add: join_admitted_def Let_def x message_join_args_def [symmetric] n1_def [symmetric] j)
  ultimately show ?thesis
    using assms(1-4) by (auto simp: handle_join_def Let_def request_room_def [symmetric] n r)
qed

text \<open>A session comes to an empty process, creates a room and joins it.\<close>

lemma create_join_run:
  fixes w k cm jm
  defines "he \<equiv> \<lambda>t. handler_sample\<lparr>he_now := t\<rparr>"
  assumes start: "slv_reach w 1 ([] :: (string, unit) slv_op list) k \<lparr>sp_mixer = slv_mixer_init, sp_error_reason = None, sp_sweep_ticks = 0\<rparr>"
    and cm: "ms_session cm = 3" "json_string_value (json_object_get (ms_root cm) ''request'') = Some ''create''"
      "ra_id (create_args (he 2) (ms_root cm)) = i"
    and jm: "ms_session jm = 3" "json_string_value (json_object_get (ms_root jm) ''request'') = Some ''join''"
      "json_is_integer (json_object_get (ms_root jm) ''room'')" "request_room jm = i" "ms_jsep jm = ms_jsep (join_sample [])"
    and k: "\<not> kn_join_cap_required k" "0 < kn_room_size k"
  obtains p m2 m3 ev jsep pr where "slv_reach w 3 [Op_create_session 3, Op_message (he 2) cm, Op_message (he 3) jm] k p"
    "handle_join (he 3) k jm m2 = (m3, Slv_event ev jsep pr, None)"
    "sp_mixer p = announce_join (he_dumps (he 3)) k 3 (Slv_event ev jsep pr) m3"
    "se_room (session_of m3 3) = Some 0" "se_display (session_of m3 3) = json_string_value (json_object_get (ms_root jm) ''display'')"
    "mx_rooms m3 = [(i, 0)]" "rm_participants (room_at m3 0) = [(33, 3)]" "rm_vis_records (room_at m2 0) = []"
    "auth_frame (room_at m2 0) = (0, 0, 0, ra_vis_authority (create_args (he 2) (ms_root cm)))"
proof -
  define p1 where "p1 = \<lparr>sp_mixer = janus_slvoice_create_session 1 3 slv_mixer_init, sp_error_reason = None, sp_sweep_ticks = 0\<rparr>"
  from slv_reach.step [OF start, of 1 "Op_create_session 3"]
  have 1: "slv_reach w 1 [Op_create_session 3 :: (string, unit) slv_op] k p1" by (simp add: p1_def slv_mixer_init_def)
  have p1: "mx_rooms (sp_mixer p1) = []" "mx_live (sp_mixer p1) = [3]" "mx_next_room (sp_mixer p1) = 0"
    "\<not> se_destroyed (session_of (sp_mixer p1) 3)" "se_room (session_of (sp_mixer p1) 3) = None" "sp_error_reason p1 = None"
    by (simp_all add: p1_def janus_slvoice_create_session_def slv_mixer_init_def upd_session_def janus_slvoice_session_zero_def)
  obtain r ev where c: "handle_create (he 2) (ms_root cm) (sp_mixer p1) =
      ((sp_mixer p1)\<lparr>mx_heap := (mx_heap (sp_mixer p1))(0 := r), mx_next_room := 1, mx_rooms := [(i, 0)]\<rparr>, Slv_event ev None None)"
      "rm_participants r = []" "\<not> rm_destroyed r" "rm_vis_records r = []"
      "auth_frame r = (0, 0, 0, ra_vis_authority (create_args (he 2) (ms_root cm)))"
    using create_succeeds [of "sp_mixer p1" "he 2" "ms_root cm", unfolded cm(3) p1] by (auto simp: he_def handler_sample_def)
  define m2 where "m2 = (sp_mixer p1)\<lparr>mx_heap := (mx_heap (sp_mixer p1))(0 := r), mx_next_room := 1, mx_rooms := [(i, 0)]\<rparr>"
  have "handle_request (he 2) k cm (sp_mixer p1) = (m2, Slv_event ev None None, None)"
    using c(1) cm(2) by (simp add: handle_request_def strcaseeq_def m2_def)
  then have "slv_apply w k 2 (Op_message (he 2) cm) p1 = p1\<lparr>sp_mixer := m2\<rparr>"
    using p1(4,6) cm(1) by (simp add: handler_turn_def p1_def)
  moreover have "slv_allowed 2 (Op_message (he 2) cm) p1" by (simp add: fresh_number_def p1 cm(1) he_def)
  ultimately have 2: "slv_reach w 2 [Op_create_session 3, Op_message (he 2) cm] k (p1\<lparr>sp_mixer := m2\<rparr>)"
    using slv_reach.step [OF 1, of 2 "Op_message (he 2) cm"] by simp
  have m2: "janus_slvoice_room_ref_by_id m2 (request_room jm) = Some 0" "se_room (session_of m2 (ms_session jm)) = None"
    "rm_participants (room_at m2 0) = []" "\<not> se_destroyed (session_of m2 3)" "mx_live m2 = [3]" "mx_rooms m2 = [(i, 0)]"
    "rm_vis_records (room_at m2 0) = []" "auth_frame (room_at m2 0) = (0, 0, 0, ra_vis_authority (create_args (he 2) (ms_root cm)))"
    using c(2-5) p1 jm(1,4) by (simp_all add: m2_def janus_slvoice_room_ref_by_id_def)
  have neg: "\<exists>x sdp. janus_slvoice_negotiate (he_sdp (he 3)) (ms_jsep jm) y = (x, Inr sdp)" for y
    using sample_negotiates by (simp add: he_def handler_sample_def jm(5))
  obtain m3 ev3 jsep pr where j: "handle_join (he 3) k jm m2 = (m3, Slv_event ev3 jsep pr, None)" "se_room (session_of m3 3) = Some 0"
      "se_display (session_of m3 3) = json_string_value (json_object_get (ms_root jm) ''display'')" "mx_rooms m3 = [(i, 0)]"
      "rm_participants (room_at m3 0) = [(33, 3)]"
    using join_succeeds [OF m2(1,2) jm(3) _ k(1) _ _ neg] k(2) 
    by (auto simp: jm(1,5) join_sample_sel m2(3,6) join_uid_def message_join_args_def he_def)
  have h: "handle_request (he 3) k jm m2 = (m3, Slv_event ev3 jsep pr, None)"
    using j(1) jm(2) by (simp add: handle_request_def strcaseeq_def)
  define p3 where "p3 = slv_apply w k 3 (Op_message (he 3) jm) (p1\<lparr>sp_mixer := m2\<rparr>)"
  have "sp_mixer p3 = announce_join (he_dumps (he 3)) k 3 (Slv_event ev3 jsep pr) m3"
    using m2(4) h by (simp add: p3_def handler_turn_def jm(1) p1 he_def)
  moreover have "slv_allowed 3 (Op_message (he 3) jm) (p1\<lparr>sp_mixer := m2\<rparr>)"
    using m2 by (simp add: fresh_number_def jm(1) he_def)
  then have "slv_reach w 3 [Op_create_session 3, Op_message (he 2) cm, Op_message (he 3) jm] k p3"
    using slv_reach.step [OF 2, of 3 "Op_message (he 3) jm"] by (simp add: p3_def)
  ultimately show thesis using that j m2(7,8) by blast
qed

text \<open>A process without any setting; a session comes, creates the room 1 and joins it.\<close>

definition start_sample :: "slv_knobs \<times> slv_mixer" where
  "start_sample = janus_slvoice_init (\<lambda>_. True) 1 0
     \<lparr>ev_echo_autostart = None, ev_empty_room_grace_s = None, ev_join_media_timeout_s = None, ev_room_size = None,
      ev_vis_fail_closed = None, ev_vis_stale_ms = None, ev_join_cap_required = None, ev_join_cap_secret = None\<rparr>
     \<lparr>cf_categories = [], cf_echo_autostart = None, cf_spatial = (Cfg_absent, Cfg_absent, Cfg_absent, Cfg_absent, Cfg_absent)\<rparr>"

definition world_sample :: slv_world where
  "world_sample = \<lparr>wo_opus = opus_sample, wo_loadb = (\<lambda>_. None), wo_dumps = (\<lambda>_. Some ''x''),
     wo_admin = \<lparr>ae_loadb = (\<lambda>_. None), ae_dumps = (\<lambda>_. None), ae_vis_mem = mem_all, ae_pos_mem = True, ae_store_mem = True\<rparr>\<rparr>"

definition create_sample :: slv_message where
  "create_sample = \<lparr>ms_session = 3, ms_root = Some (JObject [(''request'', JString ''create''), (''room'', JInt 1)]), ms_jsep = None\<rparr>"

definition run_sample :: "(string, unit) slv_op list" where
  "run_sample = [Op_create_session 3, Op_message (handler_sample\<lparr>he_now := 2\<rparr>) create_sample,
     Op_message (handler_sample\<lparr>he_now := 3\<rparr>) (join_sample '''')]"

lemma start_sample_sel:
  "snd start_sample = slv_mixer_init" "\<not> kn_join_cap_required (fst start_sample)" "0 < kn_room_size (fst start_sample)"
proof -
  show "snd start_sample = slv_mixer_init"
    by (simp add: start_sample_def janus_slvoice_init_def Let_def janus_slvoice_load_static_rooms_def)
  show "\<not> kn_join_cap_required (fst start_sample)"
    by (simp add: start_sample_def janus_slvoice_init_def Let_def janus_slvoice_joincap_load_knobs_def)
  show "0 < kn_room_size (fst start_sample)"
    using init_room_size unfolding start_sample_def by (meson less_le_trans pos2)
qed

lemma run_sample_reach:
  "\<exists>p. slv_reach world_sample 3 run_sample (fst start_sample) p \<and> se_room (session_of (sp_mixer p) 3) = Some 0"
proof -
  have start: "slv_reach world_sample 1 ([] :: (string, unit) slv_op list) (fst start_sample)
      \<lparr>sp_mixer = slv_mixer_init, sp_error_reason = None, sp_sweep_ticks = 0\<rparr>"
    by (rule slv_reach.start [where now = 1]) (simp, simp add: start_sample_sel(1) [symmetric] start_sample_def)
  have sel: "ms_session create_sample = 3" "json_string_value (json_object_get (ms_root create_sample) ''request'') = Some ''create''"
    "ra_id (create_args (handler_sample\<lparr>he_now := 2\<rparr>) (ms_root create_sample)) = 1"
    by (simp_all add: create_sample_def create_args_def Let_def u64_of_json_int_def)
  show ?thesis
  proof (rule create_join_run [OF start sel join_sample_sel(1,4,3) gate_sample_room(1) refl start_sample_sel(2,3)])
    fix p m2 m3 ev jsep pr
    assume "slv_reach world_sample 3 [Op_create_session 3, Op_message (handler_sample\<lparr>he_now := 2\<rparr>) create_sample,
        Op_message (handler_sample\<lparr>he_now := 3\<rparr>) (join_sample [])] (fst start_sample) p"
      and "sp_mixer p = announce_join (he_dumps (handler_sample\<lparr>he_now := 3\<rparr>)) (fst start_sample) 3 (Slv_event ev jsep pr) m3"
      and "se_room (session_of m3 3) = Some 0"
    then show ?thesis using same_seats_sel(4) [OF announce_keeps] by (auto simp: run_sample_def)
  qed
qed


end
