(* ===== verification/Standing.thy ===== *)
theory Standing
  imports System
begin

text \<open>
  The simulator's authority in the whole process: every operation but the simulator's messages leaves the authority of
  every room alone, so what \<^verbatim>\<open>Authority\<close> proves of one room and the messages delivered to it holds of every
  room of the process in every state a run reaches.
\<close>

subsection \<open>Operations that leave the authority alone\<close>

definition auth_part :: "janus_slvoice_room \<Rightarrow> (string \<times> slv_vis_record) list \<times> u64 \<times> u32 \<times> int \<times> bool" where
  "auth_part r = (rm_vis_records r, auth_frame r)"

definition parts :: "slv_mixer \<Rightarrow> nat \<Rightarrow> (string \<times> slv_vis_record) list \<times> u64 \<times> u32 \<times> int \<times> bool" where
  "parts m a = auth_part (room_at m a)"

lemmas part_defs = auth_part_def auth_frame_def

lemma parts_heap: "mx_heap m' = mx_heap m \<Longrightarrow> parts m' = parts m"
  by (simp add: parts_def fun_eq_iff)

lemma parts_upd_room: "auth_part (f (room_at m a)) = auth_part (room_at m a) \<Longrightarrow> parts (upd_room a f m) = parts m"
  by (simp add: parts_def fun_eq_iff upd_room_def)

lemma parts_upd_session [simp]: "parts (upd_session s f m) = parts m"
  by (rule parts_heap) (simp add: upd_session_def)

lemma parts_process [simp]:
  "parts (m\<lparr>mx_live := ls\<rparr>) = parts m" "parts (m\<lparr>mx_rooms := rs\<rparr>) = parts m" "parts (m\<lparr>mx_joincap := js\<rparr>) = parts m"
  "parts (m\<lparr>mx_join_cap_enforced := n\<rparr>) = parts m" "parts (m\<lparr>mx_outbox := out\<rparr>) = parts m"
  by (rule parts_heap; simp)+

lemma parts_relayed: "relayed m m' \<Longrightarrow> parts m' = parts m"
  by (rule parts_heap) (simp add: relayed_def)

text \<open>A step of any kind that leaves the authority alone does so in a loop.\<close>

locale auth_keeping =
  fixes step :: "'a \<Rightarrow> slv_mixer \<Rightarrow> slv_mixer"
  assumes keeps: "parts (step x m) = parts m"
begin

lemma fold_keeps: "parts (fold step xs m) = parts m"
  by (induction xs arbitrary: m) (simp_all add: keeps)

end

lemma parts_fold_fst:
  assumes "\<And>x st. parts (fst (f x st)) = parts (fst st)"
  shows "parts (fst (fold f xs st)) = parts (fst st)"
  by (induction xs arbitrary: st) (simp_all add: assms)

subsection \<open>Notices, leaving and hanging up\<close>

lemma parts_push_presence [simp]: "parts (janus_slvoice_push_presence dumps k now a who join m) = parts m"
proof -
  let ?m = "if join then upd_room a (\<lambda>r. r\<lparr>rm_vis_joins_since_snapshot := rm_vis_joins_since_snapshot r + 1\<rparr>) m else m"
  have "parts (fold (presence_to dumps k now a who join) ps ?m) = parts ?m" for ps
    by (intro parts_relayed relay_loop presence_to_step)
  moreover have "parts ?m = parts m" by (simp add: parts_upd_room part_defs)
  ultimately show ?thesis by (simp only: janus_slvoice_push_presence_def Let_def)
qed

lemma parts_leave_remove [simp]: "parts (upd_room a (leave_remove now u) m) = parts m"
  by (rule parts_upd_room) (simp add: leave_remove_def Let_def part_defs)

lemma parts_leave [simp]: "parts (janus_slvoice_leave_room dumps k now s m) = parts m"
  by (simp add: janus_slvoice_leave_room_def Let_def split: option.split)

lemma parts_media_gone [simp]: "parts (janus_slvoice_media_gone dumps k now s m) = parts m"
  by (simp add: janus_slvoice_media_gone_def Let_def)

interpretation ak_reap: auth_keeping "janus_slvoice_reap_no_media dumps k now a" for dumps k now a
  by unfold_locales (simp add: janus_slvoice_reap_no_media_def Let_def split: prod.split)

lemma parts_destroy_session: "parts (janus_slvoice_destroy_session dumps k now s m) = parts m"
  by (simp add: janus_slvoice_destroy_session_def Let_def)

lemma parts_create_session: "parts (janus_slvoice_create_session now s m) = parts m"
  by (simp add: janus_slvoice_create_session_def Let_def)

lemma parts_data_backlog [simp]: "parts (data_backlog dumps k now s m) = parts m"
  by (simp add: data_backlog_def Let_def parts_relayed [OF backlog_relayed] split: option.split)

lemma parts_incoming_data: "parts (janus_slvoice_incoming_data loadb dumps k ma now s buf m) = parts m"
  by (simp add: janus_slvoice_incoming_data_def Let_def split: prod.split)

lemma parts_data_ready: "parts (janus_slvoice_data_ready dumps k now s m) = parts m"
  by (simp add: janus_slvoice_data_ready_def Let_def parts_relayed [OF backlog_relayed] split: option.split)

subsection \<open>Rooms\<close>

interpretation ak_evict: auth_keeping "evict a" for a
  by unfold_locales (simp add: evict_def)

interpretation ak_teardown: auth_keeping janus_slvoice_room_teardown_locked
proof unfold_locales
  fix a m
  have 1: "parts (upd_room a (\<lambda>r. janus_slvoice_room_stop (r\<lparr>rm_destroyed := True\<rparr>)) n) = parts n"
    and 2: "parts (upd_room a (\<lambda>r. r\<lparr>rm_participants := [], rm_vis_deferred := g r\<rparr>) n) = parts n" for n g
    by (rule parts_upd_room; simp add: janus_slvoice_room_stop_def part_defs)+
  show "parts (janus_slvoice_room_teardown_locked a m) = parts m"
    by (simp add: janus_slvoice_room_teardown_locked_def Let_def 1 2 ak_evict.fold_keeps)
qed

lemma parts_sweep [simp]: "parts (fst (janus_slvoice_sweep_empty_rooms_locked k now m)) = parts m"
proof -
  have one: "parts (fst (sweep_mark k now a st)) = parts (fst st)" for a st
    by (cases st) (simp add: sweep_mark_def parts_upd_room part_defs)
  show ?thesis
    using parts_fold_fst [of "sweep_mark k now", OF one, of "map snd (mx_rooms m)" "(m, [])"]
    by (simp add: janus_slvoice_sweep_empty_rooms_locked_def split_beta ak_teardown.fold_keeps)
qed

interpretation ak_transition: auth_keeping "transition_to dumps was ok p" for dumps was ok p
  by unfold_locales (auto simp: transition_to_def Let_def intro!: parts_relayed relay_presence_one(1) split: option.split)

interpretation ak_transitions: auth_keeping "\<lambda>p m. fold (transition_to dumps was ok p) ps m" for dumps was ok ps
  by unfold_locales (rule ak_transition.fold_keeps)

interpretation ak_standing: auth_keeping "\<lambda>q. upd_session q (\<lambda>x. x\<lparr>se_vis_ok_last := ok q\<rparr>)" for ok
  by unfold_locales simp

interpretation ak_dots: auth_keeping "dot_send dumps k now a batch hidden" for dumps k now a batch hidden
  by unfold_locales (auto simp: dot_send_view send_text_def split: option.split)

interpretation ak_sender: auth_keeping "sender_room dumps k now" for dumps k now
proof unfold_locales
  fix m a
  obtain n hs where n: "janus_slvoice_vis_transitions_locked dumps k now a m = (n, hs)" by fastforce
  have "parts n = parts m"
    using n by (auto simp: janus_slvoice_vis_transitions_locked_def Let_def ak_standing.fold_keeps ak_transitions.fold_keeps)
  then show "parts (sender_room dumps k now a m) = parts m"
    by (simp add: sender_room_def Let_def n ak_dots.fold_keeps)
qed

lemma parts_sender_pass: "parts (snd (sender_pass dumps k now (ticks, m))) = parts m"
  by (simp add: sender_pass_def Let_def split_beta ak_sender.fold_keeps)

subsection \<open>The tick\<close>

lemma parts_pass1_one: "parts (fst (pass1_one op k t0 a check s st)) = parts (fst st)"
proof -
  have "parts (upd_room a (\<lambda>r. r\<lparr>rm_pos_stats := rs\<rparr>) n) = parts n" for rs n
    by (rule parts_upd_room) (simp add: part_defs)
  then show ?thesis by (cases st) (simp add: pass1_one_def Let_def split: prod.split)
qed

lemma parts_pass2_one: "parts (fst (pass2_one op k a rows srcbuf audible ss i st)) = parts (fst st)"
  by (cases st) (simp add: pass2_one_state)

lemma parts_tick_locked:
  assumes "room_tick_locked op k t0 a m = (m', out, reap)"
  shows "parts m' = parts m"
proof -
  let ?ss = "tick_sessions m a" and ?m0 = "upd_room a room_tick_begin m"
  obtain check where t: "tick_after_pass1 op k t0 a ?ss (fst (fold (pass1_one op k t0 a check) ?ss (?m0, []))) = (m', out)"
    using tick_structure [OF assms] by blast
  let ?p = "fst (fold (pass1_one op k t0 a check) ?ss (?m0, []))"
  let ?q = "upd_room a (tick_gauges (tick_rows k t0 ?ss ?p (room_at ?p a))) ?p"
  have "parts ?m0 = parts m" by (rule parts_upd_room) (simp add: room_tick_begin_def Let_def part_defs)
  then have p: "parts ?p = parts m" using parts_fold_fst [where f = "pass1_one op k t0 a check", OF parts_pass1_one, of ?ss "(?m0, [])"] by simp
  have "parts ?q = parts ?p" by (rule parts_upd_room) (simp add: tick_gauges_def Let_def part_defs split: option.split)
  moreover obtain rows srcbuf audible where "fold (pass2_one op k a rows srcbuf audible ?ss) [0..<length ?ss] (?q, []) = (m', out)"
    using t unfolding tick_after_pass1_def Let_def by blast
  then have "parts m' = parts ?q"
    using parts_fold_fst [where f = "pass2_one op k a rows srcbuf audible ?ss", OF parts_pass2_one, of "[0..<length ?ss]" "(?q, [])"] by simp
  ultimately show ?thesis using p by simp
qed

lemma parts_room_tick: "parts (fst (janus_slvoice_room_tick op dumps k t0 now a m)) = parts m"
proof -
  obtain n out reap where t: "room_tick_locked op k t0 a m = (n, out, reap)" by (metis prod_cases3)
  then show ?thesis using parts_tick_locked [OF t] by (simp add: janus_slvoice_room_tick_def ak_reap.fold_keeps)
qed

subsection \<open>Requests\<close>

text \<open>A request leaves every room's authority alone, but one that creates a room starts it without any.\<close>

definition fresh_part :: "(string \<times> slv_vis_record) list \<times> u64 \<times> u32 \<times> int \<times> bool \<Rightarrow> bool" where
  "fresh_part q \<longleftrightarrow> (\<exists>d. q = ([], 0, 0, 0, d))"

definition parts_grow :: "slv_mixer \<Rightarrow> slv_mixer \<Rightarrow> bool" where
  "parts_grow m m' \<longleftrightarrow> (\<forall>a. parts m' a = parts m a \<or> fresh_part (parts m' a))"

lemma parts_growI: "parts m' = parts m \<Longrightarrow> parts_grow m m'"
  by (simp add: parts_grow_def)

lemma parts_join_commit [simp]: "parts (fst (janus_slvoice_join_commit_locked k now a s m)) = parts m"
proof -
  have room: "parts (upd_room a (\<lambda>r. r\<lparr>rm_vis_deferred := g r\<rparr>) n) = parts n" for g n
    by (rule parts_upd_room) (simp add: part_defs)
  have rejoin: "parts (fst (janus_slvoice_vis_rejoin_columns_locked k a s m)) = parts m"
    unfolding janus_slvoice_vis_rejoin_columns_locked_def Let_def by (simp add: room split: option.split)
  have replay: "parts (janus_slvoice_room_replay_deferred_locked a s n) = parts n" for n
    unfolding janus_slvoice_room_replay_deferred_locked_def Let_def by (simp add: room split: option.split)
  obtain n took where n: "janus_slvoice_vis_rejoin_columns_locked k a s m = (n, took)" by fastforce
  then show ?thesis
    using rejoin replay by (simp add: janus_slvoice_join_commit_locked_def Let_def n)
qed

lemma parts_join_both: "join_both k now a s ja m = (m', r) \<Longrightarrow> parts m' = parts m"
proof -
  have "parts (upd_room a (\<lambda>r. r\<lparr>rm_empty_since := 0, rm_participants := f r\<rparr>) n) = parts n" for f n
    by (rule parts_upd_room) (simp add: part_defs)
  then have "parts (fst (join_both k now a s ja m)) = parts m"
    by (simp add: join_both_def join_room_def Let_def split_beta)
  then show "join_both k now a s ja m = (m', r) \<Longrightarrow> parts m' = parts m" by simp
qed

lemma parts_join: "parts (fst (handle_join he k msg m)) = parts m"
proof -
  have cap: "parts n = parts m" if "join_capability he k body i a s m = (n, r)" for body i a s n r
    using that by (auto simp: join_capability_def Let_def split: prod.splits if_splits)
  have adm: "parts n' = parts n" if "join_admitted he k msg i a n = (n', out)" for i a n n' out
    using that parts_join_both by (auto simp: join_admitted_def Let_def split: if_splits prod.splits sum.splits option.splits)
  show ?thesis
    using cap adm by (auto simp: handle_join_def Let_def split: option.split prod.split)
qed

lemma parts_create: "parts_grow m (fst (handle_create he body m))"
proof (cases "map_of (mx_rooms m) (ra_id (create_args he body))")
  case (Some a)
  have "parts (upd_room a (janus_slvoice_room_rearm_grace_locked (he_now he)) m) = parts m"
    by (rule parts_upd_room) (simp add: janus_slvoice_room_rearm_grace_locked_def part_defs)
  then show ?thesis by (intro parts_growI) (simp add: handle_create_def Let_def Some)
next
  case None
  then show ?thesis
    by (auto simp: handle_create_def Let_def janus_slvoice_room_create_def janus_slvoice_room_start_def rooms_insert_def
        janus_slvoice_room_zero_def parts_grow_def parts_def part_defs fresh_part_def)
qed

lemma parts_request: "parts_grow m (fst (handle_request he k msg m))"
proof -
  have "parts (fst (handle_destroy body m)) = parts m" "parts (fst (handle_configure he msg m)) = parts m"
    "parts (fst (handle_leave he k s m)) = parts m" for body s
    by (auto simp: handle_destroy_def handle_configure_def handle_leave_def Let_def ak_teardown.keeps split: option.split prod.split sum.split)
  then show ?thesis
    by (simp add: handle_request_def split_beta parts_create parts_join parts_growI split: option.split)
qed

lemma parts_turn: "parts_grow m (snd (fst (handler_turn k (he, msg) (reason, m))))"
proof -
  have "parts (announce_join dumps k now out n) = parts n" for dumps now out n
    by (cases "(dumps, k, now, out, n)" rule: announce_join.cases) simp_all
  then show ?thesis
    using parts_request [of m he k msg]
    by (simp add: handler_turn_def split_beta Let_def parts_grow_def parts_growI)
qed

subsection \<open>The simulator's messages\<close>

text \<open>What an operation delivers to the rooms: an accepted batch, or the entries of an accepted heartbeat.\<close>

fun op_sends :: "slv_admin_env \<Rightarrow> ('sdp, 'ml) slv_op \<Rightarrow> auth_msg \<Rightarrow> bool" where
  "op_sends ae (Op_admin (Some j)) (Auth_batch vb) =
     (slv_visbatch_parse (ae_loadb ae) (ae_vis_mem ae) (ae_dumps ae j) = (SLV_VISBATCH_OK, vb))"
| "op_sends ae (Op_admin (Some j)) (Auth_heartbeat e feed_stale stopping rval) =
     (slv_vis_parse_epoch (json_string_value (json_object_get (Some j) ''room_epoch'')) = Some e)"
| "op_sends ae op msg = False"

text \<open>The authority of every room is one the messages can bring about, and was not confirmed in the future.\<close>

definition authority_ok :: "slv_knobs \<Rightarrow> (auth_msg \<Rightarrow> bool) \<Rightarrow> int \<Rightarrow> slv_mixer \<Rightarrow> bool" where
  "authority_ok k sent t m \<longleftrightarrow> (\<forall>a. auth_reach k sent (room_at m a) \<and> rm_vis_auth_last_us (room_at m a) \<le> t)"

lemma authority_ok_later: "authority_ok k sent t m \<Longrightarrow> t \<le> now \<Longrightarrow> authority_ok k sent now m"
  by (simp add: authority_ok_def) (meson order_trans)

lemma authority_ok_grow:
  assumes "parts_grow m m'" "authority_ok k sent t m" "0 < t"
  shows "authority_ok k sent t m'"
  unfolding authority_ok_def
proof
  fix a
  consider (same) "parts m' a = parts m a" | (new) "fresh_part (parts m' a)" using assms(1) by (auto simp: parts_grow_def)
  then show "auth_reach k sent (room_at m' a) \<and> rm_vis_auth_last_us (room_at m' a) \<le> t"
  proof cases
    case same
    then have "rm_vis_records (room_at m' a) = rm_vis_records (room_at m a)" "auth_frame (room_at m' a) = auth_frame (room_at m a)"
      by (simp_all add: parts_def auth_part_def)
    with assms(2) show ?thesis using auth_reach.other by (force simp: authority_ok_def auth_frame_def)
  next
    case new
    then obtain d where "rm_vis_records (room_at m' a) = []" "auth_frame (room_at m' a) = (0, 0, 0, d)"
      by (auto simp: fresh_part_def parts_def auth_part_def)
    with assms(3) show ?thesis by (auto simp: auth_frame_def intro: auth_reach.created)
  qed
qed

lemma authority_ok_same: "parts m' = parts m \<Longrightarrow> authority_ok k sent t m \<Longrightarrow> 0 < t \<Longrightarrow> authority_ok k sent t m'"
  by (rule authority_ok_grow [OF parts_growI])

lemma deliver_last:
  assumes "rm_vis_auth_last_us r \<le> now" "0 < now"
  shows "rm_vis_auth_last_us (auth_deliver k now msg r) \<le> now"
proof -
  have adopt: "rm_vis_auth_last_us r1 \<le> now" if "janus_slvoice_vis_adopt_locked k e now r = (v, r1)" for e v r1
    using that assms(1) by (cases rule: adopt_cases) auto
  show ?thesis
  proof (cases msg)
    case (Auth_batch vb)
    obtain v r1 where a: "janus_slvoice_vis_adopt_locked k (vb_room_epoch vb) now r = (v, r1)" by fastforce
    have "rm_vis_auth_last_us (fst (fold (vis_batch_listener en vb gen now) ls (r1\<lparr>rm_vis_policy_gen := gen\<rparr>, out))) \<le> now" for en gen ls out
    proof -
      obtain r2 o2 where f: "fold (vis_batch_listener en vb gen now) ls (r1\<lparr>rm_vis_policy_gen := gen\<rparr>, out) = (r2, o2)" by fastforce
      then show ?thesis using batch_fold_frame [OF f] adopt [OF a] by simp
    qed
    then show ?thesis
      using adopt [OF a] assms(1) by (simp add: Auth_batch janus_slvoice_vis_batch_authority_locked_def Let_def a)
  next
    case (Auth_heartbeat e fs stopping rval)
    obtain v r1 where a: "janus_slvoice_vis_adopt_locked k e now r = (v, r1)" by fastforce
    have "rm_vis_auth_last_us (fst (janus_slvoice_vis_heartbeat_listeners_locked js now (r1\<lparr>rm_vis_heartbeats := n\<rparr>))) \<le> now" for js n
    proof -
      obtain r2 st un where f: "janus_slvoice_vis_heartbeat_listeners_locked js now (r1\<lparr>rm_vis_heartbeats := n\<rparr>) = (r2, st, un)"
        by (metis prod_cases3)
      then show ?thesis using heartbeat_listeners_frame(1) [OF f] adopt [OF a] by (simp add: auth_frame_def)
    qed
    then show ?thesis
      using adopt [OF a] assms by (simp add: Auth_heartbeat heartbeat_room_def Let_def a split_beta vis_authority_stopping_def)
  qed
qed

lemma authority_ok_deliver:
  assumes "authority_ok k sent now m" "0 < now" "sent msg" "auth_msg_ok msg"
  shows "authority_ok k sent now (upd_room a (\<lambda>_. auth_deliver k now msg (room_at m a)) m)"
  using assms auth_reach.deliver deliver_last by (auto simp: authority_ok_def upd_room_def)

subsection \<open>The admin messages\<close>

interpretation ak_visbatch: auth_keeping "visbatch_session dumps k now a op present e" for dumps k now a op present e
  by unfold_locales (simp add: visbatch_session_def split_beta Let_def parts_relayed [OF relay_transitions_relayed])

interpretation ak_mutebatch: auth_keeping "mutebatch_session dumps k now a op e" for dumps k now a op e
  by unfold_locales (simp add: mutebatch_session_def split_beta Let_def parts_relayed [OF relay_mutes_relayed])

lemma parts_channels: "parts (fst (apply_channels dumps mem k now a vb skip m)) = parts m"
proof -
  have "parts (upd_room a (\<lambda>r. r\<lparr>rm_vis_dropped_listener_entries := f r, rm_vis_deferred := g r\<rparr>) n) = parts n"
    "parts (upd_room a (\<lambda>r. r\<lparr>rm_vis_deferred := g r\<rparr>) n) = parts n" for f g n
    by (rule parts_upd_room; simp add: part_defs)+
  then have entry: "parts (fst (visbatch_entry dumps mem k now a op present skip e st)) = parts (fst st)"
    "parts (fst (mutebatch_entry dumps mem k now a op skip e st)) = parts (fst st)" for op present skip e st
    by (cases st; simp add: visbatch_entry_def mutebatch_entry_def Let_def ak_visbatch.fold_keeps ak_mutebatch.fold_keeps)+
  have last: "parts (upd_room a (\<lambda>r. r\<lparr>rm_vis_epoch := f1 r, rm_vis_last_ts := f2, rm_vis_last_mode := f3,
      rm_vis_last_batch_dropped_listeners := f4, rm_vis_joins_since_snapshot := f5 r\<rparr>) n) = parts n" for f1 f2 f3 f4 f5 n
    by (rule parts_upd_room) (simp add: part_defs)
  have 1: "parts (fst (fold (visbatch_entry dumps mem k now a op present skip) es (n, 0))) = parts n" for op present es n
    using parts_fold_fst [where f = "visbatch_entry dumps mem k now a op present skip", OF entry(1)] by simp
  have 2: "parts (fst (fold (mutebatch_entry dumps mem k now a op skip) es (n, 0))) = parts n" for op es n
    using parts_fold_fst [where f = "mutebatch_entry dumps mem k now a op skip", OF entry(2)] by simp
  show ?thesis
    by (simp add: apply_channels_def janus_slvoice_apply_visbatch_locked_def janus_slvoice_apply_mutebatch_locked_def
        split_beta Let_def last 1 2)
qed

lemma authority_ok_batch:
  assumes "authority_ok k sent now m" "0 < now" "sent (Auth_batch vb)" "visbatch_ok vb"
  shows "authority_ok k sent now (fst (batch_room ae k now vb a m))"
proof -
  obtain room vo where b: "janus_slvoice_vis_batch_authority_locked k vb now (room_at m a) = (room, vo)" by fastforce
  define n where "n = upd_room a (\<lambda>_. room) m"
  have n: "authority_ok k sent now n"
    using authority_ok_deliver [of k sent now m "Auth_batch vb" a] assms by (simp add: n_def b)
  have "fst (batch_room ae k now vb a m) =
      (if vo_refused vo then n else fst (apply_channels (ae_dumps ae) (ae_store_mem ae) k now a vb (vo_skip vo) n))"
    unfolding batch_room_def b prod.case Let_def n_def [symmetric] by (simp add: split_beta)
  then show ?thesis using n authority_ok_same [OF parts_channels n assms(2)] by simp
qed

lemma authority_ok_heartbeat:
  assumes "authority_ok k sent now m" "0 < now" "\<And>rval. sent (Auth_heartbeat e fs stopping rval)" "e \<noteq> 0"
  shows "authority_ok k sent now (fst (fold (heartbeat_member k e fs stopping now) ms (m, out)))"
  using assms(1)
proof (induction ms arbitrary: m out)
  case (Cons kv ms)
  obtain key rval where kv: "kv = (key, rval)" by fastforce
  obtain m1 out1 where s: "heartbeat_member k e fs stopping now kv (m, out) = (m1, out1)" by fastforce
  have "authority_ok k sent now (upd_room a (\<lambda>_. fst (heartbeat_room k e fs stopping now rval (room_at m a))) m)" for a
    using authority_ok_deliver [OF Cons.prems assms(2) assms(3), of rval a] assms(4) by simp
  then have "authority_ok k sent now m1"
    using s Cons.prems unfolding kv heartbeat_member_def prod.case
    by (auto simp: split_beta split: if_splits option.splits)
  then show ?case using Cons.IH by (simp add: s)
qed simp

lemma parts_peer_pos: "parts (fst (janus_slvoice_handle_peer_pos ae k now j m)) = parts m"
proof -
  have "parts (upd_room a (\<lambda>_. fst (peer_pos_room k now pb (room_at m a))) m) = parts m" for a pb
    by (rule parts_upd_room) (simp add: peer_pos_room_def Let_def part_defs split_beta)
  moreover have "parts (m\<lparr>mx_pos_unknown_room_total := n\<rparr>) = parts m" "parts (m\<lparr>mx_pos_toobig_total := n\<rparr>) = parts m"
    "parts (m\<lparr>mx_pos_malformed_total := n\<rparr>) = parts m" for n by (rule parts_heap; simp)+
  ultimately show ?thesis
    by (auto simp: janus_slvoice_handle_peer_pos_def split_beta split: slv_pos_status.split option.split)
qed

lemma authority_ok_admin:
  assumes "authority_ok k sent now m" "0 < now" "\<And>a. op_sends ae (Op_admin msg :: ('sdp, 'ml) slv_op) a \<Longrightarrow> sent a"
  shows "authority_ok k sent now (fst (janus_slvoice_handle_admin_message ae k now msg m))"
proof (cases msg)
  case None
  then show ?thesis using assms(1) by (simp add: janus_slvoice_handle_admin_message_def Let_def)
next
  case (Some j)
  have hb: "authority_ok k sent now (fst (janus_slvoice_handle_heartbeat k now msg m))"
  proof (cases "slv_vis_parse_epoch (json_string_value (json_object_get msg ''room_epoch''))")
    case None
    then show ?thesis using assms(1) by (simp add: janus_slvoice_handle_heartbeat_def Let_def)
  next
    case e: (Some e)
    have "sent (Auth_heartbeat e fs stopping rval)" for fs stopping rval
      using assms(3) [of "Auth_heartbeat e fs stopping rval"] e Some by simp
    then show ?thesis
      using assms(1) authority_ok_heartbeat [OF assms(1,2), of e] parse_epoch_nonzero [OF e]
      by (simp add: janus_slvoice_handle_heartbeat_def Let_def e split_beta)
  qed
  have pos: "authority_ok k sent now (fst (janus_slvoice_handle_peer_pos ae k now j m))"
    by (rule authority_ok_same [OF parts_peer_pos assms(1,2)])
  have batch: "authority_ok k sent now (fst (handle_batch ae k now j m))"
  proof (cases "slv_visbatch_parse (ae_loadb ae) (ae_vis_mem ae) (ae_dumps ae j)")
    case (Pair st vb)
    have "visbatch_ok vb" using visbatch_parse_bounds [of "ae_loadb ae" "ae_vis_mem ae" "ae_dumps ae j"] by (simp add: Pair)
    moreover have "sent (Auth_batch vb)" if "st = SLV_VISBATCH_OK" using assms(3) [of "Auth_batch vb"] Pair Some that by simp
    ultimately show ?thesis
      using assms(1) authority_ok_batch [OF assms(1,2)]
      by (auto simp: handle_batch_def Pair split: slv_visbatch_status.split option.split)
  qed
  show ?thesis using assms(1) hb pos batch unfolding janus_slvoice_handle_admin_message_def Let_def Some by simp
qed

subsection \<open>Every reachable state\<close>

lemma apply_authority:
  assumes "authority_ok k sent now (sp_mixer p)" "0 < now" "\<And>a. op_sends (wo_admin w) op a \<Longrightarrow> sent a"
  shows "authority_ok k sent now (sp_mixer (slv_apply w k now op p))"
proof (cases op)
  case (Op_admin msg)
  then show ?thesis using authority_ok_admin [OF assms(1,2)] assms(3) by auto
next
  case (Op_message he msg)
  then show ?thesis
    using authority_ok_grow [OF parts_turn [of "sp_mixer p" k he msg "sp_error_reason p"] assms(1,2)] by (simp add: split_beta)
next
  case Op_sender
  then show ?thesis
    using authority_ok_same [OF parts_sender_pass [of "wo_dumps w" k now "sp_sweep_ticks p" "sp_mixer p"] assms(1,2)] by (simp add: split_beta)
qed (use assms(1,2) in \<open>simp_all add: authority_ok_same parts_create_session parts_destroy_session parts_incoming_data
      parts_data_ready parts_room_tick janus_slvoice_hangup_media_def\<close>)

lemma parts_grow_trans: "parts_grow m m' \<Longrightarrow> parts_grow m' m'' \<Longrightarrow> parts_grow m m''"
  unfolding parts_grow_def by (metis (full_types))

lemma static_room_grows: "parts_grow m (load_static_room ok now c m)"
proof -
  have create: "parts_grow m (rooms_insert i a n)" if "janus_slvoice_room_create b now ra m = (n, Some a)" for i a n b ra
    using that by (auto simp: janus_slvoice_room_create_def Let_def janus_slvoice_room_start_def rooms_insert_def
        janus_slvoice_room_zero_def parts_grow_def parts_def part_defs fresh_part_def split: if_splits)
  have none: "n = m" if "janus_slvoice_room_create b now ra m = (n, None)" for n b ra
    using that by (auto simp: janus_slvoice_room_create_def Let_def split: prod.splits if_splits)
  show ?thesis
    unfolding load_static_room_def Let_def
    by (auto intro: create simp: parts_growI dest: none split: option.split prod.split)
qed

lemma init_authority:
  assumes "0 < now" "janus_slvoice_init ok now random env cfg = (k, m)"
  shows "authority_ok k sent now m"
proof -
  have m: "m = janus_slvoice_load_static_rooms ok now (cf_categories cfg) slv_mixer_init"
    using assms(2) by (simp add: janus_slvoice_init_def Let_def)
  have "parts_grow n (janus_slvoice_load_static_rooms ok now cs n)" for cs n
    unfolding janus_slvoice_load_static_rooms_def
    by (induction cs arbitrary: n) (auto intro: parts_growI parts_grow_trans static_room_grows)
  moreover have "authority_ok k sent now slv_mixer_init"
    using assms(1) auth_reach.created [of janus_slvoice_room_zero False]
    by (simp add: authority_ok_def slv_mixer_init_def janus_slvoice_room_zero_def auth_frame_def)
  ultimately show ?thesis unfolding m using assms(1) by (rule authority_ok_grow)
qed

lemma reach_authority:
  assumes "slv_reach w t ops k p" "\<And>op a. op \<in> set ops \<Longrightarrow> op_sends (wo_admin w) op a \<Longrightarrow> sent a"
  shows "authority_ok k sent t (sp_mixer p)"
  using assms
proof (induction rule: slv_reach.induct)
  case (start now ok random env cfg k m)
  then show ?case using init_authority [of now ok random env cfg k m] by simp
next
  case (step t ops k p now op)
  have "0 < now" using reach_time [OF step.hyps(1)] step.hyps(2) by simp
  moreover have "authority_ok k sent t (sp_mixer p)" using step.prems by (intro step.IH) auto
  from authority_ok_later [OF this step.hyps(2)] have "authority_ok k sent now (sp_mixer p)" .
  ultimately show ?case using step.prems by (intro apply_authority) auto
qed

text \<open>
  C3 What the mixer enforces is what the simulator published, in the whole process: in every state a run reaches from
  the start, whatever sessions, requests and threads have done in between and however the simulators' messages were
  lost, repeated, delayed or reordered, the columns held for a listener in any room are exactly the sender's columns at that
  record's epoch and listener generation, the record belongs to the room's adopted epoch, is not ahead of its generation, and
  was not confirmed in the future.
\<close>

theorem reachable_records:
  assumes "slv_reach w t ops k p"
    and "\<And>op msg. op \<in> set ops \<Longrightarrow> op_sends (wo_admin w) op msg \<Longrightarrow> sim_sent H msg"
    and "map_of (rm_vis_records (room_at (sp_mixer p) a)) l = Some r"
  shows "(set (vr_excl r), set (vr_mute r)) = H (vr_epoch r) (vr_listener_gen r) l \<and>
    vr_epoch r = rm_vis_auth_epoch (room_at (sp_mixer p) a) \<and> vr_listener_gen r \<le> rm_vis_policy_gen (room_at (sp_mixer p) a) \<and>
    (vr_stale r \<or> vr_confirmed_us r \<le> t) \<and> length (rm_vis_records (room_at (sp_mixer p) a)) \<le> SLV_VIS_MAX_RECORDS"
proof -
  have reach: "auth_reach k (sim_sent H) (room_at (sp_mixer p) a)" and last: "rm_vis_auth_last_us (room_at (sp_mixer p) a) \<le> t"
    using reach_authority [OF assms(1,2)] by (simp_all add: authority_ok_def)
  have inv: "auth_inv (room_at (sp_mixer p) a)" by (rule auth_reach_imp_inv [OF reach])
  then have "vis_record_ok (rm_vis_auth_epoch (room_at (sp_mixer p) a)) (rm_vis_policy_gen (room_at (sp_mixer p) a))
      (rm_vis_auth_last_us (room_at (sp_mixer p) a)) r"
    using assms(3) by (auto simp: auth_inv_def recs_all_def)
  then show ?thesis
    using records_follow_history [OF reach assms(3)] inv last by (auto simp: vis_record_ok_def auth_inv_def)
qed

subsection \<open>A run with a batch\<close>

text \<open>A process with the static room 7, and the stamped replace of \<^verbatim>\<open>Authority\<close> for it.\<close>

definition static_sample :: "slv_knobs \<times> slv_mixer" where
  "static_sample = janus_slvoice_init (\<lambda>_. True) 1 0
     \<lparr>ev_echo_autostart = None, ev_empty_room_grace_s = None, ev_join_media_timeout_s = None, ev_room_size = None,
      ev_vis_fail_closed = None, ev_vis_stale_ms = None, ev_join_cap_required = None, ev_join_cap_secret = None\<rparr>
     \<lparr>cf_categories = [\<lparr>cc_name = Some ''hall'', cc_room = Some ''7'', cc_description = None, cc_sampling_rate = None,
        cc_is_private = None, cc_spatial_audio = None\<rparr>],
      cf_echo_autostart = None, cf_spatial = (Cfg_absent, Cfg_absent, Cfg_absent, Cfg_absent, Cfg_absent)\<rparr>"

definition batch_doc :: json where
  "batch_doc = JObject [(''request'', JString ''peer_ctl_batch''), (''op'', JString ''replace''), (''room'', JInt 7),
     (''excl'', JObject [(''l'', JArray [JString ''s''])]), (''mute'', JObject [(''l'', JArray [])]),
     (''room_epoch'', JString (slv_vis_format_epoch 10)), (''policy_generation'', JInt 1)]"

definition batch_world :: slv_world where
  "batch_world = world_sample\<lparr>wo_admin := \<lparr>ae_loadb = (\<lambda>_. Some batch_doc), ae_dumps = (\<lambda>_. Some ''x''), ae_vis_mem = mem_all,
     ae_pos_mem = True, ae_store_mem = True\<rparr>\<rparr>"

lemma batch_doc_parsed:
  "slv_visbatch_parse (ae_loadb (wo_admin batch_world)) (ae_vis_mem (wo_admin batch_world)) (ae_dumps (wo_admin batch_world) j) =
     (SLV_VISBATCH_OK, auth_replace_sample)"
  by (simp add: batch_world_def slv_visbatch_parse_def batch_doc_def slv_visbatch_zero_def
      slv_vis_parse_stamp_def slv_vis_parse_channels_def slv_vis_parse_channel_def slv_vis_parse_listener_def
      slv_vis_parse_source_def mem_all_def auth_replace_sample_def
      slv_vis_parse_op_def parse_format_epoch slv_const)

lemma static_sample_sel:
  "janus_slvoice_room_ref_by_id (snd static_sample) 7 = Some 0" "rm_vis_records (room_at (snd static_sample) 0) = []"
  "auth_frame (room_at (snd static_sample) 0) = (0, 0, 0, False)"
proof -
  have "g_ascii_strtoull ''7'' = (7, Some [])"
  proof -
    have "dec_text 7 = ''7''" by code_simp
    then show ?thesis using strtoull_dec_text [of 7] by simp
  qed
  then have "snd static_sample = rooms_insert 7 0 (fst (janus_slvoice_room_create True 1
      \<lparr>ra_id = 7, ra_desc = None, ra_private = False, ra_rate = 48000, ra_spatial = janus_slvoice_spatial_from_cfg None,
       ra_permanent = True, ra_vis_authority = False, ra_sim_created = False\<rparr> slv_mixer_init))"
    by (simp add: static_sample_def janus_slvoice_init_def Let_def janus_slvoice_load_static_rooms_def load_static_room_def
        strcaseeq_def slv_mixer_init_def janus_slvoice_room_create_def janus_slvoice_room_start_def janus_slvoice_room_zero_def)
  then show "janus_slvoice_room_ref_by_id (snd static_sample) 7 = Some 0" "rm_vis_records (room_at (snd static_sample) 0) = []"
    "auth_frame (room_at (snd static_sample) 0) = (0, 0, 0, False)"
    by (simp_all add: rooms_insert_def slv_mixer_init_def janus_slvoice_room_create_def Let_def janus_slvoice_room_start_def
        janus_slvoice_room_zero_def janus_slvoice_room_ref_by_id_def auth_frame_def)
qed

lemma batch_op:
  assumes "janus_slvoice_room_ref_by_id (sp_mixer p) 7 = Some 0"
  shows "sp_mixer (slv_apply batch_world k now (Op_admin (Some batch_doc)) p) =
    fst (batch_room (wo_admin batch_world) k now auth_replace_sample 0 (sp_mixer p))"
proof -
  have "json_is_object (Some batch_doc)" "json_string_value (json_object_get (Some batch_doc) ''request'') = Some ''peer_ctl_batch''"
    "u64_of_json_int (vb_room auth_replace_sample) = 7"
    by (simp_all add: batch_doc_def auth_replace_sample_def slv_visbatch_zero_def u64_of_json_int_def)
  then show ?thesis
    using assms by (simp add: janus_slvoice_handle_admin_message_def handle_batch_def batch_doc_parsed)
qed

text \<open>The batch for a room 7 without records leaves the record of its listener there, and the declaration as it was.\<close>

lemma batch_lands:
  assumes "janus_slvoice_room_ref_by_id (sp_mixer p) 7 = Some 0" "parts (sp_mixer p) 0 = ([], 0, 0, 0, d)"
    and "room_at (sp_mixer (slv_apply batch_world k now (Op_admin (Some batch_doc)) p)) 0 = r'"
  shows "\<exists>r. map_of (rm_vis_records r') ''l'' = Some r \<and> vr_epoch r = 10 \<and> vr_listener_gen r = 1 \<and> rm_vis_declared r' = d"
proof -
  let ?m = "sp_mixer p"
  have before: "rm_vis_records (room_at ?m 0) = []" "auth_frame (room_at ?m 0) = (0, 0, 0, d)"
    using assms(2) by (simp_all add: parts_def auth_part_def)
  obtain room vo where b: "janus_slvoice_vis_batch_authority_locked k auth_replace_sample now (room_at ?m 0) = (room, vo)" by fastforce
  have room: "map_of (rm_vis_records room) ''l'' = Some (vis_arm_record auth_replace_sample 10 1 now ''l'' slv_vis_record_zero)"
    "rm_vis_declared room = d"
    using arg_cong [OF b, of fst] before
    unfolding janus_slvoice_vis_batch_authority_locked_def auth_samples_named
    by (auto simp: auth_replace_sample_def slv_visbatch_zero_def janus_slvoice_vis_adopt_locked_def slv_vis_epoch_decide_def Let_def
        vis_batch_listener_def slv_const auth_frame_def)
  note batch_op [OF assms(1)]
  moreover have "parts (fst (batch_room (wo_admin batch_world) k now auth_replace_sample 0 ?m)) = parts (upd_room 0 (\<lambda>_. room) ?m)"
    by (simp add: batch_room_def b Let_def split_beta parts_channels)
  ultimately have "parts (sp_mixer (slv_apply batch_world k now (Op_admin (Some batch_doc)) p)) 0 = auth_part room"
    by (simp add: parts_def upd_room_def)
  then have "rm_vis_records r' = rm_vis_records room" "rm_vis_declared r' = rm_vis_declared room"
    using assms(3) by (simp_all add: parts_def part_defs)
  with room show ?thesis by (auto simp: vis_arm_record_def)
qed

lemma batch_sent: "op_sends (wo_admin batch_world) (Op_admin (Some batch_doc)) msg \<Longrightarrow> sim_sent auth_history_sample msg"
  using auth_samples_sent(1) by (cases msg) (auto simp: batch_doc_parsed simp del: sim_sent.simps, simp)

lemma batch_run:
  "\<exists>p r. slv_reach batch_world 2 [Op_admin (Some batch_doc) :: (string, unit) slv_op] (fst static_sample) p \<and>
     map_of (rm_vis_records (room_at (sp_mixer p) 0)) ''l'' = Some r \<and> vr_epoch r = 10 \<and> vr_listener_gen r = 1"
proof -
  let ?k = "fst static_sample" and ?op = "Op_admin (Some batch_doc) :: (string, unit) slv_op"
  let ?p = "\<lparr>sp_mixer = snd static_sample, sp_error_reason = None, sp_sweep_ticks = 0\<rparr>"
  have "slv_reach batch_world 1 ([] :: (string, unit) slv_op list) ?k ?p"
    by (rule slv_reach.start [where now = 1]) (simp, simp add: static_sample_def)
  from slv_reach.step [OF this, of 2 ?op]
  have reach: "slv_reach batch_world 2 [?op] ?k (slv_apply batch_world ?k 2 ?op ?p)" by simp
  have "parts (sp_mixer ?p) 0 = ([], 0, 0, 0, False)" by (simp add: parts_def auth_part_def static_sample_sel)
  from batch_lands [OF _ this refl, of ?k 2] obtain r where
      "map_of (rm_vis_records (room_at (sp_mixer (slv_apply batch_world ?k 2 ?op ?p)) 0)) ''l'' = Some r" "vr_epoch r = 10" "vr_listener_gen r = 1"
    using static_sample_sel(1) by auto
  with reach show ?thesis by blast
qed

theorem reachable_records_witness:
  "\<exists>k p r. slv_reach batch_world 2 [Op_admin (Some batch_doc) :: (string, unit) slv_op] k p \<and>
     map_of (rm_vis_records (room_at (sp_mixer p) 0)) ''l'' = Some r \<and> set (vr_excl r) = {''s''} \<and> set (vr_mute r) = {}"
proof -
  obtain p r where p: "slv_reach batch_world 2 [Op_admin (Some batch_doc) :: (string, unit) slv_op] (fst static_sample) p"
    and r: "map_of (rm_vis_records (room_at (sp_mixer p) 0)) ''l'' = Some r" "vr_epoch r = 10" "vr_listener_gen r = 1"
    using batch_run by blast
  have sent: "sim_sent auth_history_sample msg"
    if "op \<in> set [Op_admin (Some batch_doc) :: (string, unit) slv_op]" "op_sends (wo_admin batch_world) op msg" for op msg
    using that batch_sent by simp
  from reachable_records [OF p sent r(1)] r(2,3)
  have "(set (vr_excl r), set (vr_mute r)) = ({''s''}, {})" by (simp add: auth_history_sample_def)
  with p r(1) show ?thesis by auto
qed

end
