(* ===== verification/Query.thy ===== *)
theory Query
  imports Standing "HOL-Library.Signed_Division"
begin

text \<open>
  The report of a session to an operator, \<^verbatim>\<open>janus_slvoice_query_session\<close> (\<^verbatim>\<open>src/src/janus_slvoice.c\<close>, lines 1748-2025).
  It holds the session's lock for the first half and the room's lock for the second, so the state may change between the
  two: the definition takes the state of each. The packet rates and the tick-duration histogram are not part of the
  model's state and are arguments here, as are the three readings of the monotonic clock.
\<close>

subsection \<open>The report\<close>

definition JANUS_SLVOICE_PACKAGE :: string where "JANUS_SLVOICE_PACKAGE = ''janus.plugin.slvoice''"

record slv_meters =
  qm_rtp_in_rate :: real
  qm_rtp_out_rate :: real
  qm_tick_hist :: "nat \<Rightarrow> nat"
  qm_tick_overruns :: nat
  qm_tick_last_ms :: real
  qm_tick_max_ms :: real

text \<open>A counter of 64 bits, and one of 32, as the member it becomes.\<close>

abbreviation JU64 :: "nat \<Rightarrow> json" where "JU64 n \<equiv> JInt (json_int_of_u64 n)"
abbreviation JNat :: "nat \<Rightarrow> json" where "JNat n \<equiv> JInt (int n)"

text \<open>What the simulator's positions would have changed for this participant.\<close>

definition pos_observe_report :: "slv_pos_part_stats \<Rightarrow> json" where
  "pos_observe_report ps = json_object_sets
     [(''state'', JString (slv_pos_sim_state_str (pp_state ps))),
      (''age_ms'', JInt (pp_age_ms ps)),
      (''sim_cm'', JArray [JInt (pe_x (pp_sim ps)), JInt (pe_y (pp_sim ps)), JInt (pe_z (pp_sim ps))]),
      (''sim_speed_cms'', JInt (pe_speed_cms (pp_sim ps))),
      (''sim_tol_cm'', JInt (pe_tol_cm (pp_sim ps))),
      (''dev_cm'', JReal (pp_dev_cm ps)),
      (''ticks_observed'', JU64 (pp_ticks_observed ps)),
      (''would_clamp'', JU64 (pp_would_clamp ps)),
      (''would_clamp_max_dev_cm'', JReal (pp_would_clamp_max_dev_cm ps)),
      (''would_clamp_max_excess_cm'', JReal (pp_would_clamp_max_excess_cm ps)),
      (''would_use_sim'', JU64 (pp_would_use_sim ps)),
      (''no_sim'', JU64 (pp_no_sim ps)),
      (''no_sim_stale'', JU64 (pp_no_sim_stale ps))] (JObject [])"

text \<open>The half read under the session's lock: the room is reported unless it is being destroyed.\<close>

definition query_room_of :: "slv_mixer \<Rightarrow> nat \<Rightarrow> nat option" where
  "query_room_of m s = (case se_room (session_of m s) of
     None \<Rightarrow> None | Some a \<Rightarrow> if rm_destroyed (room_at m a) then None else Some a)"

definition connection_report :: "slv_mixer \<Rightarrow> nat \<Rightarrow> (string \<times> json) list" where
  "connection_report m s = (let x = session_of m s; up = se_webrtc_up x in
     [(''ice_state'', JString (if up then ''connected'' else ''disconnected'')),
      (''dtls_state'', JString (if up then ''connected'' else ''disconnected'')),
      (''datachannel_negotiated'', JBool (se_has_datachannel x)),
      (''datachannel_answered'', JBool (se_dc_answered x)),
      (''datachannel_open'', JBool (se_dc_open x))] @
     (case query_room_of m s of None \<Rightarrow> [] | Some a \<Rightarrow> [(''room'', JU64 (rm_room_id (room_at m a)))]) @
     [(''id'', JU64 (se_user_id x))] @
     (case se_display x of None \<Rightarrow> [] | Some d \<Rightarrow> [(''display'', JString d)]) @
     [(''recorder'', JBool (se_recorder x)),
      (''join_cap_present'', JBool (se_cap_present x)),
      (''join_cap_verdict'', JString (case se_cap_verdict x of None \<Rightarrow> ''none'' | Some v \<Rightarrow> v)),
      (''opus_pt'', JInt (se_opus_pt x))])"

definition media_report :: "slv_meters \<Rightarrow> janus_slvoice_session \<Rightarrow> (string \<times> json) list" where
  "media_report mt x =
     [(''rtp_in_count'', JU64 (se_rtp_in_count x)),
      (''rtp_out_count'', JU64 (se_rtp_out_count x)),
      (''rtp_in_rate'', JReal (qm_rtp_in_rate mt)),
      (''rtp_out_rate'', JReal (qm_rtp_out_rate mt)),
      (''decode_ok'', JBool (se_decode_ok x)),
      (''active'', JBool (se_active x)),
      (''frames_decoded'', JU64 (se_frames_decoded x)),
      (''frames_encoded'', JU64 (se_frames_encoded x)),
      (''frames_mixed'', JU64 (se_frames_mixed x)),
      (''echo_active'', JBool (se_echo_active x)),
      (''last_rms'', JReal (se_last_rms x)),
      (''last_mix_rms'', JReal (se_last_mix_rms x)),
      (''last_mix_rms_l'', JReal (se_last_mix_rms_l x)),
      (''last_mix_rms_r'', JReal (se_last_mix_rms_r x))]"

definition control_report :: "int \<Rightarrow> janus_slvoice_session \<Rightarrow> (string \<times> json) list" where
  "control_report t x =
     [(''peer_ctl_entries'', JNat (length (se_peer_ctl x))),
      (''peer_ctl_full_drops'', JU64 (se_peer_ctl_full_drops x)),
      (''mod_muted_entries'', JNat (length (se_mod_muted x))),
      (''excluded_entries'', JNat (length (se_excluded x))),
      (''data_msgs_received'', JU64 (se_data_msgs_received x)),
      (''presence_pushed'', JU64 (se_presence_pushed x)),
      (''presence_dropped_dc_closed'', JU64 (se_presence_dropped_dc_closed x)),
      (''presence_leave_pushed'', JU64 (se_presence_leave_pushed x)),
      (''backlog_resent'', JU64 (se_backlog_resent x)),
      (''last_data_fields_seen'', JString (slv_sldata_fields_str (se_last_data_fields x) 96)),
      (''last_msg_fields_seen'', JString (slv_sldata_fields_str (se_last_msg_fields x) 96)),
      (''pos_observe'', pos_observe_report (se_pos x)),
      (''session_uptime'', JInt ((t - se_created_ts x) sdiv G_USEC_PER_SEC))]"

text \<open>The half read under the room's lock. First who is in the room, and who of them is heard.\<close>

definition active_others :: "nat \<Rightarrow> slv_mixer \<Rightarrow> janus_slvoice_room \<Rightarrow> nat" where
  "active_others s m room = length (filter (\<lambda>p. p \<noteq> s \<and> se_active (session_of m p)) (members room))"

definition mix_memberships :: "nat \<Rightarrow> slv_mixer \<Rightarrow> janus_slvoice_room \<Rightarrow> int" where
  "mix_memberships s m room =
     (let n = (if se_active (session_of m s) then int (length (rm_participants room)) - 1 else 0) in if n < 0 then 0 else n)"

definition occupancy_report :: "slv_knobs \<Rightarrow> nat \<Rightarrow> slv_mixer \<Rightarrow> janus_slvoice_room \<Rightarrow> (string \<times> json) list" where
  "occupancy_report k s m room =
     [(''mix_memberships'', JInt (mix_memberships s m room)),
      (''mix_sources'', JNat (active_others s m room)),
      (''room_participants'', JNat (length (rm_participants room))),
      (''room_capacity'', JNat (kn_room_size k)),
      (''room_capacity_max'', JNat SLV_MAX_MIX)]"

definition tick_histogram :: "slv_meters \<Rightarrow> janus_slvoice_room \<Rightarrow> json" where
  "tick_histogram mt room = json_object_sets
     [(''lt5ms'', JU64 (qm_tick_hist mt 0)),
      (''5to10ms'', JU64 (qm_tick_hist mt 1)),
      (''10to15ms'', JU64 (qm_tick_hist mt 2)),
      (''15to20ms'', JU64 (qm_tick_hist mt 3)),
      (''ge20ms'', JU64 (qm_tick_hist mt 4)),
      (''overruns'', JU64 (qm_tick_overruns mt)),
      (''last_ms'', JReal (qm_tick_last_ms mt)),
      (''max_ms'', JReal (qm_tick_max_ms mt)),
      (''tick_seq'', JU64 (rm_tick_seq room))] (JObject [])"

text \<open>The visibility feed: the batches and the deferred store.\<close>

definition feed_report :: "int \<Rightarrow> janus_slvoice_room \<Rightarrow> (string \<times> json) list" where
  "feed_report t room =
     [(''epoch'', JU64 (rm_vis_epoch room)),
      (''sim_created'', JBool (rm_sim_created room)),
      (''have_batch'', JBool (rm_vis_last_mode room \<noteq> None))] @
     (case rm_vis_last_mode room of None \<Rightarrow> [] | Some md \<Rightarrow>
       [(''last_mode'', JString (slv_vis_op_str md)),
        (''last_batch_age_ms'', JInt ((t - rm_vis_last_ts room) sdiv 1000))]) @
     [(''joins_since_snapshot'', JU64 (rm_vis_joins_since_snapshot room)),
      (''dropped_listener_entries'', JU64 (rm_vis_dropped_listener_entries room)),
      (''last_batch_dropped_listeners'', JU64 (rm_vis_last_batch_dropped_listeners room)),
      (''deferred_current'', JNat (slv_deferred_count (Some (rm_vis_deferred room)))),
      (''deferred_adds'', JU64 (ds_adds (rm_vis_deferred room))),
      (''deferred_replaced'', JU64 (ds_replaced (rm_vis_deferred room))),
      (''deferred_replayed'', JU64 (ds_replayed (rm_vis_deferred room))),
      (''deferred_evicted'', JU64 (ds_evicted (rm_vis_deferred room)))]"

text \<open>The visibility authority of the room.\<close>

definition authority_report :: "slv_knobs \<Rightarrow> int \<Rightarrow> janus_slvoice_room \<Rightarrow> (string \<times> json) list" where
  "authority_report k t room =
     [(''vis_protocol'', JInt SLV_VIS_PROTOCOL),
      (''mixer_instance'', JString (kn_mixer_instance k)),
      (''fail_closed'', JBool (kn_fail_closed k)),
      (''stale_ms'', JNat (kn_stale_ms k)),
      (''vis_authority'', JBool (rm_vis_declared room)),
      (''enforced'', JBool (janus_slvoice_vis_enforced k room)),
      (''authority_epoch'', JString (slv_vis_format_epoch (rm_vis_auth_epoch room))),
      (''policy_generation'', JNat (unat (rm_vis_policy_gen room))),
      (''authority_age_ms'', JInt (if rm_vis_auth_last_us room \<noteq> 0 then (t - rm_vis_auth_last_us room) sdiv 1000 else -1)),
      (''armed_listeners'', JNat (length (rm_vis_records room))),
      (''would_silence_listeners'', JU64 (rm_vis_ws_listeners room)),
      (''would_silence_pairs'', JU64 (unat (rm_vis_ws_pairs room))),
      (''would_silence_listener_ticks'', JU64 (rm_vis_ws_listener_ticks room)),
      (''heartbeats'', JU64 (rm_vis_heartbeats room)),
      (''heartbeats_outdated'', JU64 (rm_vis_heartbeats_outdated room)),
      (''heartbeats_feed_stale'', JU64 (rm_vis_heartbeats_feed_stale room)),
      (''stale_epoch_rejects'', JU64 (rm_vis_stale_epoch_rejects room)),
      (''stale_generation_rejects'', JU64 (rm_vis_stale_generation_rejects room)),
      (''records_full'', JU64 (rm_vis_records_full room))]"

text \<open>The capability gate of the process: the verdicts from \<^verbatim>\<open>SLV_JOINCAP_MISSING\<close> to \<^verbatim>\<open>SLV_JOINCAP_STALE_GENERATION\<close> in
  the order of the enumeration.\<close>

definition refusal_verdicts :: "slv_joincap_verdict list" where
  "refusal_verdicts = [SLV_JOINCAP_MISSING, SLV_JOINCAP_MALFORMED, SLV_JOINCAP_BAD_SIGNATURE, SLV_JOINCAP_WRONG_AGENT,
     SLV_JOINCAP_WRONG_SESSION, SLV_JOINCAP_WRONG_ROOM, SLV_JOINCAP_EXPIRED, SLV_JOINCAP_REPLAYED, SLV_JOINCAP_STORE_FULL,
     SLV_JOINCAP_STALE_GENERATION]"

definition joincap_report :: "slv_knobs \<Rightarrow> slv_mixer \<Rightarrow> json" where
  "joincap_report k m = (let jc = mx_joincap m in json_object_sets
     [(''required'', JBool (kn_join_cap_required k)),
      (''key_set'', JBool (kn_join_cap_key k \<noteq> None)),
      (''skew_s'', JInt SLV_JOINCAP_SKEW_S),
      (''seen'', JNat (js_seen jc)),
      (''accepted'', JNat (js_accepted jc)),
      (''accepted_with_skew'', JNat (js_skewed jc)),
      (''enforced_refusals'', JNat (mx_join_cap_enforced m)),
      (''refused'', json_object_sets (map (\<lambda>v. (slv_joincap_reason v, JNat (js_refused jc v))) refusal_verdicts) (JObject [])),
      (''cap_epoch_ahead'', JNat (js_epoch_ahead jc)),
      (''cap_no_epoch'', JNat (js_no_epoch jc)),
      (''cap_generation_ahead'', JNat (js_gen_ahead jc)),
      (''cap_generation_behind'', JNat (js_gen_behind jc)),
      (''nonces_live'', JNat (slv_joincap_nonce_count (Some (js_nonces jc)))),
      (''nonces_taken'', JU64 (ns_taken (js_nonces jc))),
      (''nonces_expired'', JU64 (ns_expired (js_nonces jc)))] (JObject []))"

text \<open>The simulator's positions for this room.\<close>

definition positions_report :: "int \<Rightarrow> slv_mixer \<Rightarrow> janus_slvoice_room \<Rightarrow> json" where
  "positions_report t m room = (let prs = rm_pos_stats room in json_object_sets
     [(''mode'', JString ''observe''),
      (''stale_ms'', JInt SLV_POS_STALE_MS),
      (''have_batch'', JBool (pr_have_batch prs)),
      (''last_seq'', JInt (pr_last_seq prs)),
      (''epoch'', JString (slv_vis_format_epoch (pr_epoch prs))),
      (''last_batch_age_ms'', JInt (if pr_have_batch prs then (t - pr_last_us prs) sdiv 1000 else -1)),
      (''store_size'', JNat (po_count (rm_pos_store room))),
      (''batches'', JU64 (pr_batches prs)),
      (''full_batches'', JU64 (pr_full_batches prs)),
      (''entries_applied'', JU64 (pr_entries_applied prs)),
      (''entries_skipped'', JU64 (pr_entries_skipped prs)),
      (''entries_dropped_full'', JU64 (pr_entries_dropped_full prs)),
      (''enforce_requests'', JU64 (pr_enforce_requests prs)),
      (''rejected_stale_epoch'', JU64 (pr_rejected_stale_epoch prs)),
      (''rejected_stale_seq'', JU64 (pr_rejected_stale_seq prs)),
      (''process_rejected_malformed'', JNat (mx_pos_malformed_total m)),
      (''process_rejected_too_big'', JNat (mx_pos_toobig_total m)),
      (''process_unknown_room'', JNat (mx_pos_unknown_room_total m)),
      (''would_clamp_ticks'', JU64 (pr_would_clamp_ticks prs)),
      (''would_clamp_max_dev_cm'', JReal (pr_would_clamp_max_dev_cm prs)),
      (''would_clamp_max_excess_cm'', JReal (pr_would_clamp_max_excess_cm prs)),
      (''would_use_sim_ticks'', JU64 (pr_would_use_sim_ticks prs)),
      (''no_sim_ticks'', JU64 (pr_no_sim_ticks prs)),
      (''no_sim_stale_ticks'', JU64 (pr_no_sim_stale_ticks prs)),
      (''would_clamp_now'', JNat (pr_would_clamp_now prs)),
      (''would_use_sim_now'', JNat (pr_would_use_sim_now prs)),
      (''no_sim_now'', JNat (pr_no_sim_now prs))] (JObject []))"

text \<open>The session's own standing: its row, and its record when it has one.\<close>

definition standing_report :: "slv_knobs \<Rightarrow> int \<Rightarrow> string option \<Rightarrow> janus_slvoice_room \<Rightarrow> (string \<times> json) list" where
  "standing_report k t display room =
     (''vis_row'', JNat (janus_slvoice_vis_row_locked k room display t)) #
     (case (case display of None \<Rightarrow> None | Some d \<Rightarrow> map_of (rm_vis_records room) d) of
        None \<Rightarrow> []
      | Some r \<Rightarrow>
          [(''vis_listener_generation'', JNat (unat (vr_listener_gen r))),
           (''vis_confirmed_age_ms'', JInt ((t - vr_confirmed_us r) sdiv 1000)),
           (''vis_stale'', JBool (vr_stale r))])"

definition room_report ::
  "slv_knobs \<Rightarrow> slv_meters \<Rightarrow> int \<Rightarrow> int \<Rightarrow> nat \<Rightarrow> nat \<Rightarrow> slv_mixer \<Rightarrow> (string \<times> json) list"
where
  "room_report k mt t2 t3 s a m = (let room = room_at m a in
     occupancy_report k s m room @
     standing_report k t3 (se_display (session_of m s)) room @
     [(''tick_histogram'', tick_histogram mt room),
      (''visibility'', json_object_sets
         (feed_report t2 room @ authority_report k t3 room @
          [(''join_cap'', joincap_report k m), (''positions'', positions_report t3 m room)]) (JObject []))])"

definition janus_slvoice_query_session ::
  "bool \<Rightarrow> slv_knobs \<Rightarrow> slv_meters \<Rightarrow> int \<times> int \<times> int \<Rightarrow> nat option \<Rightarrow> slv_mixer \<Rightarrow> slv_mixer \<Rightarrow> json option"
where
  "janus_slvoice_query_session up k mt clock handle m m' =
     (if \<not> up then None
      else Some (let info = json_object_sets [(''plugin'', JString JANUS_SLVOICE_PACKAGE)] (JObject []) in
        case handle of
          None \<Rightarrow> json_object_sets [(''state'', JString ''detached'')] info
        | Some s \<Rightarrow>
            (case clock of (t1, t2, t3) \<Rightarrow>
               let x = session_of m s;
                   info = json_object_sets (connection_report m s @ media_report mt x @ control_report t1 x) info
               in case query_room_of m s of
                    None \<Rightarrow> info
                  | Some a \<Rightarrow> json_object_sets (room_report k mt t2 t3 s a m') info)))"

subsection \<open>What an operator can rely on\<close>

lemma report_get:
  assumes "query_room_of m s = Some a"
  obtains r where "janus_slvoice_query_session True k mt (t1, t2, t3) (Some s) m m' = Some r"
    "\<And>key v. map_of (rev (room_report k mt t2 t3 s a m')) key = Some v \<Longrightarrow> json_object_get (Some r) key = Some v"
    "\<And>key. map_of (rev (room_report k mt t2 t3 s a m')) key = None \<Longrightarrow> json_object_get (Some r) key =
       map_of (rev ((''plugin'', JString JANUS_SLVOICE_PACKAGE) # connection_report m s @ media_report mt (session_of m s) @
         control_report t1 (session_of m s))) key"
proof -
  let ?i = "json_object_sets [(''plugin'', JString JANUS_SLVOICE_PACKAGE)] (JObject [])"
  let ?x = "connection_report m s @ media_report mt (session_of m s) @ control_report t1 (session_of m s)"
  have i: "json_is_object (Some ?i)" "json_object_get (Some ?i) key = map_of [(''plugin'', JString JANUS_SLVOICE_PACKAGE)] key" for key
    using get_sets [of "JObject []"] by (simp_all split: option.split)
  note g = get_sets [OF i(1), of ?x]
  show thesis
  proof (rule that)
    show "janus_slvoice_query_session True k mt (t1, t2, t3) (Some s) m m' =
        Some (json_object_sets (room_report k mt t2 t3 s a m') (json_object_sets ?x ?i))"
      using assms by (simp add: janus_slvoice_query_session_def Let_def)
  next
    fix key v assume "map_of (rev (room_report k mt t2 t3 s a m')) key = Some v"
    then show "json_object_get (Some (json_object_sets (room_report k mt t2 t3 s a m') (json_object_sets ?x ?i))) key = Some v"
      using get_sets [OF g [THEN conjunct1], of "room_report k mt t2 t3 s a m'" key] by simp
  next
    fix key assume "map_of (rev (room_report k mt t2 t3 s a m')) key = None"
    then have "json_object_get (Some (json_object_sets (room_report k mt t2 t3 s a m') (json_object_sets ?x ?i))) key =
        json_object_get (Some (json_object_sets ?x ?i)) key"
      using get_sets [OF g [THEN conjunct1], of "room_report k mt t2 t3 s a m'" key] by simp
    also have "\<dots> = map_of (rev ((''plugin'', JString JANUS_SLVOICE_PACKAGE) # ?x)) key"
      unfolding g [THEN conjunct2] i(2) rev.simps(2) map_of_append map_add_def by (simp only: split: option.split)
    finally show "json_object_get (Some (json_object_sets (room_report k mt t2 t3 s a m') (json_object_sets ?x ?i))) key =
        map_of (rev ((''plugin'', JString JANUS_SLVOICE_PACKAGE) # ?x)) key" .
  qed
qed

lemma standing_keys:
  "map_of (rev (standing_report k t d room)) ''vis_row'' = Some (JNat (janus_slvoice_vis_row_locked k room d t))"
  "map_of (rev (standing_report k t d room)) ''vis_listener_generation'' =
     map_option (\<lambda>r. JNat (unat (vr_listener_gen r))) (Option.bind d (map_of (rm_vis_records room)))"
  "map_of (rev (standing_report k t d room)) ''vis_confirmed_age_ms'' =
     map_option (\<lambda>r. JInt ((t - vr_confirmed_us r) sdiv 1000)) (Option.bind d (map_of (rm_vis_records room)))"
  "map_of (rev (standing_report k t d room)) ''vis_stale'' =
     map_option (\<lambda>r. JBool (vr_stale r)) (Option.bind d (map_of (rm_vis_records room)))"
  by (simp_all add: standing_report_def split: option.split)

lemma standing_other:
  "key \<notin> {''vis_row'', ''vis_listener_generation'', ''vis_confirmed_age_ms'', ''vis_stale''} \<Longrightarrow>
     map_of (rev (standing_report k t d room)) key = None"
  by (simp add: standing_report_def split: option.split)

lemma room_report_keys:
  fixes m a s defines "room \<equiv> room_at m a"
  shows "map_of (rev (room_report k mt t2 t3 s a m)) ''mix_memberships'' = Some (JInt (mix_memberships s m room))"
    "map_of (rev (room_report k mt t2 t3 s a m)) ''mix_sources'' = Some (JNat (active_others s m room))"
    "map_of (rev (room_report k mt t2 t3 s a m)) ''room_participants'' = Some (JNat (length (rm_participants room)))"
    "map_of (rev (room_report k mt t2 t3 s a m)) ''room_capacity'' = Some (JNat (kn_room_size k))"
    "map_of (rev (room_report k mt t2 t3 s a m)) ''room'' = None"
    "\<And>key. key \<in> {''vis_row'', ''vis_listener_generation'', ''vis_confirmed_age_ms'', ''vis_stale''} \<Longrightarrow>
       map_of (rev (room_report k mt t2 t3 s a m)) key = map_of (rev (standing_report k t3 (se_display (session_of m s)) room)) key"
proof -
  have r: "map_of (rev (room_report k mt t2 t3 s a m)) key = map_of (rev (standing_report k t3 (se_display (session_of m s)) room) @
      rev (occupancy_report k s m room)) key" if "key \<noteq> ''tick_histogram''" "key \<noteq> ''visibility''" for key
    using that by (simp add: room_report_def Let_def room_def)
  show "map_of (rev (room_report k mt t2 t3 s a m)) ''mix_memberships'' = Some (JInt (mix_memberships s m room))"
    "map_of (rev (room_report k mt t2 t3 s a m)) ''mix_sources'' = Some (JNat (active_others s m room))"
    "map_of (rev (room_report k mt t2 t3 s a m)) ''room_participants'' = Some (JNat (length (rm_participants room)))"
    "map_of (rev (room_report k mt t2 t3 s a m)) ''room_capacity'' = Some (JNat (kn_room_size k))"
    "map_of (rev (room_report k mt t2 t3 s a m)) ''room'' = None"
    by (simp_all add: r map_add_def standing_other occupancy_report_def)
  show "map_of (rev (room_report k mt t2 t3 s a m)) key = map_of (rev (standing_report k t3 (se_display (session_of m s)) room)) key"
    if "key \<in> {''vis_row'', ''vis_listener_generation'', ''vis_confirmed_age_ms'', ''vis_stale''}" for key
    using that by (auto simp: r occupancy_report_def map_add_def split: option.split)
qed

lemma connection_room:
  assumes "query_room_of m s = Some a"
  shows "map_of (rev ((''plugin'', v) # connection_report m s @ media_report mt x @ control_report t x)) ''room'' =
     Some (JU64 (rm_room_id (room_at m a)))"
proof -
  have "map_of (rev (control_report t x)) ''room'' = None" "map_of (rev (media_report mt x)) ''room'' = None"
    by (simp_all add: control_report_def media_report_def)
  moreover have "map_of (rev (connection_report m s)) ''room'' = Some (JU64 (rm_room_id (room_at m a)))"
    using assms by (simp add: connection_report_def Let_def map_add_def split: option.split)
  ultimately show ?thesis by (simp add: map_add_def)
qed

lemma no_generation:
  "map_of (rev ((''plugin'', v) # connection_report m s @ media_report mt x @ control_report t x)) ''vis_listener_generation'' = None"
proof -
  have "map_of (rev (control_report t x)) ''vis_listener_generation'' = None" "map_of (rev (media_report mt x)) ''vis_listener_generation'' = None"
    by (simp_all add: control_report_def media_report_def)
  moreover have "map_of (rev (connection_report m s)) ''vis_listener_generation'' = None"
    by (simp add: connection_report_def Let_def map_add_def split: option.split)
  ultimately show ?thesis by (simp add: map_add_def)
qed

text \<open>The counts of a room: how many could be heard, in how many mixes the session is.\<close>

lemma occupancy_bounds:
  fixes m s defines "n \<equiv> \<lambda>room. length (rm_participants room)"
  shows "active_others s m room \<le> n room" "0 \<le> mix_memberships s m room" "mix_memberships s m room \<le> int (n room)"
    "s \<in> set (members room) \<Longrightarrow> active_others s m room < n room"
    "s \<in> set (members room) \<Longrightarrow> mix_memberships s m room = (if se_active (session_of m s) then int (n room) - 1 else 0)"
proof -
  have l: "length (members room) = n room" by (simp add: n_def)
  show "active_others s m room \<le> n room" unfolding active_others_def l [symmetric] by (rule length_filter_le)
  show "0 \<le> mix_memberships s m room" "mix_memberships s m room \<le> int (n room)"
    by (simp_all add: mix_memberships_def Let_def n_def)
  assume s: "s \<in> set (members room)"
  show "active_others s m room < n room"
    unfolding active_others_def l [symmetric] by (rule length_filter_less [OF s]) simp
  have "0 < n room" using s by (cases "rm_participants room") (auto simp: n_def)
  then show "mix_memberships s m room = (if se_active (session_of m s) then int (n room) - 1 else 0)"
    by (simp add: mix_memberships_def Let_def n_def)
qed

lemma sdiv_age: "0 \<le> x \<Longrightarrow> x \<le> int n * 1000 \<Longrightarrow> 0 \<le> x sdiv 1000 \<and> x sdiv 1000 \<le> int n"
  by (cases "x = 0") (auto simp: signed_divide_int_def)

text \<open>The row of a listener in a room whose records are in order.\<close>

lemma row_facts:
  fixes room d defines "rec \<equiv> Option.bind d (map_of (rm_vis_records room))"
  assumes inv: "auth_inv room" and last: "rm_vis_auth_last_us room \<le> t"
  shows "janus_slvoice_vis_row_locked k room d t = (case rec of None \<Rightarrow> 1
      | Some r \<Rightarrow> if vr_stale r \<or> int (kn_stale_ms k) * 1000 < t - vr_confirmed_us r then 3 else 4)"
    "rec = Some r \<Longrightarrow> vr_listener_gen r \<le> rm_vis_policy_gen room \<and> (vr_stale r \<or> 0 \<le> t - vr_confirmed_us r)"
proof -
  have ok: "vis_record_ok (rm_vis_auth_epoch room) (rm_vis_policy_gen room) (rm_vis_auth_last_us room) r"
    "rm_vis_auth_epoch room \<noteq> 0" if "rec = Some r" for r
    using inv that by (auto simp: rec_def auth_inv_def recs_all_def bind_eq_Some_conv dest: map_of_SomeD)
  show "janus_slvoice_vis_row_locked k room d t = (case rec of None \<Rightarrow> 1
      | Some r \<Rightarrow> if vr_stale r \<or> int (kn_stale_ms k) * 1000 < t - vr_confirmed_us r then 3 else 4)"
    using ok by (auto simp: rec_def janus_slvoice_vis_row_locked_def slv_vis_row_def janus_slvoice_vis_stale_us_def vis_record_ok_def
        split: option.split)
  show "rec = Some r \<Longrightarrow> vr_listener_gen r \<le> rm_vis_policy_gen room \<and> (vr_stale r \<or> 0 \<le> t - vr_confirmed_us r)"
    using ok(1) [of r] last by (auto simp: vis_record_ok_def)
qed

text \<open>A session's room is never one that is being destroyed.\<close>

lemma query_room:
  assumes "mixer_inv k m" shows "query_room_of m s = se_room (session_of m s)"
proof (cases "se_room (session_of m s)")
  case (Some a)
  from room_found(2) [OF assms Some] have "\<not> rm_destroyed (room_at m a)"
    by (auto simp: janus_slvoice_room_ref_by_id_def split: option.splits if_splits)
  with Some show ?thesis by (simp add: query_room_of_def)
qed (simp add: query_room_of_def)


definition meters_sample :: slv_meters where
  "meters_sample = \<lparr>qm_rtp_in_rate = 50, qm_rtp_out_rate = 50, qm_tick_hist = (\<lambda>i. 0), qm_tick_overruns = 0,
     qm_tick_last_ms = 0, qm_tick_max_ms = 0\<rparr>"


end
