(* ===== verification/Meters.thy ===== *)
theory Meters
  imports Query
begin

text \<open>
  The meters of the report and the pace of a room's tick thread: the packet rates the sender thread refreshes about once a
  second, the histogram of tick durations, and the schedule of \<^verbatim>\<open>janus_slvoice_room_ticker\<close>.
\<close>

subsection \<open>Packet rates\<close>

text \<open>What a session keeps for its rates: the counters at the last refresh and its time.\<close>

record slv_rates =
  rt_in_prev :: nat
  rt_out_prev :: nat
  rt_ts :: int

text \<open>The difference of two 64-bit counters, which wraps.\<close>

definition counter_diff :: "nat \<Rightarrow> nat \<Rightarrow> nat" where
  "counter_diff c p = unat (word_of_nat c - word_of_nat p :: u64)"

definition rate_refresh :: "int \<Rightarrow> janus_slvoice_session \<Rightarrow> slv_rates \<times> slv_meters \<Rightarrow> slv_rates \<times> slv_meters" where
  "rate_refresh now p = (\<lambda>(rt, mt).
     let rt = (if rt_ts rt = 0 then rt\<lparr>rt_ts := now\<rparr> else rt);
         dt = now - rt_ts rt
     in if dt \<ge> 1000000 then
          (let secs = real_of_int dt / 1000000;
               mt = mt\<lparr>qm_rtp_in_rate := real (counter_diff (se_rtp_in_count p) (rt_in_prev rt)) / secs,
                       qm_rtp_out_rate := real (counter_diff (se_rtp_out_count p) (rt_out_prev rt)) / secs\<rparr>
           in (\<lparr>rt_in_prev = se_rtp_in_count p, rt_out_prev = se_rtp_out_count p, rt_ts = now\<rparr>, mt))
        else (rt, mt))"

lemma counter_diff_up: "p \<le> c \<Longrightarrow> c < 2 ^ 64 \<Longrightarrow> counter_diff c p = c - p"
  by (simp add: counter_diff_def unat_sub_if' unsigned_of_nat take_bit_nat_eq_self)

lemma counter_diff_down:
  assumes "c < p" "p < 2 ^ 64"
  shows "counter_diff c p = 2 ^ 64 - (p - c)"
  using assms by (simp add: counter_diff_def unat_sub_if' unsigned_of_nat take_bit_nat_eq_self)

text \<open>
  C29 The packet rate of the report is the number of packets per second since the last refresh, as long as the counter only
  grows; but joining again zeroes the counter of sent packets and not its copy, so the next refresh reports some 2^64
  packets per second: the rate is right exactly when the session has sent at least as many packets in its new room as it
  had when the rate was last refreshed.
\<close>

theorem rate_wraps_on_rejoin:
  assumes "\<not> se_media_ready x" "ma_dec_ok (ja_media ja)" "ma_enc_ok (ja_media ja)"
    and "y = (join_session t a ja x)\<lparr>se_rtp_out_count := se_rtp_out_count (join_session t a ja x) + sent\<rparr>"
    and "rt_ts rt \<noteq> 0" "rt_ts rt + 1000000 \<le> now" "rt_out_prev rt < 2 ^ 64" "sent < 2 ^ 64"
    and "secs = real_of_int (now - rt_ts rt) / 1000000"
  shows "(''rtp_out_rate'', JReal ((if rt_out_prev rt \<le> sent then real (sent - rt_out_prev rt) else 2 ^ 64 - real (rt_out_prev rt - sent)) / secs))
      \<in> set (media_report (snd (rate_refresh now y (rt, mt))) y) \<and>
    rt_out_prev (fst (rate_refresh now y (rt, mt))) = sent"
proof -
  have "se_rtp_out_count (join_session t a ja x) = 0"
    using assms(1-3) by (simp add: join_session_def media_alloc_with_def janus_slvoice_media_alloc_locked_def)
  then have sent: "se_rtp_out_count y = sent" using assms(4) by simp
  have "real (counter_diff sent (rt_out_prev rt)) =
      (if rt_out_prev rt \<le> sent then real (sent - rt_out_prev rt) else 2 ^ 64 - real (rt_out_prev rt - sent))"
    using counter_diff_up [of "rt_out_prev rt" sent] counter_diff_down [of sent "rt_out_prev rt"] assms(7,8)
    by (auto simp: of_nat_diff)
  then show ?thesis
    using assms(5,6) by (simp add: rate_refresh_def Let_def media_report_def sent assms(9))
qed

text \<open>A session that sent 900 packets in one room joins another and sends 100 in the next two seconds.\<close>

theorem rate_wraps_on_rejoin_witness:
  "\<exists>y. se_rtp_out_count y = 100 \<and> (''rtp_out_rate'', JReal ((2 ^ 64 - 800) / 2)) \<in> set (media_report (snd (rate_refresh 2000001 y
      (\<lparr>rt_in_prev = 0, rt_out_prev = 900, rt_ts = 1\<rparr>, meters_sample))) y)"
proof -
  let ?ja = "\<lparr>ja_user_id = 5, ja_display = None, ja_recorder = False,
      ja_media = \<lparr>ma_dec_ok = True, ma_enc_ok = True, ma_seq = 1, ma_ts = 2, ma_ssrc = 3\<rparr>\<rparr>"
  let ?x = "join_session 1 0 ?ja janus_slvoice_session_zero"
  let ?y = "?x\<lparr>se_rtp_out_count := se_rtp_out_count ?x + 100\<rparr>"
  have "se_rtp_out_count ?x = 0" "\<not> se_media_ready janus_slvoice_session_zero"
    by (simp_all add: join_session_def media_alloc_with_def janus_slvoice_media_alloc_locked_def janus_slvoice_session_zero_def)
  then show ?thesis
    using rate_wraps_on_rejoin [of janus_slvoice_session_zero ?ja ?y 1 0 100 "\<lparr>rt_in_prev = 0, rt_out_prev = 900, rt_ts = 1\<rparr>" 2000001 _ meters_sample,
        OF _ _ _ refl _ _ _ _ refl]
    by (intro exI [of _ ?y]) simp
qed

subsection \<open>How long a tick took\<close>

definition SLV_TICK_WARN_MS :: real where "SLV_TICK_WARN_MS = 15"

definition tick_bucket :: "real \<Rightarrow> nat" where
  "tick_bucket ms = (if ms < 5 then 0 else if ms < 10 then 1 else if ms < 15 then 2 else if ms < 20 then 3 else 4)"

definition tick_timed :: "int \<Rightarrow> int \<Rightarrow> slv_meters \<Rightarrow> slv_meters" where
  "tick_timed t0 now mt =
     (let ms = real_of_int (now - t0) / 1000;
          b = tick_bucket ms
      in mt\<lparr>qm_tick_last_ms := ms,
            qm_tick_max_ms := (if ms > qm_tick_max_ms mt then ms else qm_tick_max_ms mt),
            qm_tick_hist := (qm_tick_hist mt)(b := qm_tick_hist mt b + 1),
            qm_tick_overruns := (if ms > SLV_TICK_WARN_MS then qm_tick_overruns mt + 1 else qm_tick_overruns mt)\<rparr>)"

text \<open>After any number of ticks, each with the times it started and was done, every tick is in one bucket.\<close>

lemma ticks_counted:
  fixes mt ts
  defines "mt' \<equiv> fold (\<lambda>(t0, now). tick_timed t0 now) ts mt"
  shows "(\<Sum>b<5. qm_tick_hist mt' b) = (\<Sum>b<5. qm_tick_hist mt b) + length ts"
    and "qm_tick_overruns mt' = qm_tick_overruns mt + length (filter (\<lambda>(t0, now). 15000 < now - t0) ts)"
    and "(t0, now) \<in> set ts \<Longrightarrow> real_of_int (now - t0) / 1000 \<le> qm_tick_max_ms mt'"
proof -
  have bucket: "tick_bucket ms < 5" for ms by (simp add: tick_bucket_def)
  have sum: "sum (h(i := Suc (h i))) {..<5::nat} = Suc (sum h {..<5})" if "i < 5" for h and i :: nat
    using that by (auto simp: eval_nat_numeral lessThan_Suc less_Suc_eq)
  show "(\<Sum>b<5. qm_tick_hist mt' b) = (\<Sum>b<5. qm_tick_hist mt b) + length ts"
    unfolding mt'_def by (induction ts arbitrary: mt) (auto simp: tick_timed_def Let_def sum [OF bucket] simp del: fun_upd_apply)
  show "qm_tick_overruns mt' = qm_tick_overruns mt + length (filter (\<lambda>(t0, now). 15000 < now - t0) ts)"
    unfolding mt'_def by (induction ts arbitrary: mt) (auto simp: tick_timed_def Let_def SLV_TICK_WARN_MS_def)
  have grows: "qm_tick_max_ms m \<le> qm_tick_max_ms (fold (\<lambda>(t0, now). tick_timed t0 now) xs m)" for xs m
  proof (induction xs arbitrary: m)
    case (Cons x xs)
    have "qm_tick_max_ms m \<le> qm_tick_max_ms (tick_timed (fst x) (snd x) m)" by (simp add: tick_timed_def Let_def)
    then show ?case using Cons.IH [of "tick_timed (fst x) (snd x) m"] by (simp add: split_beta)
  qed simp
  show "(t0, now) \<in> set ts \<Longrightarrow> real_of_int (now - t0) / 1000 \<le> qm_tick_max_ms mt'"
    unfolding mt'_def
  proof (induction ts arbitrary: mt)
    case (Cons x xs)
    have "real_of_int (now - t0) / 1000 \<le> qm_tick_max_ms (tick_timed t0 now mt)" by (simp add: tick_timed_def Let_def)
    then show ?case using Cons grows [of "tick_timed t0 now mt" xs] by fastforce
  qed simp
qed

subsection \<open>The schedule of the tick thread\<close>

text \<open>After a tick: the time the next one is due, and how long to sleep.\<close>

definition ticker_step :: "int \<Rightarrow> int \<Rightarrow> int \<times> int" where
  "ticker_step due now =
     (let due = due + int SLV_TICK_MS * 1000 in if due > now then (due, due - now) else (now, 0))"

text \<open>
  The times at which a thread starts its ticks, from the time the first is due and that at which it starts; each tick
  takes \<open>d\<close> microseconds, and the thread wakes \<open>late\<close> microseconds after it wanted to.
\<close>

fun janus_slvoice_room_ticker :: "int \<Rightarrow> int \<Rightarrow> (int \<times> int) list \<Rightarrow> int list" where
  "janus_slvoice_room_ticker due t [] = [t]"
| "janus_slvoice_room_ticker due t ((d, late) # ts) =
     t # (case ticker_step due (t + d) of (due, sleep) \<Rightarrow> janus_slvoice_room_ticker due (t + d + sleep + late) ts)"


text \<open>A tick is due one period after the last was, or when that one was done if it took longer; the thread starts it then, or
  as late as it wakes.\<close>

lemma ticker_due:
  assumes "n < length turns" "starts = janus_slvoice_room_ticker due (due + l) turns" "lates = l # map snd turns"
  shows "length starts = length lates" "starts ! 0 = due + l"
    "starts ! Suc n - lates ! Suc n = max (starts ! n - lates ! n + 20000) (starts ! n + fst (turns ! n))"
proof -
  have cons: "janus_slvoice_room_ticker due (due + l) ((d, late) # ts) =
      (due + l) # janus_slvoice_room_ticker (max (due + 20000) (due + l + d)) (max (due + 20000) (due + l + d) + late) ts"
    for due l d late ts
    by (auto simp: ticker_step_def Let_def SLV_TICK_MS_def max_def add.commute)
  have "length (janus_slvoice_room_ticker due t ts) = Suc (length ts)" for due t and ts :: "(int \<times> int) list"
    by (induction due t ts rule: janus_slvoice_room_ticker.induct) (auto split: prod.split)
  then show "length starts = length lates" using assms(2,3) by simp
  have zero: "janus_slvoice_room_ticker due t ts ! 0 = t" for due t ts
    by (cases "(due, t, ts)" rule: janus_slvoice_room_ticker.cases) auto
  then show "starts ! 0 = due + l" using assms(2) by simp
  show "starts ! Suc n - lates ! Suc n = max (starts ! n - lates ! n + 20000) (starts ! n + fst (turns ! n))"
    using assms
  proof (induction turns arbitrary: n due l starts lates)
    case (Cons dl ts)
    obtain d late where dl: "dl = (d, late)" by fastforce
    show ?case
    proof (cases n)
      case 0
      then show ?thesis using Cons.prems zero unfolding dl cons by simp
    next
      case (Suc i)
      with Cons.prems have "i < length ts" by simp
      from Cons.IH [OF this refl refl, of "max (due + 20000) (due + l + d)" late] show ?thesis
        using Cons.prems Suc unfolding dl cons by simp
    qed
  qed simp
qed


text \<open>
  C35 The tick thread keeps the pace of one tick per 20 ms without drift and without bursts. Take away how late the operating
  system woke the thread, and two of its ticks, however long they and those between them took, are never closer than as many
  periods as lie between them, so ticks that were missed are not made up for; a thread whose ticks are each done by the
  time the next is due starts tick \<open>j\<close> exactly \<open>j\<close> periods after the first; and after a tick that took longer the next
  one starts at once.
\<close>

theorem tick_pacing:
  assumes "starts = janus_slvoice_room_ticker t t turns" "lates = 0 # map snd turns" "i \<le> j" "j < length turns"
  shows "starts ! i - lates ! i + 20000 * int (j - i) \<le> starts ! j - lates ! j \<and>
    ((\<forall>n<j. lates ! n + fst (turns ! n) \<le> 20000) \<longrightarrow> starts ! j = t + 20000 * int j + lates ! j) \<and>
    (20000 < lates ! j + fst (turns ! j) \<longrightarrow> starts ! Suc j = starts ! j + fst (turns ! j) + lates ! Suc j)"
proof (intro conjI impI)
  note D = ticker_due [where due = t and l = 0, simplified, OF _ assms(1,2)]
  show "starts ! i - lates ! i + 20000 * int (j - i) \<le> starts ! j - lates ! j"
    using assms(3,4)
  proof (induction j rule: dec_induct)
    case (step n)
    then show ?case using D(3) [of n] by (simp add: Suc_diff_le)
  qed simp
  show "starts ! j = t + 20000 * int j + lates ! j" if "\<forall>n<j. lates ! n + fst (turns ! n) \<le> 20000"
    using that assms(4)
  proof (induction j)
    case 0
    have "starts ! 0 = t" unfolding assms(1) by (cases turns) auto
    then show ?case by (simp add: assms(2))
  next
    case (Suc n)
    have "starts ! n = t + 20000 * int n + lates ! n" using Suc.prems by (intro Suc.IH) simp_all
    moreover have "lates ! n + fst (turns ! n) \<le> 20000" using Suc.prems(1) by simp
    ultimately show ?case using D(3) [of n] Suc.prems(2) by simp
  qed
  show "starts ! Suc j = starts ! j + fst (turns ! j) + lates ! Suc j" if "20000 < lates ! j + fst (turns ! j)"
    using D(3) [OF assms(4)] that by simp
qed

text \<open>Three ticks on time, the third of which takes 31 ms.\<close>

theorem tick_pacing_witness:
  "let starts = janus_slvoice_room_ticker 7 7 [(4000, 50), (5000, 0), (31000, 0)] in
     starts ! 0 + 40000 \<le> starts ! 2 \<and> starts ! 2 = 7 + 40000 \<and> starts ! 3 = starts ! 2 + 31000"
  using tick_pacing [of _ 7 "[(4000, 50), (5000, 0), (31000, 0)]" _ 0 2, OF refl refl]
  by (simp add: Let_def numeral_2_eq_2 numeral_3_eq_3 less_Suc_eq all_conj_distrib)

end
