(* ===== verification/Plugin.thy ===== *)
theory Plugin
  imports Standing
begin

text \<open>
  The plugin around the process: loading it, which starts two threads beside those of the rooms and undoes everything when
  one does not start, and unloading it. The theorems say that no thread is left behind.
\<close>

subsection \<open>Loading and unloading\<close>

text \<open>
  The globals: the two flags, the callbacks of Janus, the tables with the queue, the two threads, and the settings and the
  process. What follows the flags is NULL in an unloaded plugin.
\<close>

record slv_plugin =
  pg_stopping :: bool
  pg_initialized :: bool
  pg_gateway :: bool
  pg_tables :: bool
  pg_handler :: bool
  pg_sender :: bool
  pg_knobs :: slv_knobs
  pg_mixer :: slv_mixer

definition plugin_teardown :: "slv_plugin \<Rightarrow> slv_plugin" where
  "plugin_teardown p =
     (let p = p\<lparr>pg_stopping := True\<rparr>;
          p = p\<lparr>pg_handler := False, pg_sender := False\<rparr>;
          p = p\<lparr>pg_tables := False, pg_mixer := janus_slvoice_teardown (pg_mixer p)\<rparr>
      in p\<lparr>pg_gateway := False, pg_initialized := False, pg_stopping := False\<rparr>)"

text \<open>\<open>args_ok\<close>: are there callbacks and a path; \<open>handler_ok\<close> and \<open>sender_ok\<close>: does the thread start.\<close>

definition plugin_init ::
  "bool \<Rightarrow> bool \<Rightarrow> bool \<Rightarrow> (nat \<Rightarrow> bool) \<Rightarrow> int \<Rightarrow> u64 \<Rightarrow> slv_env \<Rightarrow> slv_config \<Rightarrow> slv_plugin \<Rightarrow> slv_plugin \<times> int"
where
  "plugin_init args_ok handler_ok sender_ok ok now random env cfg p =
     (if pg_stopping p then (p, -1)
      else if \<not> args_ok then (p, -1)
      else
        (let (k, m) = janus_slvoice_init ok now random env cfg;
             p = p\<lparr>pg_tables := True, pg_knobs := k, pg_mixer := m\<rparr>;
             p = p\<lparr>pg_gateway := True, pg_initialized := True\<rparr>
         in if \<not> handler_ok then (plugin_teardown p, -1)
            else
              (let p = p\<lparr>pg_handler := True\<rparr>
               in if \<not> sender_ok then (plugin_teardown p, -1)
                  else (p\<lparr>pg_sender := True\<rparr>, 0))))"

definition janus_slvoice_destroy :: "slv_plugin \<Rightarrow> slv_plugin" where
  "janus_slvoice_destroy p = (if \<not> pg_initialized p then p else plugin_teardown p)"

subsection \<open>Nothing is left behind\<close>

definition at_rest :: "slv_plugin \<Rightarrow> bool" where
  "at_rest p \<longleftrightarrow> \<not> pg_stopping p \<and> \<not> pg_initialized p \<and> \<not> pg_gateway p \<and> \<not> pg_tables p \<and> \<not> pg_handler p \<and> \<not> pg_sender p \<and>
     mx_live (pg_mixer p) = [] \<and> mx_rooms (pg_mixer p) = [] \<and> (\<forall>a. \<not> rm_tick_running (room_at (pg_mixer p) a))"

lemma ticking_listed: "mixer_inv k m \<Longrightarrow> rm_tick_running (room_at m a) \<longleftrightarrow> a \<in> snd ` set (mx_rooms m)"
  by (simp add: mixer_inv_def marked_inv_def rooms_ok_def)

lemma stop_rooms:
  fixes as m
  defines "n \<equiv> fold (\<lambda>a. upd_room a (\<lambda>r. janus_slvoice_room_stop (r\<lparr>rm_destroyed := True\<rparr>))) as m"
  shows "rm_tick_running (room_at n b) \<longleftrightarrow> rm_tick_running (room_at m b) \<and> b \<notin> set as" "mx_live n = mx_live m"
  unfolding n_def by (induction as arbitrary: m) (auto simp: upd_room_def janus_slvoice_room_stop_def)

lemma teardown_rest:
  assumes "mixer_inv k (pg_mixer p)"
  shows "at_rest (plugin_teardown p)"
  using ticking_listed [OF assms] stop_rooms [of "map snd (mx_rooms (pg_mixer p))" "pg_mixer p\<lparr>mx_live := []\<rparr>"]
  by (simp add: at_rest_def plugin_teardown_def janus_slvoice_teardown_def Let_def)

text \<open>
  C16 Loading is all or nothing: an unloaded plugin is either loaded, with both threads running and the process in a state its
  runs start from, or refused and as unloaded as before: no thread of its own, no tick thread of a static room that had
  been started, no table, no callbacks, and unloading it again does nothing.
\<close>

theorem init_all_or_nothing:
  assumes "plugin_init args_ok handler_ok sender_ok ok now random env cfg p = (q, status)" "at_rest p" "0 < now"
  shows "if status = 0 then args_ok \<and> handler_ok \<and> sender_ok \<and> pg_initialized q \<and> pg_gateway q \<and> pg_handler q \<and> pg_sender q \<and>
      slv_reach w now ([] :: ('sdp, 'ml) slv_op list) (pg_knobs q) \<lparr>sp_mixer = pg_mixer q, sp_error_reason = None, sp_sweep_ticks = 0\<rparr>
    else status = -1 \<and> at_rest q \<and> janus_slvoice_destroy q = q"
proof -
  obtain k m where i: "janus_slvoice_init ok now random env cfg = (k, m)" by fastforce
  have "mixer_inv k m" using init_inv [OF _ i] assms(3) by simp
  then have rest: "at_rest (plugin_teardown x)" if "pg_mixer x = m" for x using teardown_rest that by blast
  have start: "slv_reach w now ([] :: ('sdp, 'ml) slv_op list) k \<lparr>sp_mixer = m, sp_error_reason = None, sp_sweep_ticks = 0\<rparr>"
    by (rule slv_reach.start [OF assms(3) i])
  have idle: "janus_slvoice_destroy x = x" if "at_rest x" for x using that by (simp add: janus_slvoice_destroy_def at_rest_def)
  have "status = 0 \<or> status = -1 \<and> at_rest q"
    using assms(1,2) rest by (auto simp: plugin_init_def i Let_def split: if_splits)
  moreover have "args_ok \<and> handler_ok \<and> sender_ok \<and> pg_initialized q \<and> pg_gateway q \<and> pg_handler q \<and> pg_sender q \<and>
      pg_knobs q = k \<and> pg_mixer q = m" if "status = 0"
    using assms(1) that by (auto simp: plugin_init_def i Let_def split: if_splits)
  ultimately show ?thesis using start idle by auto
qed

text \<open>An unloaded plugin; and one whose sender thread does not start.\<close>

definition plugin_sample :: slv_plugin where
  "plugin_sample = \<lparr>pg_stopping = False, pg_initialized = False, pg_gateway = False, pg_tables = False, pg_handler = False,
     pg_sender = False, pg_knobs = auth_knobs_sample, pg_mixer = slv_mixer_init\<rparr>"

lemma plugin_sample_rest: "at_rest plugin_sample"
  by (simp add: at_rest_def plugin_sample_def slv_mixer_init_def janus_slvoice_room_zero_def)

theorem init_all_or_nothing_witness:
  "\<forall>env cfg. \<exists>q. plugin_init True True False (\<lambda>_. True) 1 0 env cfg plugin_sample = (q, -1) \<and> at_rest q"
proof (intro allI)
  fix env cfg
  obtain q status where q: "plugin_init True True False (\<lambda>_. True) 1 0 env cfg plugin_sample = (q, status)" by fastforce
  have "if status = 0 then False else status = -1 \<and> at_rest q"
    using init_all_or_nothing [where w = world_sample, OF q plugin_sample_rest] by (simp split: if_splits)
  then show "\<exists>q. plugin_init True True False (\<lambda>_. True) 1 0 env cfg plugin_sample = (q, -1) \<and> at_rest q"
    using q by (auto split: if_splits)
qed

text \<open>
  C15 No thread outlives what it works for: in every state a run reaches, the rooms whose tick thread runs are exactly those of
  the table, whatever was created, swept, destroyed and refused before; so unloading the plugin, which stops the threads of
  the rooms in the table, leaves none running and everything as before it was loaded.
\<close>

theorem no_thread_left:
  assumes "slv_reach w t ops k \<lparr>sp_mixer = pg_mixer p, sp_error_reason = reason, sp_sweep_ticks = ticks\<rparr>" "pg_initialized p"
  shows "(\<forall>a. rm_tick_running (room_at (pg_mixer p) a) \<longleftrightarrow> a \<in> snd ` set (mx_rooms (pg_mixer p))) \<and>
    at_rest (janus_slvoice_destroy p)"
proof -
  have "mixer_inv k (pg_mixer p)" using reach_inv [OF assms(1)] by simp
  then show ?thesis using ticking_listed teardown_rest assms(2) by (simp add: janus_slvoice_destroy_def)
qed

theorem no_thread_left_witness:
  "\<exists>m. rm_tick_running (room_at m 0) \<and> at_rest (janus_slvoice_destroy (plugin_sample\<lparr>pg_initialized := True, pg_mixer := m\<rparr>))"
proof -
  obtain p where p: "slv_reach world_sample 3 run_sample (fst start_sample) p" "se_room (session_of (sp_mixer p) 3) = Some 0"
    using run_sample_reach by blast
  let ?p = "plugin_sample\<lparr>pg_initialized := True, pg_mixer := sp_mixer p\<rparr>"
  have "slv_reach world_sample 3 run_sample (fst start_sample)
      \<lparr>sp_mixer = pg_mixer ?p, sp_error_reason = sp_error_reason p, sp_sweep_ticks = sp_sweep_ticks p\<rparr>"
    using p(1) by (cases p) simp
  from no_thread_left [OF this] have N: "rm_tick_running (room_at (sp_mixer p) 0) \<longleftrightarrow> 0 \<in> snd ` set (mx_rooms (sp_mixer p))"
    "at_rest (janus_slvoice_destroy ?p)" by simp_all
  have "seats_ok (sp_mixer p)" "rooms_ok {} (sp_mixer p)" using reach_inv [OF p(1)] by (simp_all add: mixer_inv_def marked_inv_def)
  moreover from this(1) have "rm_participants (room_at (sp_mixer p) 0) \<noteq> []" using member_iff [of "sp_mixer p" 3 0] p(2) by auto
  ultimately have "0 \<in> snd ` set (mx_rooms (sp_mixer p))" unfolding rooms_ok_def by blast
  with N show ?thesis by blast
qed

end
