(* ===== verification/Obedience.thy ===== *)
theory Obedience
  imports Standing
begin

text \<open>
  From the records to the ears: in an enforced room the columns of a session are exactly those of its display's record, in
  every state a run reaches (\<open>obeyed\<close>). An operation other than a batch or a join is \<open>quiet\<close>, which the locale \<open>quiet_step\<close>
  extends to the loops; a batch moves the record and the columns of the sessions it is for together, and a join takes the
  columns from the record. With \<^verbatim>\<open>Standing\<close> this says that what the simulator published is obeyed by every session it
  is about, whenever that session joined.
\<close>

subsection \<open>Operations that change no session's columns\<close>

text \<open>What of a session decides what it is not to hear. An operation is quiet when it changes that of no session it
  leaves in a room.\<close>

definition ears :: "janus_slvoice_session \<Rightarrow> nat option \<times> string option \<times> string list \<times> string list" where
  "ears x = (se_room x, se_display x, se_excluded x, se_mod_muted x)"

definition quiet :: "slv_mixer \<Rightarrow> slv_mixer \<Rightarrow> bool" where
  "quiet m m' \<longleftrightarrow> (\<forall>s. ears (session_of m' s) = ears (session_of m s) \<or> se_room (session_of m' s) = None)"

lemma ears_sel:
  assumes "ears x = ears y"
  shows "se_room x = se_room y" "se_display x = se_display y" "se_excluded x = se_excluded y" "se_mod_muted x = se_mod_muted y"
  using assms by (simp_all add: ears_def)

lemma quiet_refl [simp]: "quiet m m"
  by (simp add: quiet_def)

lemma quietD: "quiet m m' \<Longrightarrow> ears (session_of m' s) = ears (session_of m s) \<or> se_room (session_of m' s) = None"
  by (simp only: quiet_def)

text \<open>The same of one session, before and after.\<close>

definition hush :: "janus_slvoice_session \<Rightarrow> janus_slvoice_session \<Rightarrow> bool" where
  "hush x y \<longleftrightarrow> ears y = ears x \<or> se_room y = None"

lemma hush_out: "hush x y \<Longrightarrow> se_room x = None \<Longrightarrow> se_room y = None"
  by (auto simp: hush_def ears_def)

lemma hush_trans: "hush x y \<Longrightarrow> hush y z \<Longrightarrow> hush x z"
  by (auto simp: hush_def ears_def)

lemma quiet_hush: "quiet m m' \<longleftrightarrow> (\<forall>s. hush (session_of m s) (session_of m' s))"
  by (simp only: quiet_def hush_def)

lemma quiet_room: "quiet m m' \<Longrightarrow> se_room (session_of m s) = None \<Longrightarrow> se_room (session_of m' s) = None"
  unfolding quiet_hush by (rule hush_out) (erule spec)

lemma quiet_trans [trans]: "quiet m m' \<Longrightarrow> quiet m' m'' \<Longrightarrow> quiet m m''"
  unfolding quiet_hush by (blast intro: hush_trans)

lemma quiet_sessions: "mx_sessions m' = mx_sessions m \<Longrightarrow> quiet m m'"
  by (simp add: quiet_def)

lemma quiet_upd_room [simp]: "quiet m (upd_room a f m)"
  by (rule quiet_sessions) simp

lemma quiet_upd_session:
  "ears (f (session_of m s)) = ears (session_of m s) \<or> se_room (f (session_of m s)) = None \<Longrightarrow> quiet m (upd_session s f m)"
  by (simp add: quiet_def upd_session_def)

lemma quiet_relayed:
  assumes "relayed m m'" shows "quiet m m'"
proof -
  have core: "ears x = ears y" if "sess_core x = sess_core y" for x y
    using arg_cong [OF that, of ears] by (simp add: sess_core_def ears_def)
  have "sess_core (session_of m' s) = sess_core (session_of m s)" for s using assms by (simp add: relayed_def)
  with core have "ears (session_of m' s) = ears (session_of m s)" for s by blast
  then show ?thesis by (simp add: quiet_def)
qed

locale quiet_step =
  fixes step :: "'a \<Rightarrow> slv_mixer \<Rightarrow> slv_mixer"
  assumes quiet: "quiet m (step x m)"
begin

lemma fold_quiet: "quiet m (fold step xs m)"
  by (induction xs arbitrary: m) (auto intro: quiet quiet_trans)

end

lemma quiet_fold_fst:
  assumes "\<And>x st. quiet (fst st) (fst (f x st))"
  shows "quiet (fst st) (fst (fold f xs st))"
proof (induction xs arbitrary: st)
  case (Cons x xs)
  show ?case using quiet_trans [OF assms Cons.IH [of "f x st"]] by simp
qed simp

subsection \<open>Sessions and rooms\<close>

lemma quiet_push_presence: "quiet m (janus_slvoice_push_presence dumps k now a who join m)"
proof -
  have "quiet n (fold (presence_to dumps k now a who join) ps n)" for ps n
    by (intro quiet_relayed relay_loop presence_to_step)
  then show ?thesis
    unfolding janus_slvoice_push_presence_def Let_def by (rule quiet_trans [rotated]) (cases join; simp)
qed

lemma quiet_leave: "quiet m (janus_slvoice_leave_room dumps k now s m)"
proof (cases "se_room (session_of m s)")
  case (Some a)
  let ?m = "\<lambda>n. upd_session s janus_slvoice_reset_room_state_locked (upd_room a (leave_remove now (se_user_id (session_of m s)))
      (upd_session s (\<lambda>x. x\<lparr>se_backlog_confirmed := False\<rparr>) n))"
  have 1: "quiet m (upd_session s (\<lambda>x. x\<lparr>se_room := None\<rparr>) m)" by (rule quiet_upd_session) simp
  have 2: "quiet n (?m n)" if "se_room (session_of n s) = None" for n
    using that by (auto simp: quiet_def upd_session_def upd_room_def janus_slvoice_reset_room_state_locked_def)
  have 3: "quiet (upd_session s (\<lambda>x. x\<lparr>se_room := None\<rparr>) m) n \<Longrightarrow> se_room (session_of n s) = None" for n
    by (drule quiet_room [where s = s]) (simp_all add: upd_session_def)
  note 4 = quiet_push_presence [of "upd_session s (\<lambda>x. x\<lparr>se_room := None\<rparr>) m" dumps k now a _ False]
  show ?thesis
    using quiet_trans [OF 1 2 [OF 3]] quiet_trans [OF quiet_trans [OF 1 4] 2 [OF 3 [OF 4]]]
    by (auto simp: janus_slvoice_leave_room_def Some Let_def split: option.split)
qed (simp add: janus_slvoice_leave_room_def)

lemma ears_media_free [simp]: "ears (janus_slvoice_media_free_locked x) = ears x"
  by (simp add: janus_slvoice_media_free_locked_def ears_def)

lemma ears_echo_stop [simp]: "ears (janus_slvoice_echo_stop_locked x) = ears x"
  by (simp add: janus_slvoice_echo_stop_locked_def ears_def)

lemma ears_echo_start [simp]: "ears (echo_start_with ma x) = ears x"
proof -
  have "ears (fst (media_alloc_with ma y)) = ears y" for y
    using media_alloc_sel [of ma y] by (simp add: ears_def seat_def luggage_def)
  moreover have "ears (y\<lparr>se_ring := r, se_ring_wpos := n, se_echo_active := b\<rparr>) = ears y" for y r n b by (simp add: ears_def)
  ultimately show ?thesis
    unfolding echo_start_with_def janus_slvoice_echo_start_locked_def
    by (simp add: media_alloc_with_def [symmetric] Let_def split_beta)
qed

lemma quiet_media_gone: "quiet m (janus_slvoice_media_gone dumps k now s m)"
proof -
  have 1: "quiet m (upd_session s (\<lambda>x. x\<lparr>se_webrtc_up := False, se_dc_open := False, se_backlog_confirmed := False\<rparr>) m)"
    by (rule quiet_upd_session) (simp add: ears_def)
  have 2: "quiet n (upd_session s media_gone_session n)" for n
  proof -
    have "ears (media_gone_session x) = ears (janus_slvoice_media_free_locked (janus_slvoice_echo_stop_locked x))" for x
      by (simp add: media_gone_session_def Let_def ears_def)
    then show ?thesis by (intro quiet_upd_session) simp
  qed
  show ?thesis unfolding janus_slvoice_media_gone_def Let_def by (rule quiet_trans [OF quiet_trans [OF 1 quiet_leave] 2])
qed

interpretation qs_reap: quiet_step "janus_slvoice_reap_no_media dumps k now a" for dumps k now a
proof unfold_locales
  fix m and p :: "nat \<times> int"
  have "quiet m (upd_session s (\<lambda>x. x\<lparr>se_join_ts := 0\<rparr>) m)" for s by (rule quiet_upd_session) (simp add: ears_def)
  then show "quiet m (janus_slvoice_reap_no_media dumps k now a p m)"
    by (auto simp: janus_slvoice_reap_no_media_def Let_def intro: quiet_trans quiet_media_gone split: prod.split)
qed

lemma quiet_live: "quiet m (m\<lparr>mx_live := ls\<rparr>)" "quiet m (m\<lparr>mx_rooms := rs\<rparr>)" "quiet m (m\<lparr>mx_joincap := js\<rparr>)"
  "quiet m (m\<lparr>mx_join_cap_enforced := n\<rparr>)" "quiet m (m\<lparr>mx_outbox := out\<rparr>)"
  by (rule quiet_sessions; simp)+

lemma quiet_destroy_session: "quiet m (janus_slvoice_destroy_session dumps k now s m)"
proof -
  have 1: "quiet n (upd_session s janus_slvoice_media_free_locked n)" "quiet n (upd_session s (\<lambda>x. x\<lparr>se_destroyed := True\<rparr>) n)" for n
    by (rule quiet_upd_session, simp) (rule quiet_upd_session, simp add: ears_def)
  show ?thesis unfolding janus_slvoice_destroy_session_def Let_def
    by (rule quiet_trans [OF quiet_trans [OF quiet_trans [OF quiet_leave 1(1)] quiet_live(1)] 1(2)])
qed

lemma quiet_create_session: "quiet m (janus_slvoice_create_session now s m)"
  unfolding janus_slvoice_create_session_def Let_def
  by (rule quiet_trans [OF quiet_upd_session quiet_live(1)]) (simp add: janus_slvoice_session_zero_def)

subsection \<open>The media and the data channel\<close>

lemma ears_setup_media: "ears (janus_slvoice_setup_media k ma x) = ears x"
proof -
  have "ears (x\<lparr>se_webrtc_up := True, se_media_seen := True\<rparr>) = ears x" by (simp add: ears_def)
  then show ?thesis by (simp add: janus_slvoice_setup_media_def Let_def)
qed

lemma ears_incoming_rtp: "ears (janus_slvoice_incoming_rtp now seq payload x) = ears x"
  by (simp add: janus_slvoice_incoming_rtp_def janus_slvoice_jb_insert_def ears_def Let_def)

lemma ears_data_store: "ears (data_store st d x) = ears x"
  by (auto simp: data_store_def janus_slvoice_apply_peer_ctl_locked_def ears_def Let_def split_beta)

lemma quiet_data_backlog: "quiet m (data_backlog dumps k now s m)"
proof -
  have 1: "quiet n (upd_session s (\<lambda>x. x\<lparr>se_backlog_confirmed := True\<rparr>) n)"
    "quiet n (upd_session s (\<lambda>x. x\<lparr>se_backlog_resent := f x\<rparr>) n)" for n f
    by (rule quiet_upd_session, simp add: ears_def)+
  show ?thesis unfolding data_backlog_def Let_def
    by (auto split: option.split intro: 1 quiet_trans [OF 1(1)] quiet_trans [OF quiet_relayed [OF backlog_relayed] 1(2)])
qed

lemma quiet_incoming_data: "quiet m (janus_slvoice_incoming_data loadb dumps k ma now s buf m)"
proof -
  have 1: "quiet n (upd_session s (data_store st d) n)" "quiet n (upd_session s (echo_start_with ma) n)"
    "quiet n (upd_session s janus_slvoice_echo_stop_locked n)" for n st d
    by (rule quiet_upd_session, simp add: ears_data_store)+
  show ?thesis unfolding janus_slvoice_incoming_data_def Let_def
    by (auto split: prod.split intro: 1 quiet_trans [OF 1(1)] quiet_trans [OF quiet_data_backlog 1(2)]
        quiet_trans [OF quiet_data_backlog 1(3)] quiet_data_backlog)
qed

lemma quiet_data_ready: "quiet m (janus_slvoice_data_ready dumps k now s m)"
proof -
  have 1: "quiet n (upd_session s (\<lambda>x. x\<lparr>se_dc_open := True\<rparr>) n)" for n by (rule quiet_upd_session) (simp add: ears_def)
  show ?thesis unfolding janus_slvoice_data_ready_def Let_def
    by (auto split: option.split intro: 1 quiet_trans [OF 1 quiet_relayed [OF backlog_relayed]])
qed

subsection \<open>Rooms, the sender and the tick\<close>

interpretation qs_evict: quiet_step "evict a" for a
  by unfold_locales (auto simp: evict_def janus_slvoice_reset_room_state_locked_def intro!: quiet_upd_session)

interpretation qs_teardown: quiet_step janus_slvoice_room_teardown_locked
proof unfold_locales
  fix a m
  show "quiet m (janus_slvoice_room_teardown_locked a m)"
    unfolding janus_slvoice_room_teardown_locked_def Let_def
    by (rule quiet_trans [OF quiet_trans [OF quiet_trans [OF quiet_upd_room qs_evict.fold_quiet] quiet_upd_room] quiet_live(2)])
qed

lemma quiet_sweep: "quiet m (fst (janus_slvoice_sweep_empty_rooms_locked k now m))"
proof -
  have one: "quiet (fst st) (fst (sweep_mark k now a st))" for a st
    by (cases st) (simp add: sweep_mark_def)
  have "quiet m (fst (fold (sweep_mark k now) as (m, [])))" for as
    using quiet_fold_fst [of "sweep_mark k now", OF one, of "(m, [])"] by simp
  then show ?thesis
    by (auto simp: janus_slvoice_sweep_empty_rooms_locked_def split_beta intro: quiet_trans qs_teardown.fold_quiet)
qed

interpretation qs_transition: quiet_step "transition_to dumps was ok p" for dumps was ok p
  by unfold_locales (auto simp: transition_to_def Let_def intro!: quiet_relayed relay_presence_one(1) split: option.split)

interpretation qs_transitions: quiet_step "\<lambda>p m. fold (transition_to dumps was ok p) ps m" for dumps was ok ps
  by unfold_locales (rule qs_transition.fold_quiet)

interpretation qs_standing: quiet_step "\<lambda>q. upd_session q (\<lambda>x. x\<lparr>se_vis_ok_last := ok q\<rparr>)" for ok
  by unfold_locales (simp add: quiet_upd_session ears_def)

interpretation qs_dots: quiet_step "dot_send dumps k now a batch hidden" for dumps k now a batch hidden
  by unfold_locales (auto simp: dot_send_view send_text_def quiet_live split: option.split)

interpretation qs_sender: quiet_step "sender_room dumps k now" for dumps k now
proof unfold_locales
  fix m a
  obtain n hs where n: "janus_slvoice_vis_transitions_locked dumps k now a m = (n, hs)" by fastforce
  then have "quiet m n"
    by (auto simp: janus_slvoice_vis_transitions_locked_def Let_def
        intro!: quiet_trans [OF qs_transitions.fold_quiet qs_standing.fold_quiet])
  then show "quiet m (sender_room dumps k now a m)"
    using quiet_trans [OF _ qs_dots.fold_quiet] by (simp add: sender_room_def Let_def n)
qed

lemma quiet_sender_pass: "quiet m (snd (sender_pass dumps k now (ticks, m)))"
  by (auto simp: sender_pass_def Let_def split_beta intro: quiet_trans [OF quiet_sweep qs_sender.fold_quiet] qs_sender.fold_quiet)

interpretation ears: decode_view ears
  by unfold_locales (simp_all add: ears_def)

lemma quiet_pass1_one: "quiet (fst st) (fst (pass1_one op k t0 a check s st))"
proof -
  obtain m reap where st: "st = (m, reap)" by fastforce
  obtain x rs where x: "janus_slvoice_pos_observe_locked (room_at m a)
      (janus_slvoice_snapshot_geometry_locked (kn_spatial k) (janus_slvoice_tick_decode_locked op t0 (session_of m s))) t0 = (x, rs)"
    by fastforce
  have "ears x = ears (session_of m s)"
    using ears.pass1_session_view [of op k t0 "room_at m a" "session_of m s"] by (simp add: pass1_session_def x)
  then have "quiet m (upd_session s (\<lambda>_. x) m)" by (intro quiet_upd_session) simp
  then show ?thesis using quiet_trans [OF _ quiet_upd_room] by (simp add: st pass1_one_def Let_def x)
qed

lemma pass2_listener_ears: "ears (fst (pass2_listener op sp room rows srcbuf audible i s srcs)) = ears s"
proof -
  have "ears (fst (janus_slvoice_encode_relay op frame n silence x)) = ears x" for frame n silence x
    by (auto simp: janus_slvoice_encode_relay_def Let_def ears_def split: option.splits prod.splits)
  moreover have "ears (fst (janus_slvoice_build_echo x n)) = ears x" for x n
    by (auto simp: janus_slvoice_build_echo_def Let_def ears_def split: prod.splits)
  moreover have "ears (s\<lparr>se_cull_hyst := cs\<rparr>) = ears s" "ears (x\<lparr>se_last_mix_rms := a, se_last_mix_rms_l := b,
      se_last_mix_rms_r := c, se_frames_mixed := d\<rparr>) = ears x" for cs x a b c d
    by (simp_all add: ears_def)
  ultimately show ?thesis by (simp add: pass2_listener_def Let_def split_beta)
qed

lemma quiet_pass2_one: "quiet (fst st) (fst (pass2_one op k a rows srcbuf audible ss i st))"
  by (cases st) (simp add: pass2_one_state quiet_upd_session pass2_of_def pass2_listener_ears)

lemma quiet_tick_locked:
  assumes "room_tick_locked op k t0 a m = (m', out, reap)"
  shows "quiet m m'"
proof -
  let ?ss = "tick_sessions m a" and ?m0 = "upd_room a room_tick_begin m"
  obtain check where t: "tick_after_pass1 op k t0 a ?ss (fst (fold (pass1_one op k t0 a check) ?ss (?m0, []))) = (m', out)"
    using tick_structure [OF assms] by blast
  let ?p = "fst (fold (pass1_one op k t0 a check) ?ss (?m0, []))"
  let ?q = "upd_room a (tick_gauges (tick_rows k t0 ?ss ?p (room_at ?p a))) ?p"
  have "quiet ?m0 ?p" using quiet_fold_fst [where f = "pass1_one op k t0 a check", OF quiet_pass1_one, of "(?m0, [])"] by simp
  then have q: "quiet m ?q" by (rule quiet_trans [OF quiet_trans [OF quiet_upd_room] quiet_upd_room])
  obtain rows srcbuf audible where "fold (pass2_one op k a rows srcbuf audible ?ss) [0..<length ?ss] (?q, []) = (m', out)"
    using t unfolding tick_after_pass1_def Let_def by blast
  then have "quiet ?q m'"
    using quiet_fold_fst [where f = "pass2_one op k a rows srcbuf audible ?ss", OF quiet_pass2_one, of "(?q, [])" "[0..<length ?ss]"] by simp
  with q show ?thesis by (rule quiet_trans)
qed

lemma quiet_room_tick: "quiet m (fst (janus_slvoice_room_tick op dumps k t0 now a m))"
proof -
  obtain n out reap where t: "room_tick_locked op k t0 a m = (n, out, reap)" by (metis prod_cases3)
  then show ?thesis using quiet_trans [OF quiet_tick_locked [OF t] qs_reap.fold_quiet] by (simp add: janus_slvoice_room_tick_def)
qed

subsection \<open>The invariant\<close>

text \<open>A session in a room obeys its record, if its display has one there and the room is enforced, by having its columns.\<close>

definition obeys :: "slv_knobs \<Rightarrow> janus_slvoice_room \<Rightarrow> janus_slvoice_session \<Rightarrow> bool" where
  "obeys k room x \<longleftrightarrow> (\<forall>l r. janus_slvoice_vis_enforced k room \<longrightarrow> se_display x = Some l \<longrightarrow>
     map_of (rm_vis_records room) l = Some r \<longrightarrow> (set (se_excluded x), set (se_mod_muted x)) = rec_columns r)"

definition obeyed :: "slv_knobs \<Rightarrow> slv_mixer \<Rightarrow> bool" where
  "obeyed k m \<longleftrightarrow> (\<forall>s a. se_room (session_of m s) = Some a \<longrightarrow> obeys k (room_at m a) (session_of m s))"

lemma obeysD:
  "obeys k room x \<Longrightarrow> janus_slvoice_vis_enforced k room \<Longrightarrow> se_display x = Some l \<Longrightarrow> map_of (rm_vis_records room) l = Some r \<Longrightarrow>
     (set (se_excluded x), set (se_mod_muted x)) = rec_columns r"
  by (simp add: obeys_def)

lemma obeyedD: "obeyed k m \<Longrightarrow> se_room (session_of m s) = Some a \<Longrightarrow> obeys k (room_at m a) (session_of m s)"
  by (simp add: obeyed_def)

lemma obeys_cong:
  "ears y = ears x \<Longrightarrow> auth_part r' = auth_part r \<Longrightarrow> obeys k r' y \<longleftrightarrow> obeys k r x"
  by (simp add: obeys_def ears_def auth_part_def auth_frame_def janus_slvoice_vis_enforced_def)

lemma obeys_fresh: "fresh_part (auth_part r) \<Longrightarrow> obeys k r x"
  by (auto simp: obeys_def fresh_part_def auth_part_def)

lemma obeyed_quiet:
  assumes "quiet m m'" "parts_grow m m'" "obeyed k m"
  shows "obeyed k m'"
  unfolding obeyed_def
proof (intro allI impI)
  fix s a assume a: "se_room (session_of m' s) = Some a"
  then have e: "ears (session_of m' s) = ears (session_of m s)" using assms(1) by (auto simp: quiet_def)
  then have old: "obeys k (room_at m a) (session_of m s)" using a assms(3) ears_sel(1) [OF e] by (simp add: obeyed_def)
  from assms(2) have "auth_part (room_at m' a) = auth_part (room_at m a) \<or> fresh_part (auth_part (room_at m' a))"
    by (simp add: parts_grow_def parts_def)
  with old show "obeys k (room_at m' a) (session_of m' s)"
    using obeys_cong [OF e] obeys_fresh by blast
qed

subsection \<open>A batch\<close>

lemma batch_listener_each:
  assumes "vis_batch_listener enf vb gen now l (room, out) = (r1, o1)"
  shows "map_of (rm_vis_records r1) l' = Some r \<Longrightarrow> (if l' = l
      then batch_record vb (rm_vis_auth_epoch room) gen now l (map_of (rm_vis_records room) l) else map_of (rm_vis_records room) l') = Some r"
    "l' \<noteq> l \<Longrightarrow> map_of (rm_vis_records r1) l' = map_of (rm_vis_records room) l'"
    "l' \<in> set (vo_skip o1) \<longleftrightarrow> l' \<in> set (vo_skip out) \<or> (l' = l \<and> enf \<and> vb_op vb \<noteq> SLV_VIS_OP_REPLACE \<and>
      \<not> batch_matches vb (rm_vis_auth_epoch room) l (map_of (rm_vis_records room) l))"
    "vo_refused o1 = vo_refused out" "rm_vis_auth_epoch r1 = rm_vis_auth_epoch room"
  using assms
  by (cases "map_of (rm_vis_records room) l";
      auto simp: vis_batch_listener_def batch_record_def batch_matches_def Let_def update_conv' split: if_splits)+

lemma batch_fold_each:
  assumes "fold (vis_batch_listener enf vb gen now) ls (room, out) = (room', out')" "distinct ls"
  shows "(map_of (rm_vis_records room') l = Some r \<longrightarrow> (if l \<in> set ls
      then batch_record vb (rm_vis_auth_epoch room) gen now l (map_of (rm_vis_records room) l) else map_of (rm_vis_records room) l) = Some r) \<and>
    (l \<in> set (vo_skip out') \<longleftrightarrow> l \<in> set (vo_skip out) \<or> (l \<in> set ls \<and> enf \<and> vb_op vb \<noteq> SLV_VIS_OP_REPLACE \<and>
      \<not> batch_matches vb (rm_vis_auth_epoch room) l (map_of (rm_vis_records room) l))) \<and>
    vo_refused out' = vo_refused out"
  using assms
proof (induction ls arbitrary: room out)
  case (Cons l0 ls)
  obtain r1 o1 where s: "vis_batch_listener enf vb gen now l0 (room, out) = (r1, o1)" by fastforce
  note S = batch_listener_each [OF s]
  have IH: "fold (vis_batch_listener enf vb gen now) ls (r1, o1) = (room', out')" "distinct ls" using Cons.prems s by simp_all
  show ?case
  proof (cases "l = l0")
    case True
    then have "l \<notin> set ls" using Cons.prems(2) by simp
    with Cons.IH [OF IH] S(1) [of l r] S(3) [of l] S(4) True show ?thesis by simp
  next
    case False
    show ?thesis using Cons.IH [OF IH] False unfolding S(2) [OF False] S(3) [of l] S(4,5) by simp
  qed
qed simp

text \<open>What the parser promises of a batch besides its bounds: a channel names no listener twice.\<close>

definition batch_distinct :: "slv_visbatch \<Rightarrow> bool" where
  "batch_distinct vb \<longleftrightarrow> distinct (map e_listener (vb_entries vb)) \<and> distinct (map e_listener (vb_mute_entries vb))"

lemma entries_for_find:
  "distinct (map e_listener es) \<Longrightarrow> entries_for l skip es =
     (if l \<in> set skip then [] else case janus_slvoice_vis_find_entry es l of None \<Rightarrow> [] | Some e \<Rightarrow> [e])"
proof (induction es)
  case (Cons e es)
  have "entries_for l skip es = []" if "e_listener e = l"
  proof -
    have "e_listener d \<noteq> l" if "d \<in> set es" for d
      using imageI [OF that, of e_listener] Cons.prems \<open>e_listener e = l\<close> by auto
    then show ?thesis by (auto simp: entries_for_def filter_empty_conv)
  qed
  with Cons show ?case by (auto simp: entries_for_def janus_slvoice_vis_find_entry_def)
qed (simp add: entries_for_def janus_slvoice_vis_find_entry_def)

lemma batch_spec_delta:
  assumes "batch_distinct vb"
  shows "batch_spec vb skip l c = (if l \<in> set skip then c else delta_columns vb l c)"
  using assms unfolding batch_distinct_def
  by (cases c) (auto simp: batch_spec_def channel_spec_def entries_for_find col_step_def delta_columns_def op_opt_def split: option.split)

lemma not_named:
  assumes "l \<notin> set (vis_named vb)" shows "delta_columns vb l c = c"
proof -
  have "e_listener e \<noteq> l" if "e \<in> set (vb_entries vb) \<union> set (vb_mute_entries vb)" for e
    using assms that by (auto simp: vis_named_def)
  then have "janus_slvoice_vis_find_entry (vb_entries vb) l = None" "janus_slvoice_vis_find_entry (vb_mute_entries vb) l = None"
    by (auto simp: janus_slvoice_vis_find_entry_def find_None_iff)
  then show ?thesis by (cases c) (simp add: delta_columns_def op_opt_def)
qed

text \<open>The columns of a record after a batch it is named in, when the simulator published the batch.\<close>

lemma batch_record_delta:
  assumes "batch_record vb epoch gen now l r0 = Some r" "l \<in> set (vis_named vb)" "sim_sent H (Auth_batch vb)" "vb_has_epoch vb"
  shows "rec_columns r = (if vb_op vb = SLV_VIS_OP_REPLACE \<or> batch_matches vb epoch l r0
      then delta_columns vb l (if vb_op vb = SLV_VIS_OP_REPLACE then c else rec_columns (the r0)) else rec_columns (the r0))"
proof (cases "vb_op vb = SLV_VIS_OP_REPLACE")
  case True
  then obtain ex mu where "janus_slvoice_vis_find_entry (vb_entries vb) l = Some ex"
    "janus_slvoice_vis_find_entry (vb_mute_entries vb) l = Some mu"
    using assms(2,3,4) by auto
  then show ?thesis
    using assms(1) True
    by (cases c) (auto simp: batch_record_def vis_arm_record_def rec_columns_def delta_columns_def op_opt_def)
next
  case False
  with assms(1) show ?thesis
    by (cases r0) (auto simp: batch_record_def batch_matches_def vis_advance_record_def rec_columns_def delta_columns_def)
qed

lemma batch_obeys:
  assumes "janus_slvoice_vis_batch_authority_locked k vb now room = (room', vo)" "\<not> vo_refused vo"
    and "vb_has_epoch vb" "batch_distinct vb" "sim_sent H (Auth_batch vb)"
    and "obeys k room x" "se_display x = Some l" "se_display y = Some l"
    and cols: "(set (se_excluded y), set (se_mod_muted y)) = batch_spec vb (vo_skip vo) l (set (se_excluded x), set (se_mod_muted x))"
  shows "obeys k room' y"
  unfolding obeys_def
proof (intro allI impI)
  fix l' r
  assume en': "janus_slvoice_vis_enforced k room'" and "se_display y = Some l'" and r: "map_of (rm_vis_records room') l' = Some r"
  then have l': "l' = l" using assms(8) by simp
  let ?c = "(set (se_excluded x), set (se_mod_muted x))"
  obtain v r1 where a: "janus_slvoice_vis_adopt_locked k (vb_room_epoch vb) now room = (v, r1)" by fastforce
  have r1: "map_of (rm_vis_records r1) l = Some r0 \<Longrightarrow> map_of (rm_vis_records room) l = Some r0" for r0
    using a by (cases rule: adopt_cases) auto
  have d: "rm_vis_declared r1 = rm_vis_declared room" using a by (auto elim!: adopt_cases)
  show "(set (se_excluded y), set (se_mod_muted y)) = rec_columns r"
    using assms(3) a
  proof (cases rule: batch_authority_cases)
    case go
    let ?gen = "of_int (vb_policy_generation vb) :: u32"
    have f: "fold (vis_batch_listener (janus_slvoice_vis_enforced k room) vb ?gen now) (vis_named vb)
        (r1\<lparr>rm_vis_policy_gen := ?gen\<rparr>, vis_outcome_zero\<lparr>vo_verdict := v\<rparr>) = (room', vo)" using go assms(1) by simp
    have en: "janus_slvoice_vis_enforced k room" using en' batch_fold_frame [OF f] d by (simp add: janus_slvoice_vis_enforced_def)
    have old: "?c = rec_columns r0" if "map_of (rm_vis_records r1) l = Some r0" for r0
      using obeysD [OF assms(6) en assms(7) r1 [OF that]] .
    have dist: "distinct (vis_named vb)" by (simp add: vis_named_def)
    note E = batch_fold_each [OF f dist, of l r]
    show ?thesis
    proof (cases "l \<in> set (vis_named vb)")
      case True
      then have rec: "batch_record vb (rm_vis_auth_epoch r1) ?gen now l (map_of (rm_vis_records r1) l) = Some r" using E r l' by simp
      have skip: "l \<in> set (vo_skip vo) \<longleftrightarrow> vb_op vb \<noteq> SLV_VIS_OP_REPLACE \<and> \<not> batch_matches vb (rm_vis_auth_epoch r1) l (map_of (rm_vis_records r1) l)"
        using E True en by (simp add: vis_outcome_zero_def)
      have "\<exists>r0. map_of (rm_vis_records r1) l = Some r0" if "vb_op vb \<noteq> SLV_VIS_OP_REPLACE"
        using rec that by (auto simp: batch_record_def)
      then show ?thesis
        using cols old batch_record_delta [OF rec True assms(5,3), of ?c] skip by (auto simp: batch_spec_delta [OF assms(4)])
    next
      case False
      then have "map_of (rm_vis_records r1) l = Some r" using E r l' by simp
      then show ?thesis using cols old not_named [OF False] by (simp add: batch_spec_delta [OF assms(4)])
    qed
  next
    case refuse
    then show ?thesis using assms(1,2,3) a en' d by (auto simp: janus_slvoice_vis_batch_authority_locked_def Let_def janus_slvoice_vis_enforced_def)
  next
    case old
    then show ?thesis using assms(1,2,3) a en' d by (auto simp: janus_slvoice_vis_batch_authority_locked_def Let_def janus_slvoice_vis_enforced_def)
  qed
qed

text \<open>Both channels on the sessions of a room, whether or not there is memory for the deferred columns.\<close>

lemma channel_spec_Nil: "channel_spec mu op skip [] l c = c"
  by (simp add: channel_spec_def entries_for_def)

lemma apply_channels_cols:
  assumes "distinct (members (room_at m a))"
  shows "settled a m (fst (apply_channels dumps mem k now a vb skip m)) \<and>
    session_cols (fst (apply_channels dumps mem k now a vb skip m)) s = (if s \<in> set (members (room_at m a))
     then (case se_display (session_of m s) of None \<Rightarrow> session_cols m s | Some l \<Rightarrow> batch_spec vb skip l (session_cols m s))
     else session_cols m s)"
proof -
  define m1 where "m1 = (if length (vb_entries vb) > 0 then fst (janus_slvoice_apply_visbatch_locked dumps mem k now a vb skip m) else m)"
  define m2 where "m2 = (if length (vb_mute_entries vb) > 0 then fst (janus_slvoice_apply_mutebatch_locked dumps mem k now a vb skip m1) else m1)"
  have m2: "fst (apply_channels dumps mem k now a vb skip m) = m2"
    by (auto simp: apply_channels_def m2_def m1_def split: prod.split)
  have 1: "settled a m m1 \<and> session_cols m1 s = (if s \<in> set (members (room_at m a)) then (case se_display (session_of m s) of
      None \<Rightarrow> session_cols m s | Some l \<Rightarrow> channel_spec False (vb_op vb) skip (vb_entries vb) l (session_cols m s)) else session_cols m s)"
  proof (cases "vb_entries vb = []")
    case False
    obtain m' n where r: "janus_slvoice_apply_visbatch_locked dumps mem k now a vb skip m = (m', n)" by fastforce
    obtain m0 where f: "fold (visbatch_entry dumps mem k now a (vb_op vb) (room_displays m a) skip) (vb_entries vb) (m, 0) = (m0, n)"
      and st: "settled a m0 m'" and c: "session_cols m' s = session_cols m0 s" using r by (rule apply_visbatch_fold)
    have "settled a m m0" using excl_columns.run_settled [of a m dumps mem k now "vb_op vb" "room_displays m a" skip "vb_entries vb" 0] f by simp
    then show ?thesis
      using settled_trans [OF _ st] c False excl_columns.run_all [OF assms, of dumps mem k now "vb_op vb" "room_displays m a" skip "vb_entries vb" 0 s] f r
      by (simp add: m1_def)
  qed (simp add: m1_def channel_spec_Nil split: option.split)
  then have S: "settled a m m1" by blast
  have d: "distinct (members (room_at m1 a))" using assms settled_sel(1) [OF S] by simp
  have 2: "settled a m1 m2 \<and> session_cols m2 s = (if s \<in> set (members (room_at m a)) then (case se_display (session_of m s) of
      None \<Rightarrow> session_cols m1 s | Some l \<Rightarrow> channel_spec True (vb_op vb) skip (vb_mute_entries vb) l (session_cols m1 s)) else session_cols m1 s)"
    using mute_columns.run_settled [of a m1 dumps mem k now "vb_op vb" skip "vb_mute_entries vb" 0]
      mute_columns.run_all [OF d, of dumps mem k now "vb_op vb" skip "vb_mute_entries vb" 0 s] settled_sel [OF S]
    by (simp add: m2_def janus_slvoice_apply_mutebatch_locked_def channel_spec_Nil split: option.split)
  show ?thesis
    using 1 2 settled_trans [OF S, of m2] unfolding m2 batch_spec_def by (simp split: option.split)
qed

subsection \<open>Messages that list nothing new\<close>

text \<open>The records after a step list what the records before it listed, or are gone.\<close>

definition tamer :: "janus_slvoice_room \<Rightarrow> janus_slvoice_room \<Rightarrow> bool" where
  "tamer room room' \<longleftrightarrow> rm_vis_declared room' = rm_vis_declared room \<and> (\<forall>l r. map_of (rm_vis_records room') l = Some r \<longrightarrow>
     (\<exists>q. map_of (rm_vis_records room) l = Some q \<and> rec_columns r = rec_columns q))"

lemma tamer_refl [simp]: "tamer r r"
  by (simp add: tamer_def)

lemma tamer_trans [trans]: "tamer r r1 \<Longrightarrow> tamer r1 r2 \<Longrightarrow> tamer r r2"
  unfolding tamer_def by (metis (no_types, lifting))

lemma tamer_same: "rm_vis_records r' = rm_vis_records r \<Longrightarrow> rm_vis_declared r' = rm_vis_declared r \<Longrightarrow> tamer r r'"
  by (auto simp: tamer_def)

lemma obeys_tamer:
  assumes "tamer room room'" "obeys k room x" "ears y = ears x"
  shows "obeys k room' y"
  unfolding obeys_def
proof (intro allI impI)
  fix l r
  assume en: "janus_slvoice_vis_enforced k room'" and d: "se_display y = Some l" and r: "map_of (rm_vis_records room') l = Some r"
  from assms(1) r obtain q where q: "map_of (rm_vis_records room) l = Some q" "rec_columns r = rec_columns q"
    unfolding tamer_def by blast
  have "janus_slvoice_vis_enforced k room" "se_display x = Some l"
    using en d assms(1) ears_sel(2) [OF assms(3)] by (simp_all add: janus_slvoice_vis_enforced_def tamer_def)
  from obeysD [OF assms(2) this q(1)] show "(set (se_excluded y), set (se_mod_muted y)) = rec_columns r"
    unfolding q(2) ears_sel(3,4) [OF assms(3)] .
qed

lemma adopt_tamer: "janus_slvoice_vis_adopt_locked k e now room = (v, r1) \<Longrightarrow> tamer room r1"
  by (cases rule: adopt_cases) (auto simp: tamer_def)

lemma update_tamer:
  "map_of (rm_vis_records room) l = Some q \<Longrightarrow> rec_columns r = rec_columns q \<Longrightarrow>
     tamer room (room\<lparr>rm_vis_records := AList.update l r (rm_vis_records room)\<rparr>)"
  by (auto simp: tamer_def update_conv')

lemma heartbeat_fold_tamer: "tamer room (fst (fold (vis_heartbeat_listener now) lgs (room, st, un)))"
proof (induction lgs arbitrary: room st un)
  case (Cons lg lgs)
  obtain r1 s1 u1 where s: "vis_heartbeat_listener now lg (room, st, un) = (r1, s1, u1)" by (metis prod_cases3)
  then have "tamer room r1"
    by (cases lg) (auto simp: vis_heartbeat_listener_def rec_columns_def split: option.splits if_splits intro: update_tamer)
  then show ?case using Cons.IH [of r1 s1 u1] by (simp add: s tamer_trans)
qed simp

lemma heartbeat_room_tamer: "tamer room (fst (heartbeat_room k e fs stopping now rval room))"
proof -
  obtain v r1 where a: "janus_slvoice_vis_adopt_locked k e now room = (v, r1)" by fastforce
  have r1: "tamer room r1" using a by (rule adopt_tamer)
  have filt: "tamer x (x\<lparr>rm_vis_records := filter (\<lambda>(l, r). l \<in> S) (rm_vis_records x)\<rparr>)" for x S
    by (simp add: tamer_def map_of_filter_keys)
  have listeners: "tamer x (fst (janus_slvoice_vis_heartbeat_listeners_locked js now x))" for js x
    using tamer_trans [OF heartbeat_fold_tamer filt] by (simp add: janus_slvoice_vis_heartbeat_listeners_locked_def split_beta)
  have stop: "tamer x (vis_authority_stopping x)" for x
    by (auto simp: tamer_def vis_authority_stopping_def map_of_map_vals rec_columns_def)
  have n: "tamer x (x\<lparr>rm_vis_heartbeats := n\<rparr>)" "tamer x (x\<lparr>rm_vis_heartbeats_outdated := n\<rparr>)"
    "tamer x (x\<lparr>rm_vis_heartbeats_feed_stale := n\<rparr>)" for x n
    by (rule tamer_same; simp)+
  show ?thesis
    unfolding heartbeat_room_def a Let_def prod.case
    by (simp add: split_beta r1 n tamer_trans [OF r1 n(1)] tamer_trans [OF tamer_trans [OF r1 n(1)] n(2)]
        tamer_trans [OF tamer_trans [OF r1 n(1)] stop] tamer_trans [OF tamer_trans [OF r1 n(1)] listeners])
qed

lemma obeyed_upd_room:
  assumes "obeyed k m" "tamer (room_at m a) room"
  shows "obeyed k (upd_room a (\<lambda>_. room) m)"
  unfolding obeyed_def
proof (intro allI impI)
  fix s b assume "se_room (session_of (upd_room a (\<lambda>_. room) m) s) = Some b"
  then have "obeys k (room_at m b) (session_of m s)" using assms(1) by (simp add: obeyed_def)
  moreover have "tamer (room_at m b) (room_at (upd_room a (\<lambda>_. room) m) b)" using assms(2) by (simp add: upd_room_def)
  ultimately show "obeys k (room_at (upd_room a (\<lambda>_. room) m) b) (session_of (upd_room a (\<lambda>_. room) m) s)"
    by (auto intro: obeys_tamer)
qed

lemma obeyed_heartbeat:
  "obeyed k m \<Longrightarrow> obeyed k (fst (fold (heartbeat_member k e fs stopping now) ms (m, out)))"
proof (induction ms arbitrary: m out)
  case (Cons kv ms)
  obtain key rval where kv: "kv = (key, rval)" by fastforce
  obtain m1 out1 where s: "heartbeat_member k e fs stopping now kv (m, out) = (m1, out1)" by fastforce
  have "obeyed k (upd_room a (\<lambda>_. fst (heartbeat_room k e fs stopping now rval (room_at m a))) m)" for a
    by (rule obeyed_upd_room [OF Cons.prems heartbeat_room_tamer])
  then have "obeyed k m1"
    using s Cons.prems unfolding kv heartbeat_member_def prod.case by (auto simp: split_beta split: if_splits option.splits)
  then show ?case using Cons.IH by (simp add: s)
qed simp

subsection \<open>The admin messages\<close>

lemma refused_tamer:
  assumes "janus_slvoice_vis_batch_authority_locked k vb now room = (room', vo)" "vo_refused vo" "vb_has_epoch vb"
  shows "tamer room room'"
proof -
  obtain v r1 where a: "janus_slvoice_vis_adopt_locked k (vb_room_epoch vb) now room = (v, r1)" by fastforce
  have n: "tamer r1 (r1\<lparr>rm_vis_stale_generation_rejects := n\<rparr>)" for n by (rule tamer_same) simp_all
  show ?thesis
    using assms(3) a
  proof (cases rule: batch_authority_cases)
    case go
    then have f: "fold (vis_batch_listener (janus_slvoice_vis_enforced k room) vb (of_int (vb_policy_generation vb)) now) (vis_named vb)
        (r1\<lparr>rm_vis_policy_gen := of_int (vb_policy_generation vb)\<rparr>, vis_outcome_zero\<lparr>vo_verdict := v\<rparr>) = (room', vo)" using assms(1) by simp
    have "distinct (vis_named vb)" by (simp add: vis_named_def)
    from batch_fold_each [OF f this] assms(2) show ?thesis by (simp add: vis_outcome_zero_def)
  qed (use assms(1) adopt_tamer [OF a] tamer_trans [OF adopt_tamer [OF a] n] in simp_all)
qed

lemma frame_room: "sess_frame x = sess_frame y \<Longrightarrow> se_room x = se_room y"
  by (drule arg_cong [of _ _ se_room]) (simp add: sess_frame_def sess_core_def)

text \<open>What a batch leaves: the room as the authority decided, and columns that moved for those in the room.\<close>

lemma batch_room_effect:
  assumes "mixer_inv k' m" and b: "janus_slvoice_vis_batch_authority_locked k vb now (room_at m a) = (room, vo)"
  shows "if vo_refused vo then fst (batch_room ae k now vb a m) = upd_room a (\<lambda>_. room) m
    else settled a (upd_room a (\<lambda>_. room) m) (fst (batch_room ae k now vb a m)) \<and>
      session_cols (fst (batch_room ae k now vb a m)) s = (if se_room (session_of m s) = Some a then (case se_display (session_of m s) of
        None \<Rightarrow> session_cols m s | Some l \<Rightarrow> batch_spec vb (vo_skip vo) l (session_cols m s)) else session_cols m s)"
proof -
  define n where "n = upd_room a (\<lambda>_. room) m"
  have seats: "seats_ok m" using assms(1) by (simp add: mixer_inv_def marked_inv_def)
  have "roll room = roll (room_at m a)" using aside_sel [OF batch_authority_aside [of k vb now "room_at m a"]] by (simp add: b)
  then have "rm_participants room = rm_participants (room_at m a)" by (rule roll_sel(1))
  then have members: "members (room_at n a) = members (room_at m a)" by (simp add: n_def)
  have "distinct (members (room_at n a))" unfolding members by (rule members_distinct [OF seats])
  note C = apply_channels_cols [OF this, of "ae_dumps ae" "ae_store_mem ae" k now vb "vo_skip vo" s, unfolded members member_iff [OF seats]]
  have "session_of n s = session_of m s" "session_cols n s = session_cols m s" by (simp_all add: n_def session_cols_def)
  from C [unfolded this] show ?thesis
    unfolding batch_room_def b prod.case Let_def n_def [symmetric] by (simp add: split_beta)
qed

lemma batch_room_frame:
  assumes "mixer_inv k' m"
  shows "sess_frame (session_of (fst (batch_room ae k now vb a m)) s) = sess_frame (session_of m s)"
proof (cases "janus_slvoice_vis_batch_authority_locked k vb now (room_at m a)")
  case (Pair room vo)
  show ?thesis using batch_room_effect [OF assms Pair, of ae s] by (cases "vo_refused vo") (simp_all add: settled_def)
qed

lemma obeyed_batch:
  assumes "mixer_inv k m" "obeyed k m" "vb_has_epoch vb" "batch_distinct vb" "sim_sent H (Auth_batch vb)"
  shows "obeyed k (fst (batch_room ae k now vb a m))" (is "obeyed k ?n")
proof (cases "janus_slvoice_vis_batch_authority_locked k vb now (room_at m a)")
  case b: (Pair room vo)
  note E = batch_room_effect [OF assms(1) b, of ae] and frame = batch_room_frame [OF assms(1), of ae k now vb a]
  show ?thesis
  proof (cases "vo_refused vo")
    case True
    then show ?thesis using E obeyed_upd_room [OF assms(2) refused_tamer [OF b True assms(3)]] by simp
  next
    case False
    then have S: "settled a (upd_room a (\<lambda>_. room) m) ?n" using E by simp
    show ?thesis
      unfolding obeyed_def
    proof (intro allI impI)
      fix s c assume "se_room (session_of ?n s) = Some c"
      then have room: "se_room (session_of m s) = Some c" using frame_room [OF frame [of s]] by simp
      then have old: "obeys k (room_at m c) (session_of m s)" by (rule obeyedD [OF assms(2)])
      have display: "se_display (session_of ?n s) = se_display (session_of m s)" by (rule sess_frame_display [OF frame])
      consider (out) "c \<noteq> a" | (anon) "c = a" "se_display (session_of m s) = None" | (named) l where "c = a" "se_display (session_of m s) = Some l"
        by (cases "se_display (session_of m s)") auto
      then show "obeys k (room_at ?n c) (session_of ?n s)"
      proof cases
        case out
        then have "session_cols ?n s = session_cols m s" using E [of s] False room by simp
        moreover have "room_at ?n c = room_at m c" using S out by (simp add: settled_def upd_room_def)
        ultimately show ?thesis using old display by (simp add: obeys_def session_cols_def)
      next
        case anon
        then show ?thesis using display by (simp add: obeys_def)
      next
        case named
        have "session_cols ?n s = batch_spec vb (vo_skip vo) l (session_cols m s)" using E [of s] False room named by simp
        then have obeyed: "obeys k room (session_of ?n s)"
          using old named display by (intro batch_obeys [OF b False assms(3-5)]) (simp_all add: session_cols_def)
        have part: "auth_part (room_at ?n a) = auth_part room" using S by (simp add: settled_def room_frame_def auth_part_def)
        show ?thesis unfolding named(1) obeys_cong [OF refl part] by (rule obeyed)
      qed
    qed
  qed
qed

text \<open>Jansson's objects have no key twice; so the parser's channels name no listener twice.\<close>

fun json_unique :: "json \<Rightarrow> bool" where
  "json_unique (JObject ms) = (distinct (map fst ms) \<and> (\<forall>p\<in>set ms. json_unique (snd p)))"
| "json_unique (JArray vs) = (\<forall>v\<in>set vs. json_unique v)"
| "json_unique _ = True"

lemma unique_get: "json_object_get j k = Some v \<Longrightarrow> pred_option json_unique j \<Longrightarrow> json_unique v"
  by (cases "(j, k)" rule: json_object_get.cases) (force dest: map_of_SomeD)+

lemma unique_members: "pred_option json_unique j \<Longrightarrow> distinct (map fst (json_members j))"
  by (cases j rule: json_members.cases) auto

lemma parsed_name_step:
  assumes "slv_vis_parse_listener mem c (key, v) (es, sk) = (es', sk')"
  shows "map e_listener es' = map e_listener es \<or> map e_listener es' = map e_listener es @ [key]"
  using assms by (auto simp: slv_vis_parse_listener_def Let_def slv_vis_uuid_ok_def slv_ucpy_id split: if_splits prod.splits)

lemma distinct_head: "ls = us \<or> ls = us @ [key] \<Longrightarrow> distinct (us @ key # ks) \<Longrightarrow> distinct (ls @ ks)"
  by auto

lemma parse_listeners_distinct:
  assumes "fold (slv_vis_parse_listener mem c) ms (es, sk) = (es', sk')" "distinct (map e_listener es @ map fst ms)"
  shows "distinct (map e_listener es')"
  using assms
proof (induction ms arbitrary: es sk)
  case (Cons kv ms)
  obtain key v where kv: "kv = (key, v)" by fastforce
  obtain es1 sk1 where s: "slv_vis_parse_listener mem c (key, v) (es, sk) = (es1, sk1)" by fastforce
  have "distinct (map e_listener es1 @ map fst ms)"
    using distinct_head [OF parsed_name_step [OF s], of "map fst ms"] Cons.prems(2) unfolding kv list.map fst_conv .
  with Cons.IH [of es1 sk1] Cons.prems(1) s kv show ?case by simp
qed simp

lemma parse_channel_distinct:
  assumes "pred_option json_unique chan"
  shows "distinct (map e_listener (fst (slv_vis_parse_channel mem c chan n)))"
proof -
  obtain es sk where f: "fold (slv_vis_parse_listener mem c) (json_members chan) ([], n) = (es, sk)" by fastforce
  have "distinct (map e_listener es)"
    using parse_listeners_distinct [OF f] unique_members [OF assms] by simp
  then show ?thesis using f by (simp add: slv_vis_parse_channel_def)
qed


lemma parse_batch_distinct:
  assumes "slv_visbatch_parse loadb mem buf = (SLV_VISBATCH_OK, vb)" and unique: "\<And>t j. loadb t = Some j \<Longrightarrow> json_unique j"
  shows "batch_distinct vb"
  using assms(1)
proof (cases rule: parse_cases)
  case (good t jroot op room out1)
  let ?b = "visbatch_body (Some jroot)"
  have "pred_option json_unique (Some jroot)" using unique [OF good(4)] by simp
  then have body: "pred_option json_unique ?b"
    using unique_get [of "Some jroot" "''slvoice_vis''"] by (auto simp: visbatch_body_def Let_def option.pred_set)
  then have member: "pred_option json_unique (json_object_get ?b key)" for key
    using unique_get [OF _ body, of key] by (auto simp: option.pred_set)
  show ?thesis
    using parse_channel_distinct [OF member, of mem CH_EXCL "''excl''" "vb_n_skipped out1"]
      parse_channel_distinct [OF member, of mem CH_MUTE "''mute''"]
    unfolding good(8) slv_vis_parse_channels_def batch_distinct_def by (simp add: split_beta Let_def)
qed simp

lemma quiet_peer_pos: "quiet m (fst (janus_slvoice_handle_peer_pos ae k now j m))"
  by (rule quiet_sessions) (auto simp: janus_slvoice_handle_peer_pos_def split_beta split: slv_pos_status.split option.split)

lemma obeyed_admin:
  assumes "mixer_inv k m" "obeyed k m" and unique: "\<And>t j. ae_loadb ae t = Some j \<Longrightarrow> json_unique j"
    and "\<And>vb. op_sends ae (Op_admin msg :: ('sdp, 'ml) slv_op) (Auth_batch vb) \<Longrightarrow> vb_has_epoch vb \<and> sim_sent H (Auth_batch vb)"
  shows "obeyed k (fst (janus_slvoice_handle_admin_message ae k now msg m))"
proof (cases msg)
  case None
  then show ?thesis using assms(2) by (simp add: janus_slvoice_handle_admin_message_def Let_def)
next
  case (Some j)
  have hb: "obeyed k (fst (janus_slvoice_handle_heartbeat k now msg m))"
    using assms(2) obeyed_heartbeat [OF assms(2)]
    by (auto simp: janus_slvoice_handle_heartbeat_def Let_def split_beta split: option.split)
  have pos: "obeyed k (fst (janus_slvoice_handle_peer_pos ae k now j m))"
    using obeyed_quiet [OF quiet_peer_pos parts_growI assms(2)] parts_peer_pos by metis
  have batch: "obeyed k (fst (handle_batch ae k now j m))"
  proof (cases "slv_visbatch_parse (ae_loadb ae) (ae_vis_mem ae) (ae_dumps ae j)")
    case (Pair st vb)
    have "obeyed k (fst (batch_room ae k now vb a m))" if "st = SLV_VISBATCH_OK" for a
      using obeyed_batch [OF assms(1,2), of vb H] parse_batch_distinct [OF _ unique] Pair Some that assms(4) [of vb] by auto
    then show ?thesis
      using assms(2) by (auto simp: handle_batch_def Pair obeyed_def split: slv_visbatch_status.split option.split)
  qed
  show ?thesis using assms(2) hb pos batch unfolding janus_slvoice_handle_admin_message_def Let_def Some by simp
qed


subsection \<open>The requests\<close>

definition obeyed_but :: "nat \<Rightarrow> slv_knobs \<Rightarrow> slv_mixer \<Rightarrow> bool" where
  "obeyed_but s k m \<longleftrightarrow> (\<forall>t a. t \<noteq> s \<longrightarrow> se_room (session_of m t) = Some a \<longrightarrow> obeys k (room_at m a) (session_of m t))"

lemma commit_others:
  assumes "t \<noteq> s"
  shows "session_of (fst (janus_slvoice_join_commit_locked k now a s m)) t = session_of m t"
proof -
  have rejoin: "session_of (fst (janus_slvoice_vis_rejoin_columns_locked k a s n)) t = session_of n t" for n
    unfolding janus_slvoice_vis_rejoin_columns_locked_def Let_def
    using assms by (simp add: upd_session_other split: option.split)
  have replay: "session_of (janus_slvoice_room_replay_deferred_locked a s n) t = session_of n t" for n
    unfolding janus_slvoice_room_replay_deferred_locked_def Let_def
    using assms by (simp add: upd_session_other split: option.split)
  obtain n took where n: "janus_slvoice_vis_rejoin_columns_locked k a s m = (n, took)" by fastforce
  then have "session_of n t = session_of m t" using rejoin [of m] by simp
  then show ?thesis
    unfolding janus_slvoice_join_commit_locked_def Let_def n prod.case fst_conv
    using replay [of n] assms by (simp add: upd_session_other)
qed

text \<open>A newcomer whose display has a record is given the record's columns and nothing else.\<close>

lemma commit_obeys:
  assumes "auth_inv (room_at m a)"
  shows "obeys k (room_at m a) (session_of (fst (janus_slvoice_join_commit_locked k now a s m)) s)"
  unfolding obeys_def
proof (intro allI impI)
  let ?n = "fst (janus_slvoice_join_commit_locked k now a s m)"
  fix l r
  assume e: "janus_slvoice_vis_enforced k (room_at m a)" and l: "se_display (session_of ?n s) = Some l"
    and r: "map_of (rm_vis_records (room_at m a)) l = Some r"
  have d: "se_display (session_of m s) = Some l" using l by (simp add: join_commit_display)
  have ep: "vr_epoch r = rm_vis_auth_epoch (room_at m a)" using assms r by (auto simp: auth_inv_def recs_all_def vis_record_ok_def)
  show "(set (se_excluded (session_of ?n s)), set (se_mod_muted (session_of ?n s))) = rec_columns r"
    unfolding janus_slvoice_join_commit_locked_def Let_def janus_slvoice_vis_rejoin_columns_locked_def
    by (simp add: e d r ep rec_columns_def fold_set_mod_muted upd_session_def)
qed

lemma obeyed_commit:
  assumes "obeyed_but s k m" "auth_inv (room_at m a)" "se_room (session_of m s) = Some a"
  shows "obeyed k (fst (janus_slvoice_join_commit_locked k now a s m))"
  unfolding obeyed_def
proof (intro allI impI)
  let ?n = "fst (janus_slvoice_join_commit_locked k now a s m)"
  fix t b assume b: "se_room (session_of ?n t) = Some b"
  have parts: "auth_part (room_at ?n b) = auth_part (room_at m b)"
    by (simp only: parts_def [symmetric] parts_join_commit)
  show "obeys k (room_at ?n b) (session_of ?n t)"
  proof (cases "t = s")
    case True
    have "same_seats m ?n" using join_commit_keeps assms(3) by simp
    then have "seat (session_of ?n s) = seat (session_of m s)" by (simp add: same_seats_def)
    then have "b = a" using b assms(3) True by (simp add: seat_def)
    then show ?thesis using commit_obeys [OF assms(2)] obeys_cong [OF refl parts] True by blast
  next
    case False
    note o = commit_others [OF False, of k now a m]
    then have "obeys k (room_at m b) (session_of m t)" using assms(1) b False by (simp add: obeyed_but_def)
    then show ?thesis using obeys_cong [OF refl parts] by (simp add: o)
  qed
qed

lemma auth_inv_part: "auth_part r' = auth_part r \<Longrightarrow> auth_inv r \<Longrightarrow> auth_inv r'"
  by (auto simp: part_defs auth_inv_def recs_all_def)

lemma obeyed_but_session:
  assumes "obeyed k m"
  shows "obeyed_but s k (upd_session s f m)"
  using assms by (simp add: obeyed_but_def obeyed_def upd_session_other)

lemma obeyed_join_room:
  assumes "obeyed_but s k m" "auth_inv (room_at m a)" "se_room (session_of m s) = Some a"
  shows "obeyed k (fst (join_room k now a s uid m))"
proof (cases "rm_destroyed (room_at m a)")
  case True
  have "se_room (join_undo a (session_of m s)) = None" using assms(3) by (simp add: join_undo_def janus_slvoice_media_free_locked_def)
  then show ?thesis
    using assms(1) True by (auto simp: join_room_def obeyed_but_def obeyed_def upd_session_def)
next
  case False
  define n where "n = upd_room a (\<lambda>r. r\<lparr>rm_empty_since := 0, rm_participants := AList.update uid s (rm_participants r)\<rparr>) m"
  have part: "auth_part (room_at n b) = auth_part (room_at m b)" for b
    by (simp add: n_def upd_room_def auth_part_def auth_frame_def)
  have "obeys k (room_at n b) x = obeys k (room_at m b) x" for b x by (rule obeys_cong [OF refl part])
  then have "obeyed_but s k n" using assms(1) by (simp add: n_def obeyed_but_def)
  moreover have "auth_inv (room_at n a)" by (rule auth_inv_part [OF part assms(2)])
  ultimately have "obeyed k (fst (janus_slvoice_join_commit_locked k now a s n))"
    using assms(3) by (intro obeyed_commit) (simp_all add: n_def)
  then show ?thesis using False by (simp add: join_room_def Let_def n_def split_beta)
qed

lemma ears_negotiate: "ears (fst (janus_slvoice_negotiate sd jsep x)) = ears x"
  unfolding janus_slvoice_negotiate_def Let_def by (auto simp: ears_def split: option.split sum.split)

lemma obeyed_same: "parts m' = parts m \<Longrightarrow> quiet m m' \<Longrightarrow> obeyed k m \<Longrightarrow> obeyed k m'"
  by (rule obeyed_quiet [OF _ parts_growI])

lemma obeyed_ears: "obeyed k m \<Longrightarrow> ears (f (session_of m s)) = ears (session_of m s) \<Longrightarrow> obeyed k (upd_session s f m)"
  by (rule obeyed_same [OF parts_heap quiet_upd_session]) simp_all

lemma obeyed_join:
  assumes "\<And>a. auth_inv (room_at m a)" "obeyed k m"
  shows "obeyed k (fst (handle_join he k msg m))"
proof -
  let ?s = "ms_session msg"
  have cap: "obeyed k n \<and> (\<forall>a. auth_inv (room_at n a))" if "join_capability he k body i a ?s m = (n, r)" for body i a n r
  proof -
    have "quiet m n"
      using that by (auto simp: join_capability_def Let_def ears_def quiet_def upd_session_def split: prod.splits if_splits)
    moreover have "mx_heap n = mx_heap m"
      using that by (auto simp: join_capability_def Let_def split: prod.splits if_splits)
    ultimately show ?thesis
      using obeyed_same [OF parts_heap _ assms(2)] auth_inv_part [OF _ assms(1)] fun_cong [OF parts_heap, of n m] by (simp add: parts_def)
  qed
  have adm: "obeyed k n'" if "obeyed k n" "\<And>a. auth_inv (room_at n a)" "join_admitted he k msg i a n = (n', out)" for i a n n' out
  proof -
    obtain x res where x: "janus_slvoice_negotiate (he_sdp he) (ms_jsep msg) (session_of n ?s) = (x, res)" by fastforce
    define n1 where "n1 = upd_session ?s (\<lambda>_. x) n"
    have n1: "obeyed k n1"
      unfolding n1_def using ears_negotiate [of "he_sdp he" "ms_jsep msg" "session_of n ?s"]
      by (intro obeyed_ears that(1)) (simp add: x)
    have "obeyed k (fst (join_both k (he_now he) a ?s ja n1))" for ja
      unfolding join_both_def
      by (rule obeyed_join_room [OF obeyed_but_session [OF n1]])
        (use that(2) [of a] join_session_sel(1) [of "he_now he" a ja "session_of n1 ?s"] in \<open>simp_all add: n1_def upd_session_def seat_def\<close>)
    then show ?thesis
      using that(1,3) n1 unfolding join_admitted_def Let_def x prod.case n1_def [symmetric]
      by (auto split: if_splits sum.splits prod.splits option.splits) (metis fst_conv)+
  qed
  have "obeyed k n'" if "join_capability he k body i a ?s m = (n, r)" "join_admitted he k msg i' a' n = (n', out)"
    for body i a n r i' a' n' out
    using cap [OF that(1)] by (intro adm [OF _ _ that(2)]) blast+
  then show ?thesis
    using cap assms(2) by (auto simp: handle_join_def Let_def split: option.split prod.split)
qed

lemma quiet_handle_create: "quiet m (fst (handle_create he body m))"
  by (rule quiet_sessions)
    (auto simp: handle_create_def Let_def janus_slvoice_room_create_def janus_slvoice_room_start_def rooms_insert_def
      split: option.split prod.split)

lemma quiet_handle_destroy: "quiet m (fst (handle_destroy body m))"
  by (auto simp: handle_destroy_def Let_def qs_teardown.quiet split: option.split)

lemma quiet_handle_leave: "quiet m (fst (handle_leave he k s m))"
  using quiet_trans [OF quiet_leave quiet_upd_session]
  by (auto simp: handle_leave_def Let_def split: option.split)

lemma quiet_handle_configure: "quiet m (fst (handle_configure he msg m))"
proof (cases "janus_slvoice_negotiate (he_sdp he) (ms_jsep msg) (session_of m (ms_session msg))")
  case (Pair x res)
  then have "ears x = ears (session_of m (ms_session msg))" using ears_negotiate by (metis fst_conv)
  then have "quiet m (upd_session (ms_session msg) (\<lambda>_. x) m)" by (intro quiet_upd_session) simp
  then show ?thesis by (auto simp: handle_configure_def Let_def Pair split: sum.split)
qed

lemma obeyed_request:
  assumes "\<And>a. auth_inv (room_at m a)" "obeyed k m"
  shows "obeyed k (fst (handle_request he k msg m))"
proof -
  have grow: "parts_grow m (fst (handle_create he body m))" "parts_grow m (fst (handle_destroy body m))"
    "parts_grow m (fst (handle_configure he msg m))" "parts_grow m (fst (handle_leave he k s m))" for body s
    by (rule parts_create)
      (auto simp: handle_destroy_def handle_configure_def handle_leave_def Let_def ak_teardown.keeps
        intro!: parts_growI split: option.split prod.split sum.split)
  show ?thesis
    using obeyed_quiet [OF quiet_handle_create grow(1) assms(2)] obeyed_quiet [OF quiet_handle_destroy grow(2) assms(2)]
      obeyed_quiet [OF quiet_handle_configure grow(3) assms(2)] obeyed_quiet [OF quiet_handle_leave grow(4) assms(2)]
      obeyed_join [OF assms, of he msg] assms(2)
    by (simp add: handle_request_def split_beta split: option.split)
qed

lemma obeyed_turn:
  assumes "\<And>a. auth_inv (room_at m a)" "obeyed k m"
  shows "obeyed k (snd (fst (handler_turn k (he, msg) (reason, m))))"
proof -
  have "obeyed k (announce_join dumps k now out n)" if "obeyed k n" for dumps now out n
    using that obeyed_same [OF _ quiet_push_presence that]
    by (cases "(dumps, k, now, out, n)" rule: announce_join.cases) simp_all
  then show ?thesis
    using assms(2) obeyed_request [OF assms, of he msg] by (simp add: handler_turn_def split_beta Let_def)
qed

subsection \<open>Every reachable state\<close>

definition stamped_ops :: "slv_world \<Rightarrow> ('sdp, 'ml) slv_op list \<Rightarrow> bool" where
  "stamped_ops w ops \<longleftrightarrow> (\<forall>op\<in>set ops. \<forall>vb. op_sends (wo_admin w) op (Auth_batch vb) \<longrightarrow> vb_has_epoch vb)"

lemma apply_obeyed:
  assumes "mixer_inv k (sp_mixer p)" "obeyed k (sp_mixer p)" "\<And>a. auth_inv (room_at (sp_mixer p) a)"
    and "\<And>t j. ae_loadb (wo_admin w) t = Some j \<Longrightarrow> json_unique j"
    and "\<And>vb. op_sends (wo_admin w) op (Auth_batch vb) \<Longrightarrow> vb_has_epoch vb \<and> sim_sent H (Auth_batch vb)"
  shows "obeyed k (sp_mixer (slv_apply w k now op p))"
proof (cases op)
  case (Op_admin msg)
  have "obeyed k (fst (janus_slvoice_handle_admin_message (wo_admin w) k now msg (sp_mixer p)))"
    by (rule obeyed_admin [where H = H, OF assms(1,2,4) assms(5) [unfolded Op_admin]])
  then show ?thesis by (simp add: Op_admin)
next
  case (Op_message he msg)
  then show ?thesis using obeyed_turn [OF assms(3,2), of he msg "sp_error_reason p"] by (simp add: split_beta)
next
  case Op_sender
  then show ?thesis
    using obeyed_same [OF parts_sender_pass quiet_sender_pass assms(2)] by (simp add: split_beta)
qed (use assms(2) in \<open>simp_all add: obeyed_same parts_create_session parts_destroy_session parts_incoming_data
      parts_data_ready parts_room_tick janus_slvoice_hangup_media_def quiet_create_session quiet_destroy_session
      quiet_incoming_data quiet_data_ready quiet_media_gone quiet_room_tick obeyed_ears ears_setup_media ears_incoming_rtp\<close>)

lemma init_obeyed:
  assumes "janus_slvoice_init ok now random env cfg = (k, m)"
  shows "obeyed k m"
proof -
  have m: "m = janus_slvoice_load_static_rooms ok now (cf_categories cfg) slv_mixer_init"
    using assms by (simp add: janus_slvoice_init_def Let_def)
  have create: "mx_sessions n = mx_sessions l" if "janus_slvoice_room_create b now ra l = (n, res)" for b ra l n res
    using that by (auto simp: janus_slvoice_room_create_def Let_def split: prod.splits if_splits)
  have "mx_sessions (load_static_room ok now c n) = mx_sessions n" for c n
    unfolding load_static_room_def Let_def
    by (auto simp: rooms_insert_def dest: create split: option.split prod.split)
  then have "mx_sessions (janus_slvoice_load_static_rooms ok now cs n) = mx_sessions n" for cs n
    unfolding janus_slvoice_load_static_rooms_def by (induction cs arbitrary: n) simp_all
  then have "mx_sessions m = mx_sessions slv_mixer_init" by (simp add: m)
  then show ?thesis
    by (simp add: obeyed_def slv_mixer_init_def janus_slvoice_session_zero_def)
qed

lemma reach_obeyed:
  assumes "slv_reach w t ops k p" "\<And>t j. ae_loadb (wo_admin w) t = Some j \<Longrightarrow> json_unique j"
    and "\<And>op msg. op \<in> set ops \<Longrightarrow> op_sends (wo_admin w) op msg \<Longrightarrow> sim_sent H msg" "stamped_ops w ops"
  shows "obeyed k (sp_mixer p)"
  using assms
proof (induction rule: slv_reach.induct)
  case (start now ok random env cfg k m)
  then show ?case using init_obeyed [of ok now random env cfg k m] by simp
next
  case (step t ops k p now op)
  have auth: "authority_ok k (sim_sent H) t (sp_mixer p)"
    by (rule reach_authority [OF step.hyps(1)]) (rule step.prems(2); simp)
  have inv: "auth_inv (room_at (sp_mixer p) a)" for a
    using auth auth_reach_imp_inv by (auto simp: authority_ok_def)
  have old: "obeyed k (sp_mixer p)"
  proof (rule step.IH [OF step.prems(1)])
    show "sim_sent H msg" if "o1 \<in> set ops" "op_sends (wo_admin w) o1 msg" for o1 msg
      by (rule step.prems(2) [OF _ that(2)]) (simp add: that(1))
    show "stamped_ops w ops" using step.prems(3) by (simp add: stamped_ops_def)
  qed
  show ?case
  proof (rule apply_obeyed [OF reach_inv [OF step.hyps(1)] old inv step.prems(1)])
    fix vb assume sent: "op_sends (wo_admin w) op (Auth_batch vb)"
    then have "vb_has_epoch vb" using step.prems(3) by (simp add: stamped_ops_def)
    moreover have "sim_sent H (Auth_batch vb)" by (rule step.prems(2) [OF _ sent]) simp
    ultimately show "vb_has_epoch vb \<and> sim_sent H (Auth_batch vb)" ..
  qed
qed

lemma reach_columns:
  assumes "slv_reach w t ops k p" "\<And>op msg. op \<in> set ops \<Longrightarrow> op_sends (wo_admin w) op msg \<Longrightarrow> sim_sent H msg"
    and "map_of (rm_vis_records (room_at (sp_mixer p) a)) l = Some r"
  shows "rec_columns r = H (vr_epoch r) (vr_listener_gen r) l"
proof -
  have "authority_ok k (sim_sent H) t (sp_mixer p)" by (rule reach_authority [OF assms(1,2)])
  then have "auth_reach k (sim_sent H) (room_at (sp_mixer p) a)" by (simp add: authority_ok_def)
  from records_follow_history [OF this assms(3)] show ?thesis by (simp add: rec_columns_def)
qed

text \<open>
  C1 The policy reaches the ears of everyone it is for: in every state of a run whose batches are stamped and sent by simulators
  with one history, a session in an enforced room whose display has a record there has, as the sources it does not hear and the
  sources it hears muted, exactly the simulator's columns at the record's epoch and listener generation. It does not matter
  whether it was in the room when the batch came, joined or rejoined later, or was named while others were.
\<close>

theorem reachable_policy_obeyed:
  assumes "slv_reach w t ops k p" and "\<And>s j. ae_loadb (wo_admin w) s = Some j \<Longrightarrow> json_unique j"
    and "\<And>op msg. op \<in> set ops \<Longrightarrow> op_sends (wo_admin w) op msg \<Longrightarrow> sim_sent H msg" "stamped_ops w ops"
    and "se_room (session_of (sp_mixer p) s) = Some a" "janus_slvoice_vis_enforced k (room_at (sp_mixer p) a)"
    and "se_display (session_of (sp_mixer p) s) = Some l" "map_of (rm_vis_records (room_at (sp_mixer p) a)) l = Some r"
  shows "(set (se_excluded (session_of (sp_mixer p) s)), set (se_mod_muted (session_of (sp_mixer p) s))) =
    H (vr_epoch r) (vr_listener_gen r) l"
proof -
  have "rec_columns r = H (vr_epoch r) (vr_listener_gen r) l" by (rule reach_columns [OF assms(1,3,8)])
  moreover have "obeyed k (sp_mixer p)" by (rule reach_obeyed [OF assms(1-4)])
  from obeysD [OF obeyedD [OF this assms(5)] assms(6-8)]
  have "(set (se_excluded (session_of (sp_mixer p) s)), set (se_mod_muted (session_of (sp_mixer p) s))) = rec_columns r" .
  ultimately show ?thesis by simp
qed

text \<open>
  A process that enforces the policy, a room 7 with an authority, a session \<^verbatim>\<open>l\<close> in it, and the batch of
  \<^verbatim>\<open>Standing\<close> for the room.
\<close>

definition enforcing_sample :: "slv_knobs \<times> slv_mixer" where
  "enforcing_sample = janus_slvoice_init (\<lambda>_. True) 1 0
     \<lparr>ev_echo_autostart = None, ev_empty_room_grace_s = None, ev_join_media_timeout_s = None, ev_room_size = None,
      ev_vis_fail_closed = Some ''1'', ev_vis_stale_ms = None, ev_join_cap_required = None, ev_join_cap_secret = None\<rparr>
     \<lparr>cf_categories = [], cf_echo_autostart = None, cf_spatial = (Cfg_absent, Cfg_absent, Cfg_absent, Cfg_absent, Cfg_absent)\<rparr>"

definition hall_create :: slv_message where
  "hall_create = \<lparr>ms_session = 3, ms_root = Some (JObject [(''request'', JString ''create''), (''room'', JInt 7),
     (''vis_authority'', JBool True)]), ms_jsep = None\<rparr>"

definition hall_join :: slv_message where
  "hall_join = (join_sample [])\<lparr>ms_root := Some (JObject [(''request'', JString ''join''), (''room'', JInt 7), (''display'', JString ''l'')])\<rparr>"

definition hall_run :: "(string, unit) slv_op list" where
  "hall_run = [Op_create_session 3, Op_message (handler_sample\<lparr>he_now := 2\<rparr>) hall_create,
     Op_message (handler_sample\<lparr>he_now := 3\<rparr>) hall_join, Op_admin (Some batch_doc)]"

lemma enforcing_sample_sel:
  "snd enforcing_sample = slv_mixer_init" "\<not> kn_join_cap_required (fst enforcing_sample)"
  "0 < kn_room_size (fst enforcing_sample)" "kn_fail_closed (fst enforcing_sample)"
proof -
  show "snd enforcing_sample = slv_mixer_init"
    by (simp add: enforcing_sample_def janus_slvoice_init_def Let_def janus_slvoice_load_static_rooms_def)
  show "\<not> kn_join_cap_required (fst enforcing_sample)"
    by (simp add: enforcing_sample_def janus_slvoice_init_def Let_def janus_slvoice_joincap_load_knobs_def)
  show "0 < kn_room_size (fst enforcing_sample)"
    using init_room_size unfolding enforcing_sample_def by (meson less_le_trans pos2)
  show "kn_fail_closed (fst enforcing_sample)"
    by (simp add: enforcing_sample_def janus_slvoice_init_def Let_def janus_slvoice_vis_load_knobs_def slv_vis_fail_closed_from_env_def strcaseeq_def)
qed

lemma hall_run_reach:
  "\<exists>p r. slv_reach batch_world 4 hall_run (fst enforcing_sample) p \<and> se_room (session_of (sp_mixer p) 3) = Some 0 \<and>
     se_display (session_of (sp_mixer p) 3) = Some ''l'' \<and> janus_slvoice_vis_enforced (fst enforcing_sample) (room_at (sp_mixer p) 0) \<and>
     map_of (rm_vis_records (room_at (sp_mixer p) 0)) ''l'' = Some r \<and> vr_epoch r = 10 \<and> vr_listener_gen r = 1 \<and>
     mx_rooms (sp_mixer p) = [(7, 0)] \<and> rm_participants (room_at (sp_mixer p) 0) = [(33, 3)]"
proof -
  let ?k = "fst enforcing_sample"
  have start: "slv_reach batch_world 1 ([] :: (string, unit) slv_op list) ?k
      \<lparr>sp_mixer = slv_mixer_init, sp_error_reason = None, sp_sweep_ticks = 0\<rparr>"
    by (rule slv_reach.start [where now = 1]) (simp, simp add: enforcing_sample_sel(1) [symmetric] enforcing_sample_def)
  have c: "ms_session hall_create = 3" "json_string_value (json_object_get (ms_root hall_create) ''request'') = Some ''create''"
    "ra_id (create_args (handler_sample\<lparr>he_now := 2\<rparr>) (ms_root hall_create)) = 7"
    "ra_vis_authority (create_args (handler_sample\<lparr>he_now := 2\<rparr>) (ms_root hall_create)) = True"
    by (simp_all add: hall_create_def create_args_def Let_def u64_of_json_int_def)
  have j: "ms_session hall_join = 3" "json_string_value (json_object_get (ms_root hall_join) ''request'') = Some ''join''"
    "json_is_integer (json_object_get (ms_root hall_join) ''room'')" "request_room hall_join = 7"
    "ms_jsep hall_join = ms_jsep (join_sample [])" "json_string_value (json_object_get (ms_root hall_join) ''display'') = Some ''l''"
    by (simp_all add: hall_join_def join_sample_sel request_room_def u64_of_json_int_def)
  obtain p m2 m3 ev jsep pr where p: "slv_reach batch_world 3 [Op_create_session 3, Op_message (handler_sample\<lparr>he_now := 2\<rparr>) hall_create,
        Op_message (handler_sample\<lparr>he_now := 3\<rparr>) hall_join] ?k p"
    and join: "handle_join (handler_sample\<lparr>he_now := 3\<rparr>) ?k hall_join m2 = (m3, Slv_event ev jsep pr, None)"
    and turn: "sp_mixer p = announce_join (he_dumps (handler_sample\<lparr>he_now := 3\<rparr>)) ?k 3 (Slv_event ev jsep pr) m3"
    and m3: "se_room (session_of m3 3) = Some 0" "se_display (session_of m3 3) = Some ''l''" "mx_rooms m3 = [(7, 0)]"
      "rm_participants (room_at m3 0) = [(33, 3)]"
    and m2: "rm_vis_records (room_at m2 0) = []" "auth_frame (room_at m2 0) = (0, 0, 0, True)"
    by (rule create_join_run [OF start c(1-3) j(1-5) enforcing_sample_sel(2,3), unfolded j(6) c(4)]) (rule that)
  have "parts (announce_join dumps k now out n) = parts n" for dumps k now out n
    by (cases "(dumps, k, now, out, n)" rule: announce_join.cases) simp_all
  then have "parts (sp_mixer p) = parts m2" using parts_join [of "handler_sample\<lparr>he_now := 3\<rparr>" ?k hall_join m2] by (simp add: turn join)
  then have parts: "parts (sp_mixer p) 0 = ([], 0, 0, 0, True)" by (simp add: parts_def auth_part_def m2)
  have quiet: "quiet n (announce_join dumps k now out n)" for dumps k now out n
    by (cases "(dumps, k, now, out, n)" rule: announce_join.cases) (simp_all add: quiet_push_presence)
  have seats: "se_room (session_of (sp_mixer p) 3) = Some 0" "mx_rooms (sp_mixer p) = [(7, 0)]"
    "rm_participants (room_at (sp_mixer p) 0) = [(33, 3)]"
    using same_seats_sel(1,3,4) [OF announce_keeps] m3 by (simp_all add: turn)
  have disp: "se_display (session_of (sp_mixer p) 3) = Some ''l''"
  proof -
    have "ears (session_of (sp_mixer p) 3) = ears (session_of m3 3)"
      using quietD [OF quiet [where n = m3], where s = 3] seats(1) unfolding turn by fastforce
    then show ?thesis using m3(2) by (simp add: ears_def)
  qed
  have found: "janus_slvoice_room_ref_by_id (sp_mixer p) 7 = Some 0" using ref_inv [OF reach_inv [OF p]] seats(2) by simp
  have q: "slv_reach batch_world 4 hall_run ?k (slv_apply batch_world ?k 4 (Op_admin (Some batch_doc)) p)"
    using slv_reach.step [OF p, of 4 "Op_admin (Some batch_doc)"] by (simp add: hall_run_def)
  let ?q = "slv_apply batch_world ?k 4 (Op_admin (Some batch_doc) :: (string, unit) slv_op) p"
  have "sess_frame (session_of (sp_mixer ?q) 3) = sess_frame (session_of (sp_mixer p) 3)"
    unfolding batch_op [OF found] by (rule batch_room_frame [OF reach_inv [OF p]])
  note kept = frame_room [OF this] sess_frame_display [OF this]
  obtain r where "map_of (rm_vis_records (room_at (sp_mixer ?q) 0)) ''l'' = Some r" "vr_epoch r = 10" "vr_listener_gen r = 1"
    "rm_vis_declared (room_at (sp_mixer ?q) 0)"
    using batch_lands [OF found parts refl, of ?k 4] by auto
  moreover from this(4) enforcing_sample_sel(4) have "janus_slvoice_vis_enforced ?k (room_at (sp_mixer ?q) 0)"
    by (simp only: janus_slvoice_vis_enforced_def simp_thms)
  moreover have "se_room (session_of (sp_mixer ?q) 3) = Some 0" "se_display (session_of (sp_mixer ?q) 3) = Some ''l''"
    by (simp_all only: kept seats(1) disp)
  moreover have "mx_rooms (sp_mixer ?q) = [(7, 0)]" "rm_participants (room_at (sp_mixer ?q) 0) = [(33, 3)]"
    unfolding batch_op [OF found] same_seats_sel(1,3) [OF batch_room_keeps [OF marked_inv_seated [OF reach_inv [OF p, unfolded mixer_inv_def]]]]
    by (fact seats)+
  ultimately show ?thesis using q by blast
qed

theorem reachable_policy_obeyed_witness:
  "\<exists>k p. slv_reach batch_world 4 hall_run k p \<and> se_room (session_of (sp_mixer p) 3) = Some 0 \<and>
     set (se_excluded (session_of (sp_mixer p) 3)) = {''s''} \<and> set (se_mod_muted (session_of (sp_mixer p) 3)) = {}"
proof -
  obtain p r where p: "slv_reach batch_world 4 hall_run (fst enforcing_sample) p" "se_room (session_of (sp_mixer p) 3) = Some 0"
      "se_display (session_of (sp_mixer p) 3) = Some ''l''" "janus_slvoice_vis_enforced (fst enforcing_sample) (room_at (sp_mixer p) 0)"
    and r: "map_of (rm_vis_records (room_at (sp_mixer p) 0)) ''l'' = Some r" "vr_epoch r = 10" "vr_listener_gen r = 1"
    using hall_run_reach by blast
  have unique: "json_unique j" if "ae_loadb (wo_admin batch_world) t = Some j" for t j
    using that by (auto simp: batch_world_def batch_doc_def)
  have sent: "sim_sent auth_history_sample msg" if "op \<in> set hall_run" "op_sends (wo_admin batch_world) op msg" for op msg
    using that batch_sent by (auto simp: hall_run_def simp del: sim_sent.simps)
  have stamped: "stamped_ops batch_world hall_run"
    by (simp add: stamped_ops_def hall_run_def batch_doc_parsed) (simp add: auth_replace_sample_def)
  have "(set (se_excluded (session_of (sp_mixer p) 3)), set (se_mod_muted (session_of (sp_mixer p) 3))) = auth_history_sample 10 1 ''l''"
    using reachable_policy_obeyed [where H = auth_history_sample, OF p(1) _ _ stamped p(2,4,3) r(1)] unique sent by (simp only: r(2,3))
  then have "set (se_excluded (session_of (sp_mixer p) 3)) = {''s''}" "set (se_mod_muted (session_of (sp_mixer p) 3)) = {}"
    by (simp_all add: auth_history_sample_def)
  with p(1,2) show ?thesis by blast
qed

end
