(* ===== verification/Silence.thy ===== *)
theory Silence
  imports Obedience
begin

text \<open>
  From the simulator to the sound: what it published for a listener, through the parser, the records, the columns and the
  joins, to the packets the next tick sends. The theorem rests on \<^verbatim>\<open>Obedience\<close> for the columns and on \<^verbatim>\<open>Tick\<close> for the mix.
\<close>

text \<open>The simulator's last accepted word on a listener of the room keeps a source from it.\<close>

definition published_silence :: "(u64 \<Rightarrow> u32 \<Rightarrow> string \<Rightarrow> columns) \<Rightarrow> slv_knobs \<Rightarrow> janus_slvoice_room \<Rightarrow> string option \<Rightarrow> string option \<Rightarrow> bool" where
  "published_silence H k room listener src \<longleftrightarrow> janus_slvoice_vis_enforced k room \<and>
     (case (listener, src) of
        (Some l, Some d) \<Rightarrow> (case map_of (rm_vis_records room) l of
            None \<Rightarrow> False
          | Some r \<Rightarrow> (case H (vr_epoch r) (vr_listener_gen r) l of (excl, mute) \<Rightarrow> d \<in> excl \<union> mute))
      | _ \<Rightarrow> False)"

lemma published_pair_silenced:
  assumes "slv_reach w t ops k p" "\<And>s j. ae_loadb (wo_admin w) s = Some j \<Longrightarrow> json_unique j"
    and "\<And>op msg. op \<in> set ops \<Longrightarrow> op_sends (wo_admin w) op msg \<Longrightarrow> sim_sent H msg" "stamped_ops w ops"
    and room: "se_room (session_of (sp_mixer p) si) = Some a"
    and silence: "published_silence H k (room_at (sp_mixer p) a) (se_display (session_of (sp_mixer p) si)) src"
  shows "pair_silenced k (room_at (sp_mixer p) a) now (session_of (sp_mixer p) si) src"
proof -
  let ?x = "session_of (sp_mixer p) si"
  from silence obtain l d r where e: "janus_slvoice_vis_enforced k (room_at (sp_mixer p) a)" and l: "se_display ?x = Some l" "src = Some d"
    and r: "map_of (rm_vis_records (room_at (sp_mixer p) a)) l = Some r"
    and d: "d \<in> fst (H (vr_epoch r) (vr_listener_gen r) l) \<union> snd (H (vr_epoch r) (vr_listener_gen r) l)"
    by (auto simp: published_silence_def split: option.splits prod.splits)
  have "rec_columns r = H (vr_epoch r) (vr_listener_gen r) l" by (rule reach_columns [OF assms(1,3) r])
  with obeysD [OF obeyedD [OF reach_obeyed [OF assms(1-4)] room] e l(1) r]
  have "(set (se_excluded ?x), set (se_mod_muted ?x)) = H (vr_epoch r) (vr_listener_gen r) l" by simp
  with d have "d \<in> set (se_excluded ?x) \<or> d \<in> set (se_mod_muted ?x)" by (metis Un_iff fst_conv snd_conv)
  then show ?thesis by (auto simp: pair_silenced_def l(2))
qed

text \<open>
  C2 What the simulator silences is not heard. Take any state that a run with stamped batches of simulators with one history
  reaches, and two participants of a room that take part in its next tick. When the listener must not hear the source,
  because the simulator's last accepted word on it in an enforced room excludes or mutes the source, because one of the two
  does not stand in row 4 there, or because the listener has it excluded or muted itself, then nothing of the source's state (its packets,
  decoder, buffers, geometry, settings: everything but the display it is known by) has any influence on what the tick sends
  to the listener or on the listener's own state.
\<close>

theorem silenced_source_unheard:
  assumes "slv_reach w t ops k p" and "\<And>s j. ae_loadb (wo_admin w) s = Some j \<Longrightarrow> json_unique j"
    and "\<And>op msg. op \<in> set ops \<Longrightarrow> op_sends (wo_admin w) op msg \<Longrightarrow> sim_sent H msg" "stamped_ops w ops"
    and "m = sp_mixer p" "si \<in> set (tick_sessions m a)" "sj \<in> set (tick_sessions m a)" "si \<noteq> sj"
    and "published_silence H k (room_at m a) (se_display (session_of m si)) (se_display (session_of m sj)) \<or>
      pair_silenced k (room_at m a) t0 (session_of m si) (se_display (session_of m sj))"
    and "se_display (f (session_of m sj)) = se_display (session_of m sj)"
  shows "case (room_tick_locked op k t0 a m, room_tick_locked op k t0 a (upd_session sj f m)) of
      ((m1, out1, _), (m2, out2, _)) \<Rightarrow>
        session_of m2 si = session_of m1 si \<and> filter (\<lambda>x. fst x = si) out2 = filter (\<lambda>x. fst x = si) out1"
proof (rule tick_silenced_source [where f = f, OF _ assms(6-8) _ assms(10)])
  have seats: "seats_ok m" using reach_inv [OF assms(1)] by (simp add: assms(5) mixer_inv_def marked_inv_def)
  then show "distinct (tick_sessions m a)" by (simp add: tick_sessions_def members_distinct)
  have "si \<in> set (members (room_at m a))" using assms(6) unfolding tick_sessions_def by (rule in_set_takeD)
  then have "se_room (session_of m si) = Some a" using member_iff [OF seats] by simp
  then have room: "se_room (session_of (sp_mixer p) si) = Some a" by (simp only: assms(5))
  from assms(9) show "pair_silenced k (room_at m a) t0 (session_of m si) (se_display (session_of m sj))"
  proof
    assume silence: "published_silence H k (room_at m a) (se_display (session_of m si)) (se_display (session_of m sj))"
    show ?thesis unfolding assms(5)
    proof (rule published_pair_silenced [where H = H and ops = ops and w = w and t = t])
      show "slv_reach w t ops k p" "stamped_ops w ops" by (fact assms)+
      show "json_unique j" if "ae_loadb (wo_admin w) s = Some j" for s j using that by (rule assms(2))
      show "sim_sent H msg" if "op' \<in> set ops" "op_sends (wo_admin w) op' msg" for op' msg using that by (rule assms(3))
      show "se_room (session_of (sp_mixer p) si) = Some a" by (rule room)
      show "published_silence H k (room_at (sp_mixer p) a) (se_display (session_of (sp_mixer p) si)) (se_display (session_of (sp_mixer p) sj))"
        using silence by (simp only: assms(5))
    qed
  qed
qed

subsection \<open>A run with two participants\<close>

lemma capability_others:
  assumes "v \<noteq> s"
  shows "session_of (fst (join_capability he k body i a s m)) v = session_of m v"
  unfolding join_capability_def Let_def using assms by (simp add: split_beta upd_session_other)

lemma both_others:
  assumes "v \<noteq> s"
  shows "session_of (fst (join_both k now a s ja m)) v = session_of m v"
  unfolding join_both_def join_room_def Let_def
  using assms commit_others [OF assms] by (simp add: split_beta upd_session_other)

lemma admitted_others:
  assumes "v \<noteq> ms_session msg"
  shows "session_of (fst (join_admitted he k msg i a m)) v = session_of m v"
proof (cases "janus_slvoice_negotiate (he_sdp he) (ms_jsep msg) (session_of m (ms_session msg))")
  case (Pair x res)
  let ?ja = "\<lparr>ja_user_id = he_random_user he, ja_display = json_string_value (json_object_get (ms_root msg) ''display''),
    ja_recorder = json_is_true (json_object_get (ms_root msg) ''recorder''), ja_media = he_media he\<rparr>"
  have neg: "session_of (upd_session (ms_session msg) (\<lambda>_. x) m) v = session_of m v" using assms by (simp add: upd_session_other)
  obtain n r where b: "join_both k (he_now he) a (ms_session msg) ?ja (upd_session (ms_session msg) (\<lambda>_. x) m) = (n, r)"
    by (cases "join_both k (he_now he) a (ms_session msg) ?ja (upd_session (ms_session msg) (\<lambda>_. x) m)")
  have "session_of n v = session_of m v" using both_others [OF assms] neg b by (metis fst_conv)
  then show ?thesis using neg b by (cases res; cases r) (simp_all add: join_admitted_def Let_def Pair)
qed

lemma join_others:
  assumes "v \<noteq> ms_session msg"
  shows "session_of (fst (handle_join he k msg m)) v = session_of m v"
proof (cases "janus_slvoice_room_ref_by_id m (u64_of_json_int (json_integer_value (json_object_get (ms_root msg) ''room'')))")
  case None
  then show ?thesis by (simp add: handle_join_def Let_def)
next
  case (Some a)
  let ?i = "u64_of_json_int (json_integer_value (json_object_get (ms_root msg) ''room''))"
  obtain n r where c: "join_capability he k (ms_root msg) ?i a (ms_session msg) m = (n, r)"
    by (cases "join_capability he k (ms_root msg) ?i a (ms_session msg) m")
  obtain n' out where d: "join_admitted he k msg ?i a n = (n', out)" by (cases "join_admitted he k msg ?i a n")
  have n: "session_of n v = session_of m v" using capability_others [OF assms] c by (metis fst_conv)
  moreover have "session_of n' v = session_of n v" using admitted_others [OF assms] d by (metis fst_conv)
  ultimately show ?thesis using Some c d by (cases r) (simp_all add: handle_join_def Let_def)
qed

text \<open>One more session comes and joins a room that has a place.\<close>

lemma join_extends:
  fixes w k p
  assumes reach: "slv_reach w t ops k p" and room: "mx_rooms (sp_mixer p) = [(i, a)]"
    and jm: "json_string_value (json_object_get (ms_root jm) ''request'') = Some ''join''"
      "json_is_integer (json_object_get (ms_root jm) ''room'')" "request_room jm = i" "ms_jsep jm = ms_jsep (join_sample [])"
    and k: "\<not> kn_join_cap_required k" "length (rm_participants (room_at (sp_mixer p) a)) < kn_room_size k"
    and uid: "u \<noteq> 0" "u \<notin> fst ` set (rm_participants (room_at (sp_mixer p) a))"
  obtains q s where "slv_reach w t (ops @ [Op_create_session s, Op_message (handler_sample\<lparr>he_now := t, he_random_user := u\<rparr>) (jm\<lparr>ms_session := s\<rparr>)]) k q"
    "s \<notin> set (mx_live (sp_mixer p))" "parts (sp_mixer q) = parts (sp_mixer p)"
    "rm_participants (room_at (sp_mixer q) a) = rm_participants (room_at (sp_mixer p) a) @ [(u, s)]"
    "se_display (session_of (sp_mixer q) s) = json_string_value (json_object_get (ms_root jm) ''display'')"
    "\<And>v b. v \<noteq> s \<Longrightarrow> se_room (session_of (sp_mixer p) v) = Some b \<Longrightarrow> ears (session_of (sp_mixer q) v) = ears (session_of (sp_mixer p) v)"
proof -
  let ?m = "sp_mixer p" and ?he = "handler_sample\<lparr>he_now := t, he_random_user := u\<rparr>"
  obtain s where s: "s \<notin> set (mx_live ?m)" using ex_new_if_finite [OF infinite_UNIV_nat finite_set] by blast
  let ?jm = "jm\<lparr>ms_session := s\<rparr>"
  define p1 where "p1 = p\<lparr>sp_mixer := janus_slvoice_create_session t s ?m\<rparr>"
  have 1: "slv_reach w t (ops @ [Op_create_session s]) k p1"
    using slv_reach.step [OF reach, of t "Op_create_session s"] s by (simp add: p1_def)
  have p1: "mx_rooms (sp_mixer p1) = [(i, a)]" "mx_heap (sp_mixer p1) = mx_heap ?m" "s \<in> set (mx_live (sp_mixer p1))"
    "\<not> se_destroyed (session_of (sp_mixer p1) s)" "se_room (session_of (sp_mixer p1) s) = None"
    "\<And>v. v \<noteq> s \<Longrightarrow> session_of (sp_mixer p1) v = session_of ?m v"
    by (simp_all add: p1_def janus_slvoice_create_session_def room upd_session_def janus_slvoice_session_zero_def)
  have find: "janus_slvoice_room_ref_by_id (sp_mixer p1) (request_room ?jm) = Some a"
    using ref_inv [OF reach_inv [OF 1]] jm(3) by (simp add: p1(1) request_room_def)
  have neg: "\<exists>x sdp. janus_slvoice_negotiate (he_sdp ?he) (ms_jsep ?jm) y = (x, Inr sdp)" for y
    using sample_negotiates by (simp add: handler_sample_def jm(4))
  have number: "join_uid (message_join_args ?he ?jm) = u" using uid(1) by (simp add: join_uid_def message_join_args_def)
  obtain m' ev jsep pr where j: "handle_join ?he k ?jm (sp_mixer p1) = (m', Slv_event ev jsep pr, None)" "se_room (session_of m' s) = Some a"
      "se_display (session_of m' s) = json_string_value (json_object_get (ms_root jm) ''display'')"
      "rm_participants (room_at m' a) = rm_participants (room_at ?m a) @ [(u, s)]"
    using join_succeeds [OF find, of k ?he, OF _ _ _ k(1) _ _ neg] p1 jm(2,4) k(2) uid number join_sample_sel(2) by auto
  define q where "q = slv_apply w k t (Op_message ?he ?jm) p1"
  have "handle_request ?he k ?jm (sp_mixer p1) = (m', Slv_event ev jsep pr, None)"
    using j(1) jm(1) by (simp add: handle_request_def strcaseeq_def)
  then have q: "sp_mixer q = announce_join (he_dumps ?he) k t (Slv_event ev jsep pr) m'"
    using p1(4) by (simp add: q_def handler_turn_def)
  have allowed: "slv_allowed t (Op_message ?he ?jm) p1"
    using p1(1-3) uid jm(3) by (simp add: fresh_number_def request_room_def)
  show thesis
  proof (rule that [of s q])
    show "slv_reach w t (ops @ [Op_create_session s, Op_message ?he ?jm]) k q"
      using slv_reach.step [OF 1 _ allowed] by (simp add: q_def)
    show "s \<notin> set (mx_live ?m)" by (rule s)
    have "parts (announce_join dumps k now out n) = parts n" for dumps k now out n
      by (cases "(dumps, k, now, out, n)" rule: announce_join.cases) simp_all
    then show "parts (sp_mixer q) = parts ?m"
      using parts_join [of ?he k ?jm "sp_mixer p1"] parts_heap [OF p1(2)] by (simp add: q j(1))
    show "rm_participants (room_at (sp_mixer q) a) = rm_participants (room_at ?m a) @ [(u, s)]"
      unfolding q same_seats_sel(3) [OF announce_keeps] by (rule j(4))
    have quiet: "quiet n (announce_join dumps k now out n)" for dumps k now out n
      by (cases "(dumps, k, now, out, n)" rule: announce_join.cases) (simp_all add: quiet_push_presence)
    have ears: "ears (session_of (sp_mixer q) v) = ears (session_of m' v)" if "se_room (session_of m' v) = Some b" for v b
    proof -
      have "se_room (session_of (sp_mixer q) v) = Some b" unfolding q same_seats_sel(4) [OF announce_keeps] by (rule that)
      then show ?thesis using quietD [OF quiet [where n = m'], where s = v] unfolding q by fastforce
    qed
    show "se_display (session_of (sp_mixer q) s) = json_string_value (json_object_get (ms_root jm) ''display'')"
      using ears_sel(2) [OF ears [OF j(2)]] j(3) by simp
    show "ears (session_of (sp_mixer q) v) = ears (session_of ?m v)" if "v \<noteq> s" "se_room (session_of ?m v) = Some b" for v b
    proof -
      have "session_of m' v = session_of ?m v"
        using join_others [of v ?jm ?he k "sp_mixer p1"] p1(6) [OF that(1)] that(1) by (simp add: j(1))
      then show ?thesis using ears [of v b] that(2) by simp
    qed
  qed
qed

definition silence_join :: slv_message where
  "silence_join = (join_sample [])\<lparr>ms_root := Some (JObject [(''request'', JString ''join''), (''room'', JInt 7), (''display'', JString ''s'')])\<rparr>"

definition silence_run :: "nat \<Rightarrow> (string, unit) slv_op list" where
  "silence_run s = hall_run @ [Op_create_session s, Op_message (handler_sample\<lparr>he_now := 4, he_random_user := 34\<rparr>) (silence_join\<lparr>ms_session := s\<rparr>)]"

lemma silence_run_reach:
  "\<exists>p s. slv_reach batch_world 4 (silence_run s) (fst enforcing_sample) p \<and> s \<noteq> 3 \<and>
     tick_sessions (sp_mixer p) 0 = [3, s] \<and>
     published_silence auth_history_sample (fst enforcing_sample) (room_at (sp_mixer p) 0)
       (se_display (session_of (sp_mixer p) 3)) (se_display (session_of (sp_mixer p) s))"
proof -
  let ?k = "fst enforcing_sample"
  obtain p r where p: "slv_reach batch_world 4 hall_run ?k p" "se_room (session_of (sp_mixer p) 3) = Some 0"
      "se_display (session_of (sp_mixer p) 3) = Some ''l''" "janus_slvoice_vis_enforced ?k (room_at (sp_mixer p) 0)"
      "mx_rooms (sp_mixer p) = [(7, 0)]" "rm_participants (room_at (sp_mixer p) 0) = [(33, 3)]"
    and r: "map_of (rm_vis_records (room_at (sp_mixer p) 0)) ''l'' = Some r" "vr_epoch r = 10" "vr_listener_gen r = 1"
    using hall_run_reach by blast
  have jm: "json_string_value (json_object_get (ms_root silence_join) ''request'') = Some ''join''"
    "json_is_integer (json_object_get (ms_root silence_join) ''room'')" "request_room silence_join = 7"
    "ms_jsep silence_join = ms_jsep (join_sample [])" "json_string_value (json_object_get (ms_root silence_join) ''display'') = Some ''s''"
    by (simp_all add: silence_join_def request_room_def u64_of_json_int_def)
  have place: "length (rm_participants (room_at (sp_mixer p) 0)) < kn_room_size ?k"
    using init_room_size unfolding enforcing_sample_def p(6) by (simp add: Suc_le_lessD numeral_2_eq_2)
  obtain q s where q: "slv_reach batch_world 4 (silence_run s) ?k q" "parts (sp_mixer q) = parts (sp_mixer p)"
      "rm_participants (room_at (sp_mixer q) 0) = [(33, 3), (34, s)]" "se_display (session_of (sp_mixer q) s) = Some ''s''"
    and live: "s \<notin> set (mx_live (sp_mixer p))"
    and others: "\<And>v b. v \<noteq> s \<Longrightarrow> se_room (session_of (sp_mixer p) v) = Some b \<Longrightarrow> ears (session_of (sp_mixer q) v) = ears (session_of (sp_mixer p) v)"
    by (rule join_extends [where u = 34, OF p(1,5) jm(1-4) enforcing_sample_sel(2) place]) (simp_all add: p(6) jm(5) silence_run_def)
  have "distinct (members (room_at (sp_mixer q) 0))"
    using members_distinct reach_inv [OF q(1)] by (simp add: mixer_inv_def marked_inv_def)
  then have s: "s \<noteq> 3" by (simp add: q(3))
  then have disp: "se_display (session_of (sp_mixer q) 3) = Some ''l''" using ears_sel(2) [OF others [of 3]] p(2,3) by simp
  have "auth_part (room_at (sp_mixer q) 0) = auth_part (room_at (sp_mixer p) 0)" using fun_cong [OF q(2), of 0] by (simp add: parts_def)
  then have recs: "rm_vis_records (room_at (sp_mixer q) 0) = rm_vis_records (room_at (sp_mixer p) 0)"
      "rm_vis_declared (room_at (sp_mixer q) 0) = rm_vis_declared (room_at (sp_mixer p) 0)"
    by (simp_all add: part_defs)
  have "published_silence auth_history_sample ?k (room_at (sp_mixer q) 0) (Some ''l'') (Some ''s'')"
    using p(4) r by (simp add: published_silence_def recs janus_slvoice_vis_enforced_def auth_history_sample_def)
  moreover have "tick_sessions (sp_mixer q) 0 = [3, s]" by (simp add: tick_sessions_def q(3) SLV_MAX_MIX_def)
  ultimately show ?thesis using q(1) s by (metis disp q(4))
qed

theorem silenced_source_unheard_witness:
  "\<exists>k p s. slv_reach batch_world 4 (silence_run s) k p \<and> tick_sessions (sp_mixer p) 0 = [3, s] \<and>
     (case (room_tick_locked opus_sample k 9 0 (sp_mixer p),
         room_tick_locked opus_sample k 9 0 (upd_session s (\<lambda>x. x\<lparr>se_last_rtp_us := 8, se_media_ready := True\<rparr>) (sp_mixer p))) of
       ((m1, out1, _), (m2, out2, _)) \<Rightarrow>
         session_of m2 3 = session_of m1 3 \<and> filter (\<lambda>x. fst x = 3) out2 = filter (\<lambda>x. fst x = 3) out1)"
proof -
  obtain p s where p: "slv_reach batch_world 4 (silence_run s) (fst enforcing_sample) p" "s \<noteq> 3" "tick_sessions (sp_mixer p) 0 = [3, s]"
      "published_silence auth_history_sample (fst enforcing_sample) (room_at (sp_mixer p) 0)
        (se_display (session_of (sp_mixer p) 3)) (se_display (session_of (sp_mixer p) s))"
    using silence_run_reach by blast
  have unique: "json_unique j" if "ae_loadb (wo_admin batch_world) t = Some j" for t j
    using that by (auto simp: batch_world_def batch_doc_def)
  have sent: "sim_sent auth_history_sample msg" if "op \<in> set (silence_run s)" "op_sends (wo_admin batch_world) op msg" for op msg
    using that batch_sent by (auto simp: silence_run_def hall_run_def simp del: sim_sent.simps)
  have stamped: "stamped_ops batch_world (silence_run s)"
    by (simp add: stamped_ops_def silence_run_def hall_run_def batch_doc_parsed) (simp add: auth_replace_sample_def)
  let ?f = "\<lambda>x. x\<lparr>se_last_rtp_us := 8, se_media_ready := True\<rparr>"
  have in3: "3 \<in> set (tick_sessions (sp_mixer p) 0)" "s \<in> set (tick_sessions (sp_mixer p) 0)" "3 \<noteq> s" using p(2) by (simp_all add: p(3))
  have keep: "se_display (?f (session_of (sp_mixer p) s)) = se_display (session_of (sp_mixer p) s)" by simp
  have heard: "case (room_tick_locked opus_sample (fst enforcing_sample) 9 0 (sp_mixer p),
      room_tick_locked opus_sample (fst enforcing_sample) 9 0 (upd_session s ?f (sp_mixer p))) of
       ((m1, out1, _), (m2, out2, _)) \<Rightarrow>
         session_of m2 3 = session_of m1 3 \<and> filter (\<lambda>x. fst x = 3) out2 = filter (\<lambda>x. fst x = 3) out1"
  proof (rule silenced_source_unheard [where H = auth_history_sample and f = ?f, OF p(1) _ _ stamped refl in3 disjI1 [OF p(4)] keep])
    show "json_unique j" if "ae_loadb (wo_admin batch_world) t = Some j" for t j using that by (rule unique)
    show "sim_sent auth_history_sample msg" if "op \<in> set (silence_run s)" "op_sends (wo_admin batch_world) op msg" for op msg
      using that by (rule sent)
  qed
  show ?thesis by (intro exI conjI, rule p(1), rule p(3), rule heard)
qed

end
